(* ===== verification/Bytes_Prelude.thy ===== *)
theory Bytes_Prelude
  imports Main "HOL-Library.Word" "HOL-Library.Monad_Syntax"
begin

text \<open>
  The prelude of the library: the machine-integer types of the C++ code, byte strings, the
  generic lemmas on little-endian words and on lists that the format theories share, and the
  \<open>returns\<close> calculus the stateful theories use.

  Conventions.  \<open>std::uint8_t\<close>, \<open>uint16_t\<close>, \<open>uint32_t\<close> and \<open>uint64_t\<close> are words of that
  width, so their arithmetic wraps as it does in C++.  \<open>std::size_t\<close> values that are lengths
  of strings in memory are natural numbers.  A \<open>std::string\<close> of payload bytes is a list of
  8-bit words; a file name is a HOL string.

  A stateful operation of the code takes the state and gives \<open>Some (result, state)\<close>, or
  \<open>None\<close> when the code does not return (an endless loop); \<open>Option.bind\<close> sequences such
  operations.
\<close>

unbundle bit_operations_syntax

type_synonym u8 = "8 word"
type_synonym u16 = "16 word"
type_synonym u32 = "32 word"
type_synonym u64 = "64 word"
type_synonym bytes = "u8 list"

named_theorems byte_simps \<open>evaluation of byte writers and readers\<close>
named_theorems returns_intros \<open>rules of the returns calculus\<close>

section \<open>Little-endian words\<close>

text \<open>The four (two) bytes of a word, least significant first, and the word back from them.\<close>

definition le4 :: "u32 \<Rightarrow> bytes" where
  "le4 v = [ucast v, ucast (drop_bit 8 v), ucast (drop_bit 16 v), ucast (drop_bit 24 v)]"

definition le2 :: "u16 \<Rightarrow> bytes" where
  "le2 v = [ucast v, ucast (drop_bit 8 v)]"

definition un_le4 :: "u8 \<Rightarrow> u8 \<Rightarrow> u8 \<Rightarrow> u8 \<Rightarrow> u32" where
  "un_le4 a b c d =
     (ucast a :: u32) OR push_bit 8 (ucast b) OR push_bit 16 (ucast c) OR push_bit 24 (ucast d)"

definition un_le2 :: "u8 \<Rightarrow> u8 \<Rightarrow> u16" where
  "un_le2 a b = (ucast a :: u16) OR push_bit 8 (ucast b)"

lemma length_le4 [simp]: "length (le4 v) = 4" by (simp add: le4_def)
lemma length_le2 [simp]: "length (le2 v) = 2" by (simp add: le2_def)

lemma un_le4_le4 [simp]:
  "un_le4 (ucast v) (ucast (drop_bit 8 v)) (ucast (drop_bit 16 v)) (ucast (drop_bit 24 v)) = v"
proof (rule bit_word_eqI)
  fix n assume "n < LENGTH(32)"
  then consider "n < 8" | "8 \<le> n" "n < 16" | "16 \<le> n" "n < 24" | "24 \<le> n" "n < 32"
    by fastforce
  then show "bit (un_le4 (ucast v) (ucast (drop_bit 8 v)) (ucast (drop_bit 16 v))
      (ucast (drop_bit 24 v))) n \<longleftrightarrow> bit v n"
    by cases (auto simp: un_le4_def bit_simps)
qed

lemma un_le2_le2 [simp]: "un_le2 (ucast v) (ucast (drop_bit 8 v)) = v"
proof (rule bit_word_eqI)
  fix n assume "n < LENGTH(16)"
  then consider "n < 8" | "8 \<le> n" "n < 16" by fastforce
  then show "bit (un_le2 (ucast v) (ucast (drop_bit 8 v))) n \<longleftrightarrow> bit v n"
    by cases (auto simp: un_le2_def bit_simps)
qed

lemma bit_u8_beyond: "8 \<le> n \<Longrightarrow> \<not> bit (a :: u8) n"
  using bit_imp_le_length [of a n] by auto

lemma le4_un_le4: "le4 (un_le4 a b c d) = [a, b, c, d]"
  by (auto simp: le4_def un_le4_def bit_simps bit_u8_beyond intro!: bit_word_eqI)

lemma le2_un_le2: "le2 (un_le2 a b) = [a, b]"
  by (auto simp: le2_def un_le2_def bit_simps bit_u8_beyond intro!: bit_word_eqI)

lemma unat_ucast_u16_u32 [simp]: "unat (ucast (x :: u16) :: u32) = unat x"
  using unsigned_less [of x, where ?'a = nat]
  by (simp add: unsigned_ucast_eq take_bit_nat_eq_self)

section \<open>The largest 32-bit integer\<close>

lemma u32_bound: "unat (x :: u32) < 4294967296"
  using unsigned_less [of x, where ?'a = nat] by simp

lemma u32_eq_unat: "(x :: u32) = y \<longleftrightarrow> unat x = unat y"
  by (rule word_unat_eq_iff)

lemma u32_max: "0xffffffff \<le> (x :: u32) \<longleftrightarrow> x = 0xffffffff"
  using u32_bound [of x] by (auto simp: word_le_nat_alt u32_eq_unat)

lemma u32_le_max [simp]: "(x :: u32) \<le> 0xffffffff"
  using u32_bound [of x] by (simp add: word_le_nat_alt)

lemma unat_Suc_u32: "(x :: u32) \<noteq> 0xffffffff \<Longrightarrow> unat (x + 1) = Suc (unat x)"
  using u32_bound [of x] by (simp add: u32_eq_unat unat_word_ariths)

section \<open>Prefixes\<close>

lemma take_min_take: "take (min k m) (take k xs) = take (min k m) xs"
  by (simp add: min_def)

lemma take_full_length: "length (take k xs) = length xs \<Longrightarrow> take k xs = xs"
  by (simp add: min_def split: if_splits)

end
