(* ===== verification/Status_Types.thy ===== *)
theory Status_Types
  imports Bytes_Prelude
begin

text \<open>
  The value types every layer shares: status codes and statuses (\<open>status.h\<close>), diagnostic
  events and their sink (\<open>events.h\<close>), the queue index, validation results and compaction
  results of the \<open>Store\<close> interface (\<open>store_types.h\<close>), and the spans and configuration of
  the public API (\<open>types.h\<close>).
\<close>

section \<open>Statuses\<close>

datatype status_code =
    Ok
  | InvalidArgument | BackendUnavailable
  | MountFailed | ReadFailed | WriteFailed | RenameFailed | RemoveFailed | ListFailed
  | InvalidIndex | InvalidRecord | CrcMismatch | RecordTooLarge | QueueFull | QueueEmpty
  | LockTimeout
  | EncodeFailed | DecodeFailed | SendFailed | Dropped
  | DataCorrupt | RangeLimitExceeded | SequenceExhausted
  | NoOp

fun statusCodeName :: "status_code \<Rightarrow> string" where
  "statusCodeName Ok = ''ok''"
| "statusCodeName InvalidArgument = ''invalid_argument''"
| "statusCodeName BackendUnavailable = ''backend_unavailable''"
| "statusCodeName MountFailed = ''mount_failed''"
| "statusCodeName ReadFailed = ''read_failed''"
| "statusCodeName WriteFailed = ''write_failed''"
| "statusCodeName RenameFailed = ''rename_failed''"
| "statusCodeName RemoveFailed = ''remove_failed''"
| "statusCodeName ListFailed = ''list_failed''"
| "statusCodeName InvalidIndex = ''invalid_index''"
| "statusCodeName InvalidRecord = ''invalid_record''"
| "statusCodeName CrcMismatch = ''crc_mismatch''"
| "statusCodeName RecordTooLarge = ''record_too_large''"
| "statusCodeName QueueFull = ''queue_full''"
| "statusCodeName QueueEmpty = ''queue_empty''"
| "statusCodeName LockTimeout = ''lock_timeout''"
| "statusCodeName EncodeFailed = ''encode_failed''"
| "statusCodeName DecodeFailed = ''decode_failed''"
| "statusCodeName SendFailed = ''send_failed''"
| "statusCodeName Dropped = ''dropped''"
| "statusCodeName DataCorrupt = ''data_corrupt''"
| "statusCodeName RangeLimitExceeded = ''range_limit_exceeded''"
| "statusCodeName SequenceExhausted = ''sequence_exhausted''"
| "statusCodeName NoOp = ''no_op''"

record status =
  code :: status_code
  backendCode :: int
  message :: string

definition ok :: "status \<Rightarrow> bool" where
  "ok st \<longleftrightarrow> code st = Ok \<or> code st = NoOp"

definition isNoOp :: "status \<Rightarrow> bool" where
  "isNoOp st \<longleftrightarrow> code st = NoOp"

definition success :: status where
  "success = \<lparr>code = Ok, backendCode = 0, message = []\<rparr>"

definition noOp :: status where
  "noOp = \<lparr>code = NoOp, backendCode = 0, message = []\<rparr>"

definition failure_code :: "status_code \<Rightarrow> string \<Rightarrow> int \<Rightarrow> status" where
  "failure_code c msg bc = \<lparr>code = c, backendCode = bc, message = msg\<rparr>"

abbreviation failure :: "status_code \<Rightarrow> string \<Rightarrow> status" where
  "failure c msg \<equiv> failure_code c msg 0"

lemma code_status [simp]:
  "code success = Ok" "code noOp = NoOp" "code (failure_code c m b) = c"
  by (simp_all add: success_def noOp_def failure_code_def)

lemma ok_status [simp]:
  "ok success" "ok noOp" "ok (failure_code c m b) \<longleftrightarrow> c = Ok \<or> c = NoOp"
  by (simp_all add: ok_def)

lemma isNoOp_status [simp]:
  "\<not> isNoOp success" "isNoOp noOp" "isNoOp (failure_code c m b) \<longleftrightarrow> c = NoOp"
  by (simp_all add: isNoOp_def)

section \<open>Events\<close>

datatype severity = Debug | Info | Warning | Error

datatype event_kind = Diagnostic | RequestSent | RequestRetried | RequestDropped

definition kNoSequence :: u32 where
  "kNoSequence = 0xffffffff"

record event =
  evKind :: event_kind
  evSeverity :: severity
  evStatus :: status
  evComponent :: string
  evOperation :: string
  evSequence :: u32
  evPath :: string
  evHttpStatus :: int
  evMethod :: string
  evAttempt :: u8
  evQueueCount :: u32
  evBodyBytes :: u32
  evRemainingMs :: u32
  evTimeoutMs :: u32
  evHeaderCount :: u32

definition default_event :: event where
  "default_event =
     \<lparr>evKind = Diagnostic, evSeverity = Debug, evStatus = success, evComponent = [],
      evOperation = [], evSequence = kNoSequence, evPath = [], evHttpStatus = 0,
      evMethod = [], evAttempt = 0, evQueueCount = 0, evBodyBytes = 0, evRemainingMs = 0,
      evTimeoutMs = 0, evHeaderCount = 0\<rparr>"

text \<open>
  \<open>EventOptions\<close> holds the user's sink, a function pointer that may be null.  The sink is
  code outside the repository; the model keeps the list of events it has received, and
  \<open>sinkSet\<close> says whether the pointer is set.
\<close>

record event_options =
  sinkSet :: bool

definition emitEvent :: "event_options \<Rightarrow> event \<Rightarrow> event list \<Rightarrow> event list" where
  "emitEvent opts ev log = (if sinkSet opts then log @ [ev] else log)"

definition diagnosticEvent :: "severity \<Rightarrow> status \<Rightarrow> string \<Rightarrow> string \<Rightarrow> event" where
  "diagnosticEvent sev st component operation =
     default_event\<lparr>evKind := Diagnostic, evSeverity := sev, evStatus := st,
       evComponent := component, evOperation := operation\<rparr>"

section \<open>Types of the Store interface\<close>

datatype storage_backend = Default | Posix | LittleFS

record queue_index =
  ixHead :: u32
  ixTail :: u32
  ixCount :: u32

definition empty_index :: queue_index where
  "empty_index = \<lparr>ixHead = 0, ixTail = 0, ixCount = 0\<rparr>"

datatype repair_action = RepairNone | RepairFormat | DropFrontIfCorrupt

datatype issue_code =
    InvalidConfig | MetadataCorrupt | JournalCorrupt | ConfigMismatch | RecordCrcMismatch
  | QueueLoadFailed | QueueIndexMismatch | OutboxEnvelopeInvalid | HttpRequestEnvelopeInvalid

fun validationIssueCodeName :: "issue_code \<Rightarrow> string" where
  "validationIssueCodeName InvalidConfig = ''invalid_config''"
| "validationIssueCodeName MetadataCorrupt = ''metadata_corrupt''"
| "validationIssueCodeName JournalCorrupt = ''journal_corrupt''"
| "validationIssueCodeName ConfigMismatch = ''config_mismatch''"
| "validationIssueCodeName RecordCrcMismatch = ''record_crc_mismatch''"
| "validationIssueCodeName QueueLoadFailed = ''queue_load_failed''"
| "validationIssueCodeName QueueIndexMismatch = ''queue_index_mismatch''"
| "validationIssueCodeName OutboxEnvelopeInvalid = ''outbox_envelope_invalid''"
| "validationIssueCodeName HttpRequestEnvelopeInvalid = ''http_request_envelope_invalid''"

record validation_issue =
  viCode :: issue_code
  viMessage :: string
  recordIndex :: u32
  expectedSequence :: u32
  actualSequence :: u32
  hasRecordIndex :: bool
  hasExpectedSequence :: bool
  hasActualSequence :: bool
  repairAction :: repair_action

definition default_issue :: validation_issue where
  "default_issue =
     \<lparr>viCode = InvalidConfig, viMessage = [], recordIndex = 0, expectedSequence = 0,
      actualSequence = 0, hasRecordIndex = False, hasExpectedSequence = False,
      hasActualSequence = False, repairAction = RepairNone\<rparr>"

record validation_result =
  vrOk :: bool
  checkedRecords :: u32
  stoppedEarly :: bool
  vrErrors :: "validation_issue list"

definition empty_validation :: validation_result where
  "empty_validation = \<lparr>vrOk = True, checkedRecords = 0, stoppedEarly = False, vrErrors = []\<rparr>"

text \<open>\<open>ValidationOptions\<close> has the single field \<open>maxErrors\<close>; it is passed as a number.\<close>

type_synonym validation_options = nat

record compact_idle_result =
  cirStatus :: status
  stepsRun :: nat
  compactions :: nat
  noOps :: nat
  moreWorkLikely :: bool
  segmentCountExceedsTarget :: bool
  bytesReclaimed :: u32
  deadBytesBefore :: u32
  remainingDeadBytes :: u32
  inputSegments :: u32
  outputSegments :: u32

definition default_compact_idle_result :: compact_idle_result where
  "default_compact_idle_result =
     \<lparr>cirStatus = success, stepsRun = 0, compactions = 0, noOps = 0, moreWorkLikely = False,
      segmentCountExceedsTarget = False, bytesReclaimed = 0, deadBytesBefore = 0,
      remainingDeadBytes = 0, inputSegments = 0, outputSegments = 0\<rparr>"

section \<open>Types of the public API\<close>

text \<open>
  A \<open>Span\<close> is a pointer and a length.  \<open>NullSpan n\<close> is the null pointer with length \<open>n\<close>;
  \<open>DataSpan bs\<close> points at the bytes \<open>bs\<close>.
\<close>

datatype span = NullSpan nat | DataSpan bytes

fun spanLen :: "span \<Rightarrow> nat" where
  "spanLen (NullSpan n) = n"
| "spanLen (DataSpan bs) = length bs"

fun spanDataNull :: "span \<Rightarrow> bool" where
  "spanDataNull (NullSpan n) = True"
| "spanDataNull (DataSpan bs) = False"

text \<open>
  \<open>spanToString\<close> (in \<open>queue.cpp\<close> and \<open>outbox.cpp\<close>) is called only after the guard
  against a null pointer with a non-zero length, so a \<open>NullSpan\<close> has length 0 there.
\<close>

fun spanToString :: "span \<Rightarrow> bytes" where
  "spanToString (NullSpan n) = []"
| "spanToString (DataSpan bs) = bs"

datatype full_queue_policy = RejectNewest | DropOldest

record stats =
  statCount :: u32
  statFreeBytes :: u64

record stats_result =
  srStatus :: status
  srStats :: stats

definition default_stats :: stats where
  "default_stats = \<lparr>statCount = 0, statFreeBytes = 0\<rparr>"

end
