(* ===== verification/File_System.thy ===== *)
theory File_System
  imports Status_Types
begin

text \<open>
  The \<open>FileSystem\<close> interface (\<open>file_system.h\<close>) and what the store may rely on.

  \<open>fs_ops\<close> is the virtual class as a record of operations over a world of type \<open>'w\<close>, the
  storage directory and everything else the operations depend on.  \<open>fs_present\<close> is whether
  the pointer to the file system is not null.  An out-parameter is part of the result; a caller
  that reads it after a failure sees the value the call left in it (0 or the empty string when
  the call wrote nothing).

  The locale \<open>file_system\<close> states the contract: \<open>view\<close> gives the contents of the directory,
  \<open>healthy\<close> says that no I/O error is pending.  A failed write leaves the file missing, old,
  or holding a prefix of the new bytes; no other file changes.  Power loss is the special case
  in which every later operation fails without touching the disk.
\<close>

section \<open>The interface\<close>

record 'w fs_ops =
  fs_present :: bool
  fs_mount :: "string \<Rightarrow> 'w \<Rightarrow> status \<times> 'w"
  fs_readFile :: "string \<Rightarrow> 'w \<Rightarrow> (status \<times> bytes) \<times> 'w"
  fs_writeFile :: "string \<Rightarrow> bytes \<Rightarrow> 'w \<Rightarrow> status \<times> 'w"
  fs_readAt :: "string \<Rightarrow> u64 \<Rightarrow> nat \<Rightarrow> 'w \<Rightarrow> (status \<times> bytes) \<times> 'w"
  fs_writeAt :: "string \<Rightarrow> u64 \<Rightarrow> bytes \<Rightarrow> 'w \<Rightarrow> status \<times> 'w"
  fs_resizeFile :: "string \<Rightarrow> u64 \<Rightarrow> 'w \<Rightarrow> status \<times> 'w"
  fs_fileSize :: "string \<Rightarrow> 'w \<Rightarrow> (status \<times> u64) \<times> 'w"
  fs_removeFile :: "string \<Rightarrow> 'w \<Rightarrow> status \<times> 'w"
  fs_listFiles :: "'w \<Rightarrow> (status \<times> string list) \<times> 'w"
  fs_tryAcquireLockFile :: "string \<Rightarrow> bytes \<Rightarrow> 'w \<Rightarrow> status \<times> 'w"
  fs_releaseLockFile :: "string \<Rightarrow> bytes \<Rightarrow> 'w \<Rightarrow> status \<times> 'w"
  fs_recoverStaleLockFile :: "string \<Rightarrow> bytes \<Rightarrow> 'w \<Rightarrow> status \<times> 'w"
  fs_freeBytes :: "'w \<Rightarrow> u64"

text \<open>What a file holds after \<open>d\<close> was written at offset \<open>off\<close> over \<open>c\<close>: a gap past the old
  end reads as zeros.\<close>

definition overlay :: "nat \<Rightarrow> bytes \<Rightarrow> bytes \<Rightarrow> bytes" where
  "overlay off d c =
     take off (c @ replicate (off - length c) 0) @ d @ drop (off + length d) c"

lemma overlay_at_end: "off = length c \<Longrightarrow> overlay off d c = c @ d"
  by (simp add: overlay_def)

lemma overlay_empty: "off \<le> length c \<Longrightarrow> overlay off [] c = c"
  by (simp add: overlay_def)

locale file_system =
  fixes F :: "'w fs_ops" and view :: "'w \<Rightarrow> string \<Rightarrow> bytes option"
    and healthy :: "'w \<Rightarrow> bool"
  assumes present: "fs_present F"
    and mount_view: "fs_mount F base w = (st, w') \<Longrightarrow> view w' = view w"
    and read_view: "fs_readFile F name w = ((st, d), w') \<Longrightarrow>
          view w' = view w \<and> (ok st \<longrightarrow> view w name = Some d)"
    and readAt_view: "fs_readAt F name off n w = ((st, d), w') \<Longrightarrow>
          view w' = view w \<and>
          (ok st \<longrightarrow> (\<exists>c. view w name = Some c \<and> d = take n (drop (unat off) c) \<and> length d = n))"
    and write_ok: "fs_writeFile F name d w = (st, w') \<Longrightarrow> ok st \<Longrightarrow>
          view w' = (view w)(name := Some d)"
    and write_fail: "fs_writeFile F name d w = (st, w') \<Longrightarrow> \<not> ok st \<Longrightarrow>
          \<exists>v. view w' = (view w)(name := v)
              \<and> (v = None \<or> v = view w name \<or> (\<exists>k \<le> length d. v = Some (take k d)))"
    and writeAt_ok: "fs_writeAt F name off d w = (st, w') \<Longrightarrow> ok st \<Longrightarrow>
          \<exists>c. view w name = Some c \<and> view w' = (view w)(name := Some (overlay (unat off) d c))"
    and writeAt_fail: "fs_writeAt F name off d w = (st, w') \<Longrightarrow> \<not> ok st \<Longrightarrow>
          view w' = view w \<or> (\<exists>c k. view w name = Some c \<and> k \<le> length d
              \<and> view w' = (view w)(name := Some (overlay (unat off) (take k d) c)))"
    and resize_ok: "fs_resizeFile F name sz w = (st, w') \<Longrightarrow> view w name = Some c \<Longrightarrow>
          unat sz \<le> length c \<Longrightarrow>
          view w' = (view w)(name := Some (take (unat sz) c)) \<or> \<not> ok st \<and> view w' = view w"
    and size_view: "fs_fileSize F name w = ((st, sz), w') \<Longrightarrow>
          view w' = view w \<and>
          (ok st \<longrightarrow> (\<exists>c. view w name = Some c \<and> sz = word_of_nat (length c)))"
    and remove_ok: "fs_removeFile F name w = (st, w') \<Longrightarrow> ok st \<Longrightarrow>
          view w' = (view w)(name := None)"
    and remove_fail: "fs_removeFile F name w = (st, w') \<Longrightarrow> \<not> ok st \<Longrightarrow> view w' = view w"
    and list_view: "fs_listFiles F w = ((st, names), w') \<Longrightarrow>
          view w' = view w \<and> (ok st \<longrightarrow> set names = dom (view w))"
    and mount_healthy: "healthy w \<Longrightarrow> fs_mount F base w = (st, w') \<Longrightarrow> ok st \<and> healthy w'"
    and read_healthy: "healthy w \<Longrightarrow> fs_readFile F name w = ((st, d), w') \<Longrightarrow>
          healthy w' \<and> (view w name \<noteq> None \<longrightarrow> ok st)"
    and readAt_healthy: "healthy w \<Longrightarrow> fs_readAt F name off n w = ((st, d), w') \<Longrightarrow>
          healthy w' \<and> ((\<exists>c. view w name = Some c \<and> unat off + n \<le> length c) \<longrightarrow> ok st)"
    and write_healthy: "healthy w \<Longrightarrow> fs_writeFile F name d w = (st, w') \<Longrightarrow> ok st \<and> healthy w'"
    and writeAt_healthy: "healthy w \<Longrightarrow> fs_writeAt F name off d w = (st, w') \<Longrightarrow>
          healthy w' \<and> (view w name \<noteq> None \<longrightarrow> ok st)"
    and resize_healthy: "healthy w \<Longrightarrow> fs_resizeFile F name sz w = (st, w') \<Longrightarrow> ok st \<and> healthy w'"
    and size_healthy: "healthy w \<Longrightarrow> fs_fileSize F name w = ((st, sz), w') \<Longrightarrow>
          healthy w' \<and> (view w name \<noteq> None \<longrightarrow> ok st)"
    and remove_healthy: "healthy w \<Longrightarrow> fs_removeFile F name w = (st, w') \<Longrightarrow>
          healthy w' \<and> (view w name \<noteq> None \<longrightarrow> ok st)"
    and list_healthy: "healthy w \<Longrightarrow> fs_listFiles F w = ((st, names), w') \<Longrightarrow> ok st \<and> healthy w'"

text \<open>
  Facts of the interface every client uses: reading operations never change the directory, and
  no operation changes a file other than the one it names.
\<close>

context file_system
begin

lemma writeFile_other:
  "fs_writeFile F name d w = (st, w') \<Longrightarrow> other \<noteq> name \<Longrightarrow> view w' other = view w other"
  using write_ok write_fail by (cases "ok st") fastforce+

lemma writeAt_other:
  "fs_writeAt F name off d w = (st, w') \<Longrightarrow> other \<noteq> name \<Longrightarrow> view w' other = view w other"
  using writeAt_ok writeAt_fail by (cases "ok st") fastforce+

lemma remove_cases:
  "fs_removeFile F name w = (st, w') \<Longrightarrow>
   view w' = (view w)(name := None) \<or> view w' = view w"
  using remove_ok remove_fail by blast

text \<open>A write that reports an error has stored a prefix (which may be all of the data: power
  can fail after the last byte), or nothing at all.\<close>

lemma write_cases:
  assumes "fs_writeFile F name d w = (st, w')"
  obtains (stored) "ok st" "view w' = (view w)(name := Some d)"
  | (lost) "\<not> ok st" "view w' = (view w)(name := None)"
  | (old) "\<not> ok st" "view w' = view w"
  | (torn) k where "\<not> ok st" "k \<le> length d" "view w' = (view w)(name := Some (take k d))"
  using write_ok [OF assms] write_fail [OF assms] by (metis fun_upd_triv)

text \<open>A property of the world that every operation keeps may be added to \<open>healthy\<close>.\<close>

lemma healthy_and:
  assumes K: "\<And>b w st w'. K w \<Longrightarrow> fs_mount F b w = (st, w') \<Longrightarrow> K w'"
    "\<And>name w r w'. K w \<Longrightarrow> fs_readFile F name w = (r, w') \<Longrightarrow> K w'"
    "\<And>name off n w r w'. K w \<Longrightarrow> fs_readAt F name off n w = (r, w') \<Longrightarrow> K w'"
    "\<And>name d w st w'. K w \<Longrightarrow> fs_writeFile F name d w = (st, w') \<Longrightarrow> K w'"
    "\<And>name off d w st w'. K w \<Longrightarrow> fs_writeAt F name off d w = (st, w') \<Longrightarrow> K w'"
    "\<And>name sz w st w'. K w \<Longrightarrow> fs_resizeFile F name sz w = (st, w') \<Longrightarrow> K w'"
    "\<And>name w r w'. K w \<Longrightarrow> fs_fileSize F name w = (r, w') \<Longrightarrow> K w'"
    "\<And>name w st w'. K w \<Longrightarrow> fs_removeFile F name w = (st, w') \<Longrightarrow> K w'"
    "\<And>w r w'. K w \<Longrightarrow> fs_listFiles F w = (r, w') \<Longrightarrow> K w'"
  shows "file_system F view (\<lambda>w. healthy w \<and> K w)"
proof
  show "\<And>w base st w'. healthy w \<and> K w \<Longrightarrow> fs_mount F base w = (st, w') \<Longrightarrow> ok st \<and> healthy w' \<and> K w'"
    using mount_healthy K(1) by blast
  show "\<And>w name st d w'. healthy w \<and> K w \<Longrightarrow> fs_readFile F name w = ((st, d), w') \<Longrightarrow>
      (healthy w' \<and> K w') \<and> (view w name \<noteq> None \<longrightarrow> ok st)"
    using read_healthy K(2) by blast
  show "\<And>w name off n st d w'. healthy w \<and> K w \<Longrightarrow> fs_readAt F name off n w = ((st, d), w') \<Longrightarrow>
      (healthy w' \<and> K w') \<and> ((\<exists>c. view w name = Some c \<and> unat off + n \<le> length c) \<longrightarrow> ok st)"
    using readAt_healthy K(3) by blast
  show "\<And>w name d st w'. healthy w \<and> K w \<Longrightarrow> fs_writeFile F name d w = (st, w') \<Longrightarrow> ok st \<and> healthy w' \<and> K w'"
    using write_healthy K(4) by blast
  show "\<And>w name off d st w'. healthy w \<and> K w \<Longrightarrow> fs_writeAt F name off d w = (st, w') \<Longrightarrow>
      (healthy w' \<and> K w') \<and> (view w name \<noteq> None \<longrightarrow> ok st)"
    using writeAt_healthy K(5) by blast
  show "\<And>w name sz st w'. healthy w \<and> K w \<Longrightarrow> fs_resizeFile F name sz w = (st, w') \<Longrightarrow> ok st \<and> healthy w' \<and> K w'"
    using resize_healthy K(6) by blast
  show "\<And>w name st sz w'. healthy w \<and> K w \<Longrightarrow> fs_fileSize F name w = ((st, sz), w') \<Longrightarrow>
      (healthy w' \<and> K w') \<and> (view w name \<noteq> None \<longrightarrow> ok st)"
    using size_healthy K(7) by blast
  show "\<And>w name st w'. healthy w \<and> K w \<Longrightarrow> fs_removeFile F name w = (st, w') \<Longrightarrow>
      (healthy w' \<and> K w') \<and> (view w name \<noteq> None \<longrightarrow> ok st)"
    using remove_healthy K(8) by blast
  show "\<And>w st names w'. healthy w \<and> K w \<Longrightarrow> fs_listFiles F w = ((st, names), w') \<Longrightarrow> ok st \<and> healthy w' \<and> K w'"
    using list_healthy K(9) by blast
qed (fact present mount_view read_view readAt_view write_ok write_fail writeAt_ok writeAt_fail resize_ok
  size_view remove_ok remove_fail list_view)+

end

text \<open>
  A file system with an account of read errors: \<open>readable w\<close> says that reads do not fail from
  \<open>w\<close> on.  Writes may still fail, and do not end it; a store that runs out of space or loses
  power in a write is in this situation.
\<close>

locale readable_file_system = file_system +
  fixes readable :: "'w \<Rightarrow> bool"
  assumes healthy_is_readable: "healthy w \<Longrightarrow> readable w"
    and readable_read: "readable w \<Longrightarrow> fs_readFile F name w = ((st, d), w') \<Longrightarrow>
          readable w' \<and> (view w name \<noteq> None \<longrightarrow> ok st)"
    and readable_size: "readable w \<Longrightarrow> fs_fileSize F name w = ((st, sz), w') \<Longrightarrow>
          readable w' \<and> (view w name \<noteq> None \<longrightarrow> ok st)"
    and readable_write: "readable w \<Longrightarrow> fs_writeFile F name d w = (st, w') \<Longrightarrow> readable w'"
    and readable_writeAt: "readable w \<Longrightarrow> fs_writeAt F name off d w = (st, w') \<Longrightarrow> readable w'"
    and readable_remove: "readable w \<Longrightarrow> fs_removeFile F name w = (st, w') \<Longrightarrow> readable w'"

text \<open>
  A file system with lock files: the three lock operations change no file but the one they
  name, and a lock that was granted is in its file.
\<close>

locale locking_file_system = readable_file_system +
  assumes acquire_view: "fs_tryAcquireLockFile F name c w = (st, w') \<Longrightarrow>
          (\<forall>other. other \<noteq> name \<longrightarrow> view w' other = view w other)
          \<and> (ok st \<longrightarrow> view w' name = Some c)"
    and acquire_code: "fs_tryAcquireLockFile F name c w = (st, w') \<Longrightarrow>
          code st \<noteq> InvalidRecord \<and> code st \<noteq> CrcMismatch"
    and release_view: "fs_releaseLockFile F name c w = (st, w') \<Longrightarrow>
          (\<forall>other. other \<noteq> name \<longrightarrow> view w' other = view w other)
          \<and> (view w' name = view w name \<or> view w name = Some c \<and> view w' name = None)"
    and recover_view: "fs_recoverStaleLockFile F name c w = (st, w') \<Longrightarrow> other \<noteq> name \<Longrightarrow>
          view w' other = view w other"
    and acquire_readable: "readable w \<Longrightarrow> fs_tryAcquireLockFile F name c w = (st, w') \<Longrightarrow> readable w'"
    and release_readable: "readable w \<Longrightarrow> fs_releaseLockFile F name c w = (st, w') \<Longrightarrow> readable w'"
    and recover_readable: "readable w \<Longrightarrow> fs_recoverStaleLockFile F name c w = (st, w') \<Longrightarrow> readable w'"
    and readable_readAt: "readable w \<Longrightarrow> fs_readAt F name off n w = ((st, d), w') \<Longrightarrow>
          readable w' \<and> ((\<exists>c. view w name = Some c \<and> unat off + n \<le> length c) \<longrightarrow> ok st)"
    and acquire_healthy: "healthy w \<Longrightarrow> fs_tryAcquireLockFile F name c w = (st, w') \<Longrightarrow> healthy w'"
    and release_healthy: "healthy w \<Longrightarrow> fs_releaseLockFile F name c w = (st, w') \<Longrightarrow> healthy w'"

end
