(* ===== verification/Lock_Owner.thy ===== *)
theory Lock_Owner
  imports Status_Types
begin

text \<open>
  The contents of a queue lock file and how a waiting process reads them
  (\<open>internal/lock_owner.cpp\<close>, \<open>makeLockContents\<close> in \<open>queue.cpp\<close>): lines \<open>key=value\<close>, the
  owner's process id and boot id.  \<open>strtol\<close> is modelled for base 10 on the bytes up to the
  first NUL, as \<open>value.c_str()\<close> gives them.
\<close>

section \<open>Definitions\<close>

definition chars :: "string \<Rightarrow> bytes" where
  "chars s = map (\<lambda>c. word_of_nat (of_char c)) s"

definition newline :: u8 where "newline = 10"

text \<open>\<open>std::string::find\<close>: the first position of \<open>pat\<close> in \<open>s\<close>, if any.\<close>

fun findSub :: "bytes \<Rightarrow> bytes \<Rightarrow> nat option" where
  "findSub pat [] = (if pat = [] then Some 0 else None)"
| "findSub pat (c # cs) =
     (if take (length pat) (c # cs) = pat then Some 0 else map_option Suc (findSub pat cs))"

definition lockValue :: "bytes \<Rightarrow> bytes \<Rightarrow> bytes" where
  "lockValue contents key =
     (let prefix = key @ chars ''='' in
      case findSub prefix contents of
        None \<Rightarrow> []
      | Some pos \<Rightarrow> takeWhile (\<lambda>c. c \<noteq> newline) (drop (pos + length prefix) contents))"

definition isSpaceByte :: "u8 \<Rightarrow> bool" where
  "isSpaceByte c \<longleftrightarrow> c = 32 \<or> (9 \<le> c \<and> c \<le> 13)"

definition isDigitByte :: "u8 \<Rightarrow> bool" where
  "isDigitByte c \<longleftrightarrow> 48 \<le> c \<and> c \<le> 57"

definition decimalValue :: "bytes \<Rightarrow> int" where
  "decimalValue ds = foldl (\<lambda>acc d. acc * 10 + (uint d - 48)) 0 ds"

definition clampLong :: "int \<Rightarrow> int" where
  "clampLong v = min (2 ^ 63 - 1) (max (- (2 ^ 63)) v)"

text \<open>\<open>strtol\<close>: the value and the unparsed rest; \<open>None\<close> when no digits were read.\<close>

definition strtol10 :: "bytes \<Rightarrow> (int \<times> bytes) option" where
  "strtol10 text =
     (let t = dropWhile isSpaceByte text;
          neg = (t \<noteq> [] \<and> hd t = 45);
          t = (if t \<noteq> [] \<and> (hd t = 45 \<or> hd t = 43) then tl t else t);
          ds = takeWhile isDigitByte t
      in if ds = [] then None
         else Some (clampLong (if neg then - decimalValue ds else decimalValue ds),
                    dropWhile isDigitByte t))"

definition lockPid :: "bytes \<Rightarrow> int" where
  "lockPid contents =
     (let value = lockValue contents (chars ''pid'') in
      if value = [] then -1
      else case strtol10 (takeWhile (\<lambda>c. c \<noteq> 0) value) of
        None \<Rightarrow> -1
      | Some (pid, rest) \<Rightarrow> (if rest \<noteq> [] then -1 else pid))"

definition lockHasDifferentBootId :: "bytes \<Rightarrow> bytes \<Rightarrow> bool" where
  "lockHasDifferentBootId existingContents currentContents =
     (let existingBoot = lockValue existingContents (chars ''boot_id'');
          currentBoot = lockValue currentContents (chars ''boot_id'')
      in existingBoot \<noteq> [] \<and> currentBoot \<noteq> [] \<and> existingBoot \<noteq> currentBoot)"

text \<open>
  \<open>makeLockContents\<close>: the process id, the boot id, the address of the queue object and the
  clock reading are decided by the environment; each is already printed, as bytes.
\<close>

definition makeLockContents :: "bytes \<Rightarrow> bytes \<Rightarrow> bytes \<Rightarrow> bytes \<Rightarrow> bytes" where
  "makeLockContents pid bootId owner now =
     chars ''pqueue-lock-v2'' @ [newline]
     @ chars ''owner=queue'' @ [newline]
     @ chars ''pid='' @ pid @ [newline]
     @ chars ''boot_id='' @ bootId @ [newline]
     @ chars ''token='' @ owner @ chars ''-'' @ now @ [newline]"

section \<open>Reading a lock back\<close>

lemma findSub_skip:
  "\<forall>i < length pre. take (length pat) (drop i (pre @ pat @ rest)) \<noteq> pat \<Longrightarrow>
   findSub pat (pre @ pat @ rest) = Some (length pre)"
proof (induction pre)
  case Nil
  then show ?case by (cases pat; cases rest) auto
next
  case (Cons c pre)
  have "findSub pat (pre @ pat @ rest) = Some (length pre)"
  proof (rule Cons.IH, intro allI impI)
    fix i assume "i < length pre"
    then show "take (length pat) (drop i (pre @ pat @ rest)) \<noteq> pat"
      using Cons.prems [rule_format, of "Suc i"] by simp
  qed
  moreover have "take (length pat) (c # pre @ pat @ rest) \<noteq> pat"
    using Cons.prems [rule_format, of 0] by simp
  ultimately show ?case by simp
qed

lemma takeWhile_line:
  "newline \<notin> set v \<Longrightarrow> takeWhile (\<lambda>c. c \<noteq> newline) (v @ newline # rest) = v"
  by (induction v) auto

lemma lockValue_pid:
  assumes "newline \<notin> set pid"
  shows "lockValue (makeLockContents pid bootId owner now) (chars ''pid'') = pid"
proof -
  define rest where "rest = chars ''boot_id='' @ bootId @ [newline] @ chars ''token='' @ owner
    @ chars ''-'' @ now @ [newline]"
  have c: "makeLockContents pid bootId owner now
      = (chars ''pqueue-lock-v2'' @ [newline] @ chars ''owner=queue'' @ [newline])
        @ chars ''pid='' @ (pid @ newline # rest)"
    by (simp add: makeLockContents_def rest_def)
  have f: "findSub (chars ''pid='') (makeLockContents pid bootId owner now) = Some 27"
    unfolding c by (simp add: chars_def newline_def)
  have k: "chars ''pid'' @ chars ''='' = chars ''pid=''" by (simp add: chars_def)
  have d: "drop (27 + length (chars ''pid='')) (makeLockContents pid bootId owner now)
      = pid @ newline # rest"
    unfolding c by (simp add: chars_def newline_def)
  show ?thesis
    using assms by (simp add: lockValue_def k f d Let_def takeWhile_line)
qed

text \<open>The decimal digits of a positive number, as \<open>std::ostream\<close> prints a \<open>long\<close>.\<close>

fun printNat :: "nat \<Rightarrow> bytes" where
  "printNat n = (if n < 10 then [word_of_nat (48 + n)]
                 else printNat (n div 10) @ [word_of_nat (48 + n mod 10)])"

declare printNat.simps [simp del]

lemma digit_byte: "d < 10 \<Longrightarrow> isDigitByte (word_of_nat (48 + d))
    \<and> uint (word_of_nat (48 + d) :: u8) = int (48 + d) \<and> word_of_nat (48 + d) \<noteq> (0 :: u8)
    \<and> word_of_nat (48 + d) \<noteq> newline \<and> word_of_nat (48 + d) \<noteq> (45 :: u8)
    \<and> word_of_nat (48 + d) \<noteq> (43 :: u8) \<and> \<not> isSpaceByte (word_of_nat (48 + d))"
proof -
  assume "d < 10"
  then have "d \<in> {0, 1, 2, 3, 4, 5, 6, 7, 8, 9}" by auto
  then show ?thesis
    by (elim insertE) (auto simp: isDigitByte_def isSpaceByte_def newline_def)
qed

lemma printNat_digits: "b \<in> set (printNat n) \<Longrightarrow> \<exists>d < 10. b = word_of_nat (48 + d)"
proof (induction n rule: printNat.induct)
  case (1 n)
  show ?case
  proof (cases "n < 10")
    case True
    with "1.prems" show ?thesis by (auto simp: printNat.simps [of n])
  next
    case False
    with "1.prems" have "b \<in> set (printNat (n div 10)) \<or> b = word_of_nat (48 + n mod 10)"
      by (auto simp: printNat.simps [of n])
    moreover have "n mod 10 < 10" by simp
    ultimately show ?thesis using "1.IH" False by blast
  qed
qed

lemma printNat_nonempty: "printNat n \<noteq> []"
  by (subst printNat.simps) simp

lemma decimalValue_append:
  "decimalValue (ds @ [d]) = decimalValue ds * 10 + (uint d - 48)"
  by (simp add: decimalValue_def)

lemma decimalValue_printNat: "decimalValue (printNat n) = int n"
proof (induction n rule: printNat.induct)
  case (1 n)
  show ?case
  proof (cases "n < 10")
    case True
    then show ?thesis
      using digit_byte [of n] by (subst printNat.simps) (simp add: decimalValue_def)
  next
    case False
    then have "decimalValue (printNat n)
        = int (n div 10) * 10 + (uint (word_of_nat (48 + n mod 10) :: u8) - 48)"
      using 1 by (simp add: printNat.simps [of n] decimalValue_append)
    also have "\<dots> = int (n div 10) * 10 + int (n mod 10)"
      using digit_byte [of "n mod 10"] by simp
    finally show ?thesis by presburger
  qed
qed

lemma strtol10_printNat:
  assumes "n < 2 ^ 63"
  shows "strtol10 (printNat n) = Some (int n, [])"
proof -
  have ds: "isDigitByte b" "\<not> isSpaceByte b" "b \<noteq> 45" "b \<noteq> 43" if "b \<in> set (printNat n)" for b
    using printNat_digits [OF that] digit_byte by auto
  obtain b bs where p: "printNat n = b # bs" using printNat_nonempty by (cases "printNat n") auto
  have "b \<in> set (printNat n)" by (simp add: p)
  note b = ds [OF this]
  have dw: "dropWhile isSpaceByte (printNat n) = printNat n" using b by (simp add: p)
  have tw: "takeWhile isDigitByte (printNat n) = printNat n"
    and dd: "dropWhile isDigitByte (printNat n) = []"
    using ds(1) by (auto simp: takeWhile_eq_all_conv dropWhile_eq_Nil_conv)
  have hd: "hd (printNat n) \<noteq> 45" "hd (printNat n) \<noteq> 43" using b by (simp_all add: p)
  have cl: "clampLong (int n) = int n" using assms by (simp add: clampLong_def)
  show ?thesis
    by (simp add: strtol10_def Let_def dw tw dd hd printNat_nonempty decimalValue_printNat cl)
qed

lemma lockPid_makeLockContents:
  assumes "n < 2 ^ 63"
  shows "lockPid (makeLockContents (printNat n) bootId owner now) = int n"
proof -
  have nl: "newline \<notin> set (printNat n)" and nz: "\<forall>b \<in> set (printNat n). b \<noteq> 0"
    using printNat_digits digit_byte by metis+
  have tw: "takeWhile (\<lambda>c. c \<noteq> 0) (printNat n) = printNat n"
    using nz by (simp only: takeWhile_eq_all_conv)
  show ?thesis
    by (simp only: lockPid_def Let_def lockValue_pid [OF nl] printNat_nonempty tw
        strtol10_printNat [OF assms]) simp
qed

section \<open>Property of the lock contents\<close>

text \<open>The process id a queue writes into its lock file is the one the stale-lock check reads
  back, whatever boot id, owner and token follow it.\<close>

theorem lock_pid_roundtrip:
  assumes "n < 2 ^ 63"
  shows "lockPid (makeLockContents (printNat n) bootId owner now) = int n"
  using assms by (rule lockPid_makeLockContents)

theorem lock_pid_roundtrip_witness:
  "lockPid (makeLockContents (printNat 4242) (chars ''boot'') (chars ''q'') (chars ''17'')) = 4242"
  using lock_pid_roundtrip [of 4242 "chars ''boot''" "chars ''q''" "chars ''17''"] by simp

end
