(* ===== verification/Posix_File_System.thy ===== *)
theory Posix_File_System
  imports File_System Lock_Owner "HOL-Library.AList"
begin

text \<open>
  \<open>PosixFileSystem\<close> and \<open>PosixFileLock\<close> (\<open>storage_posix.cpp\<close>).  The world is the storage
  directory (an ordered list of names and contents, the order of \<open>directory_iterator\<close>), the
  outcomes of the next operating-system calls, one list for those that change the directory and
  one for those that read it (an empty list means that all succeed), the
  free-space figure of \<open>std::filesystem::space\<close> and what \<open>kill(pid, 0)\<close> reports.  A failing
  call carries its error number and, for a write, how many bytes reached the file before it
  failed.  Errors that a C++ stream swallows in its destructor are not modelled.

  The class is shown to satisfy the contract \<open>file_system\<close>, and its lock file to exclude a
  second owner while the first one lives.
\<close>

section \<open>Files\<close>

datatype io_outcome = IoOk | IoError int nat

datatype kill_outcome = KillOk | KillError int

record posix_world =
  pwFiles :: "(string \<times> bytes) list"
  pwFaults :: "io_outcome list"
  pwReadFaults :: "io_outcome list"
  pwLockMounted :: bool
  pwAvailable :: "(string \<times> bytes) list \<Rightarrow> u64 option"
  pwKill :: "int \<Rightarrow> kill_outcome"

definition ENOENT :: int where "ENOENT = 2"
definition EEXIST :: int where "EEXIST = 17"
definition EPERM :: int where "EPERM = 1"
definition ESRCH :: int where "ESRCH = 3"

definition nextOutcome :: "posix_world \<Rightarrow> io_outcome \<times> posix_world" where
  "nextOutcome w =
     (case pwFaults w of [] \<Rightarrow> (IoOk, w) | f # fs \<Rightarrow> (f, w\<lparr>pwFaults := fs\<rparr>))"

definition nextReadOutcome :: "posix_world \<Rightarrow> io_outcome \<times> posix_world" where
  "nextReadOutcome w =
     (case pwReadFaults w of [] \<Rightarrow> (IoOk, w) | f # fs \<Rightarrow> (f, w\<lparr>pwReadFaults := fs\<rparr>))"

definition putFile :: "string \<Rightarrow> bytes \<Rightarrow> posix_world \<Rightarrow> posix_world" where
  "putFile name d w = w\<lparr>pwFiles := AList.update name d (pwFiles w)\<rparr>"

definition dropFile :: "string \<Rightarrow> posix_world \<Rightarrow> posix_world" where
  "dropFile name w = w\<lparr>pwFiles := AList.delete name (pwFiles w)\<rparr>"

definition posixMount :: "string \<Rightarrow> posix_world \<Rightarrow> status \<times> posix_world" where
  "posixMount base w =
     (let w = w\<lparr>pwLockMounted := True\<rparr>; (r, w) = nextOutcome w in
      case r of
        IoError e k \<Rightarrow> (failure_code MountFailed ''failed to create storage directory'' e, w)
      | IoOk \<Rightarrow> (success, w))"

definition posixReadFile :: "string \<Rightarrow> posix_world \<Rightarrow> (status \<times> bytes) \<times> posix_world" where
  "posixReadFile name w =
     (let (r, w) = nextReadOutcome w in
      case r of
        IoError e k \<Rightarrow> ((failure_code ReadFailed ''failed to open file for read'' e, []), w)
      | IoOk \<Rightarrow>
          (case map_of (pwFiles w) name of
             None \<Rightarrow> ((failure_code ReadFailed ''failed to open file for read'' ENOENT, []), w)
           | Some d \<Rightarrow>
               let (r, w) = nextReadOutcome w in
               case r of
                 IoError e k \<Rightarrow> ((failure_code ReadFailed ''failed to read file'' e, take k d), w)
               | IoOk \<Rightarrow> ((success, d), w)))"

definition posixWriteFile :: "string \<Rightarrow> bytes \<Rightarrow> posix_world \<Rightarrow> status \<times> posix_world" where
  "posixWriteFile name d w =
     (let (r, w) = nextOutcome w in
      case r of
        IoError e k \<Rightarrow> (failure_code WriteFailed ''failed to open file for write'' e, w)
      | IoOk \<Rightarrow>
          let (r, w) = nextOutcome (putFile name [] w) in
          case r of
            IoError e k \<Rightarrow>
              (failure_code WriteFailed ''failed to write file'' e,
               putFile name (take k d) w)
          | IoOk \<Rightarrow> (success, putFile name d w))"

definition posixReadAt :: "string \<Rightarrow> u64 \<Rightarrow> nat \<Rightarrow> posix_world \<Rightarrow> (status \<times> bytes) \<times> posix_world" where
  "posixReadAt name off n w =
     (let (r, w) = nextReadOutcome w in
      case r of
        IoError e k \<Rightarrow>
          ((failure_code ReadFailed ''failed to open file for positioned read'' e, []), w)
      | IoOk \<Rightarrow>
          (case map_of (pwFiles w) name of
             None \<Rightarrow>
               ((failure_code ReadFailed ''failed to open file for positioned read'' ENOENT, []), w)
           | Some c \<Rightarrow>
               let (r, w) = nextReadOutcome w in
               case r of
                 IoError e k \<Rightarrow>
                   ((failure_code ReadFailed ''failed to seek file for read'' e, []), w)
               | IoOk \<Rightarrow>
                   let (r, w) = nextReadOutcome w;
                       avail = (case r of IoOk \<Rightarrow> drop (unat off) c
                                        | IoError e k \<Rightarrow> take k (take (n - 1) (drop (unat off) c)));
                       got = take n avail
                   in if length got \<noteq> n
                      then ((failure_code ReadFailed ''failed to read complete file range''
                               (case r of IoOk \<Rightarrow> 0 | IoError e k \<Rightarrow> e),
                             got @ replicate (n - length got) 0), w)
                      else ((success, got), w)))"

definition posixWriteAt :: "string \<Rightarrow> u64 \<Rightarrow> bytes \<Rightarrow> posix_world \<Rightarrow> status \<times> posix_world" where
  "posixWriteAt name off d w =
     (let (r, w) = nextOutcome w in
      case r of
        IoError e k \<Rightarrow>
          (failure_code WriteFailed ''failed to open file for positioned write'' e, w)
      | IoOk \<Rightarrow>
          (case map_of (pwFiles w) name of
             None \<Rightarrow>
               (failure_code WriteFailed ''failed to open file for positioned write'' ENOENT, w)
           | Some c \<Rightarrow>
               let (r, w) = nextOutcome w in
               case r of
                 IoError e k \<Rightarrow>
                   (failure_code WriteFailed ''failed to seek file for write'' e, w)
               | IoOk \<Rightarrow>
                   let (r, w) = nextOutcome w in
                   case r of
                     IoError e k \<Rightarrow>
                       (failure_code WriteFailed ''failed to write complete file range'' e,
                        if k = 0 \<or> d = [] then w
                        else putFile name
                               (overlay (unat off) (take k d) c) w)
                   | IoOk \<Rightarrow> (success, putFile name (overlay (unat off) d c) w)))"

definition posixResizeFile :: "string \<Rightarrow> u64 \<Rightarrow> posix_world \<Rightarrow> status \<times> posix_world" where
  "posixResizeFile name sz w =
     (let (created, w) =
        (case map_of (pwFiles w) name of
           Some c \<Rightarrow> (IoOk, w)
         | None \<Rightarrow>
             let (r, w) = nextOutcome w in
             case r of IoError e k \<Rightarrow> (IoError e k, w) | IoOk \<Rightarrow> (IoOk, putFile name [] w))
      in case created of
           IoError e k \<Rightarrow> (failure_code WriteFailed ''failed to create file before resize'' e, w)
         | IoOk \<Rightarrow>
             let (r, w) = nextOutcome w in
             case r of
               IoError e k \<Rightarrow> (failure_code WriteFailed ''failed to resize file'' e, w)
             | IoOk \<Rightarrow>
                 (case map_of (pwFiles w) name of
                    None \<Rightarrow> (failure_code WriteFailed ''failed to resize file'' ENOENT, w)
                  | Some c \<Rightarrow>
                      (success,
                       putFile name (take (unat sz) c @ replicate (unat sz - length c) 0) w)))"

definition posixFileSize :: "string \<Rightarrow> posix_world \<Rightarrow> (status \<times> u64) \<times> posix_world" where
  "posixFileSize name w =
     (let (r, w) = nextReadOutcome w in
      case r of
        IoError e k \<Rightarrow> ((failure_code ReadFailed ''failed to stat file'' e, 0), w)
      | IoOk \<Rightarrow>
          (case map_of (pwFiles w) name of
             None \<Rightarrow> ((failure_code ReadFailed ''failed to stat file'' ENOENT, 0), w)
           | Some c \<Rightarrow> ((success, word_of_nat (length c)), w)))"

definition posixRemoveFile :: "string \<Rightarrow> posix_world \<Rightarrow> status \<times> posix_world" where
  "posixRemoveFile name w =
     (let (r, w) = nextOutcome w in
      case r of
        IoError e k \<Rightarrow> (failure_code RemoveFailed ''failed to remove file'' e, w)
      | IoOk \<Rightarrow> (success, dropFile name w))"

definition posixListFiles :: "posix_world \<Rightarrow> (status \<times> string list) \<times> posix_world" where
  "posixListFiles w =
     (let (r, w) = nextReadOutcome w in
      case r of
        IoError e k \<Rightarrow> ((failure_code ListFailed ''failed to list storage directory'' e, []), w)
      | IoOk \<Rightarrow> ((success, map fst (pwFiles w)), w))"

definition posixFreeBytes :: "posix_world \<Rightarrow> u64" where
  "posixFreeBytes w = (case pwAvailable w (pwFiles w) of None \<Rightarrow> 0 | Some n \<Rightarrow> n)"

section \<open>The lock file\<close>

definition removeStalePosixLock :: "string \<Rightarrow> posix_world \<Rightarrow> bool \<times> posix_world" where
  "removeStalePosixLock name w =
     (let ((st, contents), w) = posixReadFile name w in
      if \<not> ok st then (False, w) else
      let pid = lockPid contents in
      if pid \<le> 0 then (False, w) else
      case pwKill w pid of
        KillOk \<Rightarrow> (False, w)
      | KillError e \<Rightarrow>
          (if e = EPERM then (False, w)
           else if e \<noteq> ESRCH then (False, w)
           else let (st, w) = posixRemoveFile name w in (ok st, w)))"

text \<open>\<open>open(O_WRONLY | O_CREAT | O_EXCL)\<close>: \<open>None\<close> when the file was created, else \<open>errno\<close>.\<close>

definition openExclusive :: "string \<Rightarrow> posix_world \<Rightarrow> int option \<times> posix_world" where
  "openExclusive name w =
     (let (r, w) = nextOutcome w in
      case r of
        IoError e k \<Rightarrow> (Some e, w)
      | IoOk \<Rightarrow> (case map_of (pwFiles w) name of
                   Some c \<Rightarrow> (Some EEXIST, w)
                 | None \<Rightarrow> (None, putFile name [] w)))"

definition writeLockContents :: "string \<Rightarrow> bytes \<Rightarrow> posix_world \<Rightarrow> status \<times> posix_world" where
  "writeLockContents name contents w =
     (let (r, w) = nextOutcome w;
          written = (case r of IoOk \<Rightarrow> length contents | IoError e k \<Rightarrow> min k (length contents));
          writeErrno = (case r of IoOk \<Rightarrow> 0 | IoError e k \<Rightarrow> e);
          w = putFile name (take written contents) w
      in if written \<noteq> length contents
         then let (_, w) = posixRemoveFile name w in
           (failure_code WriteFailed ''failed to write queue lock file'' writeErrno, w)
         else (success, w))"

function posixAcquire :: "nat \<Rightarrow> string \<Rightarrow> bytes \<Rightarrow> posix_world \<Rightarrow> status \<times> posix_world" where
  "posixAcquire attempt name contents w =
     (if 2 \<le> attempt
      then (failure_code LockTimeout ''queue lock already exists'' EEXIST, w)
      else
        let (fd, w) = openExclusive name w in
        case fd of
          None \<Rightarrow> writeLockContents name contents w
        | Some errno \<Rightarrow>
            (if errno \<noteq> EEXIST
             then (failure_code WriteFailed ''failed to create queue lock file'' errno, w)
             else if attempt = 0 then
               let (removed, w) = removeStalePosixLock name w in
               if removed then posixAcquire (attempt + 1) name contents w
               else (failure_code LockTimeout ''queue lock already exists'' errno, w)
             else (failure_code LockTimeout ''queue lock already exists'' errno, w)))"
  by pat_completeness auto
termination
  by (relation "measure (\<lambda>(attempt, _). 2 - attempt)") auto

declare posixAcquire.simps [simp del]

definition posixRelease :: "string \<Rightarrow> bytes \<Rightarrow> posix_world \<Rightarrow> status \<times> posix_world" where
  "posixRelease name expectedContents w =
     (let ((st, actual), w) = posixReadFile name w in
      if \<not> ok st then (st, w)
      else if actual \<noteq> expectedContents
      then (failure LockTimeout ''queue lock is owned by another process'', w)
      else posixRemoveFile name w)"

definition posixRecoverStale :: "string \<Rightarrow> bytes \<Rightarrow> posix_world \<Rightarrow> status \<times> posix_world" where
  "posixRecoverStale name currentContents w =
     (let (r, w) = nextReadOutcome w in
      case r of
        IoError e k \<Rightarrow> (failure_code ReadFailed ''failed to inspect queue lock file'' e, w)
      | IoOk \<Rightarrow>
          (if map_of (pwFiles w) name = None then (noOp, w)
           else let (removed, w) = removeStalePosixLock name w in
             if removed then (success, w)
             else (failure LockTimeout ''queue lock is not stale'', w)))"

definition lockBackendMissing :: status where
  "lockBackendMissing = failure BackendUnavailable ''POSIX lock backend is not mounted''"

definition posixTryAcquireLockFile :: "string \<Rightarrow> bytes \<Rightarrow> posix_world \<Rightarrow> status \<times> posix_world" where
  "posixTryAcquireLockFile name contents w =
     (if \<not> pwLockMounted w then (lockBackendMissing, w) else posixAcquire 0 name contents w)"

definition posixReleaseLockFile :: "string \<Rightarrow> bytes \<Rightarrow> posix_world \<Rightarrow> status \<times> posix_world" where
  "posixReleaseLockFile name expectedContents w =
     (if \<not> pwLockMounted w then (lockBackendMissing, w)
      else posixRelease name expectedContents w)"

definition posixRecoverStaleLockFile :: "string \<Rightarrow> bytes \<Rightarrow> posix_world \<Rightarrow> status \<times> posix_world" where
  "posixRecoverStaleLockFile name currentContents w =
     (if \<not> pwLockMounted w then (lockBackendMissing, w)
      else posixRecoverStale name currentContents w)"

definition posixFs :: "posix_world fs_ops" where
  "posixFs =
     \<lparr>fs_present = True, fs_mount = posixMount, fs_readFile = posixReadFile,
      fs_writeFile = posixWriteFile, fs_readAt = posixReadAt, fs_writeAt = posixWriteAt,
      fs_resizeFile = posixResizeFile, fs_fileSize = posixFileSize,
      fs_removeFile = posixRemoveFile, fs_listFiles = posixListFiles,
      fs_tryAcquireLockFile = posixTryAcquireLockFile,
      fs_releaseLockFile = posixReleaseLockFile,
      fs_recoverStaleLockFile = posixRecoverStaleLockFile, fs_freeBytes = posixFreeBytes\<rparr>"

section \<open>The contract\<close>

definition posixView :: "posix_world \<Rightarrow> string \<Rightarrow> bytes option" where
  "posixView w = map_of (pwFiles w)"

definition posixHealthy :: "posix_world \<Rightarrow> bool" where
  "posixHealthy w \<longleftrightarrow> pwFaults w = [] \<and> pwReadFaults w = []"

text \<open>No read will fail; writes may.\<close>

definition posixReadable :: "posix_world \<Rightarrow> bool" where
  "posixReadable w \<longleftrightarrow> pwReadFaults w = []"

text \<open>The next outcome, and the world after it was consumed.\<close>

definition curOutcome :: "posix_world \<Rightarrow> io_outcome" where
  "curOutcome w = fst (nextOutcome w)"

definition stepOutcome :: "posix_world \<Rightarrow> posix_world" where
  "stepOutcome w = snd (nextOutcome w)"

definition curReadOutcome :: "posix_world \<Rightarrow> io_outcome" where
  "curReadOutcome w = fst (nextReadOutcome w)"

definition stepReadOutcome :: "posix_world \<Rightarrow> posix_world" where
  "stepReadOutcome w = snd (nextReadOutcome w)"

lemma nextOutcome_eq:
  "nextOutcome w = (curOutcome w, stepOutcome w)"
  "nextReadOutcome w = (curReadOutcome w, stepReadOutcome w)"
  by (simp_all add: curOutcome_def stepOutcome_def curReadOutcome_def stepReadOutcome_def)

lemma stepOutcome_fields [simp]:
  "pwFiles (stepOutcome w) = pwFiles w" "pwFiles (stepReadOutcome w) = pwFiles w"
  "pwKill (stepOutcome w) = pwKill w" "pwKill (stepReadOutcome w) = pwKill w"
  "pwLockMounted (stepOutcome w) = pwLockMounted w"
  "pwLockMounted (stepReadOutcome w) = pwLockMounted w"
  by (auto simp: stepOutcome_def nextOutcome_def stepReadOutcome_def nextReadOutcome_def
      split: list.splits)

lemma outcome_putFile [simp]:
  "curOutcome (putFile name d w) = curOutcome w"
  "stepOutcome (putFile name d w) = putFile name d (stepOutcome w)"
  by (auto simp: curOutcome_def stepOutcome_def nextOutcome_def putFile_def split: list.splits)

lemma outcome_healthy [simp]:
  "posixHealthy w \<Longrightarrow> curOutcome w = IoOk" "posixHealthy w \<Longrightarrow> stepOutcome w = w"
  by (simp_all add: curOutcome_def stepOutcome_def nextOutcome_def posixHealthy_def)

lemma outcome_readable [simp]:
  "posixReadable w \<Longrightarrow> curReadOutcome w = IoOk" "posixReadable w \<Longrightarrow> stepReadOutcome w = w"
  by (simp_all add: curReadOutcome_def stepReadOutcome_def nextReadOutcome_def posixReadable_def)

lemma healthy_readable [simp]: "posixHealthy w \<Longrightarrow> posixReadable w"
  by (simp add: posixHealthy_def posixReadable_def)

lemma posixView_step [simp]:
  "posixView (stepOutcome w) = posixView w" "posixView (stepReadOutcome w) = posixView w"
  by (simp_all add: posixView_def)

lemma map_of_files [simp]: "map_of (pwFiles w) name = posixView w name"
  by (simp add: posixView_def)

lemma posixView_put [simp]: "posixView (putFile name d w) = (posixView w)(name := Some d)"
  by (simp add: posixView_def putFile_def update_conv')

lemma posixView_drop [simp]: "posixView (dropFile name w) = (posixView w)(name := None)"
  by (simp add: posixView_def dropFile_def delete_conv')

lemma posixView_mounted [simp]: "posixView (w\<lparr>pwLockMounted := b\<rparr>) = posixView w"
  by (simp add: posixView_def)

lemma posixHealthy_upd [simp]:
  "posixHealthy (putFile name d w) = posixHealthy w"
  "posixHealthy (dropFile name w) = posixHealthy w"
  "posixHealthy (w\<lparr>pwLockMounted := b\<rparr>) = posixHealthy w"
  by (simp_all add: posixHealthy_def putFile_def dropFile_def)

lemma posixReadable_upd [simp]:
  "posixReadable (putFile name d w) = posixReadable w"
  "posixReadable (dropFile name w) = posixReadable w"
  "posixReadable (w\<lparr>pwLockMounted := b\<rparr>) = posixReadable w"
  "posixReadable (stepOutcome w) = posixReadable w"
  by (simp_all add: posixReadable_def putFile_def dropFile_def stepOutcome_def nextOutcome_def
      split: list.splits)

lemmas posix_op_defs =
  posixMount_def posixReadFile_def posixWriteFile_def posixReadAt_def posixWriteAt_def
  posixResizeFile_def posixFileSize_def posixRemoveFile_def posixListFiles_def
  posixFs_def nextOutcome_eq Let_def

lemmas posix_splits = io_outcome.splits option.splits if_splits

lemma dom_posixView: "dom (posixView w) = set (map fst (pwFiles w))"
  by (simp add: posixView_def dom_map_of_conv_image_fst)

lemma posixReadAt_view:
  assumes r: "posixReadAt name off n w = ((st, d), w')"
  shows "posixView w' = posixView w \<and>
    (ok st \<longrightarrow> (\<exists>c. posixView w name = Some c \<and> d = take n (drop (unat off) c) \<and> length d = n))"
proof (cases "n = 0")
  case True
  with r show ?thesis by (auto simp: posix_op_defs split: posix_splits)
next
  case False
  then have "length (take n (take k (take (n - 1) xs))) \<noteq> n" for k and xs :: bytes
    by auto
  with r show ?thesis
    by (auto simp: posix_op_defs simp del: take_take length_take split: posix_splits)
qed

interpretation posix: file_system posixFs posixView posixHealthy
proof unfold_locales
  show "fs_present posixFs" by (simp add: posixFs_def)
next
  fix base w st w'
  assume m: "fs_mount posixFs base w = (st, w')"
  then show "posixView w' = posixView w"
    by (auto simp: posix_op_defs split: posix_splits)
  assume "posixHealthy w"
  with m show "ok st \<and> posixHealthy w'"
    by (auto simp: posix_op_defs split: posix_splits)
next
  fix name w st d w'
  assume r: "fs_readFile posixFs name w = ((st, d), w')"
  then show "posixView w' = posixView w \<and> (ok st \<longrightarrow> posixView w name = Some d)"
    by (auto simp: posix_op_defs split: posix_splits)
  assume "posixHealthy w"
  with r show "posixHealthy w' \<and> (posixView w name \<noteq> None \<longrightarrow> ok st)"
    by (auto simp: posix_op_defs
        split: posix_splits)
next
  fix name off n w st d w'
  assume r: "fs_readAt posixFs name off n w = ((st, d), w')"
  then show "posixView w' = posixView w \<and>
      (ok st \<longrightarrow> (\<exists>c. posixView w name = Some c \<and> d = take n (drop (unat off) c) \<and> length d = n))"
    using posixReadAt_view by (simp add: posixFs_def)
  assume "posixHealthy w"
  with r show "posixHealthy w' \<and>
      ((\<exists>c. posixView w name = Some c \<and> unat off + n \<le> length c) \<longrightarrow> ok st)"
    by (auto simp: posix_op_defs
        split: posix_splits)
next
  fix name d w st w'
  assume r: "fs_writeFile posixFs name d w = (st, w')"
  show "posixView w' = (posixView w)(name := Some d)" if "ok st"
    using r that
    by (auto simp: posix_op_defs split: posix_splits)
  show "\<exists>v. posixView w' = (posixView w)(name := v)
      \<and> (v = None \<or> v = posixView w name \<or> (\<exists>k \<le> length d. v = Some (take k d)))"
    if "\<not> ok st"
  proof -
    from r that consider "posixView w' = posixView w"
      | k where "posixView w' = (posixView w)(name := Some (take k d))"
      by (auto simp: posix_op_defs split: posix_splits)
    then show ?thesis
    proof cases
      case 1
      then show ?thesis by (intro exI [of _ "posixView w name"]) simp
    next
      case (2 k)
      then show ?thesis
        by (intro exI [of _ "Some (take k d)"] conjI disjI2 exI [of _ "min k (length d)"])
          (simp_all add: min_def)
    qed
  qed
  assume "posixHealthy w"
  with r show "ok st \<and> posixHealthy w'"
    by (auto simp: posix_op_defs split: posix_splits)
next
  fix name off d w st w'
  assume r: "fs_writeAt posixFs name off d w = (st, w')"
  show "\<exists>c. posixView w name = Some c
      \<and> posixView w' = (posixView w)(name := Some (overlay (unat off) d c))" if "ok st"
    using r that
    by (auto simp: posix_op_defs
        split: posix_splits)
  show "posixView w' = posixView w \<or> (\<exists>c k. posixView w name = Some c \<and> k \<le> length d
      \<and> posixView w' = (posixView w)(name := Some (overlay (unat off) (take k d) c)))"
    if "\<not> ok st"
  proof -
    from r that consider "posixView w' = posixView w"
      | c k where "posixView w name = Some c"
          "posixView w' = (posixView w)(name := Some (overlay (unat off) (take k d) c))"
      by (auto simp: posix_op_defs
          split: posix_splits)
    then show ?thesis
    proof cases
      case (2 c k)
      then show ?thesis
        by (intro disjI2 exI [of _ c] exI [of _ "min k (length d)"]) (simp add: min_def)
    qed simp
  qed
  assume "posixHealthy w"
  with r show "posixHealthy w' \<and> (posixView w name \<noteq> None \<longrightarrow> ok st)"
    by (auto simp: posix_op_defs
        split: posix_splits)
next
  fix name sz w st w' c
  assume r: "fs_resizeFile posixFs name sz w = (st, w')"
  show "posixView w' = (posixView w)(name := Some (take (unat sz) c))
      \<or> \<not> ok st \<and> posixView w' = posixView w"
    if "posixView w name = Some c" "unat sz \<le> length c"
    using r that
    by (auto simp: posix_op_defs
        split: posix_splits)
  assume "posixHealthy w"
  with r show "ok st \<and> posixHealthy w'"
    by (auto simp: posix_op_defs split: posix_splits)
next
  fix name w st sz w'
  assume r: "fs_fileSize posixFs name w = ((st, sz), w')"
  then show "posixView w' = posixView w
      \<and> (ok st \<longrightarrow> (\<exists>c. posixView w name = Some c \<and> sz = word_of_nat (length c)))"
    by (auto simp: posix_op_defs split: posix_splits)
  assume "posixHealthy w"
  with r show "posixHealthy w' \<and> (posixView w name \<noteq> None \<longrightarrow> ok st)"
    by (auto simp: posix_op_defs
        split: posix_splits)
next
  fix name w st w'
  assume r: "fs_removeFile posixFs name w = (st, w')"
  show "posixView w' = (posixView w)(name := None)" if "ok st"
    using r that
    by (auto simp: posix_op_defs split: posix_splits)
  show "posixView w' = posixView w" if "\<not> ok st"
    using r that
    by (auto simp: posix_op_defs split: posix_splits)
  assume "posixHealthy w"
  with r show "posixHealthy w' \<and> (posixView w name \<noteq> None \<longrightarrow> ok st)"
    by (auto simp: posix_op_defs split: posix_splits)
next
  fix w st names w'
  assume r: "fs_listFiles posixFs w = ((st, names), w')"
  then show "posixView w' = posixView w \<and> (ok st \<longrightarrow> set names = dom (posixView w))"
    by (auto simp: posix_op_defs dom_posixView
        simp del: set_map split: posix_splits)
  assume "posixHealthy w"
  with r show "ok st \<and> posixHealthy w'"
    by (auto simp: posix_op_defs split: posix_splits)
qed

interpretation posix: readable_file_system posixFs posixView posixHealthy posixReadable
proof unfold_locales
  show "posixHealthy w \<Longrightarrow> posixReadable w" for w by simp
  show "posixReadable w \<Longrightarrow> fs_readFile posixFs name w = ((st, d), w') \<Longrightarrow>
      posixReadable w' \<and> (posixView w name \<noteq> None \<longrightarrow> ok st)" for w name st d w'
    by (auto simp: posix_op_defs split: posix_splits)
  show "posixReadable w \<Longrightarrow> fs_fileSize posixFs name w = ((st, sz), w') \<Longrightarrow>
      posixReadable w' \<and> (posixView w name \<noteq> None \<longrightarrow> ok st)" for w name st sz w'
    by (auto simp: posix_op_defs split: posix_splits)
  show "posixReadable w \<Longrightarrow> fs_writeFile posixFs name d w = (st, w') \<Longrightarrow> posixReadable w'"
    for w name d st w'
    by (auto simp: posix_op_defs split: posix_splits)
  show "posixReadable w \<Longrightarrow> fs_writeAt posixFs name off d w = (st, w') \<Longrightarrow> posixReadable w'"
    for w name off d st w'
    by (auto simp: posix_op_defs split: posix_splits)
  show "posixReadable w \<Longrightarrow> fs_removeFile posixFs name w = (st, w') \<Longrightarrow> posixReadable w'"
    for w name st w'
    by (auto simp: posix_op_defs split: posix_splits)
qed

section \<open>The lock file\<close>

lemma removeStale_frame:
  assumes "removeStalePosixLock name w = (b, w')"
  shows "\<forall>other. other \<noteq> name \<longrightarrow> posixView w' other = posixView w other"
    and "posixReadable w \<Longrightarrow> posixReadable w'" and "posixHealthy w \<Longrightarrow> posixHealthy w'"
  using assms
  by (auto simp: removeStalePosixLock_def posix_op_defs split: posix_splits kill_outcome.splits)

lemma openExclusive_frame:
  assumes "openExclusive name w = (e, w')"
  shows "\<forall>other. other \<noteq> name \<longrightarrow> posixView w' other = posixView w other"
    and "posixReadable w \<Longrightarrow> posixReadable w'" and "posixHealthy w \<Longrightarrow> posixHealthy w'"
  using assms by (auto simp: openExclusive_def posix_op_defs split: posix_splits)

lemma writeLockContents_frame:
  assumes "writeLockContents name c w = (st, w')"
  shows "\<forall>other. other \<noteq> name \<longrightarrow> posixView w' other = posixView w other"
    and "ok st \<Longrightarrow> posixView w' name = Some c"
    and "posixReadable w \<Longrightarrow> posixReadable w'" and "posixHealthy w \<Longrightarrow> posixHealthy w'"
    and "code st = Ok \<or> code st = WriteFailed"
  using assms by (auto simp: writeLockContents_def posix_op_defs success_def failure_code_def ok_def split: posix_splits)

lemma posixAcquire_frame:
  assumes "posixAcquire n name c w = (st, w')"
  shows "(\<forall>other. other \<noteq> name \<longrightarrow> posixView w' other = posixView w other)
    \<and> (ok st \<longrightarrow> posixView w' name = Some c) \<and> (posixReadable w \<longrightarrow> posixReadable w')
    \<and> (posixHealthy w \<longrightarrow> posixHealthy w') \<and> code st \<in> {Ok, WriteFailed, LockTimeout}"
  using assms
proof (induction n name c w arbitrary: st w' rule: posixAcquire.induct)
  case (1 n name c w)
  obtain e w1 where o: "openExclusive name w = (e, w1)" by fastforce
  obtain b w2 where rm: "removeStalePosixLock name w1 = (b, w2)" by fastforce
  note f = openExclusive_frame [OF o] removeStale_frame [OF rm]
  show ?case
  proof (cases "n < 2 \<and> (\<exists>errno. e = Some errno \<and> errno = EEXIST \<and> n = 0 \<and> b)")
    case True
    then have e: "posixAcquire (Suc n) name c w2 = (st, w')"
      using "1.prems" o rm True by (auto simp: posixAcquire.simps [of 0])
    show ?thesis
      using "1.IH" [OF _ o [symmetric] refl _ _ _ rm [symmetric] refl, of EEXIST st w'] True e f
      by auto
  next
    case False
    note unf = "1.prems" [unfolded posixAcquire.simps [of n]]
    consider "2 \<le> n" | "n < 2" "e = None" | errno where "n < 2" "e = Some errno" by fastforce
    then show ?thesis
    proof cases
      case 1
      then show ?thesis using unf by (auto simp: failure_code_def ok_def)
    next
      case 2
      then have "writeLockContents name c w1 = (st, w')" using unf o by simp
      then show ?thesis using writeLockContents_frame [of name c w1 st w'] f(1-3) by auto
    next
      case 3
      then have "w' = w1 \<or> w' = w2" and "\<not> ok st" and "code st \<in> {WriteFailed, LockTimeout}"
        using unf o rm False by (simp_all add: Let_def failure_code_def ok_def split: if_splits) auto
      then show ?thesis using f by auto
    qed
  qed
qed

interpretation posix: locking_file_system posixFs posixView posixHealthy posixReadable
proof unfold_locales
  fix name c w st w' other
  show "(\<forall>other. other \<noteq> name \<longrightarrow> posixView w' other = posixView w other)
      \<and> (ok st \<longrightarrow> posixView w' name = Some c)"
    if "fs_tryAcquireLockFile posixFs name c w = (st, w')"
    using that posixAcquire_frame [of 0 name c w st w']
    by (auto simp: posixFs_def posixTryAcquireLockFile_def lockBackendMissing_def split: if_splits)
  show "code st \<noteq> InvalidRecord \<and> code st \<noteq> CrcMismatch"
    if "fs_tryAcquireLockFile posixFs name c w = (st, w')"
    using that posixAcquire_frame [of 0 name c w st w']
    by (auto simp: posixFs_def posixTryAcquireLockFile_def lockBackendMissing_def failure_code_def
        split: if_splits)
  show "posixReadable w'"
    if "posixReadable w" "fs_tryAcquireLockFile posixFs name c w = (st, w')"
    using that posixAcquire_frame [of 0 name c w st w']
    by (auto simp: posixFs_def posixTryAcquireLockFile_def split: if_splits)
  show "posixHealthy w'"
    if "posixHealthy w" "fs_tryAcquireLockFile posixFs name c w = (st, w')"
    using that posixAcquire_frame [of 0 name c w st w']
    by (auto simp: posixFs_def posixTryAcquireLockFile_def split: if_splits)
  show "(\<forall>other. other \<noteq> name \<longrightarrow> posixView w' other = posixView w other)
      \<and> (posixView w' name = posixView w name \<or> posixView w name = Some c \<and> posixView w' name = None)"
    if "fs_releaseLockFile posixFs name c w = (st, w')"
    using that
    by (auto simp: posixReleaseLockFile_def posixRelease_def posix_op_defs split: posix_splits)
  show "posixReadable w'" if "posixReadable w" "fs_releaseLockFile posixFs name c w = (st, w')"
    using that
    by (auto simp: posixReleaseLockFile_def posixRelease_def posix_op_defs split: posix_splits)
  show "posixHealthy w'" if "posixHealthy w" "fs_releaseLockFile posixFs name c w = (st, w')"
    using that
    by (auto simp: posixReleaseLockFile_def posixRelease_def posix_op_defs split: posix_splits)
  show "posixView w' other = posixView w other"
    if "fs_recoverStaleLockFile posixFs name c w = (st, w')" "other \<noteq> name"
    using that removeStale_frame(1) [of name "stepReadOutcome w"]
    by (auto simp: posixFs_def posixRecoverStaleLockFile_def posixRecoverStale_def nextOutcome_eq
        Let_def split: posix_splits prod.splits)
  show "posixReadable w'" if "posixReadable w" "fs_recoverStaleLockFile posixFs name c w = (st, w')"
    using that removeStale_frame(2) [of name "stepReadOutcome w"]
    by (auto simp: posixFs_def posixRecoverStaleLockFile_def posixRecoverStale_def nextOutcome_eq
        Let_def split: posix_splits prod.splits)
next
  fix name off n w st d w'
  assume "posixReadable w" "fs_readAt posixFs name off n w = ((st, d), w')"
  then show "posixReadable w' \<and> ((\<exists>c. posixView w name = Some c \<and> unat off + n \<le> length c) \<longrightarrow> ok st)"
    by (auto simp: posix_op_defs split: posix_splits)
qed

end
