(* ===== verification/Log_Format.thy ===== *)
theory Log_Format
  imports Status_Types
begin

text \<open>
  The binary format layer, \<open>append_log_common.h\<close> and \<open>append_log_common.cpp\<close>: the CRC, the
  little-endian writers and readers, the segment header, the ENQUEUE/REWRITE and POP events
  and the manifest, each with its serialiser and its parser.

  A parser that fills an out-parameter field by field takes the old value and gives the pair
  of its boolean result and the new value, since a caller (\<open>scanSegments\<close>) reads a field
  after a failed parse.  \<open>parseManifest\<close> writes its out-parameter only on success and is an
  \<open>option\<close>.
\<close>

section \<open>CRC-32\<close>

definition crcShift :: "u32 \<Rightarrow> u32" where
  "crcShift c = drop_bit 1 c XOR (if c AND 1 \<noteq> 0 then 0xEDB88320 else 0)"

definition kTable :: "u32 list" where
  "kTable = map (\<lambda>i. (crcShift ^^ 8) (word_of_nat i)) [0..<256]"

fun crcLoop :: "u32 \<Rightarrow> bytes \<Rightarrow> u32" where
  "crcLoop crc [] = crc"
| "crcLoop crc (p # ps) =
     crcLoop (kTable ! unat ((crc XOR ucast p) AND 0xFF) XOR drop_bit 8 crc) ps"

definition crc32 :: "u32 \<Rightarrow> bytes \<Rightarrow> u32" where
  "crc32 crc data = NOT (crcLoop (NOT crc) data)"

section \<open>Constants and structures\<close>

definition kSegmentMagic :: u32 where "kSegmentMagic = 0x47535150"
definition kEnqueueMagic :: u32 where "kEnqueueMagic = 0x51455150"
definition kPopMagic :: u32 where "kPopMagic = 0x45505150"
definition kRewriteMagic :: u32 where "kRewriteMagic = 0x45525150"
definition kFooterMagic :: u32 where "kFooterMagic = 0x214B4F50"
definition kManifestMagic :: u32 where "kManifestMagic = 0x464D5150"

definition kFormatVersion :: u16 where "kFormatVersion = 1"
definition kManifestVersion :: u16 where "kManifestVersion = 1"

definition kManifestFixedBytes :: u32 where "kManifestFixedBytes = 30"
definition kManifestMaxRanges :: u32 where "kManifestMaxRanges = 1024"
definition kManifestMaxTotalGenerations :: u32 where
  "kManifestMaxTotalGenerations = kManifestMaxRanges + 1"
definition kSegmentHeaderBytes :: u32 where "kSegmentHeaderBytes = 20"
definition kEnqueueHeaderBytes :: u32 where "kEnqueueHeaderBytes = 16"
definition kPopEventBytes :: u32 where "kPopEventBytes = 20"
definition kEventTrailerBytes :: u32 where "kEventTrailerBytes = 8"
definition kEnqueueOverheadBytes :: u32 where
  "kEnqueueOverheadBytes = kEnqueueHeaderBytes + kEventTrailerBytes"
definition kManifestRangeEntryBytes :: u32 where "kManifestRangeEntryBytes = 8"
definition kDrainReserveBytes :: u32 where "kDrainReserveBytes = 4096"

lemmas format_constants =
  kSegmentMagic_def kEnqueueMagic_def kPopMagic_def kRewriteMagic_def kFooterMagic_def
  kManifestMagic_def kFormatVersion_def kManifestVersion_def kManifestFixedBytes_def
  kManifestMaxRanges_def kManifestMaxTotalGenerations_def kSegmentHeaderBytes_def
  kEnqueueHeaderBytes_def kPopEventBytes_def kEventTrailerBytes_def
  kEnqueueOverheadBytes_def kManifestRangeEntryBytes_def kDrainReserveBytes_def

record segment_header =
  shMagic :: u32
  shVersion :: u16
  shHeaderBytes :: u16
  shGeneration :: u32
  shStartSeq :: u32
  shHeaderCrc :: u32

definition default_segment_header :: segment_header where
  "default_segment_header =
     \<lparr>shMagic = kSegmentMagic, shVersion = kFormatVersion,
      shHeaderBytes = ucast kSegmentHeaderBytes, shGeneration = 0, shStartSeq = 0,
      shHeaderCrc = 0\<rparr>"

record enqueue_header =
  ehMagic :: u32
  ehVersion :: u16
  ehHeaderBytes :: u16
  ehSequence :: u32
  ehPayloadBytes :: u32

definition default_enqueue_header :: enqueue_header where
  "default_enqueue_header =
     \<lparr>ehMagic = kEnqueueMagic, ehVersion = kFormatVersion,
      ehHeaderBytes = ucast kEnqueueHeaderBytes, ehSequence = 0, ehPayloadBytes = 0\<rparr>"

record pop_event =
  peMagic :: u32
  peVersion :: u16
  peHeaderBytes :: u16
  peSequence :: u32
  peEventCrc :: u32
  peFooter :: u32

definition default_pop_event :: pop_event where
  "default_pop_event =
     \<lparr>peMagic = kPopMagic, peVersion = kFormatVersion, peHeaderBytes = ucast kPopEventBytes,
      peSequence = 0, peEventCrc = 0, peFooter = kFooterMagic\<rparr>"

record manifest_range =
  startGen :: u32
  endGen :: u32

record manifest_data =
  epoch :: u32
  nextGeneration :: u32
  ranges :: "manifest_range list"
  tailGeneration :: u32

definition default_manifest :: manifest_data where
  "default_manifest = \<lparr>epoch = 0, nextGeneration = 1, ranges = [], tailGeneration = 0\<rparr>"

section \<open>Writers and readers\<close>

definition writeU32 :: "bytes \<Rightarrow> u32 \<Rightarrow> bytes" where
  "writeU32 buf v =
     buf @ [ucast (v AND 0xFF), ucast (drop_bit 8 v AND 0xFF),
            ucast (drop_bit 16 v AND 0xFF), ucast (drop_bit 24 v AND 0xFF)]"

definition writeU16 :: "bytes \<Rightarrow> u16 \<Rightarrow> bytes" where
  "writeU16 buf v = buf @ [ucast (v AND 0xFF), ucast (drop_bit 8 v AND 0xFF)]"

definition pushU32 :: "bytes \<Rightarrow> u32 \<Rightarrow> bytes" where
  "pushU32 buf v =
     buf @ [ucast (v AND 0xFF), ucast (drop_bit 8 v AND 0xFF),
            ucast (drop_bit 16 v AND 0xFF), ucast (drop_bit 24 v AND 0xFF)]"

definition pushU16 :: "bytes \<Rightarrow> u16 \<Rightarrow> bytes" where
  "pushU16 buf v = buf @ [ucast (v AND 0xFF), ucast (drop_bit 8 v AND 0xFF)]"

definition readU32 :: "bytes \<Rightarrow> nat \<Rightarrow> u32 option" where
  "readU32 buf off =
     (if off + 4 > length buf then None
      else Some ((ucast (buf ! off) :: u32) OR push_bit 8 (ucast (buf ! (off + 1)))
                 OR push_bit 16 (ucast (buf ! (off + 2)))
                 OR push_bit 24 (ucast (buf ! (off + 3)))))"

definition readU16 :: "bytes \<Rightarrow> nat \<Rightarrow> u16 option" where
  "readU16 buf off =
     (if off + 2 > length buf then None
      else Some ((ucast (buf ! off) :: u16) OR push_bit 8 (ucast (buf ! (off + 1)))))"

section \<open>Segment header and events\<close>

definition segmentHeaderCrc :: "segment_header \<Rightarrow> u32" where
  "segmentHeaderCrc h =
     (let buf = writeU32 [] (shMagic h);
          buf = writeU16 buf (shVersion h);
          buf = writeU16 buf (shHeaderBytes h);
          buf = writeU32 buf (shGeneration h);
          buf = writeU32 buf (shStartSeq h)
      in crc32 0 buf)"

definition popEventCrc :: "pop_event \<Rightarrow> u32" where
  "popEventCrc e =
     (let buf = writeU32 [] (peMagic e);
          buf = writeU16 buf (peVersion e);
          buf = writeU16 buf (peHeaderBytes e);
          buf = writeU32 buf (peSequence e)
      in crc32 0 buf)"

definition enqueueEventCrc :: "enqueue_header \<Rightarrow> bytes \<Rightarrow> u32" where
  "enqueueEventCrc h payload =
     (let buf = writeU32 [] (ehMagic h);
          buf = writeU16 buf (ehVersion h);
          buf = writeU16 buf (ehHeaderBytes h);
          buf = writeU32 buf (ehSequence h);
          buf = writeU32 buf (ehPayloadBytes h);
          buf = buf @ payload
      in crc32 0 buf)"

definition serializeSegmentHeader :: "u32 \<Rightarrow> u32 \<Rightarrow> bytes" where
  "serializeSegmentHeader generation startSeq =
     (let h = default_segment_header\<lparr>shGeneration := generation, shStartSeq := startSeq\<rparr>;
          h = h\<lparr>shHeaderCrc := segmentHeaderCrc h\<rparr>;
          buf = writeU32 [] (shMagic h);
          buf = writeU16 buf (shVersion h);
          buf = writeU16 buf (shHeaderBytes h);
          buf = writeU32 buf (shGeneration h);
          buf = writeU32 buf (shStartSeq h)
      in writeU32 buf (shHeaderCrc h))"

definition parseSegmentHeader :: "bytes \<Rightarrow> segment_header \<Rightarrow> bool \<times> segment_header" where
  "parseSegmentHeader bs out =
     (if length bs < unat kSegmentHeaderBytes then (False, out) else
      case readU32 bs 0 of None \<Rightarrow> (False, out) | Some v \<Rightarrow>
      let out = out\<lparr>shMagic := v\<rparr> in
      case readU16 bs 4 of None \<Rightarrow> (False, out) | Some v \<Rightarrow>
      let out = out\<lparr>shVersion := v\<rparr> in
      case readU16 bs 6 of None \<Rightarrow> (False, out) | Some v \<Rightarrow>
      let out = out\<lparr>shHeaderBytes := v\<rparr> in
      case readU32 bs 8 of None \<Rightarrow> (False, out) | Some v \<Rightarrow>
      let out = out\<lparr>shGeneration := v\<rparr> in
      case readU32 bs 12 of None \<Rightarrow> (False, out) | Some v \<Rightarrow>
      let out = out\<lparr>shStartSeq := v\<rparr> in
      case readU32 bs 16 of None \<Rightarrow> (False, out) | Some v \<Rightarrow>
      let out = out\<lparr>shHeaderCrc := v\<rparr> in
      (shMagic out = kSegmentMagic \<and> shVersion out = kFormatVersion
         \<and> shHeaderBytes out = ucast kSegmentHeaderBytes
         \<and> shHeaderCrc out = segmentHeaderCrc out, out))"

definition serializeEnqueueEvent :: "u32 \<Rightarrow> bytes \<Rightarrow> bytes" where
  "serializeEnqueueEvent sequence payload =
     (let h = default_enqueue_header\<lparr>ehSequence := sequence,
                ehPayloadBytes := word_of_nat (length payload)\<rparr>;
          crc = enqueueEventCrc h payload;
          buf = writeU32 [] (ehMagic h);
          buf = writeU16 buf (ehVersion h);
          buf = writeU16 buf (ehHeaderBytes h);
          buf = writeU32 buf (ehSequence h);
          buf = writeU32 buf (ehPayloadBytes h);
          buf = buf @ payload;
          buf = writeU32 buf crc
      in writeU32 buf kFooterMagic)"

definition serializeRewriteEvent :: "u32 \<Rightarrow> bytes \<Rightarrow> bytes" where
  "serializeRewriteEvent sequence payload =
     (let h = default_enqueue_header\<lparr>ehMagic := kRewriteMagic, ehSequence := sequence,
                ehPayloadBytes := word_of_nat (length payload)\<rparr>;
          crc = enqueueEventCrc h payload;
          buf = writeU32 [] (ehMagic h);
          buf = writeU16 buf (ehVersion h);
          buf = writeU16 buf (ehHeaderBytes h);
          buf = writeU32 buf (ehSequence h);
          buf = writeU32 buf (ehPayloadBytes h);
          buf = buf @ payload;
          buf = writeU32 buf crc
      in writeU32 buf kFooterMagic)"

definition serializePopEvent :: "u32 \<Rightarrow> bytes" where
  "serializePopEvent sequence =
     (let p = default_pop_event\<lparr>peSequence := sequence\<rparr>;
          p = p\<lparr>peEventCrc := popEventCrc p\<rparr>;
          buf = writeU32 [] (peMagic p);
          buf = writeU16 buf (peVersion p);
          buf = writeU16 buf (peHeaderBytes p);
          buf = writeU32 buf (peSequence p);
          buf = writeU32 buf (peEventCrc p)
      in writeU32 buf (peFooter p))"

definition parseEnqueueHeader :: "bytes \<Rightarrow> enqueue_header \<Rightarrow> bool \<times> enqueue_header" where
  "parseEnqueueHeader bs out =
     (if length bs < unat kEnqueueHeaderBytes then (False, out) else
      case readU32 bs 0 of None \<Rightarrow> (False, out) | Some v \<Rightarrow>
      let out = out\<lparr>ehMagic := v\<rparr> in
      case readU16 bs 4 of None \<Rightarrow> (False, out) | Some v \<Rightarrow>
      let out = out\<lparr>ehVersion := v\<rparr> in
      case readU16 bs 6 of None \<Rightarrow> (False, out) | Some v \<Rightarrow>
      let out = out\<lparr>ehHeaderBytes := v\<rparr> in
      case readU32 bs 8 of None \<Rightarrow> (False, out) | Some v \<Rightarrow>
      let out = out\<lparr>ehSequence := v\<rparr> in
      case readU32 bs 12 of None \<Rightarrow> (False, out) | Some v \<Rightarrow>
      let out = out\<lparr>ehPayloadBytes := v\<rparr> in
      ((ehMagic out = kEnqueueMagic \<or> ehMagic out = kRewriteMagic)
         \<and> ehVersion out = kFormatVersion
         \<and> ehHeaderBytes out = ucast kEnqueueHeaderBytes, out))"

definition parsePopEvent :: "bytes \<Rightarrow> pop_event \<Rightarrow> bool \<times> pop_event" where
  "parsePopEvent bs out =
     (if length bs < unat kPopEventBytes then (False, out) else
      case readU32 bs 0 of None \<Rightarrow> (False, out) | Some v \<Rightarrow>
      let out = out\<lparr>peMagic := v\<rparr> in
      case readU16 bs 4 of None \<Rightarrow> (False, out) | Some v \<Rightarrow>
      let out = out\<lparr>peVersion := v\<rparr> in
      case readU16 bs 6 of None \<Rightarrow> (False, out) | Some v \<Rightarrow>
      let out = out\<lparr>peHeaderBytes := v\<rparr> in
      case readU32 bs 8 of None \<Rightarrow> (False, out) | Some v \<Rightarrow>
      let out = out\<lparr>peSequence := v\<rparr> in
      case readU32 bs 12 of None \<Rightarrow> (False, out) | Some v \<Rightarrow>
      let out = out\<lparr>peEventCrc := v\<rparr> in
      case readU32 bs 16 of None \<Rightarrow> (False, out) | Some v \<Rightarrow>
      let out = out\<lparr>peFooter := v\<rparr> in
      (peMagic out = kPopMagic \<and> peVersion out = kFormatVersion
         \<and> peHeaderBytes out = ucast kPopEventBytes \<and> peFooter out = kFooterMagic
         \<and> peEventCrc out = popEventCrc out, out))"

section \<open>Manifest\<close>

fun pushRanges :: "bytes \<Rightarrow> manifest_range list \<Rightarrow> bytes" where
  "pushRanges out [] = out"
| "pushRanges out (r # rs) = pushRanges (pushU32 (pushU32 out (startGen r)) (endGen r)) rs"

definition manifestHeaderBytes :: "u16 \<Rightarrow> u16" where
  "manifestHeaderBytes rangeCount = ucast (kManifestFixedBytes + ucast rangeCount * 8)"

definition serialiseManifest :: "manifest_data \<Rightarrow> bytes" where
  "serialiseManifest m =
     (let rangeCount = (word_of_nat (length (ranges m)) :: u16);
          headerBytes = manifestHeaderBytes rangeCount;
          out = pushU32 [] kManifestMagic;
          out = pushU16 out kManifestVersion;
          out = pushU16 out headerBytes;
          out = pushU32 out (epoch m);
          out = pushU32 out (nextGeneration m);
          out = pushU16 out rangeCount;
          out = pushRanges out (ranges m);
          out = pushU32 out (tailGeneration m);
          crc = crc32 0 out;
          out = pushU32 out crc
      in pushU32 out kFooterMagic)"

definition leU32 :: "bytes \<Rightarrow> nat \<Rightarrow> (u32 \<times> nat) option" where
  "leU32 data off =
     (if off + 4 > length data then None
      else Some ((ucast (data ! off) :: u32) OR push_bit 8 (ucast (data ! (off + 1)))
                 OR push_bit 16 (ucast (data ! (off + 2)))
                 OR push_bit 24 (ucast (data ! (off + 3))), off + 4))"

definition leU16 :: "bytes \<Rightarrow> nat \<Rightarrow> (u16 \<times> nat) option" where
  "leU16 data off =
     (if off + 2 > length data then None
      else Some ((ucast (data ! off) :: u16) OR push_bit 8 (ucast (data ! (off + 1))), off + 2))"

fun parseRanges :: "nat \<Rightarrow> bytes \<Rightarrow> nat \<Rightarrow> (manifest_range list \<times> nat) option" where
  "parseRanges 0 data off = Some ([], off)"
| "parseRanges (Suc n) data off =
     do {
       (s, off) \<leftarrow> leU32 data off;
       (e, off) \<leftarrow> leU32 data off;
       if s = 0 then None
       else if e < s then None
       else do {
         (rs, off) \<leftarrow> parseRanges n data off;
         Some (\<lparr>startGen = s, endGen = e\<rparr> # rs, off)
       }
     }"

definition parseManifest :: "bytes \<Rightarrow> manifest_data option" where
  "parseManifest data =
     (if length data < unat kManifestFixedBytes then None else
      do {
        (magic, off) \<leftarrow> leU32 data 0;
        (version, off) \<leftarrow> leU16 data off;
        (headerBytes, off) \<leftarrow> leU16 data off;
        if magic \<noteq> kManifestMagic then None
        else if version \<noteq> kManifestVersion then None
        else do {
          (ep, off) \<leftarrow> leU32 data off;
          (nextGen, off) \<leftarrow> leU32 data off;
          (rangeCount, off) \<leftarrow> leU16 data off;
          if ucast rangeCount > kManifestMaxRanges then None
          else if headerBytes \<noteq> manifestHeaderBytes rangeCount then None
          else if length data \<noteq> unat headerBytes then None
          else do {
            (rs, off) \<leftarrow> parseRanges (unat rangeCount) data off;
            (tailGen, off) \<leftarrow> leU32 data off;
            if tailGen = 0 \<and> rangeCount \<noteq> 0 then None
            else do {
              let computedCrc = crc32 0 (take off data);
              (storedCrc, off) \<leftarrow> leU32 data off;
              if storedCrc \<noteq> computedCrc then None
              else do {
                (footer, off) \<leftarrow> leU32 data off;
                if footer \<noteq> kFooterMagic then None
                else Some \<lparr>epoch = ep, nextGeneration = nextGen, ranges = rs,
                           tailGeneration = tailGen\<rparr>
              }
            }
          }
        }
      })"

end
