(* ===== verification/Store_State.thy ===== *)
theory Store_State
  imports Posix_File_System Log_Format
begin

text \<open>
  The state of an \<open>AppendLogStore\<close> (\<open>append_log_store.h\<close>) and the helpers of
  \<open>append_log_store/store.cpp\<close> every operation uses: segment file names, diagnostics, the
  tracked whole-file write, the size estimate of an append and the admission test.

  The store's fields are those of the class, without the trailing underscore; \<open>world\<close> is the
  file system behind \<open>fs_\<close> and \<open>emitted\<close> what the event sink has received.  The build is
  the POSIX one: code under \<open>#ifdef ARDUINO\<close> (timers and log lines) is compiled out.
  \<open>fs_\<close> is resolved at construction (\<open>config.fileSystem\<close>).  The theories of the store are
  generic in the file system; they come after the POSIX one so that its interpretation of the
  contract carries every fact proved from the contract.
\<close>

section \<open>Configuration and state\<close>

record append_log_config =
  basePath :: string
  maxSegmentBytes :: u32
  maxTotalBytes :: u32
  minFreeBytes :: u32
  drainReserveBytes :: u32
  idleCompactionTargetSegments :: u8
  maxOutputSegments :: u8
  maxRecordBytes :: nat
  storeEvents :: event_options

definition default_append_log_config :: append_log_config where
  "default_append_log_config =
     \<lparr>basePath = [], maxSegmentBytes = 4096, maxTotalBytes = 128 * 1024,
      minFreeBytes = 32 * 1024, drainReserveBytes = 0, idleCompactionTargetSegments = 16,
      maxOutputSegments = 8, maxRecordBytes = 4096, storeEvents = \<lparr>sinkSet = False\<rparr>\<rparr>"

record segment_record =
  srSequence :: u32
  srGeneration :: u32
  srPayloadOffset :: u32
  srPayloadBytes :: u32

text \<open>The two manifest slots; a \<open>const char*\<close> to a slot name in the code.\<close>

datatype slot = SlotA | SlotB

fun slotName :: "slot \<Rightarrow> string" where
  "slotName SlotA = ''manifest-a.bin''"
| "slotName SlotB = ''manifest-b.bin''"

fun otherSlot :: "slot \<Rightarrow> slot" where
  "otherSlot SlotA = SlotB"
| "otherSlot SlotB = SlotA"

record 'w store =
  world :: 'w
  mounted :: bool
  activeGeneration :: u32
  activeSegmentBytes :: u32
  totalOnDiskBytes :: u32
  nextGen :: u32
  sealedSegmentBytes :: "u32 \<Rightarrow> u32 option"
  cachedWrittenSlot :: "slot option"
  cachedWrittenEpoch :: u32
  manifestSlotBytes :: "slot \<Rightarrow> u32"
  activeGenerations :: "u32 list"
  manifestRanges :: "manifest_range list"
  records :: "segment_record list"
  activeTailDependenciesTracked :: bool
  activeTailAffectedGenerations :: "u32 set"
  nextSequence :: u32
  emitted :: "event list"

text \<open>A store object just constructed over the world \<open>w\<close>.\<close>

definition newStore :: "'w \<Rightarrow> 'w store" where
  "newStore w =
     \<lparr>world = w, mounted = False, activeGeneration = 0, activeSegmentBytes = 0,
      totalOnDiskBytes = 0, nextGen = 1, sealedSegmentBytes = (\<lambda>_. None),
      cachedWrittenSlot = None, cachedWrittenEpoch = 0, manifestSlotBytes = (\<lambda>_. 0),
      activeGenerations = [], manifestRanges = [], records = [],
      activeTailDependenciesTracked = False, activeTailAffectedGenerations = {},
      nextSequence = 0, emitted = []\<rparr>"

text \<open>A call of the file system from a member function.\<close>

definition onWorld :: "('w \<Rightarrow> 'a \<times> 'w) \<Rightarrow> 'w store \<Rightarrow> 'a \<times> 'w store" where
  "onWorld f s = (let (r, w) = f (world s) in (r, s\<lparr>world := w\<rparr>))"

definition storeDiagnostic ::
  "append_log_config \<Rightarrow> severity \<Rightarrow> status \<Rightarrow> string \<Rightarrow> 'w store \<Rightarrow> status \<times> 'w store" where
  "storeDiagnostic cfg sev st operation s =
     (st, s\<lparr>emitted := emitEvent (storeEvents cfg)
               (diagnosticEvent sev st ''AppendLogStore'' operation) (emitted s)\<rparr>)"

section \<open>Segment file names\<close>

definition kSegmentPrefix :: string where "kSegmentPrefix = ''seg-''"
definition kSegmentSuffix :: string where "kSegmentSuffix = ''.bin''"
definition kMaxReplaySegmentReadBytes :: u64 where "kMaxReplaySegmentReadBytes = 256 * 1024"

text \<open>\<open>snprintf("%08x")\<close>\<close>

definition formatGeneration :: "u32 \<Rightarrow> string" where
  "formatGeneration gen =
     map (\<lambda>i. ''0123456789abcdef'' ! unat (drop_bit (28 - 4 * i) gen AND 15)) [0..<8]"

definition segmentName :: "u32 \<Rightarrow> string" where
  "segmentName generation = kSegmentPrefix @ formatGeneration generation @ kSegmentSuffix"

text \<open>\<open>isxdigit\<close> and the value \<open>stoul(_, 16)\<close> gives such a digit.\<close>

definition hexDigitValue :: "char \<Rightarrow> nat option" where
  "hexDigitValue c =
     (let n = (of_char c :: nat) in
      if 48 \<le> n \<and> n \<le> 57 then Some (n - 48)
      else if 97 \<le> n \<and> n \<le> 102 then Some (n - 87)
      else if 65 \<le> n \<and> n \<le> 70 then Some (n - 55)
      else None)"

fun hexValue :: "nat \<Rightarrow> string \<Rightarrow> nat option" where
  "hexValue acc [] = Some acc"
| "hexValue acc (c # cs) =
     (case hexDigitValue c of None \<Rightarrow> None | Some d \<Rightarrow> hexValue (acc * 16 + d) cs)"

text \<open>\<open>isSegmentName\<close>: the generation of a segment file name, \<open>None\<close> for any other name.\<close>

definition isSegmentName :: "string \<Rightarrow> u32 option" where
  "isSegmentName name =
     (if length name \<noteq> length kSegmentPrefix + 8 + length kSegmentSuffix then None
      else if take (length kSegmentPrefix) name \<noteq> kSegmentPrefix then None
      else if drop (length name - length kSegmentSuffix) name \<noteq> kSegmentSuffix then None
      else map_option word_of_nat
             (hexValue 0 (take 8 (drop (length kSegmentPrefix) name))))"

section \<open>Index\<close>

definition indexFromRecords :: "'w store \<Rightarrow> queue_index" where
  "indexFromRecords s =
     (if records s = [] then \<lparr>ixHead = nextSequence s, ixTail = nextSequence s, ixCount = 0\<rparr>
      else \<lparr>ixHead = srSequence (hd (records s)), ixTail = srSequence (last (records s)) + 1,
            ixCount = word_of_nat (length (records s))\<rparr>)"

section \<open>Tracked writes and size estimates\<close>

datatype write_disposition = MustBeNew | MayOverwrite

definition writeSegmentFileTracked ::
  "'w fs_ops \<Rightarrow> string \<Rightarrow> bytes \<Rightarrow> write_disposition \<Rightarrow> 'w store \<Rightarrow> status \<times> 'w store" where
  "writeSegmentFileTracked F name d disposition s =
     (let (oldSize, s) =
        (if disposition = MayOverwrite
         then let ((_, sz), s) = onWorld (fs_fileSize F name) s in (sz, s)
         else (0, s));
          (st, s) = onWorld (fs_writeFile F name d) s
      in if \<not> ok st then (st, s)
         else
           let newSz = (word_of_nat (length d) :: u32);
               oldSz = (ucast oldSize :: u32);
               s = (if newSz \<ge> oldSz
                    then s\<lparr>totalOnDiskBytes := totalOnDiskBytes s + (newSz - oldSz)\<rparr>
                    else s\<lparr>totalOnDiskBytes := totalOnDiskBytes s - (oldSz - newSz)\<rparr>);
               s = (case isSegmentName name of
                      None \<Rightarrow> s
                    | Some gen \<Rightarrow>
                        s\<lparr>sealedSegmentBytes := (sealedSegmentBytes s)(gen := Some newSz)\<rparr>)
           in (success, s))"

definition needsRotation :: "append_log_config \<Rightarrow> u32 \<Rightarrow> 'w store \<Rightarrow> bool" where
  "needsRotation cfg eventBytes s \<longleftrightarrow>
     activeSegmentBytes s > kSegmentHeaderBytes
     \<and> activeSegmentBytes s + eventBytes > maxSegmentBytes cfg"

definition appendGrowthBytes :: "append_log_config \<Rightarrow> u32 \<Rightarrow> 'w store \<Rightarrow> u32" where
  "appendGrowthBytes cfg recordSize s =
     (let eventBytes = kEnqueueOverheadBytes + recordSize;
          rotation = needsRotation cfg eventBytes s;
          needsNewSegment = (activeSegmentBytes s = 0 \<or> rotation)
      in if \<not> needsNewSegment then eventBytes
         else
           let prospectiveRanges =
                 (word_of_nat (length (manifestRanges s)) :: u32) + (if rotation then 1 else 0);
               newSlotSize = kManifestFixedBytes + kManifestRangeEntryBytes * prospectiveRanges;
               inactiveSize =
                 (case cachedWrittenSlot s of
                    Some SlotA \<Rightarrow> manifestSlotBytes s SlotB
                  | Some SlotB \<Rightarrow> manifestSlotBytes s SlotA
                  | None \<Rightarrow> min (manifestSlotBytes s SlotA) (manifestSlotBytes s SlotB));
               manifestGrowth =
                 (if newSlotSize > inactiveSize then newSlotSize - inactiveSize else 0)
           in eventBytes + kSegmentHeaderBytes + manifestGrowth)"

definition storeFreeBytes :: "'w fs_ops \<Rightarrow> 'w store \<Rightarrow> u64" where
  "storeFreeBytes F s = (if fs_present F then fs_freeBytes F (world s) else 0)"

definition appendWouldHitAdmissionPressure ::
  "'w fs_ops \<Rightarrow> append_log_config \<Rightarrow> u32 \<Rightarrow> 'w store \<Rightarrow> bool" where
  "appendWouldHitAdmissionPressure F cfg recordSize s =
     (let growth = appendGrowthBytes cfg recordSize s in
      if maxTotalBytes cfg > 0
         \<and> (ucast (totalOnDiskBytes s) :: u64) + ucast growth + ucast (drainReserveBytes cfg)
             > ucast (maxTotalBytes cfg)
      then True
      else if minFreeBytes cfg > 0
         \<and> storeFreeBytes F s
             < ucast (minFreeBytes cfg) + ucast growth + ucast (drainReserveBytes cfg)
      then True
      else False)"

definition canEnqueue :: "'w fs_ops \<Rightarrow> append_log_config \<Rightarrow> nat \<Rightarrow> 'w store \<Rightarrow> bool" where
  "canEnqueue F cfg recordSize s \<longleftrightarrow> storeFreeBytes F s \<ge> ucast (minFreeBytes cfg)"

section \<open>Segment names: round trip\<close>

lemma hexDigitValue_digit:
  "n < 16 \<Longrightarrow> hexDigitValue (''0123456789abcdef'' ! n) = Some n"
proof -
  assume "n < 16"
  then have "n \<in> set [0..<16]" by simp
  then show ?thesis by (auto simp: upt_conv_Cons hexDigitValue_def)
qed

lemma hexValue_digits:
  "\<forall>d \<in> set ds. d < 16 \<Longrightarrow>
   hexValue acc (map (\<lambda>d. ''0123456789abcdef'' ! d) ds) = Some (foldl (\<lambda>a d. a * 16 + d) acc ds)"
  by (induction ds arbitrary: acc) (simp_all add: hexDigitValue_digit)

lemma nibble_less: "unat ((x :: u32) AND 15) < 16"
proof -
  have "x AND 15 \<le> 15" by (rule word_and_le1)
  then show ?thesis by (simp add: word_le_nat_alt)
qed

lemma unat_nibble: "unat (drop_bit k (x :: u32) AND 15) = unat x div 2 ^ k mod 16"
proof -
  have "drop_bit k x AND 15 = take_bit 4 (drop_bit k x)"
    by (simp only: take_bit_eq_mask) (simp add: mask_numeral)
  moreover have "unat (take_bit 4 (drop_bit k x)) = take_bit 4 (drop_bit k (unat x))"
  proof -
    have "unat x < 2 ^ 32" using unsigned_less [of x, where ?'a = nat] by simp
    then have "take_bit 32 (unat x) = unat x" by (rule take_bit_nat_eq_self)
    then show ?thesis by (simp only: unsigned_take_bit_eq unsigned_drop_bit_eq) simp
  qed
  ultimately show ?thesis by (simp only: take_bit_eq_mod drop_bit_eq_div) simp
qed

lemma hex_step: "n div (m * 16) * 16 + n div m mod 16 = n div (m :: nat)"
  by (simp add: div_mult2_eq)

lemma formatGeneration_value: "hexValue 0 (formatGeneration gen) = Some (unat gen)"
proof -
  define ds where "ds = map (\<lambda>i. unat (drop_bit (28 - 4 * i) gen AND 15)) [0..<8]"
  have f: "formatGeneration gen = map (\<lambda>d. ''0123456789abcdef'' ! d) ds"
    by (simp add: formatGeneration_def ds_def)
  have "hexValue 0 (formatGeneration gen) = Some (foldl (\<lambda>a d. a * 16 + d) 0 ds)"
    unfolding f by (rule hexValue_digits) (auto simp: ds_def nibble_less)
  also have "foldl (\<lambda>a d. a * 16 + d) 0 ds = unat gen"
  proof -
    define n where "n = unat gen"
    have n: "n < 4294967296" using unsigned_less [of gen, where ?'a = nat] by (simp add: n_def)
    have "ds = [n div 268435456 mod 16, n div 16777216 mod 16, n div 1048576 mod 16,
        n div 65536 mod 16, n div 4096 mod 16, n div 256 mod 16, n div 16 mod 16, n mod 16]"
      by (simp add: ds_def n_def unat_nibble upt_conv_Cons)
    moreover have "n div 268435456 mod 16 = n div 268435456" using n by simp
    ultimately show ?thesis
      using hex_step [of n 16777216] hex_step [of n 1048576] hex_step [of n 65536]
        hex_step [of n 4096] hex_step [of n 256] hex_step [of n 16] hex_step [of n 1]
      by (simp add: n_def [symmetric])
  qed
  finally show ?thesis .
qed

lemma length_formatGeneration [simp]: "length (formatGeneration gen) = 8"
  by (simp add: formatGeneration_def)

lemma isSegmentName_segmentName [simp]: "isSegmentName (segmentName gen) = Some gen"
  by (simp add: isSegmentName_def segmentName_def kSegmentPrefix_def kSegmentSuffix_def
      formatGeneration_value)

lemma segmentName_inj [simp]: "segmentName a = segmentName b \<longleftrightarrow> a = b"
  by (metis isSegmentName_segmentName option.inject)

lemma isSegmentName_slot [simp]: "isSegmentName (slotName sl) = None"
  by (cases sl) (simp_all add: isSegmentName_def kSegmentPrefix_def kSegmentSuffix_def)

lemma segmentName_not_slot [simp]: "segmentName gen \<noteq> slotName sl" "slotName sl \<noteq> segmentName gen"
  by (metis isSegmentName_segmentName isSegmentName_slot option.distinct(1))+

lemma slotName_inj [simp]: "slotName a = slotName b \<longleftrightarrow> a = b"
  by (cases a; cases b) simp_all

lemma otherSlot_simps [simp]: "otherSlot sl \<noteq> sl" "sl \<noteq> otherSlot sl" "otherSlot (otherSlot sl) = sl"
  by (cases sl; simp)+

section \<open>Calls of the file system\<close>

lemma onWorld_eq: "onWorld f s = (r, s') \<longleftrightarrow> (\<exists>w. f (world s) = (r, w) \<and> s' = s\<lparr>world := w\<rparr>)"
  by (auto simp: onWorld_def split: prod.splits)

text \<open>What a tracked write does to the store and, by the contract of the file system, to the
  directory.\<close>

definition partialWrite ::
  "(string \<Rightarrow> bytes option) \<Rightarrow> string \<Rightarrow> bytes \<Rightarrow> (string \<Rightarrow> bytes option) \<Rightarrow> bool" where
  "partialWrite v name d v' \<longleftrightarrow>
     (\<exists>x. v' = v(name := x)
        \<and> (x = None \<or> x = v name \<or> (\<exists>k \<le> length d. x = Some (take k d))))"

lemma writeSegmentFileTracked_shape:
  assumes w: "writeSegmentFileTracked F name d disposition s = (st, s')"
  shows "\<exists>w1 st0 w2.
    (w1 = world s \<or> w1 = snd (fs_fileSize F name (world s)))
    \<and> fs_writeFile F name d w1 = (st0, w2) \<and> ok st0 = ok st
    \<and> (\<not> ok st \<longrightarrow> s' = s\<lparr>world := w2\<rparr>)
    \<and> (ok st \<longrightarrow> st = success \<and> (\<exists>t. s' = s\<lparr>world := w2, totalOnDiskBytes := t,
        sealedSegmentBytes := (case isSegmentName name of None \<Rightarrow> sealedSegmentBytes s
          | Some gen \<Rightarrow> (sealedSegmentBytes s)(gen := Some (word_of_nat (length d))))\<rparr>))"
proof -
  define w1 where
    "w1 = (if disposition = MayOverwrite then snd (fs_fileSize F name (world s)) else world s)"
  obtain st0 w2 where f: "fs_writeFile F name d w1 = (st0, w2)" by fastforce
  have "ok st0 = ok st \<and> (\<not> ok st \<longrightarrow> s' = s\<lparr>world := w2\<rparr>) \<and> (ok st \<longrightarrow> st = success \<and> (\<exists>t. s' = s\<lparr>world := w2, totalOnDiskBytes := t,
        sealedSegmentBytes := (case isSegmentName name of None \<Rightarrow> sealedSegmentBytes s
          | Some gen \<Rightarrow> (sealedSegmentBytes s)(gen := Some (word_of_nat (length d))))\<rparr>))"
    using w f
    by (cases "disposition = MayOverwrite"; cases "isSegmentName name"; cases s)
      (auto simp: writeSegmentFileTracked_def onWorld_def Let_def w1_def
        split: prod.splits if_splits)
  with f show ?thesis by (intro exI [of _ w1] exI [of _ st0] exI [of _ w2]) (auto simp: w1_def)
qed

context file_system
begin

lemma view_after_size: "w1 = w \<or> w1 = snd (fs_fileSize F name w) \<Longrightarrow> view w1 = view w"
  using size_view [of name w] by (metis prod.collapse)

lemma writeTracked_ok:
  assumes "writeSegmentFileTracked F name d disposition s = (st, s')" and "ok st"
  shows "st = success \<and> (\<exists>w2. view w2 = (view (world s))(name := Some d) \<and> (\<exists>t. s' = s\<lparr>world := w2, totalOnDiskBytes := t,
        sealedSegmentBytes := (case isSegmentName name of None \<Rightarrow> sealedSegmentBytes s
          | Some gen \<Rightarrow> (sealedSegmentBytes s)(gen := Some (word_of_nat (length d))))\<rparr>))"
  using writeSegmentFileTracked_shape [OF assms(1)] assms(2) view_after_size write_ok by metis

lemma writeTracked_fail:
  assumes "writeSegmentFileTracked F name d disposition s = (st, s')" and "\<not> ok st"
  shows "\<exists>w. partialWrite (view (world s)) name d (view w) \<and> s' = s\<lparr>world := w\<rparr>"
  using writeSegmentFileTracked_shape [OF assms(1)] assms(2) view_after_size write_fail
  unfolding partialWrite_def by metis

lemma healthy_after_size:
  "w1 = w \<or> w1 = snd (fs_fileSize F name w) \<Longrightarrow> healthy w \<Longrightarrow> healthy w1"
  using size_healthy [of w name] by (metis prod.collapse)

lemma writeTracked_healthy:
  assumes w: "writeSegmentFileTracked F name d disposition s = (st, s')" and h: "healthy (world s)"
  shows "ok st \<and> healthy (world s')"
proof -
  obtain w1 st0 w2 where s: "w1 = world s \<or> w1 = snd (fs_fileSize F name (world s))"
    "fs_writeFile F name d w1 = (st0, w2)" "ok st0 = ok st"
    "ok st \<longrightarrow> st = success \<and> (\<exists>t. s' = s\<lparr>world := w2, totalOnDiskBytes := t,
        sealedSegmentBytes := (case isSegmentName name of None \<Rightarrow> sealedSegmentBytes s
          | Some gen \<Rightarrow> (sealedSegmentBytes s)(gen := Some (word_of_nat (length d))))\<rparr>)"
    using writeSegmentFileTracked_shape [OF w] by blast
  have "ok st0 \<and> healthy w2" using write_healthy [OF healthy_after_size [OF s(1) h] s(2)] .
  with s show ?thesis by auto
qed

end

end
