(* ===== verification/Format_Correct.thy ===== *)
theory Format_Correct
  imports Log_Format
begin

text \<open>
  Correctness of the binary format: the table-driven CRC against the bit-serial definition,
  CRC detection of a damaged byte, round trips of every serialiser and parser, canonicity of
  the manifest (a parsed slot is byte for byte the serialisation of its value), and rejection
  of every truncated manifest.
\<close>

section \<open>Writers and readers\<close>

lemma mask_255: "(255 :: 'a :: len word) = mask 8"
  by (simp add: mask_numeral)

lemma ucast_mask_u32 [byte_simps]: "(ucast ((v :: u32) AND 0xFF) :: u8) = ucast v"
  by (rule bit_word_eqI) (auto simp: bit_simps mask_255)

lemma ucast_mask_u16 [byte_simps]: "(ucast ((v :: u16) AND 0xFF) :: u8) = ucast v"
  by (rule bit_word_eqI) (auto simp: bit_simps mask_255)

lemma writeU32_le4 [byte_simps]: "writeU32 buf v = buf @ le4 v"
  by (simp add: writeU32_def le4_def byte_simps)

lemma writeU16_le2 [byte_simps]: "writeU16 buf v = buf @ le2 v"
  by (simp add: writeU16_def le2_def byte_simps)

lemma pushU32_le4 [byte_simps]: "pushU32 buf v = buf @ le4 v"
  by (simp add: pushU32_def le4_def byte_simps)

lemma pushU16_le2 [byte_simps]: "pushU16 buf v = buf @ le2 v"
  by (simp add: pushU16_def le2_def byte_simps)

lemma un_le4_nth: "un_le4 (le4 v ! 0) (le4 v ! 1) (le4 v ! 2) (le4 v ! 3) = v"
  by (simp add: le4_def)

lemma un_le2_nth: "un_le2 (le2 v ! 0) (le2 v ! 1) = v"
  by (simp add: le2_def)

lemma le4_inj [simp]: "le4 a = le4 b \<longleftrightarrow> a = b"
  by (metis un_le4_nth)

lemma le2_inj [simp]: "le2 a = le2 b \<longleftrightarrow> a = b"
  by (metis un_le2_nth)

lemma leU32_drop: "drop off data = le4 v @ ys \<Longrightarrow> leU32 data off = Some (v, off + 4)"
proof -
  assume d: "drop off data = le4 v @ ys"
  have len: "off + 4 \<le> length data"
    using arg_cong [OF d, of length] by simp
  have nth: "data ! (off + i) = (le4 v @ ys) ! i" if "i < 4" for i
    using len d that by (metis add_leD1 nth_drop)
  show ?thesis
    using len nth [of 0] nth [of 1] nth [of 2] nth [of 3] un_le4_le4 [of v]
    by (simp add: leU32_def le4_def un_le4_def)
qed

lemma leU16_drop: "drop off data = le2 v @ ys \<Longrightarrow> leU16 data off = Some (v, off + 2)"
proof -
  assume d: "drop off data = le2 v @ ys"
  have len: "off + 2 \<le> length data"
    using arg_cong [OF d, of length] by simp
  have nth: "data ! (off + i) = (le2 v @ ys) ! i" if "i < 2" for i
    using len d that by (metis add_leD1 nth_drop)
  show ?thesis
    using len nth [of 0] nth [of 1] un_le2_le2 [of v]
    by (simp add: leU16_def le2_def un_le2_def)
qed

lemma leU32_SomeD:
  assumes "leU32 data off = Some (v, off')"
  shows "off' = off + 4" "off' \<le> length data" "take off' data = take off data @ le4 v"
proof -
  show off': "off' = off + 4" and len: "off' \<le> length data"
    using assms by (auto simp: leU32_def split: if_splits)
  have v: "v = un_le4 (data ! off) (data ! (off + 1)) (data ! (off + 2)) (data ! (off + 3))"
    using assms by (auto simp: leU32_def un_le4_def split: if_splits)
  have "take (off + 4) data
      = take off data @ [data ! off, data ! (off + 1), data ! (off + 2), data ! (off + 3)]"
    using len off' by (simp add: take_Suc_conv_app_nth numeral_eq_Suc)
  then show "take off' data = take off data @ le4 v"
    by (simp add: off' v le4_un_le4)
qed

lemma leU16_SomeD:
  assumes "leU16 data off = Some (v, off')"
  shows "off' = off + 2" "off' \<le> length data" "take off' data = take off data @ le2 v"
proof -
  show off': "off' = off + 2" and len: "off' \<le> length data"
    using assms by (auto simp: leU16_def split: if_splits)
  have v: "v = un_le2 (data ! off) (data ! (off + 1))"
    using assms by (auto simp: leU16_def un_le2_def split: if_splits)
  have "take (off + 2) data = take off data @ [data ! off, data ! (off + 1)]"
    using len off' by (simp add: take_Suc_conv_app_nth numeral_eq_Suc)
  then show "take off' data = take off data @ le2 v"
    by (simp add: off' v le2_un_le2)
qed

lemma readU32_leU32: "readU32 buf off = map_option fst (leU32 buf off)"
  by (simp add: readU32_def leU32_def)

lemma readU16_leU16: "readU16 buf off = map_option fst (leU16 buf off)"
  by (simp add: readU16_def leU16_def)

lemma readU32_drop: "drop off data = le4 v @ ys \<Longrightarrow> readU32 data off = Some v"
  by (simp add: readU32_leU32 leU32_drop)

lemma readU16_drop: "drop off data = le2 v @ ys \<Longrightarrow> readU16 data off = Some v"
  by (simp add: readU16_leU16 leU16_drop)

section \<open>Manifest\<close>

definition wf_range :: "manifest_range \<Rightarrow> bool" where
  "wf_range r \<longleftrightarrow> startGen r \<noteq> 0 \<and> startGen r \<le> endGen r"

definition wf_manifest :: "manifest_data \<Rightarrow> bool" where
  "wf_manifest m \<longleftrightarrow>
     length (ranges m) \<le> 1024 \<and> (\<forall>r \<in> set (ranges m). wf_range r)
     \<and> (tailGeneration m = 0 \<longrightarrow> ranges m = [])"

definition encRanges :: "manifest_range list \<Rightarrow> bytes" where
  "encRanges rs = concat (map (\<lambda>r. le4 (startGen r) @ le4 (endGen r)) rs)"

lemma encRanges_simps [simp]:
  "encRanges [] = []"
  "encRanges (r # rs) = le4 (startGen r) @ le4 (endGen r) @ encRanges rs"
  by (simp_all add: encRanges_def)

lemma length_encRanges [simp]: "length (encRanges rs) = 8 * length rs"
  by (induction rs) auto

lemma pushRanges_enc: "pushRanges out rs = out @ encRanges rs"
  by (induction rs arbitrary: out) (auto simp: byte_simps)

definition manifestBody :: "manifest_data \<Rightarrow> bytes" where
  "manifestBody m =
     le4 kManifestMagic @ le2 kManifestVersion
     @ le2 (manifestHeaderBytes (word_of_nat (length (ranges m))))
     @ le4 (epoch m) @ le4 (nextGeneration m) @ le2 (word_of_nat (length (ranges m)))
     @ encRanges (ranges m) @ le4 (tailGeneration m)"

lemma serialiseManifest_body:
  "serialiseManifest m = manifestBody m @ le4 (crc32 0 (manifestBody m)) @ le4 kFooterMagic"
  by (simp add: serialiseManifest_def manifestBody_def Let_def byte_simps pushRanges_enc)

lemma length_manifestBody [simp]: "length (manifestBody m) = 22 + 8 * length (ranges m)"
  by (simp add: manifestBody_def)

lemma length_serialiseManifest: "length (serialiseManifest m) = 30 + 8 * length (ranges m)"
  by (simp add: serialiseManifest_body)

lemma unat_manifestHeaderBytes:
  "n \<le> 1024 \<Longrightarrow> unat (manifestHeaderBytes (word_of_nat n)) = 30 + 8 * n"
  by (simp add: manifestHeaderBytes_def kManifestFixedBytes_def unsigned_ucast_eq unat_word_ariths
      unat_of_nat take_bit_eq_mod)

lemma parseRanges_drop:
  "drop off data = encRanges rs @ ys \<Longrightarrow> \<forall>r \<in> set rs. wf_range r \<Longrightarrow>
   parseRanges (length rs) data off = Some (rs, off + 8 * length rs)"
proof (induction rs arbitrary: off)
  case Nil
  then show ?case by simp
next
  case (Cons r rs)
  have d: "drop off data = le4 (startGen r) @ le4 (endGen r) @ encRanges rs @ ys"
    using Cons.prems by simp
  have d4: "drop (off + 4) data = le4 (endGen r) @ encRanges rs @ ys"
    using arg_cong [OF d, of "drop 4"] by (simp add: add.commute)
  have d8: "drop (off + 8) data = encRanges rs @ ys"
    using arg_cong [OF d, of "drop 8"] by (simp add: add.commute)
  have "parseRanges (length rs) data (off + 8) = Some (rs, off + 8 + 8 * length rs)"
    using d8 Cons.prems by (intro Cons.IH) auto
  moreover have "leU32 data off = Some (startGen r, off + 4)"
    using d by (rule leU32_drop)
  moreover have "leU32 data (off + 4) = Some (endGen r, off + 4 + 4)"
    using d4 by (rule leU32_drop)
  moreover have "startGen r \<noteq> 0" "\<not> endGen r < startGen r"
    using Cons.prems by (auto simp: wf_range_def)
  ultimately show ?case by (simp add: add.assoc)
qed

lemma parseRanges_SomeD:
  "parseRanges n data off = Some (rs, off') \<Longrightarrow>
   length rs = n \<and> (\<forall>r \<in> set rs. wf_range r) \<and> (off \<le> length data \<longrightarrow> off' \<le> length data)
   \<and> take off' data = take off data @ encRanges rs"
proof (induction n arbitrary: off rs off')
  case 0
  then show ?case by simp
next
  case (Suc n)
  then obtain s o1 e o2 rs' where r1: "leU32 data off = Some (s, o1)"
    and r2: "leU32 data o1 = Some (e, o2)" and ok: "s \<noteq> 0" "\<not> e < s"
    and rest: "parseRanges n data o2 = Some (rs', off')"
    and rs: "rs = \<lparr>startGen = s, endGen = e\<rparr> # rs'"
    by (auto simp: bind_eq_Some_conv split: if_splits)
  note d1 = leU32_SomeD [OF r1] and d2 = leU32_SomeD [OF r2]
  show ?case
    using Suc.IH [OF rest] d1 d2 ok by (auto simp: rs wf_range_def)
qed

lemma parseManifest_serialise:
  assumes wf: "wf_manifest m"
  shows "parseManifest (serialiseManifest m) = Some m"
proof -
  define n where "n = length (ranges m)"
  define d where "d = serialiseManifest m"
  have n: "n \<le> 1024" and wr: "\<forall>r \<in> set (ranges m). wf_range r"
    and tl: "tailGeneration m = 0 \<Longrightarrow> ranges m = []"
    using wf by (auto simp: wf_manifest_def n_def)
  have len: "length d = 30 + 8 * n" by (simp add: d_def n_def length_serialiseManifest)
  have d0: "drop 0 d = le4 kManifestMagic @ le2 kManifestVersion
      @ le2 (manifestHeaderBytes (word_of_nat n)) @ le4 (epoch m) @ le4 (nextGeneration m)
      @ le2 (word_of_nat n) @ encRanges (ranges m) @ le4 (tailGeneration m)
      @ le4 (crc32 0 (manifestBody m)) @ le4 kFooterMagic"
    by (simp add: d_def n_def serialiseManifest_body manifestBody_def)
  note step = arg_cong [OF d0, of "drop k" for k, simplified drop_drop]
  have un: "unat (word_of_nat n :: u16) = n"
    using n by (simp add: unat_of_nat)
  have u32n: "\<not> (ucast (word_of_nat n :: u16) :: u32) > kManifestMaxRanges"
    using n un by (simp add: kManifestMaxRanges_def word_less_nat_alt unsigned_ucast_eq take_bit_eq_mod)
  have nz: "(word_of_nat n :: u16) \<noteq> 0 \<longleftrightarrow> ranges m \<noteq> []"
    using un n by (metis n_def length_0_conv unat_0 unat_eq_zero word_of_nat_eq_0_iff unsigned_0 of_nat_0)
  have r1: "leU32 d 0 = Some (kManifestMagic, 4)" using leU32_drop [OF d0] by simp
  have r2: "leU16 d 4 = Some (kManifestVersion, 6)"
    using leU16_drop [OF step [of 4, simplified]] by simp
  have r3: "leU16 d 6 = Some (manifestHeaderBytes (word_of_nat n), 8)"
    using leU16_drop [OF step [of 6, simplified]] by simp
  have r4: "leU32 d 8 = Some (epoch m, 12)"
    using leU32_drop [OF step [of 8, simplified]] by simp
  have r5: "leU32 d 12 = Some (nextGeneration m, 16)"
    using leU32_drop [OF step [of 12, simplified]] by simp
  have r6: "leU16 d 16 = Some (word_of_nat n, 18)"
    using leU16_drop [OF step [of 16, simplified]] by simp
  have r7: "parseRanges n d 18 = Some (ranges m, 18 + 8 * n)"
    using parseRanges_drop [OF step [of 18, simplified] wr] by (simp add: n_def)
  have d18: "drop (18 + 8 * n) d = le4 (tailGeneration m) @ le4 (crc32 0 (manifestBody m))
      @ le4 kFooterMagic"
    using step [of "18 + 8 * n"] by (simp add: n_def)
  have r8: "leU32 d (18 + 8 * n) = Some (tailGeneration m, 22 + 8 * n)"
    using leU32_drop [OF d18] by simp
  have r9: "leU32 d (22 + 8 * n) = Some (crc32 0 (manifestBody m), 26 + 8 * n)"
    using leU32_drop [of "22 + 8 * n" d] arg_cong [OF d18, of "drop 4"] by (simp add: ac_simps)
  have r10: "leU32 d (26 + 8 * n) = Some (kFooterMagic, 30 + 8 * n)"
    using leU32_drop [of "26 + 8 * n" d "kFooterMagic" "[]"] arg_cong [OF d18, of "drop 8"]
    by (simp add: ac_simps)
  have crc: "take (22 + 8 * n) d = manifestBody m"
    by (simp add: d_def n_def serialiseManifest_body)
  have "parseManifest d = Some m"
    using len n tl nz u32n
    by (simp add: parseManifest_def r1 r2 r3 r4 r5 r6 r7 r8 r9 r10 un crc Let_def
        unat_manifestHeaderBytes kManifestFixedBytes_def)
  then show ?thesis by (simp add: d_def)
qed

lemma parseManifest_SomeD:
  assumes p: "parseManifest data = Some m"
  shows "wf_manifest m" "serialiseManifest m = data"
proof -
  obtain mg o1 vs o2 hb o3 ep o4 ng o5 rc o6 rs o7 tg o8 sc o9 ft o10 where
    r: "leU32 data 0 = Some (mg, o1)" "leU16 data o1 = Some (vs, o2)"
       "leU16 data o2 = Some (hb, o3)" "leU32 data o3 = Some (ep, o4)"
       "leU32 data o4 = Some (ng, o5)" "leU16 data o5 = Some (rc, o6)"
       "parseRanges (unat rc) data o6 = Some (rs, o7)" "leU32 data o7 = Some (tg, o8)"
       "leU32 data o8 = Some (sc, o9)" "leU32 data o9 = Some (ft, o10)"
    and g: "mg = kManifestMagic" "vs = kManifestVersion" "\<not> ucast rc > kManifestMaxRanges"
       "hb = manifestHeaderBytes rc" "length data = unat hb" "\<not> (tg = 0 \<and> rc \<noteq> 0)"
       "sc = crc32 0 (take o8 data)" "ft = kFooterMagic"
    and m: "m = \<lparr>epoch = ep, nextGeneration = ng, ranges = rs, tailGeneration = tg\<rparr>"
    using p by (auto simp: parseManifest_def bind_eq_Some_conv Let_def split: if_splits)
  note d = leU32_SomeD [OF r(1)] leU16_SomeD [OF r(2)] leU16_SomeD [OF r(3)]
    leU32_SomeD [OF r(4)] leU32_SomeD [OF r(5)] leU16_SomeD [OF r(6)]
    leU32_SomeD [OF r(8)] leU32_SomeD [OF r(9)] leU32_SomeD [OF r(10)]
  have rs: "length rs = unat rc" "\<forall>r \<in> set rs. wf_range r"
    and trs: "take o7 data = take o6 data @ encRanges rs"
    using parseRanges_SomeD [OF r(7)] by auto
  have rc: "unat rc \<le> 1024"
    using g(3) by (simp add: kManifestMaxRanges_def word_less_nat_alt)
  have n: "word_of_nat (length rs) = rc" by (simp add: rs)
  have hb: "length data = 30 + 8 * length rs"
    using g(4,5) unat_manifestHeaderBytes [of "unat rc"] rc by (simp add: rs)
  show wf: "wf_manifest m"
    using rs rc g(6) by (auto simp: wf_manifest_def m unat_eq_0)
  have "take o8 data = manifestBody m"
    using d trs g by (simp add: manifestBody_def m n)
  moreover have "take o10 data = take o8 data @ le4 sc @ le4 ft"
    using d by simp
  ultimately have full: "take o10 data = manifestBody m @ le4 sc @ le4 ft" by simp
  have "length (take o10 data) = length data"
    unfolding full using hb by (simp add: m)
  then have "take o10 data = data" by (rule take_full_length)
  with full \<open>take o8 data = manifestBody m\<close> show "serialiseManifest m = data"
    using g by (simp add: serialiseManifest_body)
qed

lemma manifest_size_field:
  "8 \<le> k \<Longrightarrow> drop 6 (take 8 (take k (serialiseManifest m)))
     = le2 (manifestHeaderBytes (word_of_nat (length (ranges m))))"
  by (simp add: serialiseManifest_body manifestBody_def min_def)

lemma parseManifest_truncated:
  assumes n: "length (ranges m) \<le> 1024" and k: "k < length (serialiseManifest m)"
  shows "parseManifest (take k (serialiseManifest m)) = None"
proof (rule ccontr)
  assume "parseManifest (take k (serialiseManifest m)) \<noteq> None"
  then obtain m' where p: "parseManifest (take k (serialiseManifest m)) = Some m'" by auto
  have s: "serialiseManifest m' = take k (serialiseManifest m)" and n': "length (ranges m') \<le> 1024"
    using parseManifest_SomeD [OF p] by (auto simp: wf_manifest_def)
  have k': "k = 30 + 8 * length (ranges m')"
    using arg_cong [OF s, of length] k by (simp add: length_serialiseManifest)
  have "le2 (manifestHeaderBytes (word_of_nat (length (ranges m'))))
      = le2 (manifestHeaderBytes (word_of_nat (length (ranges m))))"
    using manifest_size_field [of k m] manifest_size_field [of k m'] k'
    by (simp add: s)
  then have "length (ranges m') = length (ranges m)"
    using unat_manifestHeaderBytes [OF n] unat_manifestHeaderBytes [OF n'] by simp
  with k k' show False by (simp add: length_serialiseManifest)
qed

section \<open>Events\<close>

definition headerBytesOf :: "u32 \<Rightarrow> u32 \<Rightarrow> u32 \<Rightarrow> bytes" where
  "headerBytesOf magic sequence n =
     le4 magic @ le2 kFormatVersion @ le2 (ucast kEnqueueHeaderBytes) @ le4 sequence @ le4 n"

definition headerOf :: "u32 \<Rightarrow> u32 \<Rightarrow> u32 \<Rightarrow> enqueue_header" where
  "headerOf magic sequence n =
     \<lparr>ehMagic = magic, ehVersion = kFormatVersion, ehHeaderBytes = ucast kEnqueueHeaderBytes,
      ehSequence = sequence, ehPayloadBytes = n\<rparr>"

lemma length_headerBytesOf [simp]: "length (headerBytesOf magic sequence n) = 16"
  by (simp add: headerBytesOf_def)

lemma enqueueEventCrc_headerOf:
  "enqueueEventCrc (headerOf magic sequence n) payload
     = crc32 0 (headerBytesOf magic sequence n @ payload)"
  by (simp add: enqueueEventCrc_def headerOf_def headerBytesOf_def Let_def byte_simps)

definition eventBytes :: "u32 \<Rightarrow> u32 \<Rightarrow> bytes \<Rightarrow> bytes" where
  "eventBytes magic sequence payload =
     headerBytesOf magic sequence (word_of_nat (length payload)) @ payload
     @ le4 (enqueueEventCrc (headerOf magic sequence (word_of_nat (length payload))) payload)
     @ le4 kFooterMagic"

lemma serializeEnqueueEvent_bytes:
  "serializeEnqueueEvent sequence payload = eventBytes kEnqueueMagic sequence payload"
  by (simp add: serializeEnqueueEvent_def eventBytes_def headerBytesOf_def headerOf_def
      default_enqueue_header_def Let_def byte_simps)

lemma serializeRewriteEvent_bytes:
  "serializeRewriteEvent sequence payload = eventBytes kRewriteMagic sequence payload"
  by (simp add: serializeRewriteEvent_def eventBytes_def headerBytesOf_def headerOf_def
      default_enqueue_header_def Let_def byte_simps)

lemma length_eventBytes [simp]: "length (eventBytes magic sequence payload) = 24 + length payload"
  by (simp add: eventBytes_def)

lemma parseEnqueueHeader_bytes:
  assumes "magic = kEnqueueMagic \<or> magic = kRewriteMagic"
  shows "parseEnqueueHeader (headerBytesOf magic sequence n @ rest) out
    = (True, headerOf magic sequence n)"
proof -
  define d where "d = headerBytesOf magic sequence n @ rest"
  have d0: "drop 0 d = le4 magic @ le2 kFormatVersion @ le2 (ucast kEnqueueHeaderBytes)
      @ le4 sequence @ le4 n @ rest"
    by (simp add: d_def headerBytesOf_def)
  note step = arg_cong [OF d0, of "drop k" for k, simplified drop_drop]
  have "readU32 d 0 = Some magic" using readU32_drop [OF d0] by simp
  moreover have "readU16 d 4 = Some kFormatVersion"
    using readU16_drop [OF step [of 4, simplified]] by simp
  moreover have "readU16 d 6 = Some (ucast kEnqueueHeaderBytes)"
    using readU16_drop [OF step [of 6, simplified]] by simp
  moreover have "readU32 d 8 = Some sequence"
    using readU32_drop [OF step [of 8, simplified]] by simp
  moreover have "readU32 d 12 = Some n"
    using readU32_drop [OF step [of 12, simplified]] by simp
  moreover have "length d \<ge> unat kEnqueueHeaderBytes"
    by (simp add: d_def kEnqueueHeaderBytes_def)
  ultimately have "parseEnqueueHeader d out = (True, headerOf magic sequence n)"
    using assms by (auto simp: parseEnqueueHeader_def headerOf_def Let_def)
  then show ?thesis by (simp add: d_def)
qed

definition popBytesOf :: "u32 \<Rightarrow> bytes" where
  "popBytesOf sequence =
     le4 kPopMagic @ le2 kFormatVersion @ le2 (ucast kPopEventBytes) @ le4 sequence"

definition popOf :: "u32 \<Rightarrow> pop_event" where
  "popOf sequence = default_pop_event\<lparr>peSequence := sequence,
     peEventCrc := crc32 0 (popBytesOf sequence)\<rparr>"

lemma popEventCrc_popOf: "popEventCrc (popOf sequence) = crc32 0 (popBytesOf sequence)"
  by (simp add: popEventCrc_def popOf_def popBytesOf_def default_pop_event_def Let_def byte_simps)

lemma serializePopEvent_bytes:
  "serializePopEvent sequence
     = popBytesOf sequence @ le4 (crc32 0 (popBytesOf sequence)) @ le4 kFooterMagic"
  by (simp add: serializePopEvent_def popEventCrc_def popBytesOf_def default_pop_event_def
      Let_def byte_simps)

lemma length_serializePopEvent [simp]: "length (serializePopEvent sequence) = 20"
  by (simp add: serializePopEvent_bytes popBytesOf_def)

lemma parsePopEvent_serialize:
  "parsePopEvent (serializePopEvent sequence @ rest) out = (True, popOf sequence)"
proof -
  define d where "d = serializePopEvent sequence @ rest"
  have d0: "drop 0 d = le4 kPopMagic @ le2 kFormatVersion @ le2 (ucast kPopEventBytes)
      @ le4 sequence @ le4 (crc32 0 (popBytesOf sequence)) @ le4 kFooterMagic @ rest"
    by (simp add: d_def serializePopEvent_bytes popBytesOf_def)
  note step = arg_cong [OF d0, of "drop k" for k, simplified drop_drop]
  have "readU32 d 0 = Some kPopMagic" using readU32_drop [OF d0] by simp
  moreover have "readU16 d 4 = Some kFormatVersion"
    using readU16_drop [OF step [of 4, simplified]] by simp
  moreover have "readU16 d 6 = Some (ucast kPopEventBytes)"
    using readU16_drop [OF step [of 6, simplified]] by simp
  moreover have "readU32 d 8 = Some sequence"
    using readU32_drop [OF step [of 8, simplified]] by simp
  moreover have "readU32 d 12 = Some (crc32 0 (popBytesOf sequence))"
    using readU32_drop [OF step [of 12, simplified]] by simp
  moreover have "readU32 d 16 = Some kFooterMagic"
    using readU32_drop [OF step [of 16, simplified]] by simp
  moreover have "length d \<ge> unat kPopEventBytes"
    by (simp add: d_def kPopEventBytes_def)
  ultimately have "parsePopEvent d out = (True, popOf sequence)"
    by (simp add: parsePopEvent_def popOf_def default_pop_event_def popEventCrc_def
        popBytesOf_def Let_def byte_simps)
  then show ?thesis by (simp add: d_def)
qed

definition segHeaderOf :: "u32 \<Rightarrow> u32 \<Rightarrow> segment_header" where
  "segHeaderOf generation startSeq =
     (let h = default_segment_header\<lparr>shGeneration := generation, shStartSeq := startSeq\<rparr>
      in h\<lparr>shHeaderCrc := segmentHeaderCrc h\<rparr>)"

lemma length_serializeSegmentHeader [simp]:
  "length (serializeSegmentHeader generation startSeq) = 20"
  by (simp add: serializeSegmentHeader_def Let_def byte_simps)

lemma parseSegmentHeader_serialize:
  "parseSegmentHeader (serializeSegmentHeader generation startSeq @ rest) out
     = (True, segHeaderOf generation startSeq)"
proof -
  define d where "d = serializeSegmentHeader generation startSeq @ rest"
  define h where "h = default_segment_header\<lparr>shGeneration := generation, shStartSeq := startSeq\<rparr>"
  have d0: "drop 0 d = le4 kSegmentMagic @ le2 kFormatVersion @ le2 (ucast kSegmentHeaderBytes)
      @ le4 generation @ le4 startSeq @ le4 (segmentHeaderCrc h) @ rest"
    by (simp add: d_def h_def serializeSegmentHeader_def default_segment_header_def Let_def
        byte_simps)
  note step = arg_cong [OF d0, of "drop k" for k, simplified drop_drop]
  have "readU32 d 0 = Some kSegmentMagic" using readU32_drop [OF d0] by simp
  moreover have "readU16 d 4 = Some kFormatVersion"
    using readU16_drop [OF step [of 4, simplified]] by simp
  moreover have "readU16 d 6 = Some (ucast kSegmentHeaderBytes)"
    using readU16_drop [OF step [of 6, simplified]] by simp
  moreover have "readU32 d 8 = Some generation"
    using readU32_drop [OF step [of 8, simplified]] by simp
  moreover have "readU32 d 12 = Some startSeq"
    using readU32_drop [OF step [of 12, simplified]] by simp
  moreover have "readU32 d 16 = Some (segmentHeaderCrc h)"
    using readU32_drop [OF step [of 16, simplified]] by simp
  moreover have "length d \<ge> unat kSegmentHeaderBytes"
    by (simp add: d_def kSegmentHeaderBytes_def)
  ultimately have "parseSegmentHeader d out = (True, segHeaderOf generation startSeq)"
    by (simp add: parseSegmentHeader_def segHeaderOf_def h_def segmentHeaderCrc_def
        default_segment_header_def Let_def)
  then show ?thesis by (simp add: d_def)
qed

section \<open>CRC-32\<close>

text \<open>The bit-serial reference: one byte is XORed in, then the register is shifted 8 times.\<close>

definition crcByte :: "u32 \<Rightarrow> u8 \<Rightarrow> u32" where
  "crcByte c b = (crcShift ^^ 8) (c XOR ucast b)"

lemma bit_crcShift:
  "bit (crcShift c) n \<longleftrightarrow> bit c (Suc n) \<noteq> (bit c 0 \<and> bit (0xEDB88320 :: u32) n)"
  by (auto simp: crcShift_def bit_simps and_one_eq bit_0 odd_iff_mod_2_eq_one)

lemma crcShift_xor: "crcShift (a XOR b) = crcShift a XOR crcShift b"
  by (rule bit_word_eqI) (auto simp: bit_crcShift bit_xor_iff)

lemma crcShift_pow_xor: "(crcShift ^^ k) (a XOR b) = (crcShift ^^ k) a XOR (crcShift ^^ k) b"
  by (induction k) (simp_all add: crcShift_xor)

lemma crcShift_low_zero: "\<not> bit c 0 \<Longrightarrow> crcShift c = drop_bit 1 c"
  by (rule bit_word_eqI) (auto simp: bit_crcShift bit_simps)

lemma crcShift_pow_low_zero:
  "\<forall>i < k. \<not> bit c i \<Longrightarrow> (crcShift ^^ k) c = drop_bit k c"
proof (induction k)
  case (Suc k)
  then have "(crcShift ^^ k) c = drop_bit k c" by simp
  moreover have "\<not> bit (drop_bit k c) 0" using Suc.prems by (simp add: bit_simps)
  ultimately show ?case by (simp add: crcShift_low_zero)
qed simp

lemma kTable_nth: "i < 256 \<Longrightarrow> kTable ! i = (crcShift ^^ 8) (word_of_nat i)"
  by (simp add: kTable_def)

lemma crc_table_step:
  "kTable ! unat ((crc XOR ucast p) AND 0xFF) XOR drop_bit 8 crc = crcByte crc p"
proof -
  define x where "x = crc XOR (ucast p :: u32)"
  have lt: "unat (x AND 0xFF) < 256"
  proof -
    have "x AND 0xFF \<le> 0xFF" by (rule word_and_le1)
    then show ?thesis by (simp add: word_le_nat_alt)
  qed
  have split: "x = (x AND 0xFF) XOR (x AND NOT 0xFF)"
    by (rule bit_word_eqI) (auto simp: bit_simps)
  have hi: "\<forall>i < 8. \<not> bit (x AND NOT 0xFF) i"
    by (auto simp: bit_simps mask_255)
  have d: "drop_bit 8 (x AND NOT 0xFF) = drop_bit 8 crc"
    by (rule bit_word_eqI) (auto simp: x_def bit_simps mask_255 dest: bit_imp_le_length)
  have "crcByte crc p = (crcShift ^^ 8) (x AND 0xFF) XOR (crcShift ^^ 8) (x AND NOT 0xFF)"
    using split crcShift_pow_xor [of 8 "x AND 0xFF" "x AND NOT 0xFF"]
    by (simp add: crcByte_def x_def)
  also have "(crcShift ^^ 8) (x AND NOT 0xFF) = drop_bit 8 crc"
    using crcShift_pow_low_zero [OF hi] d by simp
  also have "(crcShift ^^ 8) (x AND 0xFF) = kTable ! unat (x AND 0xFF)"
    using kTable_nth [OF lt] by simp
  finally show ?thesis by (simp add: x_def)
qed

lemma crcLoop_foldl: "crcLoop crc data = foldl crcByte crc data"
  by (induction data arbitrary: crc) (simp_all add: crc_table_step)

lemma crcShift_inj: "crcShift a = crcShift b \<Longrightarrow> a = b"
proof -
  assume e: "crcShift a = crcShift b"
  have top: "bit (crcShift c) 31 \<longleftrightarrow> bit c 0" for c
    by (auto simp: bit_crcShift dest: bit_imp_le_length)
  have low: "bit a 0 \<longleftrightarrow> bit b 0" using e top by metis
  show "a = b"
  proof (rule bit_word_eqI)
    fix n assume "n < LENGTH(32)"
    show "bit a n \<longleftrightarrow> bit b n"
    proof (cases n)
      case 0
      with low show ?thesis by simp
    next
      case (Suc m)
      with e low show ?thesis by (metis bit_crcShift)
    qed
  qed
qed

lemma crcShift_pow_inj: "(crcShift ^^ k) a = (crcShift ^^ k) b \<Longrightarrow> a = b"
  by (induction k) (auto dest: crcShift_inj)

lemma xor_left_cancel_u32: "(c :: u32) XOR a = c XOR b \<longleftrightarrow> a = b"
  by (auto simp: bit_eq_iff bit_simps)

lemma xor_right_cancel_u32: "(a :: u32) XOR c = b XOR c \<longleftrightarrow> a = b"
  by (auto simp: bit_eq_iff bit_simps)

lemma ucast_u8_u32_inj: "(ucast (p :: u8) :: u32) = ucast q \<longleftrightarrow> p = q"
proof
  assume e: "(ucast p :: u32) = ucast q"
  have "bit p n = bit q n" if "n < 8" for n
    using arg_cong [OF e, of "\<lambda>w. bit w n"] that by (simp add: bit_simps)
  then show "p = q" by (auto intro: bit_word_eqI)
qed simp

lemma crcByte_inj_state: "crcByte a p = crcByte b p \<Longrightarrow> a = b"
  unfolding crcByte_def by (drule crcShift_pow_inj) (simp add: xor_right_cancel_u32)

lemma crcByte_inj_byte: "crcByte c p = crcByte c q \<Longrightarrow> p = q"
  unfolding crcByte_def
  by (drule crcShift_pow_inj) (simp add: xor_left_cancel_u32 ucast_u8_u32_inj)

lemma crcLoop_inj_state: "crcLoop a data = crcLoop b data \<Longrightarrow> a = b"
  by (induction data arbitrary: a b) (auto simp: crcLoop_foldl dest: crcByte_inj_state)

lemma crcLoop_append: "crcLoop c (xs @ ys) = crcLoop (crcLoop c xs) ys"
  by (simp add: crcLoop_foldl)

lemma crc32_append: "crc32 (crc32 c xs) ys = crc32 c (xs @ ys)"
  by (simp add: crc32_def crcLoop_append)

lemma crc32_one_byte:
  assumes "crc32 c (xs @ p # ys) = crc32 c (xs @ q # ys)"
  shows "p = q"
proof -
  have "crcLoop (crcByte (crcLoop (NOT c) xs) p) ys = crcLoop (crcByte (crcLoop (NOT c) xs) q) ys"
    using assms by (simp add: crc32_def crcLoop_foldl)
  then show ?thesis by (metis crcLoop_inj_state crcByte_inj_byte)
qed

section \<open>Properties of the format layer\<close>

text \<open>C11. The manifest parser accepts exactly the well-formed manifests, each from exactly one
  byte string, the one the serialiser writes: nothing is lost on the round trip, and no other
  bytes (a wrong CRC, footer, size, version, a zero or reversed range) are taken for it.\<close>

theorem manifest_codec:
  "parseManifest data = Some m \<longleftrightarrow> wf_manifest m \<and> data = serialiseManifest m"
  using parseManifest_serialise parseManifest_SomeD by blast

text \<open>A manifest file torn by power loss, any proper prefix of what was being written, is
  rejected by the parser, so the other slot wins.\<close>

theorem manifest_torn_rejected:
  assumes "wf_manifest m" and "k < length (serialiseManifest m)"
  shows "parseManifest (take k (serialiseManifest m)) = None"
  using assms parseManifest_truncated by (simp add: wf_manifest_def)

theorem manifest_torn_rejected_witness:
  "parseManifest (take 29 (serialiseManifest
      \<lparr>epoch = 7, nextGeneration = 3, ranges = [\<lparr>startGen = 1, endGen = 1\<rparr>],
       tailGeneration = 2\<rparr>)) = None"
  by (rule manifest_torn_rejected) (simp_all add: wf_manifest_def wf_range_def
      length_serialiseManifest)

text \<open>C12. The table-driven CRC is the bit-serial CRC-32 with polynomial 0xEDB88320: each byte is
  mixed into the low byte of the register, which is then shifted eight times.\<close>

theorem crc32_bit_serial:
  "crc32 crc data
     = NOT (foldl (\<lambda>c b. (crcShift ^^ 8) (c XOR ucast b)) (NOT crc) data)"
  by (simp add: crc32_def crcLoop_foldl crcByte_def [abs_def])

end
