(* ===== verification/Manifest_Slots.thy ===== *)
theory Manifest_Slots
  imports Store_State Format_Correct
begin

text \<open>
  The double-slot manifest (\<open>append_log_store/manifest.cpp\<close>): which slot is written, which
  one wins, publishing a manifest, reading the winner back and loading it into memory.

  \<open>electedManifest\<close> is the abstract contents of the two slots, a function of the directory
  alone.  The lemmas show that publishing replaces it atomically: whatever part of the write
  reaches the disk, the directory afterwards elects the old manifest or the new one, and the
  new one when the call reports success.

  \<open>for (g = startGen; g <= endGen; ++g)\<close> over 32-bit integers does not end when
  \<open>endGen\<close> is the largest of them, so \<open>genLoop\<close> is a partial function, and every
  operation that loads a manifest is an option.
\<close>

section \<open>Slots\<close>

declare slotName.simps [simp del]

definition chooseInactiveSlot ::
  "bool \<Rightarrow> bool \<Rightarrow> u32 \<Rightarrow> bool \<Rightarrow> bool \<Rightarrow> u32 \<Rightarrow> slot option" where
  "chooseInactiveSlot existsA validA epochA existsB validB epochB =
     (if \<not> existsA \<and> \<not> existsB then Some SlotA
      else if \<not> validA \<and> \<not> validB then None
      else if \<not> validA then Some SlotA
      else if \<not> validB then Some SlotB
      else if epochB \<le> epochA then Some SlotB else Some SlotA)"

text \<open>\<open>validA\<close> and \<open>mdA\<close> are one option: a slot's manifest when it is valid.\<close>

fun chooseWinningSlot :: "manifest_data option \<Rightarrow> manifest_data option \<Rightarrow> manifest_data option" where
  "chooseWinningSlot None None = None"
| "chooseWinningSlot (Some mdA) None = Some mdA"
| "chooseWinningSlot None (Some mdB) = Some mdB"
| "chooseWinningSlot (Some mdA) (Some mdB) = Some (if epoch mdB > epoch mdA then mdB else mdA)"

text \<open>The epoch of a slot's \<open>ManifestData\<close>, which keeps its default when the slot is not valid.\<close>

fun slotEpoch :: "manifest_data option \<Rightarrow> u32" where
  "slotEpoch None = epoch default_manifest"
| "slotEpoch (Some md) = epoch md"

definition slotExists :: "'w fs_ops \<Rightarrow> slot \<Rightarrow> 'w store \<Rightarrow> bool \<times> 'w store" where
  "slotExists F sl s = (let ((st, _), s) = onWorld (fs_fileSize F (slotName sl)) s in (ok st, s))"

definition tryRead :: "'w fs_ops \<Rightarrow> slot \<Rightarrow> 'w store \<Rightarrow> manifest_data option \<times> 'w store" where
  "tryRead F sl s =
     (let ((st, d), s) = onWorld (fs_readFile F (slotName sl)) s in
      if \<not> ok st then (None, s) else (parseManifest d, s))"

section \<open>Loading a manifest\<close>

partial_function (option) genLoop :: "u32 \<Rightarrow> u32 \<Rightarrow> u32 list \<Rightarrow> u32 list option" where
  "genLoop g e acc = (if g \<le> e then genLoop (g + 1) e (acc @ [g]) else Some acc)"

declare genLoop.simps [code]

fun expandRanges :: "manifest_range list \<Rightarrow> u32 list \<Rightarrow> u32 list option" where
  "expandRanges [] acc = Some acc"
| "expandRanges (r # rs) acc =
     do { acc \<leftarrow> genLoop (startGen r) (endGen r) acc; expandRanges rs acc }"

definition applyManifestToRam :: "manifest_data \<Rightarrow> 'w store \<Rightarrow> 'w store option" where
  "applyManifestToRam md s =
     do {
       let s = s\<lparr>manifestRanges := ranges md\<rparr>;
       gens \<leftarrow> expandRanges (ranges md) [];
       let gens = (if tailGeneration md \<noteq> 0 then gens @ [tailGeneration md] else gens);
       Some (s\<lparr>activeGenerations := gens, nextGen := nextGeneration md\<rparr>)
     }"

definition readManifest :: "'w fs_ops \<Rightarrow> 'w store \<Rightarrow> manifest_data option \<times> 'w store" where
  "readManifest F s =
     (if \<not> fs_present F then (None, s)
      else
        let (mdA, s) = tryRead F SlotA s; (mdB, s) = tryRead F SlotB s
        in (chooseWinningSlot mdA mdB, s))"

section \<open>Publishing\<close>

text \<open>The slow path: both slots are probed.  The result is the slot to write (\<open>None\<close> for the
  null pointer) and the winning epoch.\<close>

definition probeSlots :: "'w fs_ops \<Rightarrow> 'w store \<Rightarrow> (slot option \<times> u32) \<times> 'w store" where
  "probeSlots F s =
     (let (existsA, s) = slotExists F SlotA s;
          (existsB, s) = slotExists F SlotB s;
          (mdA, s) = (if existsA then tryRead F SlotA s else (None, s));
          (mdB, s) = (if existsB then tryRead F SlotB s else (None, s));
          writeSlot = chooseInactiveSlot existsA (mdA \<noteq> None) (slotEpoch mdA)
                        existsB (mdB \<noteq> None) (slotEpoch mdB);
          winningEpoch = (case chooseWinningSlot mdA mdB of None \<Rightarrow> 0 | Some w \<Rightarrow> epoch w)
      in ((writeSlot, winningEpoch), s))"

definition publishTarget :: "'w fs_ops \<Rightarrow> 'w store \<Rightarrow> (slot option \<times> u32) \<times> 'w store" where
  "publishTarget F s =
     (case cachedWrittenSlot s of
        Some sl \<Rightarrow> ((Some (otherSlot sl), cachedWrittenEpoch s), s)
      | None \<Rightarrow> probeSlots F s)"

definition publishManifest ::
  "'w fs_ops \<Rightarrow> manifest_data \<Rightarrow> 'w store \<Rightarrow> (status \<times> 'w store) option" where
  "publishManifest F manifest s =
     (if \<not> fs_present F then Some (failure BackendUnavailable ''no file system'', s)
      else
        let ((target, winningEpoch), s) = publishTarget F s in
        case target of
          None \<Rightarrow> Some (failure DataCorrupt ''manifest slot(s) exist but none are valid'', s)
        | Some writeSlot \<Rightarrow>
            let toWrite = manifest\<lparr>epoch := winningEpoch + 1\<rparr>;
                d = serialiseManifest toWrite;
                (st, s) = writeSegmentFileTracked F (slotName writeSlot) d MayOverwrite s
            in if \<not> ok st then Some (st, s)
               else do {
                 s \<leftarrow> applyManifestToRam toWrite s;
                 Some (success,
                   s\<lparr>cachedWrittenSlot := Some writeSlot, cachedWrittenEpoch := epoch toWrite,
                     manifestSlotBytes :=
                       (manifestSlotBytes s)(writeSlot := word_of_nat (length d))\<rparr>)
               })"

section \<open>Loading: the generations of a manifest\<close>

definition rangeGens :: "manifest_range \<Rightarrow> u32 list" where
  "rangeGens r = map word_of_nat [unat (startGen r)..<Suc (unat (endGen r))]"

definition manifestGens :: "manifest_data \<Rightarrow> u32 list" where
  "manifestGens md =
     concat (map rangeGens (ranges md)) @ (if tailGeneration md \<noteq> 0 then [tailGeneration md] else [])"

text \<open>The ranges for which the loading loop ends.\<close>

definition loadable :: "manifest_range list \<Rightarrow> bool" where
  "loadable rs \<longleftrightarrow> (\<forall>r \<in> set rs. endGen r \<noteq> 0xffffffff)"

lemma genLoop_stuck: "genLoop g e acc = Some gens \<Longrightarrow> e \<noteq> 0xffffffff"
  by (erule genLoop.raw_induct [rotated]) (auto simp: u32_le_max split: if_splits)

lemma genLoop_ends:
  assumes "e \<noteq> 0xffffffff"
  shows "genLoop g e acc = Some (acc @ map word_of_nat [unat g..<Suc (unat e)])"
proof (induction "Suc (unat e) - unat g" arbitrary: g acc)
  case 0
  then show ?case by (subst genLoop.simps) (simp add: word_le_nat_alt)
next
  case (Suc n)
  then have le: "g \<le> e" by (simp add: word_le_nat_alt)
  have "g \<noteq> 0xffffffff" using le assms u32_max by blast
  then have u: "unat (g + 1) = Suc (unat g)" by (rule unat_Suc_u32)
  have "genLoop g e acc = genLoop (g + 1) e (acc @ [g])"
    using le by (subst genLoop.simps) simp
  also have "\<dots> = Some ((acc @ [g]) @ map word_of_nat [unat (g + 1)..<Suc (unat e)])"
    using Suc.hyps(2) by (intro Suc.hyps(1)) (simp add: u)
  also have "\<dots> = Some (acc @ map word_of_nat [unat g..<Suc (unat e)])"
    using le by (simp add: u word_le_nat_alt upt_conv_Cons [of "unat g"] del: upt_Suc)
  finally show ?case .
qed

lemma expandRanges_ends:
  "loadable rs \<Longrightarrow> expandRanges rs acc = Some (acc @ concat (map rangeGens rs))"
  by (induction rs arbitrary: acc) (simp_all add: loadable_def genLoop_ends rangeGens_def)

lemma expandRanges_stuck: "expandRanges rs acc = Some gens \<Longrightarrow> loadable rs"
  by (induction rs arbitrary: acc) (auto simp: loadable_def bind_eq_Some_conv dest: genLoop_stuck)

lemma applyManifestToRam_eq:
  "applyManifestToRam md s =
     (if loadable (ranges md)
      then Some (s\<lparr>manifestRanges := ranges md, activeGenerations := manifestGens md,
                   nextGen := nextGeneration md\<rparr>)
      else None)"
  using expandRanges_stuck [of "ranges md" "[]"]
  by (cases "expandRanges (ranges md) []")
    (auto simp: applyManifestToRam_def expandRanges_ends manifestGens_def)

section \<open>Electing: the abstract contents of the two slots\<close>

definition slotManifest :: "(string \<Rightarrow> bytes option) \<Rightarrow> slot \<Rightarrow> manifest_data option" where
  "slotManifest v sl = Option.bind (v (slotName sl)) parseManifest"

definition electedManifest :: "(string \<Rightarrow> bytes option) \<Rightarrow> manifest_data option" where
  "electedManifest v = chooseWinningSlot (slotManifest v SlotA) (slotManifest v SlotB)"

definition electedEpoch :: "(string \<Rightarrow> bytes option) \<Rightarrow> u32" where
  "electedEpoch v = (case electedManifest v of None \<Rightarrow> 0 | Some md \<Rightarrow> epoch md)"

text \<open>What the slow path finds when no read fails.\<close>

definition idealTarget :: "(string \<Rightarrow> bytes option) \<Rightarrow> slot option \<times> u32" where
  "idealTarget v =
     (chooseInactiveSlot (v (slotName SlotA) \<noteq> None) (slotManifest v SlotA \<noteq> None)
        (slotEpoch (slotManifest v SlotA)) (v (slotName SlotB) \<noteq> None)
        (slotManifest v SlotB \<noteq> None) (slotEpoch (slotManifest v SlotB)),
      electedEpoch v)"

text \<open>The cache names the slot that holds the elected manifest, and its epoch.\<close>

definition cacheWins :: "(string \<Rightarrow> bytes option) \<Rightarrow> 'w store \<Rightarrow> bool" where
  "cacheWins v s \<longleftrightarrow>
     (\<forall>sl. cachedWrittenSlot s = Some sl \<longrightarrow>
        electedManifest v \<noteq> None \<and> slotManifest v sl = electedManifest v
        \<and> cachedWrittenEpoch s = electedEpoch v)"

lemma slotManifest_upd [simp]:
  "slotManifest (v(slotName a := x)) b =
     (if a = b then Option.bind x parseManifest else slotManifest v b)"
  by (simp add: slotManifest_def)

lemma electedManifest_other [simp]:
  "(\<forall>sl. name \<noteq> slotName sl) \<Longrightarrow> electedManifest (v(name := x)) = electedManifest v"
  by (auto simp: electedManifest_def slotManifest_def)

lemma electedManifest_cong:
  "(\<And>sl. v (slotName sl) = v' (slotName sl)) \<Longrightarrow> electedManifest v = electedManifest v'"
  by (simp add: electedManifest_def slotManifest_def)

text \<open>The slot to be written is never the one that holds the elected manifest.\<close>

lemma idealTarget_other:
  "idealTarget v = (Some t, e) \<Longrightarrow> slotManifest v (otherSlot t) = electedManifest v"
  by (cases "slotManifest v SlotA"; cases "slotManifest v SlotB"; cases t)
    (auto simp: idealTarget_def chooseInactiveSlot_def electedManifest_def slotManifest_def
      split: if_splits)

lemma elected_after_write:
  assumes o: "slotManifest v (otherSlot t) = electedManifest v"
    and e: "epoch m = electedEpoch v + 1" and nw: "electedEpoch v \<noteq> 0xffffffff"
    and wf: "wf_manifest m"
  shows "electedManifest (v(slotName t := Some (serialiseManifest m))) = Some m"
proof -
  have p: "parseManifest (serialiseManifest m) = Some m" by (rule parseManifest_serialise [OF wf])
  have gt: "electedEpoch v < epoch m"
    using unat_Suc_u32 [OF nw] by (simp add: e word_less_nat_alt)
  show ?thesis
    using o gt
    by (cases t; cases "electedManifest v") (auto simp: electedManifest_def [of "v(_ := _)"] p electedEpoch_def)
qed

lemma elected_after_loss:
  assumes o: "slotManifest v (otherSlot t) = electedManifest v"
    and x: "Option.bind x parseManifest = None"
  shows "electedManifest (v(slotName t := x)) = electedManifest v"
  using o x
  by (cases t; cases "electedManifest v") (auto simp: electedManifest_def [of "v(_ := _)"])

lemma elected_after_partial:
  assumes o: "slotManifest v (otherSlot t) = electedManifest v"
    and e: "epoch m = electedEpoch v + 1" and nw: "electedEpoch v \<noteq> 0xffffffff"
    and wf: "wf_manifest m"
    and p: "partialWrite v (slotName t) (serialiseManifest m) v'"
  shows "electedManifest v' = electedManifest v \<or> electedManifest v' = Some m"
proof -
  obtain x where v': "v' = v(slotName t := x)"
    and x: "x = None \<or> x = v (slotName t)
       \<or> (\<exists>k \<le> length (serialiseManifest m). x = Some (take k (serialiseManifest m)))"
    using p by (auto simp: partialWrite_def)
  from x consider "x = None" | "x = v (slotName t)"
    | k where "k < length (serialiseManifest m)" "x = Some (take k (serialiseManifest m))"
    | "x = Some (serialiseManifest m)"
    by (metis nat_less_le order_refl take_all)
  then show ?thesis
  proof cases
    case 1
    then show ?thesis using elected_after_loss [OF o] v' by simp
  next
    case 2
    then show ?thesis using v' by simp
  next
    case 3
    then have "parseManifest (take k (serialiseManifest m)) = None"
      using parseManifest_truncated wf by (simp add: wf_manifest_def)
    then show ?thesis using elected_after_loss [OF o] v' 3 by simp
  next
    case 4
    then show ?thesis using elected_after_write [OF o e nw wf] v' by simp
  qed
qed

section \<open>Publishing is atomic\<close>

text \<open>The probe of the slow path is exact when none of its reads failed; on the fast path nothing
  is probed.\<close>

definition probeExact :: "'w fs_ops \<Rightarrow> (string \<Rightarrow> bytes option) \<Rightarrow> 'w store \<Rightarrow> bool" where
  "probeExact F v s \<longleftrightarrow> cachedWrittenSlot s = None \<longrightarrow> fst (probeSlots F s) = idealTarget v"

definition onlySlotsChange ::
  "(string \<Rightarrow> bytes option) \<Rightarrow> (string \<Rightarrow> bytes option) \<Rightarrow> bool" where
  "onlySlotsChange v v' \<longleftrightarrow> (\<forall>name. (\<forall>sl. name \<noteq> slotName sl) \<longrightarrow> v' name = v name)"

text \<open>The store after a successful publication of \<open>m\<close>: only these fields differ.\<close>

definition published :: "manifest_data \<Rightarrow> 'w store \<Rightarrow> 'w store \<Rightarrow> bool" where
  "published m s s' \<longleftrightarrow>
     (\<exists>w t sl e mb. s' = s\<lparr>world := w, totalOnDiskBytes := t, manifestRanges := ranges m,
        activeGenerations := manifestGens m, nextGen := nextGeneration m,
        cachedWrittenSlot := Some sl, cachedWrittenEpoch := e, manifestSlotBytes := mb\<rparr>)"

lemma manifestGens_epoch [simp]: "manifestGens (m\<lparr>epoch := e\<rparr>) = manifestGens m"
  by (simp add: manifestGens_def)

lemma wf_manifest_epoch [simp]: "wf_manifest (m\<lparr>epoch := e\<rparr>) = wf_manifest m"
  by (simp add: wf_manifest_def)

context file_system
begin

lemma slotExists_view:
  "slotExists F sl s = (b, s') \<Longrightarrow> \<exists>w. s' = s\<lparr>world := w\<rparr> \<and> view w = view (world s)
     \<and> (b \<longrightarrow> view (world s) (slotName sl) \<noteq> None)"
  using size_view by (fastforce simp: slotExists_def onWorld_eq split: prod.splits)

lemma tryRead_view:
  "tryRead F sl s = (m, s') \<Longrightarrow> \<exists>w. s' = s\<lparr>world := w\<rparr> \<and> view w = view (world s)
     \<and> (m \<noteq> None \<longrightarrow> m = slotManifest (view (world s)) sl)"
  using read_view by (fastforce simp: tryRead_def onWorld_eq slotManifest_def split: prod.splits if_splits)

lemma probeSlots_view:
  "probeSlots F s = (r, s') \<Longrightarrow> \<exists>w. s' = s\<lparr>world := w\<rparr> \<and> view w = view (world s)"
  by (auto simp: probeSlots_def Let_def split: prod.splits if_splits
      dest!: slotExists_view tryRead_view)

lemma publishTarget_exact:
  assumes p: "publishTarget F s = ((t, e), s')" and x: "probeExact F (view (world s)) s"
    and c: "cacheWins (view (world s)) s"
  shows "\<exists>w. s' = s\<lparr>world := w\<rparr> \<and> view w = view (world s)"
    and "\<And>sl. t = Some sl \<Longrightarrow>
       e = electedEpoch (view (world s))
       \<and> slotManifest (view (world s)) (otherSlot sl) = electedManifest (view (world s))"
proof -
  show "\<exists>w. s' = s\<lparr>world := w\<rparr> \<and> view w = view (world s)"
  proof (cases "cachedWrittenSlot s")
    case None
    then show ?thesis using p probeSlots_view by (simp add: publishTarget_def)
  next
    case (Some sl)
    then show ?thesis using p by (intro exI [of _ "world s"]) (auto simp: publishTarget_def)
  qed
  fix sl assume t: "t = Some sl"
  show "e = electedEpoch (view (world s))
       \<and> slotManifest (view (world s)) (otherSlot sl) = electedManifest (view (world s))"
  proof (cases "cachedWrittenSlot s")
    case None
    then have "idealTarget (view (world s)) = (Some sl, e)"
      using p x t by (auto simp: publishTarget_def probeExact_def)
    then show ?thesis using idealTarget_other by (auto simp: idealTarget_def)
  next
    case (Some sl')
    then show ?thesis using p c t by (auto simp: publishTarget_def cacheWins_def)
  qed
qed

lemma publish_cases:
  assumes p: "publishManifest F m s = Some (st, s')"
    and x: "probeExact F (view (world s)) s" and c: "cacheWins (view (world s)) s"
    and nw: "electedEpoch (view (world s)) \<noteq> 0xffffffff" and wf: "wf_manifest m"
  obtains (published) e where "st = success" "published m s s'" "loadable (ranges m)"
      "electedManifest (view (world s')) = Some (m\<lparr>epoch := e\<rparr>)"
      "e = electedEpoch (view (world s)) + 1"
      "onlySlotsChange (view (world s)) (view (world s'))" "cacheWins (view (world s')) s'"
  | (failed) w where "\<not> ok st" "s' = s\<lparr>world := w\<rparr>"
      "electedManifest (view w) = electedManifest (view (world s))
       \<or> electedManifest (view w) = Some (m\<lparr>epoch := electedEpoch (view (world s)) + 1\<rparr>)"
      "onlySlotsChange (view (world s)) (view w)"
proof -
  let ?v = "view (world s)"
  obtain t e s1 where t: "publishTarget F s = ((t, e), s1)" by (metis prod.collapse)
  note ex = publishTarget_exact [OF t x c]
  obtain w1 where s1: "s1 = s\<lparr>world := w1\<rparr>" and v1: "view w1 = ?v" using ex(1) by blast
  show thesis
  proof (cases t)
    case None
    then show thesis using p t present s1 v1
      by (intro failed [of w1]) (auto simp: publishManifest_def onlySlotsChange_def)
  next
    case (Some sl)
    note el = ex(2) [OF Some]
    define m' where "m' = m\<lparr>epoch := electedEpoch ?v + 1\<rparr>"
    have wf': "wf_manifest m'" using wf by (simp add: m'_def)
    obtain st2 s2 where w: "writeSegmentFileTracked F (slotName sl) (serialiseManifest m')
        MayOverwrite s1 = (st2, s2)" by fastforce
    note step = p [unfolded publishManifest_def Let_def t, simplified present Some]
    show thesis
    proof (cases "ok st2")
      case False
      obtain w2 where pw: "partialWrite ?v (slotName sl) (serialiseManifest m') (view w2)"
        and s2: "s2 = s\<lparr>world := w2\<rparr>"
        using writeTracked_fail [OF w False] s1 v1 by auto
      have "st = st2" "s' = s2" using step w False el by (auto simp: m'_def)
      moreover have "electedManifest (view w2) = electedManifest ?v \<or> electedManifest (view w2) = Some m'"
        using el by (intro elected_after_partial [OF _ _ nw wf' pw]) (auto simp: m'_def)
      moreover have "onlySlotsChange ?v (view w2)"
        using pw by (auto simp: partialWrite_def onlySlotsChange_def)
      ultimately show thesis using False s2 by (intro failed [of w2]) (auto simp: m'_def)
    next
      case True
      obtain w2 b where v2: "view w2 = ?v(slotName sl := Some (serialiseManifest m'))"
        and s2: "s2 = s\<lparr>world := w2, totalOnDiskBytes := b\<rparr>"
        using writeTracked_ok [OF w True] s1 v1 by auto
      have ld: "loadable (ranges m)" and st: "st = success"
        and s': "s' = s2\<lparr>manifestRanges := ranges m, activeGenerations := manifestGens m,
            nextGen := nextGeneration m, cachedWrittenSlot := Some sl,
            cachedWrittenEpoch := electedEpoch ?v + 1,
            manifestSlotBytes := (manifestSlotBytes s2)(sl := word_of_nat
               (length (serialiseManifest m')))\<rparr>"
        using step w True el
        by (auto simp: m'_def applyManifestToRam_eq split: if_splits)
      have em: "electedManifest (view w2) = Some m'"
        using el unfolding v2 by (intro elected_after_write [OF _ _ nw wf']) (auto simp: m'_def)
      have "published m s s'" unfolding published_def s' s2 by (intro exI, rule refl)
      moreover have "cacheWins (view (world s')) s'"
        using em parseManifest_serialise [OF wf'] m'_def
        by (simp add: cacheWins_def s' s2 v2 electedEpoch_def [of "_(_ := _)"])
      moreover have "onlySlotsChange ?v (view w2)" using v2 by (auto simp: onlySlotsChange_def)
      ultimately show thesis using st ld em
        by (intro published) (auto simp: s' s2 m'_def)
    qed
  qed
qed

end

end
