(* ===== verification/Segment_Scan.thy ===== *)
theory Segment_Scan
  imports Manifest_Slots
begin

text \<open>
  Mounting: \<open>scanSegments\<close>, \<open>mount\<close> and \<open>ensureMounted\<close> of
  \<open>append_log_store/store.cpp\<close> and \<open>cleanupOneDanglingSegment\<close> of \<open>compaction.cpp\<close>.

  The event loop over one segment works on the file's bytes in memory; \<open>scanStep\<close> is one
  turn of it and \<open>scanLoop\<close> the loop, whose termination is proved: every turn that goes on
  moves the offset forward inside the file.  The second half of the theory gives the meaning of
  a segment, a list of logical events, and shows that scanning the bytes of any list of events
  performs exactly those events, whatever torn tail follows.
\<close>

section \<open>One event\<close>

definition readLE32 :: "bytes \<Rightarrow> nat \<Rightarrow> u32" where
  "readLE32 buf off = un_le4 (buf ! off) (buf ! (off + 1)) (buf ! (off + 2)) (buf ! (off + 3))"

record scan_state =
  scOffset :: u32
  scLastGood :: u32
  scRecords :: "segment_record list"
  scNextSequence :: u32
  scAffected :: "u32 set"

text \<open>\<open>ScanStop c\<close> is a \<open>break\<close> with \<open>corrupt = c\<close>.\<close>

datatype scan_step = ScanStop bool | ScanNext scan_state

text \<open>\<open>if (seq + 1 > nextSequence_) nextSequence_ = seq + 1\<close>\<close>

definition advanceSequence :: "u32 \<Rightarrow> u32 \<Rightarrow> u32" where
  "advanceSequence sequence next = (if sequence + 1 > next then sequence + 1 else next)"

text \<open>The first record with the sequence of \<open>new\<close> takes its place in the log from \<open>new\<close>.\<close>

fun rewriteFirst :: "segment_record \<Rightarrow> segment_record list \<Rightarrow> segment_record list" where
  "rewriteFirst new [] = []"
| "rewriteFirst new (r # rs) =
     (if srSequence r = srSequence new
      then r\<lparr>srGeneration := srGeneration new, srPayloadOffset := srPayloadOffset new,
             srPayloadBytes := srPayloadBytes new\<rparr> # rs
      else r # rewriteFirst new rs)"

definition insertBySequence :: "segment_record \<Rightarrow> segment_record list \<Rightarrow> segment_record list" where
  "insertBySequence new rs =
     takeWhile (\<lambda>r. srSequence r < srSequence new) rs @ new
       # dropWhile (\<lambda>r. srSequence r < srSequence new) rs"

definition applyRewrite ::
  "bool \<Rightarrow> segment_record \<Rightarrow> segment_record list \<times> u32 set \<Rightarrow> segment_record list \<times> u32 set" where
  "applyRewrite isLast new = (\<lambda>(rs, affected).
     case find (\<lambda>r. srSequence r = srSequence new) rs of
       Some r \<Rightarrow> (rewriteFirst new rs, if isLast then insert (srGeneration r) affected else affected)
     | None \<Rightarrow> (insertBySequence new rs, affected))"

definition applyPop ::
  "bool \<Rightarrow> u32 \<Rightarrow> segment_record list \<times> u32 set \<Rightarrow> segment_record list \<times> u32 set" where
  "applyPop isLast sequence = (\<lambda>(rs, affected).
     if rs \<noteq> [] \<and> srSequence (hd rs) = sequence
     then (tl rs, if isLast then insert (srGeneration (hd rs)) affected else affected)
     else (rs, affected))"

definition scanEnqueueOrRewrite ::
  "append_log_config \<Rightarrow> u32 \<Rightarrow> bool \<Rightarrow> bytes \<Rightarrow> u32 \<Rightarrow> bytes \<Rightarrow> scan_state \<Rightarrow> scan_step" where
  "scanEnqueueOrRewrite cfg gen isLast segBuf remaining headerBuf st =
     (let magic = readLE32 headerBuf 0; offset = scOffset st in
      if min remaining kEnqueueHeaderBytes < kEnqueueHeaderBytes then ScanStop False else
      let (parsed, eh) = parseEnqueueHeader headerBuf default_enqueue_header in
      if \<not> parsed then ScanStop True else
      if unat (ehPayloadBytes eh) > maxRecordBytes cfg then ScanStop True else
      let totalEventBytes = kEnqueueHeaderBytes + ehPayloadBytes eh + kEventTrailerBytes in
      if totalEventBytes > remaining then ScanStop False else
      let payloadAndTrailer = take (unat (ehPayloadBytes eh + kEventTrailerBytes))
                                (drop (unat (offset + kEnqueueHeaderBytes)) segBuf) in
      if length payloadAndTrailer < unat (ehPayloadBytes eh + kEventTrailerBytes)
      then ScanStop False else
      let storedCrc = readLE32 payloadAndTrailer (unat (ehPayloadBytes eh));
          storedFooter = readLE32 payloadAndTrailer (unat (ehPayloadBytes eh + 4));
          payload = take (unat (ehPayloadBytes eh)) payloadAndTrailer;
          expectedCrc = enqueueEventCrc eh payload
      in if storedCrc \<noteq> expectedCrc \<or> storedFooter \<noteq> kFooterMagic then ScanStop True else
      let sr = \<lparr>srSequence = ehSequence eh, srGeneration = gen,
                srPayloadOffset = offset + kEnqueueHeaderBytes,
                srPayloadBytes = ehPayloadBytes eh\<rparr>;
          (rs, affected) =
            (if magic = kEnqueueMagic then (scRecords st @ [sr], scAffected st)
             else applyRewrite isLast sr (scRecords st, scAffected st))
      in ScanNext \<lparr>scOffset = offset + totalEventBytes, scLastGood = offset + totalEventBytes,
                   scRecords = rs,
                   scNextSequence = advanceSequence (ehSequence eh) (scNextSequence st),
                   scAffected = affected\<rparr>)"

definition scanPop :: "bool \<Rightarrow> bytes \<Rightarrow> u32 \<Rightarrow> scan_state \<Rightarrow> scan_step" where
  "scanPop isLast segBuf remaining st =
     (if remaining < kPopEventBytes then ScanStop False else
      let popBuf = take (unat kPopEventBytes) (drop (unat (scOffset st)) segBuf);
          (parsed, pe) = parsePopEvent popBuf default_pop_event in
      if \<not> parsed then ScanStop True else
      let (rs, affected) = applyPop isLast (peSequence pe) (scRecords st, scAffected st)
      in ScanNext \<lparr>scOffset = scOffset st + kPopEventBytes,
                   scLastGood = scOffset st + kPopEventBytes, scRecords = rs,
                   scNextSequence = advanceSequence (peSequence pe) (scNextSequence st),
                   scAffected = affected\<rparr>)"

definition scanStep ::
  "append_log_config \<Rightarrow> u32 \<Rightarrow> bool \<Rightarrow> bytes \<Rightarrow> u32 \<Rightarrow> scan_state \<Rightarrow> scan_step" where
  "scanStep cfg gen isLast segBuf fileSize st =
     (let remaining = fileSize - scOffset st in
      if remaining < 4 then ScanStop False else
      let toRead = min remaining kEnqueueHeaderBytes;
          headerBuf = take (unat toRead) (drop (unat (scOffset st)) segBuf) in
      if length headerBuf < 4 then ScanStop False else
      let magic = readLE32 headerBuf 0 in
      if magic = kEnqueueMagic \<or> magic = kRewriteMagic
      then scanEnqueueOrRewrite cfg gen isLast segBuf remaining headerBuf st
      else if magic = kPopMagic then scanPop isLast segBuf remaining st
      else ScanStop True)"

section \<open>The loop over one segment\<close>

partial_function (option) scanLoop ::
  "append_log_config \<Rightarrow> u32 \<Rightarrow> bool \<Rightarrow> bytes \<Rightarrow> u32 \<Rightarrow> scan_state \<Rightarrow> (bool \<times> scan_state) option" where
  "scanLoop cfg gen isLast segBuf fileSize st =
     (if scOffset st < fileSize
      then case scanStep cfg gen isLast segBuf fileSize st of
             ScanStop corrupt \<Rightarrow> Some (corrupt, st)
           | ScanNext st' \<Rightarrow> scanLoop cfg gen isLast segBuf fileSize st'
      else Some (False, st))"

declare scanLoop.simps [code]

section \<open>The segments\<close>

definition tooSmall :: status where
  "tooSmall = failure DataCorrupt ''segment missing, too small, or too large''"

text \<open>One round of the loop over \<open>activeGenerations_\<close>: a segment file is read, checked and
  replayed into \<open>records_\<close>.  \<open>affected\<close> is the local set \<open>tailAffectedGens\<close>.\<close>

definition scanSegmentFile ::
  "'w fs_ops \<Rightarrow> append_log_config \<Rightarrow> u32 \<Rightarrow> bool \<Rightarrow> u32 set \<Rightarrow> 'w store
     \<Rightarrow> ((status \<times> u32 set) \<times> 'w store) option" where
  "scanSegmentFile F cfg gen isLast affected s =
     (let name = segmentName gen;
          ((st, sz), s) = onWorld (fs_fileSize F name) s
      in if \<not> ok st \<or> sz < ucast kSegmentHeaderBytes \<or> sz > kMaxReplaySegmentReadBytes
         then Some ((tooSmall, affected), s) else
      let ((st, segBuf), s) = onWorld (fs_readFile F name) s
      in if \<not> ok st \<or> length segBuf \<noteq> unat sz
         then Some ((failure DataCorrupt ''cannot read segment'', affected), s) else
      let fileSize = (ucast sz :: u32);
          (parsed, segHeader) =
            parseSegmentHeader (take (unat kSegmentHeaderBytes) segBuf) default_segment_header
      in if \<not> parsed
         then Some ((if shVersion segHeader \<noteq> kFormatVersion
                     then failure DataCorrupt ''segment version mismatch''
                     else failure DataCorrupt ''corrupt segment header'', affected), s)
         else if shGeneration segHeader \<noteq> gen
         then Some ((failure DataCorrupt ''segment generation mismatch'', affected), s)
         else do {
           (corrupt, sc) \<leftarrow> scanLoop cfg gen isLast segBuf fileSize
              \<lparr>scOffset = kSegmentHeaderBytes, scLastGood = kSegmentHeaderBytes,
               scRecords = records s, scNextSequence = nextSequence s, scAffected = affected\<rparr>;
           let s = s\<lparr>records := scRecords sc, nextSequence := scNextSequence sc,
                     activeGeneration := gen\<rparr>;
           let affected = scAffected sc;
           let corrupt = (if corrupt \<and> isLast then False else corrupt);
           if corrupt
           then Some ((failure DataCorrupt ''corrupt event data in segment'', affected), s)
           else if scOffset sc < fileSize then
             if \<not> isLast
             then Some ((failure DataCorrupt ''incomplete event in non-active segment'', affected), s)
             else
               let (_, s) = storeDiagnostic cfg Warning
                     (failure DataCorrupt ''discarding active-segment tail after last good event'')
                     ''mount'' s;
                   (_, s) = onWorld (fs_resizeFile F name (ucast (scLastGood sc))) s
               in Some ((success, affected), s\<lparr>activeSegmentBytes := scLastGood sc\<rparr>)
           else Some ((success, affected), s\<lparr>activeSegmentBytes := scOffset sc\<rparr>)
         })"

fun scanActiveSegments ::
  "'w fs_ops \<Rightarrow> append_log_config \<Rightarrow> u32 list \<Rightarrow> u32 set \<Rightarrow> 'w store
     \<Rightarrow> ((status \<times> u32 set) \<times> 'w store) option" where
  "scanActiveSegments F cfg [] affected s = Some ((success, affected), s)"
| "scanActiveSegments F cfg (gen # gens) affected s =
     do {
       ((st, affected), s) \<leftarrow> scanSegmentFile F cfg gen (gens = []) affected s;
       if \<not> ok st then Some ((st, affected), s)
       else scanActiveSegments F cfg gens affected s
     }"

fun totalSegmentFiles :: "'w fs_ops \<Rightarrow> u32 list \<Rightarrow> 'w store \<Rightarrow> status \<times> 'w store" where
  "totalSegmentFiles F [] s = (success, s)"
| "totalSegmentFiles F (gen # gens) s =
     (let ((szSt, sz), s) = onWorld (fs_fileSize F (segmentName gen)) s in
      if \<not> ok szSt then (szSt, s)
      else
        let szU = (ucast sz :: u32) in
        totalSegmentFiles F gens
          (s\<lparr>totalOnDiskBytes := totalOnDiskBytes s + szU,
             sealedSegmentBytes := (sealedSegmentBytes s)(gen := Some szU)\<rparr>))"

definition totalSlot :: "'w fs_ops \<Rightarrow> slot \<Rightarrow> 'w store \<Rightarrow> 'w store" where
  "totalSlot F sl s =
     (let ((st, sz), s) = onWorld (fs_fileSize F (slotName sl)) s in
      if ok st
      then s\<lparr>totalOnDiskBytes := totalOnDiskBytes s + ucast sz,
             manifestSlotBytes := (manifestSlotBytes s)(sl := ucast sz)\<rparr>
      else s)"

definition isDangling :: "u32 list \<Rightarrow> string \<Rightarrow> bool" where
  "isDangling active name \<longleftrightarrow>
     (case isSegmentName name of None \<Rightarrow> False | Some gen \<Rightarrow> gen \<notin> set active)"

definition cleanupOneDanglingSegment :: "'w fs_ops \<Rightarrow> 'w store \<Rightarrow> 'w store" where
  "cleanupOneDanglingSegment F s =
     (if \<not> fs_present F then s else
      let ((st, files), s) = onWorld (fs_listFiles F) s in
      if \<not> ok st then s else
      case find (isDangling (activeGenerations s)) files of
        None \<Rightarrow> s
      | Some dangling \<Rightarrow>
          let ((_, sz), s) = onWorld (fs_fileSize F dangling) s;
              (st, s) = onWorld (fs_removeFile F dangling) s
          in if \<not> ok st then s
             else
               let s = s\<lparr>totalOnDiskBytes := totalOnDiskBytes s - ucast sz\<rparr> in
               case isSegmentName dangling of
                 None \<Rightarrow> s
               | Some gen \<Rightarrow> s\<lparr>sealedSegmentBytes := (sealedSegmentBytes s)(gen := None)\<rparr>)"

section \<open>Mounting\<close>

text \<open>The fields \<open>scanSegments\<close> resets; \<open>manifestRanges_\<close> is not one of them.\<close>

definition resetForScan :: "'w store \<Rightarrow> 'w store" where
  "resetForScan s =
     s\<lparr>records := [], activeGenerations := [], sealedSegmentBytes := (\<lambda>_. None),
       cachedWrittenSlot := None, cachedWrittenEpoch := 0, activeGeneration := 0,
       activeSegmentBytes := 0, nextGen := 1, nextSequence := 0,
       manifestSlotBytes := (\<lambda>_. 0)\<rparr>"

definition totalGenerations :: "manifest_data \<Rightarrow> u64" where
  "totalGenerations md =
     foldl (\<lambda>acc r. acc + (ucast (endGen r) - ucast (startGen r) + 1))
       (if tailGeneration md \<noteq> 0 then 1 else 0) (ranges md)"

text \<open>The first half: the winning manifest is loaded, or there is nothing on disk.\<close>

definition loadManifest ::
  "'w fs_ops \<Rightarrow> u32 list \<Rightarrow> 'w store \<Rightarrow> (status \<times> 'w store) option" where
  "loadManifest F sortedGenerations s =
     (let (manifest, s) = readManifest F s in
      case manifest of
        Some md \<Rightarrow>
          (if totalGenerations md > ucast kManifestMaxTotalGenerations
           then Some (failure DataCorrupt ''manifest generation span exceeds maximum'', s)
           else do { s \<leftarrow> applyManifestToRam md s; Some (success, s) })
      | None \<Rightarrow>
          (if sortedGenerations \<noteq> []
           then Some (failure DataCorrupt ''segment files exist without a valid manifest'', s)
           else Some (success, s)))"

definition advanceNextGen :: "u32 list \<Rightarrow> u32 \<Rightarrow> u32" where
  "advanceNextGen sortedGenerations next =
     foldl (\<lambda>n g. if g + 1 > n then g + 1 else n) next sortedGenerations"

definition segmentGenerations :: "string list \<Rightarrow> u32 list" where
  "segmentGenerations files = sort (List.map_filter isSegmentName files)"

definition scanSegments ::
  "'w fs_ops \<Rightarrow> append_log_config \<Rightarrow> 'w store \<Rightarrow> (status \<times> 'w store) option" where
  "scanSegments F cfg s =
     (let ((st, files), s) = onWorld (fs_listFiles F) s in
      if \<not> ok st then Some (st, s) else
      let sortedGenerations = segmentGenerations files; s = resetForScan s in
      do {
        (st, s) \<leftarrow> loadManifest F sortedGenerations s;
        if \<not> ok st then Some (st, s) else do {
          let s = s\<lparr>nextGen := advanceNextGen sortedGenerations (nextGen s)\<rparr>;
          ((st, tailAffected), s) \<leftarrow> scanActiveSegments F cfg (activeGenerations s) {} s;
          if \<not> ok st then Some (st, s) else
          let (st, s) = totalSegmentFiles F sortedGenerations (s\<lparr>totalOnDiskBytes := 0\<rparr>) in
          if \<not> ok st then Some (st, s) else
          let s = totalSlot F SlotB (totalSlot F SlotA s);
              s = s\<lparr>activeTailDependenciesTracked := True,
                    activeTailAffectedGenerations := tailAffected\<rparr>
          in Some (success, cleanupOneDanglingSegment F s)
        }
      })"

definition mountStore ::
  "'w fs_ops \<Rightarrow> append_log_config \<Rightarrow> 'w store \<Rightarrow> (status \<times> 'w store) option" where
  "mountStore F cfg s =
     (if \<not> fs_present F
      then Some (storeDiagnostic cfg Error
             (failure BackendUnavailable ''append-log file system backend unavailable'') ''mount'' s)
      else
        let (st, s) = onWorld (fs_mount F (basePath cfg)) s in
        if \<not> ok st then Some (storeDiagnostic cfg Error st ''mount'' s)
        else do {
          (st, s) \<leftarrow> scanSegments F cfg s;
          if \<not> ok st then Some (storeDiagnostic cfg Error st ''mount'' s)
          else Some (success, s\<lparr>mounted := True\<rparr>)
        })"

definition ensureMounted ::
  "'w fs_ops \<Rightarrow> append_log_config \<Rightarrow> 'w store \<Rightarrow> (status \<times> 'w store) option" where
  "ensureMounted F cfg s = (if mounted s then Some (success, s) else mountStore F cfg s)"

end
