(* ===== verification/Segment_Append.thy ===== *)
theory Segment_Append
  imports Segment_Scan
begin

text \<open>
  Appending to the log (\<open>append_log_store/store.cpp\<close>): creating and rotating segments and
  writing ENQUEUE, POP and REWRITE events at the end of the active one.
\<close>

definition createSegment ::
  "'w fs_ops \<Rightarrow> u32 \<Rightarrow> u32 \<Rightarrow> 'w store \<Rightarrow> status \<times> 'w store" where
  "createSegment F generation startSeq s =
     writeSegmentFileTracked F (segmentName generation)
       (serializeSegmentHeader generation startSeq) MustBeNew s"

text \<open>The sealed tail joins the last range when it continues it.\<close>

definition rangesWithTail :: "manifest_range list \<Rightarrow> u32 \<Rightarrow> manifest_range list" where
  "rangesWithTail rs oldTailGen =
     (if oldTailGen = 0 then rs
      else if rs \<noteq> [] \<and> endGen (last rs) + 1 = oldTailGen
      then butlast rs @ [(last rs)\<lparr>endGen := oldTailGen\<rparr>]
      else rs @ [\<lparr>startGen = oldTailGen, endGen = oldTailGen\<rparr>])"

text \<open>The tail of \<open>rotateSegment\<close> and \<open>ensureActiveSegment\<close>: the new segment becomes
  active.\<close>

definition activateSegment :: "u32 \<Rightarrow> 'w store \<Rightarrow> 'w store" where
  "activateSegment newGen s =
     s\<lparr>activeGeneration := newGen, activeSegmentBytes := kSegmentHeaderBytes,
       activeTailDependenciesTracked := True, activeTailAffectedGenerations := {}\<rparr>"

text \<open>The informational start sequence of a new segment.\<close>

definition baseSequence :: "'w store \<Rightarrow> u32" where
  "baseSequence s = (if records s = [] then 0 else srSequence (last (records s)) + 1)"

lemma baseSequence_sealed [simp]:
  "baseSequence (s\<lparr>sealedSegmentBytes := x\<rparr>) = baseSequence s"
  by (simp add: baseSequence_def)

definition rotateSegment :: "'w fs_ops \<Rightarrow> 'w store \<Rightarrow> (status \<times> 'w store) option" where
  "rotateSegment F s =
     (let oldTailGen = activeGeneration s; newGen = nextGen s;
          newRanges = rangesWithTail (manifestRanges s) oldTailGen
      in if length newRanges > unat kManifestMaxRanges
         then Some (failure RangeLimitExceeded
                ''segment range limit exceeded; compaction required before rollover'', s)
         else
           let s = (if oldTailGen \<noteq> 0
                    then s\<lparr>sealedSegmentBytes :=
                            (sealedSegmentBytes s)(oldTailGen := Some (activeSegmentBytes s))\<rparr>
                    else s);
               (st, s) = createSegment F newGen (baseSequence s) s
           in if \<not> ok st then Some (st, s)
              else do {
                (st, s) \<leftarrow> publishManifest F
                   (default_manifest\<lparr>ranges := newRanges, tailGeneration := newGen,
                      nextGeneration := newGen + 1\<rparr>) s;
                if \<not> ok st then Some (st, s) else Some (success, activateSegment newGen s)
              })"

definition ensureActiveSegment ::
  "'w fs_ops \<Rightarrow> u32 \<Rightarrow> 'w store \<Rightarrow> (status \<times> 'w store) option" where
  "ensureActiveSegment F baseSeq s =
     (if activeSegmentBytes s \<noteq> 0 then Some (success, s)
      else
        let newGen = nextGen s; (st, s) = createSegment F newGen baseSeq s
        in if \<not> ok st then Some (st, s)
           else do {
             (st, s) \<leftarrow> publishManifest F
                (default_manifest\<lparr>ranges := manifestRanges s, tailGeneration := newGen,
                   nextGeneration := newGen + 1\<rparr>) s;
             if \<not> ok st then Some (st, s) else Some (success, activateSegment newGen s)
           })"

text \<open>The rotation every append starts with, when the event does not fit the active segment.\<close>

definition rotateIfFull ::
  "'w fs_ops \<Rightarrow> append_log_config \<Rightarrow> u32 \<Rightarrow> 'w store \<Rightarrow> (status \<times> 'w store) option" where
  "rotateIfFull F cfg n s =
     (if needsRotation cfg n s then rotateSegment F s else Some (success, s))"

text \<open>The write at the end of the active segment, with its two counters.\<close>

definition appendEnqueueEventBytes ::
  "'w fs_ops \<Rightarrow> bytes \<Rightarrow> 'w store \<Rightarrow> status \<times> 'w store" where
  "appendEnqueueEventBytes F eventData s =
     (let (st, s) = onWorld (fs_writeAt F (segmentName (activeGeneration s))
                       (ucast (activeSegmentBytes s)) eventData) s
      in if ok st
         then (st, s\<lparr>activeSegmentBytes := activeSegmentBytes s + word_of_nat (length eventData),
                    totalOnDiskBytes := totalOnDiskBytes s + word_of_nat (length eventData)\<rparr>)
         else (st, s))"

definition appendPopEvent ::
  "'w fs_ops \<Rightarrow> append_log_config \<Rightarrow> u32 \<Rightarrow> 'w store \<Rightarrow> (status \<times> 'w store) option" where
  "appendPopEvent F cfg sequence s =
     do {
       (st, s) \<leftarrow> rotateIfFull F cfg kPopEventBytes s;
       if \<not> ok st then Some (st, s) else do {
         (st, s) \<leftarrow> ensureActiveSegment F sequence s;
         if \<not> ok st then Some (st, s)
         else Some (appendEnqueueEventBytes F (serializePopEvent sequence) s)
       }
     }"

definition appendRewriteEvent ::
  "'w fs_ops \<Rightarrow> append_log_config \<Rightarrow> u32 \<Rightarrow> bytes \<Rightarrow> 'w store \<Rightarrow> (status \<times> 'w store) option" where
  "appendRewriteEvent F cfg sequence record s =
     (case find (\<lambda>r. srSequence r = sequence) (records s) of
        None \<Rightarrow> Some (failure InvalidRecord ''sequence not in live record range'', s)
      | Some target \<Rightarrow> do {
          (st, s) \<leftarrow> rotateIfFull F cfg (kEnqueueOverheadBytes + word_of_nat (length record)) s;
          if \<not> ok st then Some (st, s) else do {
            (st, s) \<leftarrow> ensureActiveSegment F sequence s;
            if \<not> ok st then Some (st, s) else
            let payloadOffset = activeSegmentBytes s + kEnqueueHeaderBytes;
                (st, s) = appendEnqueueEventBytes F (serializeRewriteEvent sequence record) s
            in if \<not> ok st then Some (st, s)
               else
                 let s = (if activeTailDependenciesTracked s
                          then s\<lparr>activeTailAffectedGenerations :=
                                  insert (srGeneration target) (activeTailAffectedGenerations s)\<rparr>
                          else s);
                     new = \<lparr>srSequence = sequence, srGeneration = activeGeneration s,
                            srPayloadOffset = payloadOffset,
                            srPayloadBytes = word_of_nat (length record)\<rparr>
                 in Some (success, s\<lparr>records := rewriteFirst new (records s)\<rparr>)
          }
        })"

end
