(* ===== verification/Compaction.thy ===== *)
theory Compaction
  imports Segment_Append
begin

text \<open>
  Compaction (\<open>append_log_store/compaction.cpp\<close>): per-segment statistics, the choice and the
  narrowing of a range, the compaction of a range in its phases (gates, preflight, rotation,
  collection, packing, writing, publication, clean-up), and the maintenance loops.

  The out-parameters \<open>inputSegCount\<close> and \<open>outputSegCount\<close> are results, 0 until they are
  assigned.  The ratios of \<open>chooseCompactionRange\<close> and \<open>narrowRange\<close> are IEEE single
  precision numbers; \<open>floatRatio\<close> computes the correctly rounded quotient of two correctly
  rounded conversions, scaled by \<open>2 ^ 64\<close> so that it is a natural number, and the start value
  \<open>-1.0f\<close> is \<open>None\<close>.  \<open>std::sort\<close> on live records is a stable sort here; the
  sequence numbers it compares are distinct in a store that has not been corrupted.
\<close>

section \<open>Single-precision ratios\<close>

fun ilog2 :: "nat \<Rightarrow> nat" where
  "ilog2 n = (if n < 2 then 0 else Suc (ilog2 (n div 2)))"

declare ilog2.simps [simp del]

text \<open>\<open>n / d\<close> rounded to the nearest integer, ties to even.\<close>

definition roundEven :: "nat \<Rightarrow> nat \<Rightarrow> nat" where
  "roundEven n d =
     (let q = n div d; r = n mod d in
      if 2 * r < d \<or> 2 * r = d \<and> even q then q else q + 1)"

text \<open>\<open>static_cast<float>\<close> of a 32-bit integer.\<close>

definition floatOfU32 :: "u32 \<Rightarrow> nat" where
  "floatOfU32 x =
     (let n = unat x in
      if n < 2 ^ 24 then n else let k = ilog2 n - 23 in roundEven n (2 ^ k) * 2 ^ k)"

text \<open>The exponent of the leading bit of \<open>a / b\<close>.\<close>

definition ratioExponent :: "nat \<Rightarrow> nat \<Rightarrow> int" where
  "ratioExponent a b =
     (let k = int (ilog2 a) - int (ilog2 b) in
      if a * 2 ^ nat (- k) \<ge> b * 2 ^ nat k then k else k - 1)"

text \<open>\<open>static_cast<float>(num) / static_cast<float>(den)\<close>, times \<open>2 ^ 64\<close>.\<close>

definition floatRatio :: "u32 \<Rightarrow> u32 \<Rightarrow> nat" where
  "floatRatio num den =
     (let a = floatOfU32 num; b = floatOfU32 den in
      if a = 0 then 0
      else
        let e = ratioExponent a b - 23 in
        roundEven (a * 2 ^ nat (- e)) (b * 2 ^ nat e) * 2 ^ nat (e + 64))"

fun ratioAbove :: "nat \<Rightarrow> nat option \<Rightarrow> bool" where
  "ratioAbove r None \<longleftrightarrow> True"
| "ratioAbove r (Some best) \<longleftrightarrow> r > best"

section \<open>Statistics and the choice of a range\<close>

type_synonym compaction_range = manifest_range

record segment_stat =
  stGeneration :: u32
  stTotalBytes :: u32
  stLiveBytes :: u32

definition deadBytes :: "segment_stat \<Rightarrow> u32" where
  "deadBytes st =
     (if stTotalBytes st > stLiveBytes st then stTotalBytes st - stLiveBytes st else 0)"

definition liveBytesOf :: "segment_record list \<Rightarrow> u32 \<Rightarrow> u32" where
  "liveBytesOf rs gen =
     foldl (\<lambda>n r. if srGeneration r = gen then n + (kEnqueueOverheadBytes + srPayloadBytes r) else n)
       0 rs"

definition sealedBytesOf :: "'w store \<Rightarrow> u32 \<Rightarrow> u32" where
  "sealedBytesOf s gen = (case sealedSegmentBytes s gen of None \<Rightarrow> 0 | Some n \<Rightarrow> n)"

definition segmentStats :: "'w store \<Rightarrow> segment_stat list option" where
  "segmentStats s =
     do {
       gens \<leftarrow> expandRanges (manifestRanges s) [];
       Some (map (\<lambda>gen. \<lparr>stGeneration = gen, stTotalBytes = sealedBytesOf s gen,
                         stLiveBytes = kSegmentHeaderBytes + liveBytesOf (records s) gen\<rparr>) gens)
     }"

definition inRange :: "u32 \<Rightarrow> u32 \<Rightarrow> u32 \<Rightarrow> bool" where
  "inRange a b gen \<longleftrightarrow> gen \<ge> a \<and> gen \<le> b"

definition rangeHasLive :: "'w store \<Rightarrow> u32 \<Rightarrow> u32 \<Rightarrow> bool" where
  "rangeHasLive s a b \<longleftrightarrow> (\<exists>r \<in> set (records s). inRange a b (srGeneration r))"

text \<open>The loop over the ranges: \<open>Inl\<close> is the early return, \<open>Inr\<close> the best range so far with
  its ratio.\<close>

fun chooseLoop ::
  "'w store \<Rightarrow> segment_stat list \<Rightarrow> manifest_range list \<Rightarrow> (compaction_range \<times> nat) option
     \<Rightarrow> compaction_range + (compaction_range \<times> nat) option" where
  "chooseLoop s stats [] best = Inr best"
| "chooseLoop s stats (r # rs) best =
     (if \<not> rangeHasLive s (startGen r) (endGen r) then Inl r
      else
        let inside = filter (\<lambda>st. inRange (startGen r) (endGen r) (stGeneration st)) stats;
            tot = sum_list (map stTotalBytes inside);
            dead = sum_list (map deadBytes inside)
        in if tot = 0 then chooseLoop s stats rs best
           else
             let ratio = floatRatio dead tot in
             if ratioAbove ratio (map_option snd best)
             then chooseLoop s stats rs (Some (r, ratio))
             else chooseLoop s stats rs best)"

definition chooseCompactionRange :: "'w store \<Rightarrow> compaction_range option option" where
  "chooseCompactionRange s =
     (if manifestRanges s = [] then Some None
      else do {
        stats \<leftarrow> segmentStats s;
        Some (case chooseLoop s stats (manifestRanges s) None of
                Inl r \<Rightarrow> Some r
              | Inr None \<Rightarrow> None
              | Inr (Some (r, ratio)) \<Rightarrow> if ratio = 0 then None else Some r)
      })"

definition predictOut :: "append_log_config \<Rightarrow> u32 \<Rightarrow> u32" where
  "predictOut cfg liveBytes =
     (if liveBytes = 0 then 0 else (liveBytes + maxSegmentBytes cfg - 1) div maxSegmentBytes cfg)"

text \<open>The inner loop of \<open>narrowRange\<close> from one start segment, then the outer loop.\<close>

fun narrowInner ::
  "append_log_config \<Rightarrow> u8 \<Rightarrow> u32 \<Rightarrow> u32 \<Rightarrow> u32 \<Rightarrow> segment_stat list
     \<Rightarrow> compaction_range \<times> nat option \<Rightarrow> compaction_range \<times> nat option" where
  "narrowInner cfg maxOut first live tot [] best = best"
| "narrowInner cfg maxOut first live tot (sg # sgs) best =
     (let live = live + stLiveBytes sg; tot = tot + stTotalBytes sg in
      if predictOut cfg live > ucast maxOut then best
      else
        let dr = (if tot > 0 then floatRatio (tot - live) tot else 0)
        in narrowInner cfg maxOut first live tot sgs
             (if ratioAbove dr (snd best)
              then (\<lparr>startGen = first, endGen = stGeneration sg\<rparr>, Some dr) else best))"

fun narrowOuter ::
  "append_log_config \<Rightarrow> u8 \<Rightarrow> segment_stat list
     \<Rightarrow> compaction_range \<times> nat option \<Rightarrow> compaction_range \<times> nat option" where
  "narrowOuter cfg maxOut [] best = best"
| "narrowOuter cfg maxOut (sg # sgs) best =
     narrowOuter cfg maxOut sgs (narrowInner cfg maxOut (stGeneration sg) 0 0 (sg # sgs) best)"

definition narrowRange ::
  "append_log_config \<Rightarrow> compaction_range \<Rightarrow> u8 \<Rightarrow> 'w store \<Rightarrow> compaction_range option" where
  "narrowRange cfg rg maxOutputSegs s =
     do {
       allStats \<leftarrow> segmentStats s;
       let segs = sort_key stGeneration
                    (filter (\<lambda>st. inRange (startGen rg) (endGen rg) (stGeneration st)) allStats);
       Some (case segs of
               [] \<Rightarrow> rg
             | first # rest \<Rightarrow>
                 let single = \<lparr>startGen = stGeneration first, endGen = stGeneration first\<rparr> in
                 if predictOut cfg (sum_list (map stLiveBytes segs)) \<le> ucast maxOutputSegs then rg
                 else if predictOut cfg (stLiveBytes first) > ucast maxOutputSegs then single
                 else fst (narrowOuter cfg maxOutputSegs segs (single, None)))
     }"

definition sumDeadBytes :: "'w store \<Rightarrow> u32 option" where
  "sumDeadBytes s = do { stats \<leftarrow> segmentStats s; Some (sum_list (map deadBytes stats)) }"

section \<open>Planning\<close>

text \<open>The index of the range that contains \<open>[a, b]\<close>, or the number of ranges.\<close>

fun findParent :: "u32 \<Rightarrow> u32 \<Rightarrow> manifest_range list \<Rightarrow> nat" where
  "findParent a b [] = 0"
| "findParent a b (r # rs) =
     (if startGen r \<le> a \<and> b \<le> endGen r then 0 else Suc (findParent a b rs))"

definition findParentRangeIdx :: "'w store \<Rightarrow> u32 \<Rightarrow> u32 \<Rightarrow> nat" where
  "findParentRangeIdx s a b =
     (if a > b then length (manifestRanges s) else findParent a b (manifestRanges s))"

datatype fallback = FallbackNo | FallbackYes

record compaction_plan =
  plInput :: compaction_range
  plHasLeft :: bool
  plHasRight :: bool
  plWouldRotate :: bool

text \<open>The range-count gate: the input range with its left and right remainders, or \<open>None\<close> for
  a no-op.\<close>

definition gateRange ::
  "compaction_range \<Rightarrow> fallback \<Rightarrow> manifest_range \<Rightarrow> 'w store
     \<Rightarrow> (compaction_range \<times> bool \<times> bool) option" where
  "gateRange rg allowFallback parent s =
     (let hasLeft = (startGen rg > startGen parent);
          hasRight = (endGen rg < endGen parent);
          liveDelta = (if hasLeft \<and> hasRight then 2 else if hasLeft \<or> hasRight then 1 else 0);
          deadDelta = (if hasLeft \<and> hasRight then 1 else 0);
          gateDelta = (if rangeHasLive s (startGen rg) (endGen rg)
                       then liveDelta else deadDelta)
      in if length (manifestRanges s) + gateDelta > unat kManifestMaxRanges
         then (case allowFallback of
                 FallbackNo \<Rightarrow> None
               | FallbackYes \<Rightarrow> Some (\<lparr>startGen = startGen parent, endGen = endGen parent\<rparr>, False, False))
         else Some (rg, hasLeft, hasRight))"

text \<open>Whether the tail would be sealed first, so that it can be compacted with the range.\<close>

definition wouldRotate :: "compaction_range \<Rightarrow> 'w store \<Rightarrow> bool" where
  "wouldRotate inputRange s \<longleftrightarrow>
     manifestRanges s \<noteq> [] \<and> endGen inputRange = endGen (last (manifestRanges s))
     \<and> activeSegmentBytes s > kSegmentHeaderBytes \<and> manifestRanges s \<noteq> []
     \<and> endGen (last (manifestRanges s)) + 1 = activeGeneration s
     \<and> activeTailDependenciesTracked s
     \<and> (\<forall>gen \<in> activeTailAffectedGenerations s.
          inRange (startGen inputRange) (activeGeneration s) gen)"

definition planCompaction ::
  "compaction_range \<Rightarrow> fallback \<Rightarrow> 'w store \<Rightarrow> compaction_plan option" where
  "planCompaction rg allowFallback s =
     (let rangeIdx = findParentRangeIdx s (startGen rg) (endGen rg) in
      if rangeIdx \<ge> length (manifestRanges s) then None else
      let parent = manifestRanges s ! rangeIdx in
      case gateRange rg allowFallback parent s of
        None \<Rightarrow> None
      | Some (inputRange, hasLeft, hasRight) \<Rightarrow>
          let rot = wouldRotate inputRange s;
              hypoCheckEnd = (if rot then activeGeneration s else endGen inputRange);
              plan = \<lparr>plInput = inputRange, plHasLeft = hasLeft, plHasRight = hasRight,
                      plWouldRotate = rot\<rparr>
          in if rot \<and> rangeHasLive s (startGen inputRange) hypoCheckEnd \<and> hasLeft
                \<and> length (manifestRanges s) + 1 > unat kManifestMaxRanges
             then (case allowFallback of
                     FallbackNo \<Rightarrow> None
                   | FallbackYes \<Rightarrow>
                       Some \<lparr>plInput = \<lparr>startGen = startGen parent, endGen = endGen parent\<rparr>,
                             plHasLeft = False, plHasRight = False, plWouldRotate = rot\<rparr>)
             else Some plan)"

text \<open>The preflight: the number of output segments and the live bytes the payloads would take.\<close>

fun hypoOutputSegs :: "append_log_config \<Rightarrow> u32 \<Rightarrow> u32 \<Rightarrow> u32 list \<Rightarrow> u32" where
  "hypoOutputSegs cfg segs segBytes [] = segs"
| "hypoOutputSegs cfg segs segBytes (pay # pays) =
     (let recBytes = kEnqueueOverheadBytes + pay in
      if segBytes + recBytes > maxSegmentBytes cfg
      then hypoOutputSegs cfg (segs + 1) (kSegmentHeaderBytes + recBytes) pays
      else hypoOutputSegs cfg segs (segBytes + recBytes) pays)"

definition hypoPayloads :: "u32 \<Rightarrow> u32 \<Rightarrow> 'w store \<Rightarrow> u32 list" where
  "hypoPayloads a b s =
     map srPayloadBytes (filter (\<lambda>r. inRange a b (srGeneration r)) (records s))"

definition hypoInputBytes :: "u32 \<Rightarrow> u32 \<Rightarrow> 'w store \<Rightarrow> u32 option" where
  "hypoInputBytes a b s =
     do {
       gens \<leftarrow> genLoop a b [];
       Some (sum_list (map (\<lambda>gen. if gen = activeGeneration s then activeSegmentBytes s
                                  else sealedBytesOf s gen) gens))
     }"

definition hypoLiveBytes :: "u32 \<Rightarrow> u32 list \<Rightarrow> u32" where
  "hypoLiveBytes segs pays =
     (if pays = [] then 0
      else segs * kSegmentHeaderBytes + sum_list (map (\<lambda>pay. kEnqueueOverheadBytes + pay) pays))"

definition planEnd :: "compaction_plan \<Rightarrow> 'w store \<Rightarrow> u32" where
  "planEnd plan s =
     (if plWouldRotate plan then activeGeneration s else endGen (plInput plan))"

definition preflight ::
  "append_log_config \<Rightarrow> compaction_plan \<Rightarrow> 'w store \<Rightarrow> (bool \<times> u32 list) option" where
  "preflight cfg plan s =
     (let a = startGen (plInput plan); b = planEnd plan s;
          pays = hypoPayloads a b s;
          outSegs = (if pays = [] then 0 else hypoOutputSegs cfg 1 kSegmentHeaderBytes pays);
          inSegs = b - a + 1
      in do {
        inputBytes \<leftarrow> hypoInputBytes a b s;
        let hasDead = (hypoLiveBytes outSegs pays < inputBytes);
        Some (\<not> (pays \<noteq> [] \<and> (outSegs > inSegs \<or> outSegs = inSegs \<and> \<not> hasDead)), pays)
      })"

section \<open>Collecting, packing and writing\<close>

record live_record =
  lrSequence :: u32
  lrPayload :: bytes

text \<open>\<open>None\<close> is the exception \<open>substr\<close> throws for an offset past the end.\<close>

fun cutRecords :: "bytes \<Rightarrow> segment_record list \<Rightarrow> (status \<times> live_record list) option" where
  "cutRecords buf [] = Some (success, [])"
| "cutRecords buf (r # rs) =
     (if unat (srPayloadOffset r + srPayloadBytes r) > length buf
      then Some (failure DataCorrupt ''payload out of bounds in segment'', [])
      else if unat (srPayloadOffset r) > length buf then None
      else do {
        (st, out) \<leftarrow> cutRecords buf rs;
        Some (st, \<lparr>lrSequence = srSequence r,
               lrPayload = take (unat (srPayloadBytes r)) (drop (unat (srPayloadOffset r)) buf)\<rparr> # out)
      })"

fun collectGens ::
  "'w fs_ops \<Rightarrow> segment_record list \<Rightarrow> u32 list \<Rightarrow> 'w store
     \<Rightarrow> ((status \<times> live_record list) \<times> 'w store) option" where
  "collectGens F rs [] s = Some ((success, []), s)"
| "collectGens F rs (gen # gens) s =
     (let ((st, buf), s) = onWorld (fs_readFile F (segmentName gen)) s in
      if \<not> ok st then Some ((st, []), s)
      else do {
        (st, out) \<leftarrow> cutRecords buf (filter (\<lambda>r. srGeneration r = gen) rs);
        if \<not> ok st then Some ((st, out), s)
        else do {
          ((st, more), s) \<leftarrow> collectGens F rs gens s;
          Some ((st, out @ more), s)
        }
      })"

definition collectLiveRecords ::
  "'w fs_ops \<Rightarrow> compaction_range \<Rightarrow> 'w store
     \<Rightarrow> ((status \<times> live_record list) \<times> 'w store) option" where
  "collectLiveRecords F rg s =
     (let rs = filter (\<lambda>r. inRange (startGen rg) (endGen rg) (srGeneration r)) (records s);
          gens = sort (remdups (map srGeneration rs))
      in do {
        ((st, out), s) \<leftarrow> collectGens F rs gens s;
        if \<not> ok st then Some ((st, out), s)
        else Some ((success, sort_key lrSequence out), s)
      })"

fun packOutput ::
  "append_log_config \<Rightarrow> u32 \<Rightarrow> u32 \<Rightarrow> live_record list \<Rightarrow> live_record list
     \<Rightarrow> (u32 \<times> live_record list) list" where
  "packOutput cfg gen segBytes cur [] = [(gen, cur)]"
| "packOutput cfg gen segBytes cur (lr # lrs) =
     (let recBytes = kEnqueueOverheadBytes + word_of_nat (length (lrPayload lr)) in
      if cur \<noteq> [] \<and> segBytes + recBytes > maxSegmentBytes cfg
      then (gen, cur) # packOutput cfg (gen + 1) (kSegmentHeaderBytes + recBytes) [lr] lrs
      else packOutput cfg gen (segBytes + recBytes) (cur @ [lr]) lrs)"

fun buildSegment :: "u32 \<Rightarrow> u32 \<Rightarrow> live_record list \<Rightarrow> bytes \<times> segment_record list" where
  "buildSegment gen writeOffset [] = ([], [])"
| "buildSegment gen writeOffset (lr # lrs) =
     (let n = (word_of_nat (length (lrPayload lr)) :: u32);
          (d, rs) = buildSegment gen (writeOffset + (kEnqueueOverheadBytes + n)) lrs
      in (serializeEnqueueEvent (lrSequence lr) (lrPayload lr) @ d,
          \<lparr>srSequence = lrSequence lr, srGeneration = gen,
           srPayloadOffset = writeOffset + kEnqueueHeaderBytes, srPayloadBytes = n\<rparr> # rs))"

fun writeOutputs ::
  "'w fs_ops \<Rightarrow> (u32 \<times> live_record list) list \<Rightarrow> 'w store
     \<Rightarrow> (status \<times> segment_record list) \<times> 'w store" where
  "writeOutputs F [] s = ((success, []), s)"
| "writeOutputs F ((gen, lrs) # segs) s =
     (let (d, rs) = buildSegment gen kSegmentHeaderBytes lrs;
          segData = serializeSegmentHeader gen (lrSequence (hd lrs)) @ d;
          (st, s) = writeSegmentFileTracked F (segmentName gen) segData MustBeNew s
      in if \<not> ok st then ((st, rs), s)
         else let ((st, more), s) = writeOutputs F segs s in ((st, rs @ more), s))"

section \<open>The new ranges\<close>

definition spliceRanges ::
  "manifest_range list \<Rightarrow> nat \<Rightarrow> bool \<Rightarrow> bool \<Rightarrow> compaction_range \<Rightarrow> manifest_range list
     \<Rightarrow> manifest_range list" where
  "spliceRanges rs rangeIdx hasLeft hasRight input output =
     (let parent = rs ! rangeIdx in
      take rangeIdx rs
      @ (if hasLeft then [\<lparr>startGen = startGen parent, endGen = startGen input - 1\<rparr>] else [])
      @ output
      @ (if hasRight then [\<lparr>startGen = endGen input + 1, endGen = endGen parent\<rparr>] else [])
      @ drop (rangeIdx + 1) rs)"

definition mergeRight :: "nat \<Rightarrow> manifest_range list \<Rightarrow> manifest_range list" where
  "mergeRight i rs =
     (if i + 1 < length rs \<and> endGen (rs ! i) + 1 = startGen (rs ! (i + 1))
      then take i rs @ [(rs ! i)\<lparr>endGen := endGen (rs ! (i + 1))\<rparr>] @ drop (i + 2) rs
      else rs)"

definition mergeLeft :: "nat \<Rightarrow> manifest_range list \<Rightarrow> manifest_range list" where
  "mergeLeft i rs =
     (if i > 0 \<and> endGen (rs ! (i - 1)) + 1 = startGen (rs ! i)
      then take (i - 1) rs @ [(rs ! (i - 1))\<lparr>endGen := endGen (rs ! i)\<rparr>] @ drop (i + 1) rs
      else rs)"

section \<open>Clean-up and replacement\<close>

fun cleanupGens :: "'w fs_ops \<Rightarrow> u32 list \<Rightarrow> 'w store \<Rightarrow> 'w store" where
  "cleanupGens F [] s = s"
| "cleanupGens F (gen # gens) s =
     (let sz = sealedBytesOf s gen;
          (st, s) = onWorld (fs_removeFile F (segmentName gen)) s;
          s = (if ok st
               then s\<lparr>totalOnDiskBytes := totalOnDiskBytes s - sz,
                      sealedSegmentBytes := (sealedSegmentBytes s)(gen := None)\<rparr>
               else s)
      in cleanupGens F gens s)"

text \<open>\<open>cleanupInputSegments\<close> and the loop after it, which erases the range from the tail's
  dependencies; both walk the same generations.\<close>

definition cleanupInputSegments ::
  "'w fs_ops \<Rightarrow> compaction_range \<Rightarrow> 'w store \<Rightarrow> 'w store option" where
  "cleanupInputSegments F rg s =
     (if \<not> fs_present F then Some s
      else do { gens \<leftarrow> genLoop (startGen rg) (endGen rg) []; Some (cleanupGens F gens s) })"

definition eraseAffected :: "compaction_range \<Rightarrow> 'w store \<Rightarrow> 'w store option" where
  "eraseAffected rg s =
     do {
       gens \<leftarrow> genLoop (startGen rg) (endGen rg) [];
       Some (s\<lparr>activeTailAffectedGenerations := activeTailAffectedGenerations s - set gens\<rparr>)
     }"

definition replaceRecords ::
  "compaction_range \<Rightarrow> segment_record list \<Rightarrow> segment_record list \<Rightarrow> segment_record list" where
  "replaceRecords rg replacements rs =
     map (\<lambda>r. if \<not> inRange (startGen rg) (endGen rg) (srGeneration r) then r
              else case find (\<lambda>rep. srSequence rep = srSequence r) replacements of
                     None \<Rightarrow> r | Some rep \<Rightarrow> rep) rs"

section \<open>Compacting a range\<close>

text \<open>The result: the status, \<open>*inputSegCount\<close> and \<open>*outputSegCount\<close>.\<close>

type_synonym compact_result = "status \<times> u32 \<times> u32"

text \<open>The last steps of both branches: publication, then the clean-up of the inputs.\<close>

definition publishCompacted ::
  "'w fs_ops \<Rightarrow> compaction_range \<Rightarrow> manifest_range list \<Rightarrow> u32 \<Rightarrow> 'w store
     \<Rightarrow> (status \<times> 'w store) option" where
  "publishCompacted F rg newRanges newNext s =
     do {
       (st, s) \<leftarrow> publishManifest F
          (default_manifest\<lparr>ranges := newRanges, tailGeneration := activeGeneration s,
             nextGeneration := newNext\<rparr>) s;
       if \<not> ok st then Some (st, s)
       else do {
         s \<leftarrow> cleanupInputSegments F rg s;
         s \<leftarrow> eraseAffected rg s;
         Some (success, s)
       }
     }"

text \<open>From \<open>collectLiveRecords\<close> on, with the index of the parent range, the remainders and
  the effective input range.\<close>

definition compactCollected ::
  "'w fs_ops \<Rightarrow> append_log_config \<Rightarrow> nat \<Rightarrow> bool \<Rightarrow> bool \<Rightarrow> compaction_range
     \<Rightarrow> live_record list \<Rightarrow> u32 \<Rightarrow> 'w store \<Rightarrow> (compact_result \<times> 'w store) option" where
  "compactCollected F cfg rangeIdx hasLeft hasRight input liveRecords inputCount s =
     (if liveRecords = [] then do {
        (st, s) \<leftarrow> publishCompacted F input
           (spliceRanges (manifestRanges s) rangeIdx hasLeft hasRight input []) (nextGen s) s;
        Some ((st, inputCount, 0), s)
      }
      else
        let outputSegs = packOutput cfg (nextGen s) kSegmentHeaderBytes [] liveRecords;
            outputCount = word_of_nat (length outputSegs);
            firstNewGen = fst (hd outputSegs);
            lastNewGen = fst (last outputSegs);
            ((st, replacements), s) = writeOutputs F outputSegs s
        in if \<not> ok st then Some ((st, inputCount, outputCount), s)
           else
             let outputIdx = (if hasLeft then rangeIdx + 1 else rangeIdx);
                 newRanges = spliceRanges (manifestRanges s) rangeIdx hasLeft hasRight input
                               [\<lparr>startGen = firstNewGen, endGen = lastNewGen\<rparr>];
                 newRanges = mergeLeft outputIdx (mergeRight outputIdx newRanges)
             in do {
               (st, s) \<leftarrow> publishCompacted F input newRanges (lastNewGen + 1) s;
               if \<not> ok st then Some ((st, inputCount, outputCount), s)
               else Some ((success, inputCount, outputCount),
                 s\<lparr>records := replaceRecords input replacements (records s)\<rparr>)
             })"

definition compactRange ::
  "'w fs_ops \<Rightarrow> append_log_config \<Rightarrow> compaction_range \<Rightarrow> fallback \<Rightarrow> 'w store
     \<Rightarrow> (compact_result \<times> 'w store) option" where
  "compactRange F cfg rg allowFallback s =
     (case planCompaction rg allowFallback s of
        None \<Rightarrow> Some ((noOp, 0, 0), s)
      | Some plan \<Rightarrow> do {
          (go, pays) \<leftarrow> preflight cfg plan s;
          if \<not> go then Some ((noOp, 0, 0), s) else do {
            (rotSt, s) \<leftarrow> (if plWouldRotate plan \<and> pays \<noteq> [] then rotateSegment F s
                          else Some (success, s));
            if \<not> ok rotSt then Some ((rotSt, 0, 0), s) else
            let input = plInput plan;
                rangeIdx = findParentRangeIdx s (startGen input) (endGen input)
            in if rangeIdx \<ge> length (manifestRanges s) then Some ((noOp, 0, 0), s) else
            let parent = manifestRanges s ! rangeIdx;
                input = (if plWouldRotate plan \<and> pays \<noteq> []
                         then input\<lparr>endGen := endGen parent\<rparr> else input);
                hasLeft = (startGen input > startGen parent);
                hasRight = (endGen input < endGen parent);
                inputCount = endGen input - startGen input + 1
            in do {
              ((st, liveRecords), s) \<leftarrow> collectLiveRecords F input s;
              if \<not> ok st then Some ((st, inputCount, 0), s)
              else compactCollected F cfg rangeIdx hasLeft hasRight input liveRecords inputCount s
            }
          }
        })"

definition reclaimDeadFrontSegment ::
  "'w fs_ops \<Rightarrow> append_log_config \<Rightarrow> 'w store \<Rightarrow> (compact_result \<times> 'w store) option" where
  "reclaimDeadFrontSegment F cfg s =
     (if manifestRanges s = [] then Some ((noOp, 0, 0), s)
      else
        let frontGen = startGen (hd (manifestRanges s)) in
        if rangeHasLive s frontGen frontGen then Some ((noOp, 0, 0), s)
        else compactRange F cfg \<lparr>startGen = frontGen, endGen = frontGen\<rparr> FallbackNo s)"

definition compactOneSegment ::
  "'w fs_ops \<Rightarrow> append_log_config \<Rightarrow> fallback \<Rightarrow> 'w store \<Rightarrow> (compact_result \<times> 'w store) option" where
  "compactOneSegment F cfg allowFallback s =
     do {
       rangeOpt \<leftarrow> chooseCompactionRange s;
       case rangeOpt of
         None \<Rightarrow> Some ((noOp, 0, 0), s)
       | Some chosen \<Rightarrow> do {
           rg \<leftarrow> (if maxOutputSegments cfg > 0
                 then narrowRange cfg chosen (maxOutputSegments cfg) s else Some chosen);
           compactRange F cfg rg allowFallback s
         }
     }"

section \<open>Maintenance loops\<close>

fun compactSteps ::
  "'w fs_ops \<Rightarrow> append_log_config \<Rightarrow> nat \<Rightarrow> compact_idle_result \<Rightarrow> 'w store
     \<Rightarrow> (compact_idle_result \<times> 'w store) option" where
  "compactSteps F cfg 0 result s = Some (result, s)"
| "compactSteps F cfg (Suc n) result s =
     do {
       ((st, stepInput, stepOutput), s) \<leftarrow> compactOneSegment F cfg FallbackYes s;
       let result = result\<lparr>stepsRun := stepsRun result + 1\<rparr>;
       if \<not> ok st then Some (result\<lparr>cirStatus := st\<rparr>, s)
       else if isNoOp st then Some (result\<lparr>noOps := noOps result + 1\<rparr>, s)
       else compactSteps F cfg n
              (result\<lparr>compactions := compactions result + 1,
                 inputSegments := inputSegments result + stepInput,
                 outputSegments := outputSegments result + stepOutput\<rparr>) s
     }"

definition compactIdle ::
  "'w fs_ops \<Rightarrow> append_log_config \<Rightarrow> nat \<Rightarrow> 'w store \<Rightarrow> (compact_idle_result \<times> 'w store) option" where
  "compactIdle F cfg maxSteps s =
     do {
       dead \<leftarrow> sumDeadBytes s;
       let diskBefore = totalOnDiskBytes s;
       (result, s) \<leftarrow> compactSteps F cfg maxSteps
          (default_compact_idle_result\<lparr>deadBytesBefore := dead\<rparr>) s;
       remaining \<leftarrow> sumDeadBytes s;
       Some (result\<lparr>moreWorkLikely :=
                 (ok (cirStatus result) \<and> noOps result = 0 \<and> compactions result > 0),
               segmentCountExceedsTarget :=
                 (length (activeGenerations s) > unat (idleCompactionTargetSegments cfg)),
               remainingDeadBytes := remaining,
               bytesReclaimed :=
                 (if totalOnDiskBytes s < diskBefore then diskBefore - totalOnDiskBytes s
                  else 0)\<rparr>, s)
     }"

partial_function (option) compactFull ::
  "'w fs_ops \<Rightarrow> append_log_config \<Rightarrow> 'w store \<Rightarrow> (status \<times> 'w store) option" where
  "compactFull F cfg s =
     do {
       (result, s) \<leftarrow> compactIdle F cfg 1 s;
       if ok (cirStatus result) \<and> compactions result > 0 then compactFull F cfg s
       else Some (cirStatus result, s)
     }"

declare compactFull.simps [code]

end
