(* ===== verification/Store_Ops.thy ===== *)
theory Store_Ops
  imports Compaction
begin

text \<open>
  The \<open>Store\<close> interface of \<open>AppendLogStore\<close> (\<open>append_log_store/store.cpp\<close>): reading the
  index, committing an enqueue, a pop and a rewrite, reading records, the lock files and
  formatting.  A reader returns its out-parameter with the status; it is empty (or 0) when the
  code returns before assigning it.
\<close>

section \<open>Index and admission\<close>

definition readIndex ::
  "'w fs_ops \<Rightarrow> append_log_config \<Rightarrow> 'w store \<Rightarrow> ((status \<times> queue_index) \<times> 'w store) option" where
  "readIndex F cfg s =
     do {
       (st, s) \<leftarrow> ensureMounted F cfg s;
       if \<not> ok st then Some ((st, empty_index), s)
       else Some ((success, indexFromRecords s), s)
     }"

text \<open>The footprint loop of \<open>commitEnqueue\<close> and \<open>rewriteRecord\<close>; the sums are 32-bit.\<close>

definition footprintFull :: "append_log_config \<Rightarrow> u32 \<Rightarrow> 'w store \<Rightarrow> bool" where
  "footprintFull cfg recordSize s \<longleftrightarrow>
     totalOnDiskBytes s + appendGrowthBytes cfg recordSize s + drainReserveBytes cfg
       > maxTotalBytes cfg"

partial_function (option) footprintLoop ::
  "'w fs_ops \<Rightarrow> append_log_config \<Rightarrow> string \<Rightarrow> u32 \<Rightarrow> 'w store \<Rightarrow> (status \<times> 'w store) option" where
  "footprintLoop F cfg operation recordSize s =
     (if \<not> footprintFull cfg recordSize s then Some (success, s)
      else do {
        ((st, _, _), s) \<leftarrow> compactOneSegment F cfg FallbackNo s;
        if \<not> ok st then Some (storeDiagnostic cfg Error st operation s)
        else if isNoOp st
        then Some (storeDiagnostic cfg Warning
               (failure QueueFull ''queue footprint limit reached'') operation s)
        else footprintLoop F cfg operation recordSize s
      })"

declare footprintLoop.simps [code]

partial_function (option) freeSpaceLoop ::
  "'w fs_ops \<Rightarrow> append_log_config \<Rightarrow> string \<Rightarrow> u64 \<Rightarrow> 'w store \<Rightarrow> (status \<times> 'w store) option" where
  "freeSpaceLoop F cfg operation needed s =
     (if \<not> storeFreeBytes F s < needed then Some (success, s)
      else do {
        ((st, _, _), s) \<leftarrow> compactOneSegment F cfg FallbackNo s;
        if \<not> ok st then Some (storeDiagnostic cfg Error st operation s)
        else if isNoOp st
        then Some (storeDiagnostic cfg Warning
               (failure QueueFull ''insufficient filesystem free space'') operation s)
        else freeSpaceLoop F cfg operation needed s
      })"

declare freeSpaceLoop.simps [code]

definition makeRoom ::
  "'w fs_ops \<Rightarrow> append_log_config \<Rightarrow> string \<Rightarrow> u32 \<Rightarrow> 'w store \<Rightarrow> (status \<times> 'w store) option" where
  "makeRoom F cfg operation recordSize s =
     do {
       (st, s) \<leftarrow> (if maxTotalBytes cfg > 0 then footprintLoop F cfg operation recordSize s
                  else Some (success, s));
       if \<not> ok st then Some (st, s)
       else if minFreeBytes cfg > 0
       then freeSpaceLoop F cfg operation
              (ucast (minFreeBytes cfg) + ucast (appendGrowthBytes cfg recordSize s)
                 + ucast (drainReserveBytes cfg)) s
       else Some (success, s)
     }"

text \<open>The size checks both writers start with.\<close>

definition recordSizeError :: "append_log_config \<Rightarrow> nat \<Rightarrow> status option" where
  "recordSizeError cfg n =
     (if n > maxRecordBytes cfg
      then Some (failure RecordTooLarge ''record exceeds append-log maximum record size'')
      else if unat kSegmentHeaderBytes + unat kEnqueueOverheadBytes + n > unat (maxSegmentBytes cfg)
      then Some (failure RecordTooLarge ''record too large to fit in a segment'')
      else None)"

section \<open>Commits\<close>

text \<open>The part of \<open>commitEnqueue\<close> after the admission checks.\<close>

definition writeEnqueue ::
  "'w fs_ops \<Rightarrow> append_log_config \<Rightarrow> u32 \<Rightarrow> bytes \<Rightarrow> 'w store \<Rightarrow> (status \<times> 'w store) option" where
  "writeEnqueue F cfg sequence record s =
     do {
       (rst, s) \<leftarrow> rotateIfFull F cfg (kEnqueueOverheadBytes + word_of_nat (length record)) s;
       if \<not> ok rst then Some (storeDiagnostic cfg Error rst ''commitEnqueue'' s) else do {
         (est, s) \<leftarrow> ensureActiveSegment F sequence s;
         if \<not> ok est then Some (storeDiagnostic cfg Error est ''commitEnqueue'' s) else
         let payloadOffset = activeSegmentBytes s + kEnqueueHeaderBytes;
             (ast, s) = appendEnqueueEventBytes F (serializeEnqueueEvent sequence record) s
         in if \<not> ok ast then Some (storeDiagnostic cfg Error ast ''commitEnqueue'' s)
            else Some (success, s\<lparr>records := records s @
                   [\<lparr>srSequence = sequence, srGeneration = activeGeneration s,
                     srPayloadOffset = payloadOffset,
                     srPayloadBytes = word_of_nat (length record)\<rparr>]\<rparr>)
       }
     }"

definition commitEnqueue ::
  "'w fs_ops \<Rightarrow> append_log_config \<Rightarrow> u32 \<Rightarrow> bytes \<Rightarrow> 'w store \<Rightarrow> (status \<times> 'w store) option" where
  "commitEnqueue F cfg sequence record s =
     do {
       (st, s) \<leftarrow> ensureMounted F cfg s;
       if \<not> ok st then Some (st, s) else
       case recordSizeError cfg (length record) of
         Some err \<Rightarrow> Some (storeDiagnostic cfg Warning err ''commitEnqueue'' s)
       | None \<Rightarrow>
           if sequence = 0xffffffff
           then Some (storeDiagnostic cfg Error
                  (failure SequenceExhausted ''sequence space exhausted; format() required'')
                  ''commitEnqueue'' s)
           else do {
             (st, s) \<leftarrow> makeRoom F cfg ''commitEnqueue'' (word_of_nat (length record)) s;
             if \<not> ok st then Some (st, s) else writeEnqueue F cfg sequence record s
           }
     }"

definition commitPop ::
  "'w fs_ops \<Rightarrow> append_log_config \<Rightarrow> u32 \<Rightarrow> 'w store \<Rightarrow> (status \<times> 'w store) option" where
  "commitPop F cfg expected s =
     do {
       (st, s) \<leftarrow> ensureMounted F cfg s;
       if \<not> ok st then Some (st, s)
       else if records s = [] \<or> srSequence (hd (records s)) \<noteq> expected
       then Some (storeDiagnostic cfg Error
              (failure InvalidIndex ''commitPop: sequence mismatch'') ''commitPop'' s)
       else
         let poppedSeq = srSequence (hd (records s)); poppedGen = srGeneration (hd (records s)) in
         do {
           (st, s) \<leftarrow> appendPopEvent F cfg poppedSeq s;
           if \<not> ok st then Some (storeDiagnostic cfg Error st ''commitPop'' s)
           else
             let s = (if activeTailDependenciesTracked s
                      then s\<lparr>activeTailAffectedGenerations :=
                              insert poppedGen (activeTailAffectedGenerations s)\<rparr>
                      else s)
             in Some (success, s\<lparr>records := tl (records s)\<rparr>)
         }
     }"

definition rewriteRecord ::
  "'w fs_ops \<Rightarrow> append_log_config \<Rightarrow> u32 \<Rightarrow> bytes \<Rightarrow> 'w store \<Rightarrow> (status \<times> 'w store) option" where
  "rewriteRecord F cfg sequence record s =
     do {
       (st, s) \<leftarrow> ensureMounted F cfg s;
       if \<not> ok st then Some (st, s) else
       case recordSizeError cfg (length record) of
         Some err \<Rightarrow> Some (storeDiagnostic cfg Warning err ''rewriteRecord'' s)
       | None \<Rightarrow> do {
           (st, s) \<leftarrow> makeRoom F cfg ''rewriteRecord'' (word_of_nat (length record)) s;
           if \<not> ok st then Some (st, s) else do {
             (st, s) \<leftarrow> appendRewriteEvent F cfg sequence record s;
             if \<not> ok st then Some (storeDiagnostic cfg Error st ''rewriteRecord'' s)
             else Some (success, s)
           }
         }
     }"

section \<open>Reading\<close>

definition readRecord ::
  "'w fs_ops \<Rightarrow> append_log_config \<Rightarrow> u32 \<Rightarrow> 'w store \<Rightarrow> ((status \<times> bytes) \<times> 'w store) option" where
  "readRecord F cfg sequence s =
     do {
       (st, s) \<leftarrow> ensureMounted F cfg s;
       if \<not> ok st then Some ((st, []), s)
       else if records s = [] then Some ((failure QueueEmpty ''queue is empty'', []), s)
       else
         let head = srSequence (hd (records s)) in
         if sequence < head \<or> sequence \<ge> head + word_of_nat (length (records s))
         then Some ((failure InvalidRecord ''sequence not in live record range'', []), s)
         else
           let sr = records s ! unat (sequence - head);
               ((st, out), s) = onWorld (fs_readAt F (segmentName (srGeneration sr))
                  (ucast (srPayloadOffset sr)) (unat (srPayloadBytes sr))) s
           in if \<not> ok st
              then let (st, s) = storeDiagnostic cfg Error st ''readRecord'' s in Some ((st, out), s)
              else Some ((success, out), s)
     }"

definition readRecordSize ::
  "'w fs_ops \<Rightarrow> append_log_config \<Rightarrow> u32 \<Rightarrow> 'w store \<Rightarrow> ((status \<times> nat) \<times> 'w store) option" where
  "readRecordSize F cfg sequence s =
     do {
       (st, s) \<leftarrow> ensureMounted F cfg s;
       if \<not> ok st then Some ((st, 0), s)
       else if records s = [] then Some ((failure QueueEmpty ''queue is empty'', 0), s)
       else
         let head = srSequence (hd (records s)) in
         if sequence < head \<or> unat (sequence - head) \<ge> length (records s)
         then Some ((failure InvalidRecord ''sequence not in live record range'', 0), s)
         else Some ((success, unat (srPayloadBytes (records s ! unat (sequence - head)))), s)
     }"

section \<open>Lock files\<close>

definition tryAcquireLockFile ::
  "'w fs_ops \<Rightarrow> append_log_config \<Rightarrow> string \<Rightarrow> bytes \<Rightarrow> 'w store \<Rightarrow> (status \<times> 'w store) option" where
  "tryAcquireLockFile F cfg name contents s =
     do {
       (st, s) \<leftarrow> ensureMounted F cfg s;
       if \<not> ok st then Some (st, s)
       else Some (onWorld (fs_tryAcquireLockFile F name contents) s)
     }"

definition releaseLockFile ::
  "'w fs_ops \<Rightarrow> string \<Rightarrow> bytes \<Rightarrow> 'w store \<Rightarrow> status \<times> 'w store" where
  "releaseLockFile F name expectedContents s =
     (if \<not> fs_present F then (success, s)
      else onWorld (fs_releaseLockFile F name expectedContents) s)"

definition recoverStaleLockFile ::
  "'w fs_ops \<Rightarrow> append_log_config \<Rightarrow> string \<Rightarrow> bytes \<Rightarrow> 'w store \<Rightarrow> (status \<times> 'w store) option" where
  "recoverStaleLockFile F cfg name currentContents s =
     do {
       (st, s) \<leftarrow> ensureMounted F cfg s;
       if \<not> ok st then Some (st, s)
       else Some (onWorld (fs_recoverStaleLockFile F name currentContents) s)
     }"

section \<open>Formatting\<close>

fun removeFiles :: "'w fs_ops \<Rightarrow> string list \<Rightarrow> 'w store \<Rightarrow> 'w store" where
  "removeFiles F [] s = s"
| "removeFiles F (name # names) s = removeFiles F names (snd (onWorld (fs_removeFile F name) s))"

definition formatStore :: "'w fs_ops \<Rightarrow> append_log_config \<Rightarrow> 'w store \<Rightarrow> status \<times> 'w store" where
  "formatStore F cfg s =
     (if \<not> fs_present F
      then storeDiagnostic cfg Error
             (failure BackendUnavailable ''file system backend unavailable'') ''format'' s
      else
        let (st, s) = onWorld (fs_mount F (basePath cfg)) s in
        if \<not> ok st then storeDiagnostic cfg Error st ''format'' s else
        let ((st, files), s) = onWorld (fs_listFiles F) s in
        if \<not> ok st then storeDiagnostic cfg Error st ''format'' s else
        let s = removeFiles F (filter (\<lambda>name. isSegmentName name \<noteq> None) files) s;
            s = removeFiles F [slotName SlotA, slotName SlotB] s
        in (success,
            s\<lparr>manifestRanges := [], activeGenerations := [], sealedSegmentBytes := (\<lambda>_. None),
              records := [], cachedWrittenSlot := None, cachedWrittenEpoch := 0,
              activeGeneration := 0, activeSegmentBytes := 0, totalOnDiskBytes := 0,
              nextGen := 1, activeTailDependenciesTracked := True,
              activeTailAffectedGenerations := {}, nextSequence := 0,
              manifestSlotBytes := (\<lambda>_. 0), mounted := True\<rparr>))"

end
