(* ===== verification/Store_Validation.thy ===== *)
theory Store_Validation
  imports Store_Ops
begin

text \<open>
  \<open>AppendLogStore::validateUnlocked\<close> (\<open>append_log_store/store.cpp\<close>): the manifest pass, the
  existence check of every referenced segment and the scan of their events, with the issues each
  of them reports.  The lambda \<open>addErr\<close> of the code is \<open>addErr\<close> here, with the result as an
  argument; a \<open>return\<close> from the middle of the function is the \<open>Inl\<close> of a sum or the \<open>None\<close>
  branch of a check.  The file is read in place (\<open>readAt\<close>), so every step passes the store on.
\<close>

section \<open>Issues\<close>

definition addErr ::
  "validation_options \<Rightarrow> issue_code \<Rightarrow> string \<Rightarrow> validation_result \<Rightarrow> validation_result" where
  "addErr maxErrors c msg r =
     (let r = r\<lparr>vrOk := False\<rparr> in
      if length (vrErrors r) < maxErrors
      then r\<lparr>vrErrors := vrErrors r @ [default_issue\<lparr>viCode := c, viMessage := msg\<rparr>]\<rparr>
      else r\<lparr>stoppedEarly := True\<rparr>)"

section \<open>The structure of the manifest\<close>

text \<open>The loop over the ranges: the message of the first bad range, or the largest sealed
  generation.\<close>

fun checkRanges :: "manifest_range list \<Rightarrow> u32 \<Rightarrow> string + u32" where
  "checkRanges [] maxSealedGen = Inr maxSealedGen"
| "checkRanges (r # rs) maxSealedGen =
     (if startGen r = 0 \<or> endGen r = 0 \<or> startGen r > endGen r
      then Inl ''manifest range has invalid generation bounds''
      else if endGen r = 0xffffffff then Inl ''manifest range endGen at UINT32_MAX''
      else checkRanges rs (max maxSealedGen (endGen r)))"

definition rangesOverlap :: "manifest_range \<Rightarrow> manifest_range \<Rightarrow> bool" where
  "rangesOverlap ri rj \<longleftrightarrow>
     max (startGen ri) (startGen rj) \<le> min (endGen ri) (endGen rj)"

fun anyOverlap :: "manifest_range list \<Rightarrow> bool" where
  "anyOverlap [] \<longleftrightarrow> False"
| "anyOverlap (r # rs) \<longleftrightarrow> (\<exists>r' \<in> set rs. rangesOverlap r r') \<or> anyOverlap rs"

definition maxReferenced :: "manifest_data \<Rightarrow> u32 \<Rightarrow> u32" where
  "maxReferenced md maxSealedGen =
     (if tailGeneration md \<noteq> 0 then max maxSealedGen (tailGeneration md) else maxSealedGen)"

text \<open>The guard against more referenced generations than segment files; the count is 64 bits wide
  and compared after every range.\<close>

fun referencedExceeds :: "u64 \<Rightarrow> manifest_range list \<Rightarrow> u64 \<Rightarrow> bool" where
  "referencedExceeds segmentFileCount [] referencedCount \<longleftrightarrow> False"
| "referencedExceeds segmentFileCount (r # rs) referencedCount \<longleftrightarrow>
     (let referencedCount = referencedCount + (ucast (endGen r) - ucast (startGen r) + 1) in
      referencedCount > segmentFileCount \<or> referencedExceeds segmentFileCount rs referencedCount)"

definition countSegmentFiles :: "string list \<Rightarrow> u64" where
  "countSegmentFiles files =
     word_of_nat (length (filter (\<lambda>name. isSegmentName name \<noteq> None) files))"

text \<open>All checks of the manifest that need no file: the message of the first that fails.\<close>

definition manifestIssue :: "manifest_data \<Rightarrow> string list \<Rightarrow> string option" where
  "manifestIssue md files =
     (case checkRanges (ranges md) 0 of
        Inl msg \<Rightarrow> Some msg
      | Inr maxSealedGen \<Rightarrow>
          if anyOverlap (ranges md) then Some ''manifest ranges overlap''
          else if tailGeneration md \<noteq> 0
                  \<and> (\<exists>r \<in> set (ranges md). inRange (startGen r) (endGen r) (tailGeneration md))
          then Some ''tail generation appears within a sealed range''
          else if maxReferenced md maxSealedGen > 0
                  \<and> maxReferenced md maxSealedGen \<ge> nextGeneration md
          then Some ''nextGeneration not greater than max referenced generation''
          else if referencedExceeds (countSegmentFiles files) (ranges md)
                    (if tailGeneration md \<noteq> 0 then 1 else 0)
          then Some ''manifest references more segments than exist on disk''
          else None)"

section \<open>The segment files\<close>

text \<open>\<open>checkSegExists\<close>, for one generation and for a list of them.\<close>

definition checkSegExists ::
  "'w fs_ops \<Rightarrow> validation_options \<Rightarrow> u32 \<Rightarrow> validation_result \<times> 'w store
     \<Rightarrow> validation_result \<times> 'w store" where
  "checkSegExists F maxErrors gen = (\<lambda>(r, s).
     if stoppedEarly r then (r, s) else
     let name = segmentName gen;
         ((st, sz), s) = onWorld (fs_fileSize F name) s
     in if \<not> ok st \<or> sz < ucast kSegmentHeaderBytes
        then (addErr maxErrors MetadataCorrupt
                (''referenced segment '' @ name @ '' missing or too small'') r, s)
        else (r, s))"

datatype scan_exit = ScanClean | ScanTorn | ScanCorrupt string

text \<open>One round of the event loop: the exit, or the offset of the next event; the flag says that an
  event was checked.\<close>

definition validateRecordEvent ::
  "'w fs_ops \<Rightarrow> append_log_config \<Rightarrow> string \<Rightarrow> u32 \<Rightarrow> u32 \<Rightarrow> bytes \<Rightarrow> 'w store
     \<Rightarrow> (scan_exit + u32) \<times> 'w store" where
  "validateRecordEvent F cfg name remaining offset headerBuf s =
     (if min remaining kEnqueueHeaderBytes < kEnqueueHeaderBytes then (Inl ScanTorn, s) else
      let (parsed, eh) = parseEnqueueHeader headerBuf default_enqueue_header in
      if \<not> parsed then (Inl (ScanCorrupt ''bad enqueue header''), s) else
      if unat (ehPayloadBytes eh) > maxRecordBytes cfg
      then (Inl (ScanCorrupt ''payload exceeds max record size''), s) else
      let totalEventBytes = kEnqueueOverheadBytes + ehPayloadBytes eh in
      if totalEventBytes > remaining then (Inl ScanTorn, s) else
      let ((st, payloadAndTrailer), s) =
            onWorld (fs_readAt F name (ucast (offset + kEnqueueHeaderBytes))
                       (unat (ehPayloadBytes eh + kEventTrailerBytes))) s in
      if \<not> ok st then (Inl ScanTorn, s) else
      if length payloadAndTrailer < unat (ehPayloadBytes eh + kEventTrailerBytes)
      then (Inl ScanTorn, s) else
      let payload = take (unat (ehPayloadBytes eh)) payloadAndTrailer;
          expectedCrc = enqueueEventCrc eh payload;
          storedCrc = readLE32 payloadAndTrailer (unat (ehPayloadBytes eh));
          storedFooter = readLE32 payloadAndTrailer (unat (ehPayloadBytes eh + 4))
      in if storedCrc \<noteq> expectedCrc \<or> storedFooter \<noteq> kFooterMagic
         then (Inl (ScanCorrupt ''CRC or footer mismatch''), s)
         else (Inr (offset + totalEventBytes), s))"

definition validatePopEvent ::
  "'w fs_ops \<Rightarrow> string \<Rightarrow> u32 \<Rightarrow> u32 \<Rightarrow> 'w store \<Rightarrow> (scan_exit + u32) \<times> 'w store" where
  "validatePopEvent F name remaining offset s =
     (if remaining < kPopEventBytes then (Inl ScanTorn, s) else
      let ((st, popBuf), s) = onWorld (fs_readAt F name (ucast offset) (unat kPopEventBytes)) s in
      if \<not> ok st then (Inl ScanTorn, s) else
      let (parsed, pe) = parsePopEvent popBuf default_pop_event in
      if \<not> parsed then (Inl (ScanCorrupt ''bad pop event''), s)
      else (Inr (offset + kPopEventBytes), s))"

definition validateEvent ::
  "'w fs_ops \<Rightarrow> append_log_config \<Rightarrow> string \<Rightarrow> u32 \<Rightarrow> u32 \<Rightarrow> 'w store
     \<Rightarrow> (scan_exit + u32) \<times> 'w store" where
  "validateEvent F cfg name fileSize offset s =
     (let remaining = fileSize - offset in
      if remaining < 4 then (Inl ScanTorn, s) else
      let toRead = min remaining kEnqueueHeaderBytes;
          ((st, headerBuf), s) = onWorld (fs_readAt F name (ucast offset) (unat toRead)) s in
      if \<not> ok st then (Inl ScanTorn, s) else
      if length headerBuf < 4 then (Inl ScanTorn, s) else
      let magic = readLE32 headerBuf 0 in
      if magic = kEnqueueMagic \<or> magic = kRewriteMagic
      then validateRecordEvent F cfg name remaining offset headerBuf s
      else if magic = kPopMagic then validatePopEvent F name remaining offset s
      else (Inl (ScanCorrupt ''unknown event magic''), s))"

partial_function (option) validateLoop ::
  "'w fs_ops \<Rightarrow> append_log_config \<Rightarrow> string \<Rightarrow> u32 \<Rightarrow> u32 \<Rightarrow> validation_result \<Rightarrow> 'w store
     \<Rightarrow> ((scan_exit \<times> validation_result) \<times> 'w store) option" where
  "validateLoop F cfg name fileSize offset r s =
     (if \<not> offset < fileSize \<or> stoppedEarly r then Some ((ScanClean, r), s)
      else case validateEvent F cfg name fileSize offset s of
             (Inl ex, s) \<Rightarrow> Some ((ex, r), s)
           | (Inr offset, s) \<Rightarrow>
               validateLoop F cfg name fileSize offset
                 (r\<lparr>checkedRecords := checkedRecords r + 1\<rparr>) s)"

declare validateLoop.simps [code]

text \<open>\<open>scanSegment\<close>: the header, the events, and what their end means.\<close>

definition scanExitIssue ::
  "validation_options \<Rightarrow> string \<Rightarrow> bool \<Rightarrow> scan_exit \<Rightarrow> validation_result \<Rightarrow> validation_result" where
  "scanExitIssue maxErrors name isTail ex r =
     (case ex of
        ScanCorrupt why \<Rightarrow>
          addErr maxErrors JournalCorrupt (''corrupt data in segment '' @ name @ '': '' @ why) r
      | ScanTorn \<Rightarrow>
          (if \<not> isTail
           then addErr maxErrors JournalCorrupt
                  (''incomplete (torn) data in sealed segment '' @ name) r
           else r)
      | ScanClean \<Rightarrow> r)"

definition validateSegment ::
  "'w fs_ops \<Rightarrow> append_log_config \<Rightarrow> validation_options \<Rightarrow> u32 \<Rightarrow> bool \<Rightarrow> validation_result
     \<Rightarrow> 'w store \<Rightarrow> (validation_result \<times> 'w store) option" where
  "validateSegment F cfg maxErrors gen isTail r s =
     (let name = segmentName gen;
          ((_, fileSize), s) = onWorld (fs_fileSize F name) s;
          ((st, hdrBytes), s) = onWorld (fs_readAt F name 0 (unat kSegmentHeaderBytes)) s in
      if \<not> ok st
      then Some (addErr maxErrors MetadataCorrupt (''cannot read segment header for '' @ name) r, s)
      else
      let (parsed, segHdr) = parseSegmentHeader hdrBytes default_segment_header in
      if \<not> parsed
      then Some (addErr maxErrors MetadataCorrupt
             (if shVersion segHdr \<noteq> kFormatVersion then ''segment version mismatch in '' @ name
              else ''corrupt segment header in '' @ name) r, s)
      else if shGeneration segHdr \<noteq> gen
      then Some (addErr maxErrors MetadataCorrupt (''segment generation mismatch in '' @ name) r, s)
      else do {
        ((ex, r), s) \<leftarrow> validateLoop F cfg name (ucast fileSize) kSegmentHeaderBytes r s;
        Some (scanExitIssue maxErrors name isTail ex r, s)
      })"

text \<open>The loops over the sealed generations; a loop is left once \<open>stoppedEarly\<close> is set.\<close>

fun validateSealed ::
  "'w fs_ops \<Rightarrow> append_log_config \<Rightarrow> validation_options \<Rightarrow> u32 list \<Rightarrow> validation_result
     \<Rightarrow> 'w store \<Rightarrow> (validation_result \<times> 'w store) option" where
  "validateSealed F cfg maxErrors [] r s = Some (r, s)"
| "validateSealed F cfg maxErrors (g # gens) r s =
     (if stoppedEarly r then Some (r, s)
      else do {
        (r, s) \<leftarrow> validateSegment F cfg maxErrors g False r s;
        validateSealed F cfg maxErrors gens r s
      })"

section \<open>The whole validation\<close>

text \<open>The part after the manifest was elected.\<close>

definition validateWinning ::
  "'w fs_ops \<Rightarrow> append_log_config \<Rightarrow> validation_options \<Rightarrow> manifest_data \<Rightarrow> string list
     \<Rightarrow> 'w store \<Rightarrow> (validation_result \<times> 'w store) option" where
  "validateWinning F cfg maxErrors md files s =
     (case manifestIssue md files of
        Some msg \<Rightarrow> Some (addErr maxErrors MetadataCorrupt msg empty_validation, s)
      | None \<Rightarrow> do {
          sealed \<leftarrow> expandRanges (ranges md) [];
          let hasTail = (tailGeneration md \<noteq> 0);
          let (r, s) = fold (checkSegExists F maxErrors)
                (sealed @ (if hasTail then [tailGeneration md] else [])) (empty_validation, s);
          if \<not> vrOk r then Some (r, s) else do {
            (r, s) \<leftarrow> validateSealed F cfg maxErrors sealed r s;
            if hasTail \<and> \<not> stoppedEarly r
            then validateSegment F cfg maxErrors (tailGeneration md) True r s
            else Some (r, s)
          }
        })"

definition validateUnlocked ::
  "'w fs_ops \<Rightarrow> append_log_config \<Rightarrow> validation_options \<Rightarrow> 'w store
     \<Rightarrow> (validation_result \<times> 'w store) option" where
  "validateUnlocked F cfg maxErrors s =
     (if \<not> fs_present F
      then Some (addErr maxErrors InvalidConfig ''file system backend unavailable'' empty_validation, s)
      else
      let (st, s) = onWorld (fs_mount F (basePath cfg)) s in
      if \<not> ok st then Some (addErr maxErrors InvalidConfig (message st) empty_validation, s) else
      let (existsA, s) = slotExists F SlotA s;
          (existsB, s) = slotExists F SlotB s;
          (mdA, s) = tryRead F SlotA s;
          (mdB, s) = tryRead F SlotB s;
          ((st, files), s) = onWorld (fs_listFiles F) s in
      if \<not> ok st then Some (addErr maxErrors InvalidConfig (message st) empty_validation, s) else
      case chooseWinningSlot mdA mdB of
        Some md \<Rightarrow> validateWinning F cfg maxErrors md files s
      | None \<Rightarrow>
          Some (if existsA \<or> existsB
                then addErr maxErrors MetadataCorrupt
                       ''manifest slot(s) present but none parseable'' empty_validation
                else if \<exists>name \<in> set files. isSegmentName name \<noteq> None
                then addErr maxErrors MetadataCorrupt
                       ''segment files present but no valid manifest'' empty_validation
                else empty_validation, s))"

end
