(* ===== verification/Queue_API.thy ===== *)
theory Queue_API
  imports Store_Validation
begin

text \<open>
  \<open>Queue\<close> (\<open>queue.cpp\<close>, \<open>queue.h\<close>): the public FIFO over a \<open>Store\<close>, with its lock file, its
  cached index and the policy for a full queue.

  \<open>store_ops\<close> is the virtual class \<open>Store\<close> (\<open>store_types.h\<close>) as a record of operations on a
  store object of type \<open>'s\<close>; \<open>st_appendLog\<close> is what \<open>dynamic_cast<AppendLogStore*>\<close> gives
  access to.  \<open>appendLogOps\<close> is the store \<open>makeStore\<close> constructs.  \<open>ScopedLock\<close> is \<open>withLock\<close>:
  the lock is released on every path out of the scope, a failure to acquire it is the result of
  the operation.  Events of the queue and of its store are kept in separate lists.  What
  \<open>makeLockContents\<close> returns for this process (process id, boot id, object address, clock) is
  \<open>quOwner\<close>.  The sleep between two attempts has no effect on the state.
\<close>

section \<open>The Store interface\<close>

record 's append_log_view =
  al_hitsPressure :: "u32 \<Rightarrow> 's \<Rightarrow> bool"
  al_reclaimFront :: "'s \<Rightarrow> (status \<times> 's) option"

record 's store_ops =
  st_readIndex :: "'s \<Rightarrow> ((status \<times> queue_index) \<times> 's) option"
  st_commitEnqueue :: "u32 \<Rightarrow> bytes \<Rightarrow> 's \<Rightarrow> (status \<times> 's) option"
  st_commitPop :: "u32 \<Rightarrow> 's \<Rightarrow> (status \<times> 's) option"
  st_rewriteRecord :: "u32 \<Rightarrow> bytes \<Rightarrow> 's \<Rightarrow> (status \<times> 's) option"
  st_readRecord :: "u32 \<Rightarrow> 's \<Rightarrow> ((status \<times> bytes) \<times> 's) option"
  st_readRecordSize :: "u32 \<Rightarrow> 's \<Rightarrow> ((status \<times> nat) \<times> 's) option"
  st_tryAcquireLockFile :: "string \<Rightarrow> bytes \<Rightarrow> 's \<Rightarrow> (status \<times> 's) option"
  st_releaseLockFile :: "string \<Rightarrow> bytes \<Rightarrow> 's \<Rightarrow> status \<times> 's"
  st_recoverStaleLockFile :: "string \<Rightarrow> bytes \<Rightarrow> 's \<Rightarrow> (status \<times> 's) option"
  st_freeBytes :: "'s \<Rightarrow> u64"
  st_format :: "'s \<Rightarrow> status \<times> 's"
  st_validateUnlocked :: "validation_options \<Rightarrow> 's \<Rightarrow> (validation_result \<times> 's) option"
  st_compactIdle :: "nat \<Rightarrow> 's \<Rightarrow> (compact_idle_result \<times> 's) option"
  st_appendLog :: "'s append_log_view option"

definition appendLogOps :: "'w fs_ops \<Rightarrow> append_log_config \<Rightarrow> 'w store store_ops" where
  "appendLogOps F cfg =
     \<lparr>st_readIndex = readIndex F cfg, st_commitEnqueue = commitEnqueue F cfg,
      st_commitPop = commitPop F cfg, st_rewriteRecord = rewriteRecord F cfg,
      st_readRecord = readRecord F cfg, st_readRecordSize = readRecordSize F cfg,
      st_tryAcquireLockFile = tryAcquireLockFile F cfg, st_releaseLockFile = releaseLockFile F,
      st_recoverStaleLockFile = recoverStaleLockFile F cfg, st_freeBytes = storeFreeBytes F,
      st_format = formatStore F cfg, st_validateUnlocked = validateUnlocked F cfg,
      st_compactIdle = compactIdle F cfg,
      st_appendLog = Some \<lparr>al_hitsPressure = appendWouldHitAdmissionPressure F cfg,
        al_reclaimFront = (\<lambda>s. map_option (\<lambda>((st, _), s). (st, s)) (reclaimDeadFrontSegment F cfg s))\<rparr>\<rparr>"

section \<open>Configuration and state\<close>

record queue_config =
  qcBasePath :: string
  reservedBytes :: u32
  recordSizeBytes :: nat
  fullQueuePolicy :: full_queue_policy
  queueEvents :: event_options
  qcMaxSegmentBytes :: u32
  qcMinFreeBytes :: u32
  qcIdleTargetSegments :: u8
  qcDrainReserveBytes :: u32

definition default_queue_config :: queue_config where
  "default_queue_config =
     \<lparr>qcBasePath = ''build/pqueue-spools/pqueue_spool'', reservedBytes = 128 * 1024,
      recordSizeBytes = 492, fullQueuePolicy = RejectNewest, queueEvents = \<lparr>sinkSet = False\<rparr>,
      qcMaxSegmentBytes = 4096, qcMinFreeBytes = 32 * 1024, qcIdleTargetSegments = 16,
      qcDrainReserveBytes = 0\<rparr>"

text \<open>\<open>makeStore\<close>: the configuration of the store; \<open>maxOutputSegments\<close> keeps its default.\<close>

definition storeConfig :: "queue_config \<Rightarrow> append_log_config" where
  "storeConfig c = default_append_log_config\<lparr>basePath := qcBasePath c,
     maxSegmentBytes := qcMaxSegmentBytes c, maxTotalBytes := reservedBytes c,
     minFreeBytes := qcMinFreeBytes c, drainReserveBytes := qcDrainReserveBytes c,
     idleCompactionTargetSegments := qcIdleTargetSegments c,
     maxRecordBytes := recordSizeBytes c, storeEvents := queueEvents c\<rparr>"

record 's queue =
  quStore :: 's
  quIndex :: queue_index
  quLockContents :: bytes
  quLockHeld :: bool
  quOwner :: bytes
  quEmitted :: "event list"

definition newQueue :: "bytes \<Rightarrow> 's \<Rightarrow> 's queue" where
  "newQueue owner s =
     \<lparr>quStore = s, quIndex = empty_index, quLockContents = [], quLockHeld = False,
      quOwner = owner, quEmitted = []\<rparr>"

definition kLockFileName :: string where "kLockFileName = ''.pqueue.lock''"
definition kLockAttempts :: nat where "kLockAttempts = 10"

definition queueDiagnostic ::
  "queue_config \<Rightarrow> severity \<Rightarrow> status \<Rightarrow> string \<Rightarrow> 's queue \<Rightarrow> status \<times> 's queue" where
  "queueDiagnostic c sev st operation q =
     (st, q\<lparr>quEmitted := emitEvent (queueEvents c)
               (diagnosticEvent sev st ''Queue'' operation) (quEmitted q)\<rparr>)"

text \<open>A call of the store from a member function.\<close>

definition onStore :: "('s \<Rightarrow> ('a \<times> 's) option) \<Rightarrow> 's queue \<Rightarrow> ('a \<times> 's queue) option" where
  "onStore f q = map_option (\<lambda>(r, s). (r, q\<lparr>quStore := s\<rparr>)) (f (quStore q))"

section \<open>The lock\<close>

definition ensureLockContents :: "'s queue \<Rightarrow> 's queue" where
  "ensureLockContents q = (if quLockContents q = [] then q\<lparr>quLockContents := quOwner q\<rparr> else q)"

text \<open>The attempts of \<open>acquireLock\<close>; the last timeout status is passed along.\<close>

fun lockAttempts ::
  "'s store_ops \<Rightarrow> queue_config \<Rightarrow> nat \<Rightarrow> status \<Rightarrow> 's queue \<Rightarrow> (status \<times> 's queue) option" where
  "lockAttempts S c 0 lastStatus q =
     Some (queueDiagnostic c Error
       (failure_code LockTimeout ''queue lock timeout'' (backendCode lastStatus)) ''acquireLock'' q)"
| "lockAttempts S c (Suc n) lastStatus q =
     do {
       (st, q) \<leftarrow> onStore (st_tryAcquireLockFile S kLockFileName (quLockContents q)) q;
       if ok st then Some (success, q\<lparr>quLockHeld := True\<rparr>)
       else if code st \<noteq> LockTimeout then Some (queueDiagnostic c Error st ''acquireLock'' q)
       else lockAttempts S c n st q
     }"

definition acquireLock ::
  "'s store_ops \<Rightarrow> queue_config \<Rightarrow> 's queue \<Rightarrow> (status \<times> 's queue) option" where
  "acquireLock S c q =
     (if quLockHeld q then Some (success, q)
      else lockAttempts S c kLockAttempts (failure LockTimeout ''queue lock timeout'')
             (ensureLockContents q))"

definition releaseLock :: "'s store_ops \<Rightarrow> 's queue \<Rightarrow> 's queue" where
  "releaseLock S q =
     (if \<not> quLockHeld q then q
      else let (_, s) = st_releaseLockFile S kLockFileName (quLockContents q) (quStore q)
           in q\<lparr>quStore := s, quLockHeld := False\<rparr>)"

definition withLock ::
  "'s store_ops \<Rightarrow> queue_config \<Rightarrow> (status \<Rightarrow> 'a) \<Rightarrow> ('s queue \<Rightarrow> ('a \<times> 's queue) option)
     \<Rightarrow> 's queue \<Rightarrow> ('a \<times> 's queue) option" where
  "withLock S c onFailure body q =
     do {
       (st, q) \<leftarrow> acquireLock S c q;
       if \<not> ok st then Some (onFailure st, q)
       else do {
         (r, q) \<leftarrow> body q;
         Some (r, releaseLock S q)
       }
     }"

definition recoverStaleLock ::
  "'s store_ops \<Rightarrow> queue_config \<Rightarrow> 's queue \<Rightarrow> (status \<times> 's queue) option" where
  "recoverStaleLock S c q =
     (if quLockHeld q
      then Some (failure InvalidArgument ''queue already holds the lock'', q)
      else do {
        let q = ensureLockContents q;
        (st, q) \<leftarrow> onStore (st_recoverStaleLockFile S kLockFileName (quLockContents q)) q;
        if \<not> ok st then Some (queueDiagnostic c Error st ''recoverStaleLock'' q) else Some (st, q)
      })"

section \<open>The index\<close>

text \<open>\<open>readIndex\<close> writes \<open>index_\<close> only when it succeeds.\<close>

definition loadLatestIndex ::
  "'s store_ops \<Rightarrow> queue_config \<Rightarrow> 's queue \<Rightarrow> (status \<times> 's queue) option" where
  "loadLatestIndex S c q =
     do {
       ((st, ix), q) \<leftarrow> onStore (st_readIndex S) q;
       if \<not> ok st then Some (queueDiagnostic c Error st ''loadLatestIndex'' q)
       else Some (success, q\<lparr>quIndex := ix\<rparr>)
     }"

text \<open>The head of the queue is gone.\<close>

definition advanceHead :: "'s queue \<Rightarrow> 's queue" where
  "advanceHead q = q\<lparr>quIndex := (quIndex q)\<lparr>ixHead := ixHead (quIndex q) + 1,
                                           ixCount := ixCount (quIndex q) - 1\<rparr>\<rparr>"

definition queueEmpty :: status where
  "queueEmpty = failure QueueEmpty ''queue is empty''"

text \<open>What every operation on the front starts with.\<close>

definition withFront ::
  "'s store_ops \<Rightarrow> queue_config \<Rightarrow> (status \<Rightarrow> 'a) \<Rightarrow> ('s queue \<Rightarrow> ('a \<times> 's queue) option)
     \<Rightarrow> 's queue \<Rightarrow> ('a \<times> 's queue) option" where
  "withFront S c onFailure body =
     withLock S c onFailure (\<lambda>q. do {
       (st, q) \<leftarrow> loadLatestIndex S c q;
       if \<not> ok st then Some (onFailure st, q)
       else if ixCount (quIndex q) = 0 then Some (onFailure queueEmpty, q)
       else body q
     })"

section \<open>Enqueue\<close>

definition evictFront ::
  "'s store_ops \<Rightarrow> queue_config \<Rightarrow> 's queue \<Rightarrow> (status \<times> 's queue) option" where
  "evictFront S c q =
     do {
       (st, q) \<leftarrow> onStore (st_commitPop S (ixHead (quIndex q))) q;
       if \<not> ok st then Some (queueDiagnostic c Error st ''evictFront'' q)
       else Some (success, advanceHead q)
     }"

text \<open>Reclaiming a dead front segment before a record has to be evicted.\<close>

definition reclaimBeforeEviction ::
  "'s store_ops \<Rightarrow> queue_config \<Rightarrow> bytes \<Rightarrow> 's queue \<Rightarrow> (status \<times> 's queue) option" where
  "reclaimBeforeEviction S c record q =
     (case st_appendLog S of
        Some al \<Rightarrow>
          (if fullQueuePolicy c = DropOldest \<and> ixCount (quIndex q) > 0
              \<and> al_hitsPressure al (word_of_nat (length record)) (quStore q)
           then do {
             (st, q) \<leftarrow> onStore (al_reclaimFront al) q;
             if \<not> ok st then Some (queueDiagnostic c Error st ''enqueue'' q) else Some (success, q)
           }
           else Some (success, q))
      | None \<Rightarrow> Some (success, q))"

text \<open>The commit with the eviction loop; \<open>Inl\<close> is the \<open>return\<close> out of the loop.\<close>

partial_function (option) commitEvicting ::
  "'s store_ops \<Rightarrow> queue_config \<Rightarrow> u32 \<Rightarrow> bytes \<Rightarrow> 's queue
     \<Rightarrow> ((status + status) \<times> 's queue) option" where
  "commitEvicting S c sequence record q =
     do {
       (st, q) \<leftarrow> onStore (st_commitEnqueue S sequence record) q;
       if \<not> ok st \<and> code st = QueueFull \<and> fullQueuePolicy c = DropOldest \<and> ixCount (quIndex q) > 0
       then do {
         (evictStatus, q) \<leftarrow> evictFront S c q;
         if \<not> ok evictStatus then Some (Inl evictStatus, q)
         else
           let (_, q) = queueDiagnostic c Warning
                 (failure QueueFull ''queue full: oldest record evicted'') ''enqueue'' q
           in commitEvicting S c sequence record q
       }
       else Some (Inr st, q)
     }"

declare commitEvicting.simps [code]

definition advanceTail :: "'s queue \<Rightarrow> 's queue" where
  "advanceTail q = q\<lparr>quIndex := (quIndex q)\<lparr>ixTail := ixTail (quIndex q) + 1,
                                           ixCount := ixCount (quIndex q) + 1\<rparr>\<rparr>"

definition enqueueLocked ::
  "'s store_ops \<Rightarrow> queue_config \<Rightarrow> span \<Rightarrow> 's queue \<Rightarrow> (status \<times> 's queue) option" where
  "enqueueLocked S c record q =
     do {
       (st, q) \<leftarrow> loadLatestIndex S c q;
       if \<not> ok st then Some (st, q)
       else if spanLen record > recordSizeBytes c
       then Some (queueDiagnostic c Warning
              (failure RecordTooLarge ''record exceeds configured queue maximum'') ''enqueue'' q)
       else do {
         let sequence = ixTail (quIndex q);
         let recordStr = spanToString record;
         (st, q) \<leftarrow> reclaimBeforeEviction S c recordStr q;
         if \<not> ok st then Some (st, q) else do {
           (r, q) \<leftarrow> commitEvicting S c sequence recordStr q;
           case r of
             Inl evictStatus \<Rightarrow> Some (evictStatus, q)
           | Inr st \<Rightarrow>
               if \<not> ok st
               then Some (queueDiagnostic c (if code st = QueueFull then Warning else Error) st
                            ''enqueue'' q)
               else Some (success, advanceTail q)
         }
       }
     }"

definition enqueue ::
  "'s store_ops \<Rightarrow> queue_config \<Rightarrow> span \<Rightarrow> 's queue \<Rightarrow> (status \<times> 's queue) option" where
  "enqueue S c record q =
     (if spanLen record > 0 \<and> spanDataNull record
      then Some (failure InvalidArgument ''Span has non-zero length but null data'', q)
      else withLock S c id (enqueueLocked S c record) q)"

section \<open>The front record\<close>

definition peekSize ::
  "'s store_ops \<Rightarrow> queue_config \<Rightarrow> 's queue \<Rightarrow> ((status \<times> nat) \<times> 's queue) option" where
  "peekSize S c =
     withFront S c (\<lambda>st. (st, 0)) (\<lambda>q. onStore (st_readRecordSize S (ixHead (quIndex q))) q)"

definition peek ::
  "'s store_ops \<Rightarrow> queue_config \<Rightarrow> 's queue \<Rightarrow> ((status \<times> bytes) \<times> 's queue) option" where
  "peek S c =
     withFront S c (\<lambda>st. (st, [])) (\<lambda>q. onStore (st_readRecord S (ixHead (quIndex q))) q)"

text \<open>\<open>peek\<close> into a caller's buffer: the buffer's bytes afterwards and \<open>written\<close>.  A
  \<open>MutableSpan\<close> is a \<open>span\<close>; a null pointer has length 0 after the guard.\<close>

definition peekInto ::
  "'s store_ops \<Rightarrow> queue_config \<Rightarrow> span \<Rightarrow> 's queue \<Rightarrow> ((status \<times> span \<times> nat) \<times> 's queue) option" where
  "peekInto S c out q =
     (if spanLen out > 0 \<and> spanDataNull out
      then Some ((failure InvalidArgument ''MutableSpan has non-zero length but null data'', out, 0), q)
      else withFront S c (\<lambda>st. (st, out, 0)) (\<lambda>q. do {
        ((st, n), q) \<leftarrow> onStore (st_readRecordSize S (ixHead (quIndex q))) q;
        if \<not> ok st then Some ((st, out, 0), q)
        else if n > spanLen out
        then Some ((failure RecordTooLarge ''record payload exceeds buffer length'', out, 0), q)
        else do {
          ((st, tmp), q) \<leftarrow> onStore (st_readRecord S (ixHead (quIndex q))) q;
          if \<not> ok st then Some ((st, out, 0), q)
          else Some ((success,
            (case out of
               NullSpan k \<Rightarrow> NullSpan k
             | DataSpan buf \<Rightarrow> (if n > 0 then DataSpan (take n tmp @ drop n buf) else DataSpan buf)), n), q)
        }
      }) q)"

definition popFront ::
  "'s store_ops \<Rightarrow> queue_config \<Rightarrow> string \<Rightarrow> 's queue \<Rightarrow> (status \<times> 's queue) option" where
  "popFront S c operation q =
     do {
       (st, q) \<leftarrow> onStore (st_commitPop S (ixHead (quIndex q))) q;
       if \<not> ok st then Some (queueDiagnostic c Error st operation q)
       else Some (success, advanceHead q)
     }"

definition pop :: "'s store_ops \<Rightarrow> queue_config \<Rightarrow> 's queue \<Rightarrow> (status \<times> 's queue) option" where
  "pop S c = withFront S c id (popFront S c ''pop'')"

definition rewriteFront ::
  "'s store_ops \<Rightarrow> queue_config \<Rightarrow> bytes \<Rightarrow> 's queue \<Rightarrow> (status \<times> 's queue) option" where
  "rewriteFront S c record =
     withFront S c id (\<lambda>q.
       if length record > recordSizeBytes c
       then Some (queueDiagnostic c Warning
              (failure RecordTooLarge ''record exceeds configured queue maximum'') ''rewriteFront'' q)
       else onStore (st_rewriteRecord S (ixHead (quIndex q)) record) q)"

definition isCorruptRecordStatus :: "status_code \<Rightarrow> bool" where
  "isCorruptRecordStatus c \<longleftrightarrow> c = InvalidRecord \<or> c = CrcMismatch"

definition dropFrontIfCorrupt ::
  "'s store_ops \<Rightarrow> queue_config \<Rightarrow> 's queue \<Rightarrow> (status \<times> 's queue) option" where
  "dropFrontIfCorrupt S c =
     withFront S c id (\<lambda>q. do {
       ((st, _), q) \<leftarrow> onStore (st_readRecord S (ixHead (quIndex q))) q;
       if ok st then Some (failure InvalidArgument ''front record is not corrupt'', q)
       else if \<not> isCorruptRecordStatus (code st) then Some (st, q)
       else popFront S c ''dropFrontIfCorrupt'' q
     })"

section \<open>Maintenance\<close>

definition queueCompactIdle ::
  "'s store_ops \<Rightarrow> queue_config \<Rightarrow> nat \<Rightarrow> 's queue \<Rightarrow> (compact_idle_result \<times> 's queue) option" where
  "queueCompactIdle S c maxSteps =
     withLock S c (\<lambda>st. default_compact_idle_result\<lparr>cirStatus := st\<rparr>)
       (\<lambda>q. onStore (st_compactIdle S maxSteps) q)"

definition queueFormat ::
  "'s store_ops \<Rightarrow> queue_config \<Rightarrow> 's queue \<Rightarrow> (status \<times> 's queue) option" where
  "queueFormat S c =
     withLock S c id (\<lambda>q.
       let (st, s) = st_format S (quStore q); q = q\<lparr>quStore := s\<rparr>
       in Some (if \<not> ok st then queueDiagnostic c Error st ''format'' q
                else (success, q\<lparr>quIndex := empty_index\<rparr>)))"

text \<open>A \<open>RecordVisitor\<close> and its context: it sees the record, its sequence number and its ordinal, and
  says whether to go on.\<close>

type_synonym 'c visitor = "'c \<Rightarrow> bytes \<Rightarrow> u32 \<Rightarrow> u32 \<Rightarrow> bool \<times> 'c"

fun visitLoop ::
  "'s store_ops \<Rightarrow> 'c visitor \<Rightarrow> u32 list \<Rightarrow> 'c \<Rightarrow> 's queue \<Rightarrow> ((status \<times> 'c) \<times> 's queue) option" where
  "visitLoop S visitor [] ctx q = Some ((success, ctx), q)"
| "visitLoop S visitor (ordinal # ordinals) ctx q =
     (let sequence = ixHead (quIndex q) + ordinal in do {
        ((st, record), q) \<leftarrow> onStore (st_readRecord S sequence) q;
        if \<not> ok st then Some ((st, ctx), q)
        else
          let (goOn, ctx) = visitor ctx record sequence ordinal in
          if \<not> goOn then Some ((success, ctx), q) else visitLoop S visitor ordinals ctx q
      })"

definition visitRecords ::
  "'s store_ops \<Rightarrow> queue_config \<Rightarrow> 'c visitor option \<Rightarrow> 'c \<Rightarrow> 's queue
     \<Rightarrow> ((status \<times> 'c) \<times> 's queue) option" where
  "visitRecords S c visitor ctx =
     withLock S c (\<lambda>st. (st, ctx)) (\<lambda>q. do {
       (st, q) \<leftarrow> loadLatestIndex S c q;
       if \<not> ok st then Some ((st, ctx), q)
       else case visitor of
         None \<Rightarrow> Some ((failure InvalidArgument ''record visitor is null'', ctx), q)
       | Some v \<Rightarrow> visitLoop S v (map word_of_nat [0..<unat (ixCount (quIndex q))]) ctx q
     })"

section \<open>Validation\<close>

definition addQueueValidationError ::
  "validation_options \<Rightarrow> validation_issue \<Rightarrow> validation_result \<Rightarrow> validation_result" where
  "addQueueValidationError maxErrors issue r =
     (let r = r\<lparr>vrOk := False\<rparr> in
      if length (vrErrors r) < maxErrors then r\<lparr>vrErrors := vrErrors r @ [issue]\<rparr>
      else r\<lparr>stoppedEarly := True\<rparr>)"

definition makeQueueIssue :: "issue_code \<Rightarrow> string \<Rightarrow> repair_action \<Rightarrow> validation_issue" where
  "makeQueueIssue c msg repair =
     default_issue\<lparr>viCode := c, viMessage := msg, repairAction := repair\<rparr>"

fun isFormatRepairIssue :: "issue_code \<Rightarrow> bool" where
  "isFormatRepairIssue ConfigMismatch = True"
| "isFormatRepairIssue QueueLoadFailed = True"
| "isFormatRepairIssue QueueIndexMismatch = True"
| "isFormatRepairIssue MetadataCorrupt = True"
| "isFormatRepairIssue JournalCorrupt = True"
| "isFormatRepairIssue InvalidConfig = False"
| "isFormatRepairIssue RecordCrcMismatch = False"
| "isFormatRepairIssue OutboxEnvelopeInvalid = False"
| "isFormatRepairIssue HttpRequestEnvelopeInvalid = False"

definition repairHint :: "u32 \<Rightarrow> validation_issue \<Rightarrow> validation_issue" where
  "repairHint head issue =
     (if repairAction issue \<noteq> RepairNone then issue
      else if isFormatRepairIssue (viCode issue) then issue\<lparr>repairAction := RepairFormat\<rparr>
      else if viCode issue = RecordCrcMismatch
      then (if hasExpectedSequence issue \<and> expectedSequence issue = head
            then issue\<lparr>repairAction := DropFrontIfCorrupt\<rparr>
            else issue\<lparr>repairAction := RepairFormat\<rparr>)
      else issue)"

definition addRepairHints :: "u32 \<Rightarrow> validation_result \<Rightarrow> validation_result" where
  "addRepairHints head r = r\<lparr>vrErrors := map (repairHint head) (vrErrors r)\<rparr>"

definition sameIndex :: "queue_index \<Rightarrow> queue_index \<Rightarrow> bool" where
  "sameIndex lhs rhs \<longleftrightarrow>
     ixHead lhs = ixHead rhs \<and> ixTail lhs = ixTail rhs \<and> ixCount lhs = ixCount rhs"

definition queueValidate ::
  "'s store_ops \<Rightarrow> queue_config \<Rightarrow> validation_options \<Rightarrow> 's queue
     \<Rightarrow> (validation_result \<times> 's queue) option" where
  "queueValidate S c maxErrors =
     withLock S c
       (\<lambda>st. addQueueValidationError maxErrors
               (makeQueueIssue QueueLoadFailed (message st) RepairNone) empty_validation)
       (\<lambda>q. do {
          (loadStatus, q) \<leftarrow> loadLatestIndex S c q;
          (r, q) \<leftarrow> onStore (st_validateUnlocked S maxErrors) q;
          let r = addRepairHints (if ok loadStatus then ixHead (quIndex q) else 0) r;
          if stoppedEarly r \<or> length (vrErrors r) \<ge> maxErrors then Some (r, q)
          else if \<not> ok loadStatus
          then Some (if vrOk r
                     then addQueueValidationError maxErrors
                            (makeQueueIssue QueueLoadFailed (message loadStatus) RepairFormat) r
                     else r, q)
          else do {
            ((st, diskIndex), q) \<leftarrow> onStore (st_readIndex S) q;
            if \<not> ok st
            then Some (addQueueValidationError maxErrors
                         (makeQueueIssue QueueLoadFailed (message st) RepairFormat) r, q)
            else if \<not> sameIndex (quIndex q) diskIndex
            then Some (addQueueValidationError maxErrors
                         (makeQueueIssue QueueIndexMismatch
                            ''queue cached index does not match storage metadata'' RepairFormat) r, q)
            else Some (r, q)
          }
        })"

section \<open>Statistics\<close>

definition statsResult ::
  "'s store_ops \<Rightarrow> queue_config \<Rightarrow> 's queue \<Rightarrow> (stats_result \<times> 's queue) option" where
  "statsResult S c =
     withLock S c (\<lambda>st. \<lparr>srStatus = st, srStats = default_stats\<rparr>) (\<lambda>q. do {
       (st, q) \<leftarrow> loadLatestIndex S c q;
       if \<not> ok st then Some (\<lparr>srStatus = st, srStats = default_stats\<rparr>, q)
       else Some (\<lparr>srStatus = success,
                   srStats = \<lparr>statCount = ixCount (quIndex q), statFreeBytes = st_freeBytes S (quStore q)\<rparr>\<rparr>, q)
     })"

definition queueStats ::
  "'s store_ops \<Rightarrow> queue_config \<Rightarrow> 's queue \<Rightarrow> (stats \<times> 's queue) option" where
  "queueStats S c q = do { (r, q) \<leftarrow> statsResult S c q; Some (srStats r, q) }"

end
