(* ===== verification/Outbox_Envelope.thy ===== *)
theory Outbox_Envelope
  imports Format_Correct
begin

text \<open>
  The envelope of a queued outbox record (\<open>envelope.h\<close>, \<open>envelope.cpp\<close>): magic, version,
  attempt counter, payload length, payload and a CRC over all of it.  The file has a CRC of its
  own, which is shown to be the one of the log format.  Properties: round trip, canonicity and
  rejection of any envelope with one damaged byte.
\<close>

section \<open>Definitions\<close>

definition kOutboxEnvelopeMagic :: u32 where "kOutboxEnvelopeMagic = 0x50514f42"
definition kOutboxEnvelopeVersion :: u8 where "kOutboxEnvelopeVersion = 1"
definition kOutboxEnvelopeHeaderSize :: nat where "kOutboxEnvelopeHeaderSize = 4 + 1 + 1 + 4"
definition kChecksumSize :: nat where "kChecksumSize = 4"

definition envTableStep :: "u32 \<Rightarrow> u32" where
  "envTableStep value = drop_bit 1 value XOR (0xEDB88320 AND (0 - (value AND 1)))"

definition envCrc32Table :: "u32 list" where
  "envCrc32Table = map (\<lambda>i. (envTableStep ^^ 8) (word_of_nat i)) [0..<256]"

fun envCrcLoop :: "u32 \<Rightarrow> bytes \<Rightarrow> u32" where
  "envCrcLoop checksum [] = checksum"
| "envCrcLoop checksum (b # bs) =
     envCrcLoop (drop_bit 8 checksum XOR envCrc32Table ! unat ((checksum XOR ucast b) AND 0xff)) bs"

definition envCrc32 :: "bytes \<Rightarrow> u32" where
  "envCrc32 bs = NOT (envCrcLoop 0xffffffff bs)"

definition appendByte :: "bytes \<Rightarrow> u8 \<Rightarrow> bytes" where
  "appendByte encoded value = encoded @ [value]"

definition appendLittleEndian32 :: "bytes \<Rightarrow> u32 \<Rightarrow> bytes" where
  "appendLittleEndian32 encoded value =
     fold (\<lambda>byte enc. enc @ [ucast (drop_bit (8 * byte) value AND 0xff)]) [0..<4] encoded"

definition readByte :: "bytes \<Rightarrow> nat \<Rightarrow> (u8 \<times> nat) option" where
  "readByte encoded offset =
     (if offset + 1 > length encoded then None else Some (encoded ! offset, offset + 1))"

definition readLittleEndian32 :: "bytes \<Rightarrow> nat \<Rightarrow> (u32 \<times> nat) option" where
  "readLittleEndian32 encoded offset =
     (if offset + 4 > length encoded then None
      else Some (fold (\<lambda>byte value. value OR push_bit (8 * byte) (ucast (encoded ! (offset + byte))))
                   [0..<4] 0, offset + 4))"

definition hasValidChecksum :: "bytes \<Rightarrow> bool" where
  "hasValidChecksum encoded =
     (if length encoded < kOutboxEnvelopeHeaderSize + kChecksumSize then False
      else let checksumOffset = length encoded - kChecksumSize in
        case readLittleEndian32 encoded checksumOffset of
          None \<Rightarrow> False
        | Some (storedChecksum, offset) \<Rightarrow>
            (if offset \<noteq> length encoded then False
             else storedChecksum = envCrc32 (take checksumOffset encoded)))"

definition encodeEnvelope :: "u8 \<Rightarrow> bytes \<Rightarrow> bytes option" where
  "encodeEnvelope attempts payload =
     (if length payload > 0xffffffff then None else
      let encoded = appendLittleEndian32 [] kOutboxEnvelopeMagic;
          encoded = appendByte encoded kOutboxEnvelopeVersion;
          encoded = appendByte encoded attempts;
          encoded = appendLittleEndian32 encoded (word_of_nat (length payload));
          encoded = encoded @ payload
      in Some (appendLittleEndian32 encoded (envCrc32 encoded)))"

record decoded_envelope =
  envAttempts :: u8
  envPayload :: bytes

definition decodeEnvelope :: "bytes \<Rightarrow> decoded_envelope option" where
  "decodeEnvelope encoded =
     (if \<not> hasValidChecksum encoded then None else
      let payloadEnd = length encoded - kChecksumSize in
      do {
        (magic, offset) \<leftarrow> readLittleEndian32 encoded 0;
        (version, offset) \<leftarrow> readByte encoded offset;
        (attempts, offset) \<leftarrow> readByte encoded offset;
        (payloadLength, offset) \<leftarrow> readLittleEndian32 encoded offset;
        if magic \<noteq> kOutboxEnvelopeMagic \<or> version \<noteq> kOutboxEnvelopeVersion then None
        else if offset + unat payloadLength \<noteq> payloadEnd then None
        else Some \<lparr>envAttempts = attempts,
                   envPayload = take (unat payloadLength) (drop offset encoded)\<rparr>
      })"

section \<open>Writers, readers and CRC\<close>

lemma appendLittleEndian32_le4 [byte_simps]: "appendLittleEndian32 encoded v = encoded @ le4 v"
  by (simp add: appendLittleEndian32_def le4_def upt_conv_Cons byte_simps)

lemma readLittleEndian32_leU32 [byte_simps]: "readLittleEndian32 = leU32"
  by (intro ext) (simp add: readLittleEndian32_def leU32_def upt_conv_Cons or.assoc
      eval_nat_numeral)

lemma readByte_drop: "drop off data = b # ys \<Longrightarrow> readByte data off = Some (b, off + 1)"
  using nth_via_drop by (fastforce simp: readByte_def not_less dest: arg_cong [where f = length])

lemma readByte_SomeD:
  assumes "readByte data off = Some (b, off')"
  shows "off' = off + 1" "off' \<le> length data" "take off' data = take off data @ [b]"
  using assms by (auto simp: readByte_def take_Suc_conv_app_nth split: if_splits)

lemma envTableStep_crcShift: "envTableStep = crcShift"
proof
  fix c :: u32
  show "envTableStep c = crcShift c"
    by (simp add: envTableStep_def crcShift_def and_one_eq)
qed

lemma envCrcLoop_crcLoop: "envCrcLoop c bs = crcLoop c bs"
  by (induction bs arbitrary: c)
    (simp_all add: envCrc32Table_def kTable_def envTableStep_crcShift xor.commute)

lemma envCrc32_crc32: "envCrc32 bs = crc32 0 bs"
proof -
  have "(0xffffffff :: u32) = NOT 0" by simp
  then show ?thesis by (simp only: envCrc32_def crc32_def envCrcLoop_crcLoop)
qed

section \<open>Round trip and damage\<close>

definition envelopeBody :: "u8 \<Rightarrow> bytes \<Rightarrow> bytes" where
  "envelopeBody attempts payload =
     le4 kOutboxEnvelopeMagic @ [kOutboxEnvelopeVersion, attempts]
     @ le4 (word_of_nat (length payload)) @ payload"

lemma length_envelopeBody [simp]: "length (envelopeBody a p) = 10 + length p"
  by (simp add: envelopeBody_def)

lemma encodeEnvelope_body:
  "encodeEnvelope a p =
     (if length p > 0xffffffff then None
      else Some (envelopeBody a p @ le4 (envCrc32 (envelopeBody a p))))"
  by (simp add: encodeEnvelope_def envelopeBody_def appendByte_def Let_def byte_simps)

lemma hasValidChecksum_iff:
  "hasValidChecksum e \<longleftrightarrow> (\<exists>body. e = body @ le4 (envCrc32 body) \<and> 10 \<le> length body)"
proof
  assume h: "hasValidChecksum e"
  then obtain c off where len: "14 \<le> length e" and r: "leU32 e (length e - 4) = Some (c, off)"
    and off: "off = length e" and c: "c = envCrc32 (take (length e - 4) e)"
    by (auto simp: hasValidChecksum_def kOutboxEnvelopeHeaderSize_def kChecksumSize_def byte_simps
        Let_def split: if_splits option.splits)
  have "e = take (length e - 4) e @ le4 c"
    using leU32_SomeD (3) [OF r] off by simp
  with c len show "\<exists>body. e = body @ le4 (envCrc32 body) \<and> 10 \<le> length body"
    by (intro exI [of _ "take (length e - 4) e"]) auto
next
  assume "\<exists>body. e = body @ le4 (envCrc32 body) \<and> 10 \<le> length body"
  then obtain body where e: "e = body @ le4 (envCrc32 body)" and len: "10 \<le> length body" by blast
  have "leU32 e (length body) = Some (envCrc32 body, length body + 4)"
    by (rule leU32_drop [where ys = "[]"]) (simp add: e)
  with e len show "hasValidChecksum e"
    by (simp add: hasValidChecksum_def kOutboxEnvelopeHeaderSize_def kChecksumSize_def byte_simps)
qed

lemma decodeEnvelope_encode:
  assumes "encodeEnvelope a p = Some e"
  shows "decodeEnvelope e = Some \<lparr>envAttempts = a, envPayload = p\<rparr>"
proof -
  have len: "length p \<le> 0xffffffff" and e: "e = envelopeBody a p @ le4 (envCrc32 (envelopeBody a p))"
    using assms by (auto simp: encodeEnvelope_body split: if_splits)
  have chk: "hasValidChecksum e" unfolding hasValidChecksum_iff e by auto
  have d0: "drop 0 e = le4 kOutboxEnvelopeMagic @ kOutboxEnvelopeVersion # a
      # le4 (word_of_nat (length p)) @ p @ le4 (envCrc32 (envelopeBody a p))"
    by (simp add: e envelopeBody_def)
  note step = arg_cong [OF d0, of "drop k" for k, simplified drop_drop]
  have r1: "leU32 e 0 = Some (kOutboxEnvelopeMagic, 4)" using leU32_drop [OF d0] by simp
  have r2: "readByte e 4 = Some (kOutboxEnvelopeVersion, 5)"
    using readByte_drop [OF step [of 4, simplified]] by simp
  have r3: "readByte e 5 = Some (a, 6)"
    using readByte_drop [OF step [of 5, simplified]] by simp
  have r4: "leU32 e 6 = Some (word_of_nat (length p), 10)"
    using leU32_drop [OF step [of 6, simplified]] by simp
  have d10: "drop 10 e = p @ le4 (envCrc32 (envelopeBody a p))"
    using step [of 10, simplified] by simp
  have un: "unat (word_of_nat (length p) :: u32) = length p"
    using len by (simp add: unat_of_nat)
  have end_at: "length e - 4 = 10 + length p" by (simp add: e)
  show ?thesis
    using chk by (simp add: decodeEnvelope_def byte_simps r1 r2 r3 r4 un d10 kChecksumSize_def end_at)
qed

lemma decodeEnvelope_SomeD:
  assumes "decodeEnvelope e = Some d"
  shows "encodeEnvelope (envAttempts d) (envPayload d) = Some e"
proof -
  obtain body where e: "e = body @ le4 (envCrc32 body)" and len: "10 \<le> length body"
    using assms by (auto simp: decodeEnvelope_def hasValidChecksum_iff split: if_splits)
  obtain mg o1 vs o2 at o3 pl o4 where
    r: "leU32 e 0 = Some (mg, o1)" "readByte e o1 = Some (vs, o2)" "readByte e o2 = Some (at, o3)"
       "leU32 e o3 = Some (pl, o4)"
    and g: "mg = kOutboxEnvelopeMagic" "vs = kOutboxEnvelopeVersion"
       "o4 + unat pl = length e - 4"
    and d: "d = \<lparr>envAttempts = at, envPayload = take (unat pl) (drop o4 e)\<rparr>"
    using assms by (auto simp: decodeEnvelope_def byte_simps kChecksumSize_def Let_def
        bind_eq_Some_conv split: if_splits)
  note t = leU32_SomeD [OF r(1)] readByte_SomeD [OF r(2)] readByte_SomeD [OF r(3)]
    leU32_SomeD [OF r(4)]
  have o4: "o4 = 10" using t by simp
  have hd: "take 10 e = le4 kOutboxEnvelopeMagic @ [kOutboxEnvelopeVersion, at] @ le4 pl"
    using t g by simp
  have lb: "length body = 10 + unat pl" using g(3) o4 e by simp
  have p: "envPayload d = drop 10 body" using o4 lb by (simp add: d e)
  have pl: "word_of_nat (length (envPayload d)) = pl" "length (envPayload d) = unat pl"
    using lb by (simp_all add: p)
  have "take 10 body = le4 kOutboxEnvelopeMagic @ [kOutboxEnvelopeVersion, at] @ le4 pl"
    using hd len by (simp add: e)
  then have "envelopeBody (envAttempts d) (envPayload d) = body"
    by (metis append.assoc append_take_drop_id d decoded_envelope.select_convs(1) envelopeBody_def
        p pl(1))
  moreover have "length (envPayload d) \<le> 0xffffffff"
    using unsigned_less [of pl, where ?'a = nat] pl(2) by simp
  ultimately show ?thesis by (simp add: encodeEnvelope_body e)
qed

lemma decodeEnvelope_damaged:
  assumes enc: "encodeEnvelope a p = Some e" and i: "i < length e" and b: "b \<noteq> e ! i"
  shows "decodeEnvelope (e[i := b]) = None"
proof -
  let ?body = "envelopeBody a p"
  have e: "e = ?body @ le4 (envCrc32 ?body)"
    using enc by (auto simp: encodeEnvelope_body split: if_splits)
  have "\<not> hasValidChecksum (e[i := b])"
  proof
    assume "hasValidChecksum (e[i := b])"
    then obtain body where e': "e[i := b] = body @ le4 (envCrc32 body)"
      by (auto simp: hasValidChecksum_iff)
    then have len: "length body = length ?body"
      by (simp add: e, metis e e' add_right_cancel length_append length_le4 length_list_update
          length_envelopeBody)
    show False
    proof (cases "i < length ?body")
      case True
      then have "?body[i := b] @ le4 (envCrc32 ?body) = body @ le4 (envCrc32 body)"
        using e' e by (simp add: list_update_append1)
      then have body: "body = ?body[i := b]" and crc: "envCrc32 body = envCrc32 ?body"
        using len by auto
      have old: "?body = take i ?body @ ?body ! i # drop (Suc i) ?body"
        using True by (rule id_take_nth_drop)
      have new: "?body[i := b] = take i ?body @ b # drop (Suc i) ?body"
        using True by (rule upd_conv_take_nth_drop)
      have "b = ?body ! i"
        using crc crc32_one_byte [of 0 "take i ?body" b "drop (Suc i) ?body" "?body ! i"] old new
        by (metis body envCrc32_crc32)
      with b e True show False by (simp add: nth_append)
    next
      case False
      have "?body @ (le4 (envCrc32 ?body))[i - length ?body := b] = body @ le4 (envCrc32 body)"
        using e' unfolding e list_update_append if_not_P [OF False] .
      then have "body = ?body" "(le4 (envCrc32 ?body))[i - length ?body := b] = le4 (envCrc32 body)"
        using len by (metis append_eq_append_conv)+
      then have "(le4 (envCrc32 ?body))[i - length ?body := b] = le4 (envCrc32 ?body)" by metis
      moreover have "i - length ?body < length (le4 (envCrc32 ?body))"
        using i False e by simp
      ultimately have "b = le4 (envCrc32 ?body) ! (i - length ?body)"
        by (metis nth_list_update_eq)
      with b e False show False by (simp add: nth_append)
    qed
  qed
  then show ?thesis by (simp add: decodeEnvelope_def)
qed

section \<open>Properties of the outbox envelope\<close>

text \<open>C13. Decoding is the exact inverse of encoding: an envelope decodes to an attempt count and
  a payload if and only if it is the encoding of that attempt count and payload.\<close>

theorem envelope_codec:
  "decodeEnvelope e = Some d \<longleftrightarrow> encodeEnvelope (envAttempts d) (envPayload d) = Some e"
  using decodeEnvelope_encode decodeEnvelope_SomeD by fastforce

text \<open>C14. Any damage to a single byte of a stored envelope, in the header, the payload or the
  checksum itself, is detected.\<close>

theorem envelope_damage_detected:
  assumes "encodeEnvelope a p = Some e" and "i < length e" and "b \<noteq> e ! i"
  shows "decodeEnvelope (e[i := b]) = None"
  using assms by (rule decodeEnvelope_damaged)

theorem envelope_damage_detected_witness:
  "\<exists>e. encodeEnvelope 2 [10, 20] = Some e \<and> decodeEnvelope (e[11 := 21]) = None"
proof -
  obtain e where e: "encodeEnvelope 2 [10, 20] = Some e" and n: "length e = 16" "e ! 11 = 20"
    by (simp add: encodeEnvelope_body envelopeBody_def nth_append le4_def)
  have "decodeEnvelope (e[11 := 21]) = None"
    by (rule envelope_damage_detected [OF e]) (simp_all add: n)
  with e show ?thesis by blast
qed

end
