(* ===== verification/Outbox_Core.thy ===== *)
theory Outbox_Core
  imports Queue_API Outbox_Envelope
begin

text \<open>
  \<open>Outbox\<close> (\<open>outbox.cpp\<close>, \<open>outbox.h\<close>): store and forward over the queue.  A payload is sent at
  once when nothing is queued, else it is queued; \<open>drain\<close> sends the front record, at a limited
  rate, and waits after a failed attempt.

  The callbacks are user code: \<open>callbacks\<close> gives each of them, or \<open>None\<close> for a null pointer, as a
  function that may change an environment of type \<open>'e\<close>, which the outbox state carries along.
  A \<open>SendCallback\<close> takes the payload as a string, a \<open>RawSendCallback\<close> as a \<open>Span\<close>; an outbox has
  at most one of them.  Numbers have the widths of the code.
\<close>

section \<open>Types\<close>

text \<open>\<open>DecideOther\<close> is a value outside the enumeration, which a callback can return by a cast.\<close>

datatype send_decision = DecideSent | DecideRetry | DecideDrop | DecideOther

record send_result =
  srDecision :: send_decision
  srRetryAfterMs :: u32

record 'e callbacks =
  cbSend :: "(bytes \<Rightarrow> u8 \<Rightarrow> 'e \<Rightarrow> send_result \<times> 'e) option"
  cbRawSend :: "(span \<Rightarrow> u8 \<Rightarrow> 'e \<Rightarrow> send_result \<times> 'e) option"
  cbClock :: "('e \<Rightarrow> u64 \<times> 'e) option"
  cbRand :: "(u32 \<Rightarrow> 'e \<Rightarrow> u32 \<times> 'e) option"

record outbox_config =
  ocMaxDrainAttemptsPerSecond :: u16
  initialRetryDelayMs :: u32
  maxRetryDelayMs :: u32
  jitterPct :: u8
  maxCorruptDropsPerLifetime :: u16
  outboxEvents :: event_options

definition default_outbox_config :: outbox_config where
  "default_outbox_config =
     \<lparr>ocMaxDrainAttemptsPerSecond = 5, initialRetryDelayMs = 10000, maxRetryDelayMs = 60000,
      jitterPct = 20, maxCorruptDropsPerLifetime = 3, outboxEvents = \<lparr>sinkSet = False\<rparr>\<rparr>"

datatype submit_status = SubmitSent | SubmitQueued | SubmitDropped | SubmitQueueFull | SubmitError

record submit_result =
  suStatus :: submit_status
  suDetail :: status

record drain_result =
  drAttempts :: u16
  drSent :: u16
  drDropped :: u16
  drCorruptDropped :: u16
  drRemovedQueuedBytes :: u32
  drRateLimited :: bool
  drNotDue :: bool
  drQueueError :: bool
  drSendError :: bool
  drDetail :: status

definition empty_drain :: drain_result where
  "empty_drain =
     \<lparr>drAttempts = 0, drSent = 0, drDropped = 0, drCorruptDropped = 0, drRemovedQueuedBytes = 0,
      drRateLimited = False, drNotDue = False, drQueueError = False, drSendError = False,
      drDetail = success\<rparr>"

record ('s, 'e) outbox =
  obQueue :: "'s queue"
  obEnv :: 'e
  drainWindowStartMs :: u64
  drainAttemptsInWindow :: u16
  hasDrainWindow :: bool
  frontNextAttemptMs :: u64
  hasFrontCooldown :: bool
  frontAttempts :: u8
  corruptDrops :: u16
  obEmitted :: "event list"

definition newOutbox :: "'s queue \<Rightarrow> 'e \<Rightarrow> ('s, 'e) outbox" where
  "newOutbox q e =
     \<lparr>obQueue = q, obEnv = e, drainWindowStartMs = 0, drainAttemptsInWindow = 0,
      hasDrainWindow = False, frontNextAttemptMs = 0, hasFrontCooldown = False, frontAttempts = 0,
      corruptDrops = 0, obEmitted = []\<rparr>"

section \<open>Events and calls\<close>

definition obEmit :: "outbox_config \<Rightarrow> event \<Rightarrow> ('s, 'e) outbox \<Rightarrow> ('s, 'e) outbox" where
  "obEmit oc ev ob = ob\<lparr>obEmitted := emitEvent (outboxEvents oc) ev (obEmitted ob)\<rparr>"

definition obDiagnostic ::
  "outbox_config \<Rightarrow> severity \<Rightarrow> status \<Rightarrow> string \<Rightarrow> ('s, 'e) outbox \<Rightarrow> ('s, 'e) outbox" where
  "obDiagnostic oc sev st operation = obEmit oc (diagnosticEvent sev st ''Outbox'' operation)"

definition obRequestEvent ::
  "outbox_config \<Rightarrow> event_kind \<Rightarrow> severity \<Rightarrow> status \<Rightarrow> string \<Rightarrow> u8 \<Rightarrow> u32 \<Rightarrow> u32
     \<Rightarrow> ('s, 'e) outbox \<Rightarrow> ('s, 'e) outbox" where
  "obRequestEvent oc kind sev st operation attempt remainingMs queueCount =
     obEmit oc (default_event\<lparr>evKind := kind, evSeverity := sev, evStatus := st,
       evComponent := ''Outbox'', evOperation := operation, evAttempt := attempt,
       evQueueCount := queueCount, evRemainingMs := remainingMs\<rparr>)"

definition onQueue ::
  "('s queue \<Rightarrow> ('a \<times> 's queue) option) \<Rightarrow> ('s, 'e) outbox \<Rightarrow> ('a \<times> ('s, 'e) outbox) option" where
  "onQueue f ob = map_option (\<lambda>(r, q). (r, ob\<lparr>obQueue := q\<rparr>)) (f (obQueue ob))"

definition onEnv :: "('e \<Rightarrow> 'a \<times> 'e) \<Rightarrow> ('s, 'e) outbox \<Rightarrow> 'a \<times> ('s, 'e) outbox" where
  "onEnv f ob = (let (r, e) = f (obEnv ob) in (r, ob\<lparr>obEnv := e\<rparr>))"

text \<open>\<open>dispatchSend\<close>; it is reached only when one of the two callbacks is set.\<close>

definition dispatchSend ::
  "'e callbacks \<Rightarrow> bytes \<Rightarrow> u8 \<Rightarrow> ('s, 'e) outbox \<Rightarrow> send_result \<times> ('s, 'e) outbox" where
  "dispatchSend cb payload attempts =
     (case cbRawSend cb of
        Some raw \<Rightarrow> onEnv (raw (DataSpan payload) attempts)
      | None \<Rightarrow>
          (case cbSend cb of
             Some f \<Rightarrow> onEnv (f payload attempts)
           | None \<Rightarrow> (\<lambda>ob. (\<lparr>srDecision = DecideDrop, srRetryAfterMs = 0\<rparr>, ob))))"

definition configured :: "'e callbacks \<Rightarrow> bool" where
  "configured cb \<longleftrightarrow> (cbSend cb \<noteq> None \<or> cbRawSend cb \<noteq> None) \<and> cbClock cb \<noteq> None"

definition notConfigured :: status where
  "notConfigured = failure SendFailed ''outbox is not configured for sending''"

definition readClock :: "'e callbacks \<Rightarrow> ('s, 'e) outbox \<Rightarrow> u64 \<times> ('s, 'e) outbox" where
  "readClock cb ob = (case cbClock cb of Some clk \<Rightarrow> onEnv clk ob | None \<Rightarrow> (0, ob))"

section \<open>Retry delays\<close>

text \<open>The doubling loop: \<open>i < exponent && v < max\<close>.\<close>

fun doubleDelay :: "nat \<Rightarrow> u64 \<Rightarrow> u32 \<Rightarrow> u64" where
  "doubleDelay 0 v maxMs = v"
| "doubleDelay (Suc n) v maxMs =
     (if v < ucast maxMs then doubleDelay n (v * 2) maxMs else v)"

definition baseDelay :: "outbox_config \<Rightarrow> u8 \<Rightarrow> u32 \<Rightarrow> u32" where
  "baseDelay oc exponent serverHintMs =
     (if serverHintMs > 0
      then (if serverHintMs < maxRetryDelayMs oc then serverHintMs else maxRetryDelayMs oc)
      else
        let v = doubleDelay (unat exponent) (ucast (initialRetryDelayMs oc)) (maxRetryDelayMs oc)
        in if v < ucast (maxRetryDelayMs oc) then ucast v else maxRetryDelayMs oc)"

text \<open>A 64-bit value clipped to 32 bits.\<close>

definition clip32 :: "u64 \<Rightarrow> u32" where
  "clip32 x = (if x > 0xffffffff then 0xffffffff else ucast x)"

definition jitterRange :: "outbox_config \<Rightarrow> u32 \<Rightarrow> u64" where
  "jitterRange oc base = ucast base * ucast (jitterPct oc) div 100"

definition applyJitter :: "outbox_config \<Rightarrow> u32 \<Rightarrow> u32 \<Rightarrow> u32 \<Rightarrow> u32" where
  "applyJitter oc base range32 sample =
     (if sample < range32 then (if sample < base then base - sample else 0)
      else
        let add = sample - range32 in
        if add \<le> maxRetryDelayMs oc - base then base + add else maxRetryDelayMs oc)"

definition computeRetryDelay ::
  "'e callbacks \<Rightarrow> outbox_config \<Rightarrow> u8 \<Rightarrow> u32 \<Rightarrow> ('s, 'e) outbox \<Rightarrow> u32 \<times> ('s, 'e) outbox" where
  "computeRetryDelay cb oc exponent serverHintMs ob =
     (let base = baseDelay oc exponent serverHintMs in
      case cbRand cb of
        None \<Rightarrow> (base, ob)
      | Some rand \<Rightarrow>
          if jitterPct oc = 0 \<or> base = 0 then (base, ob)
          else if jitterRange oc base = 0 then (base, ob)
          else
            let range32 = clip32 (jitterRange oc base);
                (sample, ob) = onEnv (rand (clip32 (ucast range32 * 2))) ob
            in (applyJitter oc base range32 sample, ob))"

section \<open>Cooldown and rate\<close>

definition setFrontCooldown :: "u64 \<Rightarrow> ('s, 'e) outbox \<Rightarrow> ('s, 'e) outbox" where
  "setFrontCooldown nextAttemptMs ob =
     ob\<lparr>frontNextAttemptMs := nextAttemptMs, hasFrontCooldown := True\<rparr>"

definition clearFrontCooldown :: "('s, 'e) outbox \<Rightarrow> ('s, 'e) outbox" where
  "clearFrontCooldown ob =
     ob\<lparr>frontNextAttemptMs := 0, hasFrontCooldown := False, frontAttempts := 0\<rparr>"

definition frontIsCoolingDown :: "u64 \<Rightarrow> ('s, 'e) outbox \<Rightarrow> bool" where
  "frontIsCoolingDown nowMs ob \<longleftrightarrow> hasFrontCooldown ob \<and> frontNextAttemptMs ob > nowMs"

definition maxDrainAttemptsPerSecond :: "outbox_config \<Rightarrow> u16" where
  "maxDrainAttemptsPerSecond oc =
     (if ocMaxDrainAttemptsPerSecond oc = 0 then 1 else ocMaxDrainAttemptsPerSecond oc)"

definition drainRateAllows :: "outbox_config \<Rightarrow> u64 \<Rightarrow> ('s, 'e) outbox \<Rightarrow> bool" where
  "drainRateAllows oc nowMs ob =
     (if \<not> hasDrainWindow ob then True
      else if nowMs - drainWindowStartMs ob \<ge> 1000 then True
      else drainAttemptsInWindow ob < maxDrainAttemptsPerSecond oc)"

definition recordDrainAttempt :: "u64 \<Rightarrow> ('s, 'e) outbox \<Rightarrow> ('s, 'e) outbox" where
  "recordDrainAttempt nowMs ob =
     (let ob = (if \<not> hasDrainWindow ob \<or> nowMs - drainWindowStartMs ob \<ge> 1000
                then ob\<lparr>drainWindowStartMs := nowMs, drainAttemptsInWindow := 0,
                        hasDrainWindow := True\<rparr>
                else ob)
      in if drainAttemptsInWindow ob \<noteq> 0xffff
         then ob\<lparr>drainAttemptsInWindow := drainAttemptsInWindow ob + 1\<rparr> else ob)"

definition drainRateRemainingMs :: "u64 \<Rightarrow> ('s, 'e) outbox \<Rightarrow> u32" where
  "drainRateRemainingMs nowMs ob =
     (if \<not> hasDrainWindow ob \<or> nowMs - drainWindowStartMs ob \<ge> 1000 then 0
      else ucast (1000 - (nowMs - drainWindowStartMs ob)))"

section \<open>Submitting\<close>

definition enqueueRecord ::
  "'s store_ops \<Rightarrow> queue_config \<Rightarrow> outbox_config \<Rightarrow> bytes \<Rightarrow> u8 \<Rightarrow> ('s, 'e) outbox
     \<Rightarrow> (submit_result \<times> ('s, 'e) outbox) option" where
  "enqueueRecord S c oc payload attempts ob =
     (case encodeEnvelope attempts payload of
        None \<Rightarrow>
          let st = failure EncodeFailed ''failed to encode outbox envelope'' in
          Some (\<lparr>suStatus = SubmitError, suDetail = st\<rparr>,
                obDiagnostic oc Error st ''enqueueRecord'' ob)
      | Some record \<Rightarrow> do {
          (st, ob) \<leftarrow> onQueue (enqueue S c (DataSpan record)) ob;
          Some (if ok st then \<lparr>suStatus = SubmitQueued, suDetail = success\<rparr>
                else if code st = QueueFull then \<lparr>suStatus = SubmitQueueFull, suDetail = st\<rparr>
                else \<lparr>suStatus = SubmitError, suDetail = st\<rparr>, ob)
        })"

text \<open>The \<open>RetryLater\<close> branch of \<open>submit\<close>.\<close>

definition queueForRetry ::
  "'s store_ops \<Rightarrow> queue_config \<Rightarrow> 'e callbacks \<Rightarrow> outbox_config \<Rightarrow> bytes \<Rightarrow> u32
     \<Rightarrow> ('s, 'e) outbox \<Rightarrow> (submit_result \<times> ('s, 'e) outbox) option" where
  "queueForRetry S c cb oc payload retryAfterMs ob =
     do {
       (queued0, ob) \<leftarrow> onQueue (queueStats S c) ob;
       let wasEmpty = (statCount queued0 = 0);
       (queued, ob) \<leftarrow> enqueueRecord S c oc payload 0 ob;
       if suStatus queued = SubmitQueued \<and> wasEmpty
       then
         let ob = ob\<lparr>frontAttempts := 1\<rparr>;
             (delayMs, ob) = computeRetryDelay cb oc 0 retryAfterMs ob;
             (nowMs, ob) = readClock cb ob;
             ob = setFrontCooldown (nowMs + ucast delayMs) ob;
             ob = obRequestEvent oc RequestRetried Info success ''submit'' 1 delayMs 1 ob
         in Some (queued, ob)
       else Some (queued, ob)
     }"

definition submitLive ::
  "'s store_ops \<Rightarrow> queue_config \<Rightarrow> 'e callbacks \<Rightarrow> outbox_config \<Rightarrow> bytes \<Rightarrow> ('s, 'e) outbox
     \<Rightarrow> (submit_result \<times> ('s, 'e) outbox) option" where
  "submitLive S c cb oc payload ob =
     (let (result, ob) = dispatchSend cb payload 0 ob in
      case srDecision result of
        DecideSent \<Rightarrow>
          Some (\<lparr>suStatus = SubmitSent, suDetail = success\<rparr>,
                obRequestEvent oc RequestSent Debug success ''submit'' 0 0 0 ob)
      | DecideDrop \<Rightarrow>
          let st = failure Dropped ''request was dropped by send policy'' in
          Some (\<lparr>suStatus = SubmitDropped, suDetail = st\<rparr>,
                obRequestEvent oc RequestDropped Warning st ''submit'' 0 0 0 ob)
      | DecideRetry \<Rightarrow> queueForRetry S c cb oc payload (srRetryAfterMs result) ob
      | DecideOther \<Rightarrow>
          let st = failure SendFailed ''unknown send decision'' in
          Some (\<lparr>suStatus = SubmitError, suDetail = st\<rparr>, obDiagnostic oc Error st ''submit'' ob))"

definition submit ::
  "'s store_ops \<Rightarrow> queue_config \<Rightarrow> 'e callbacks \<Rightarrow> outbox_config \<Rightarrow> span \<Rightarrow> ('s, 'e) outbox
     \<Rightarrow> (submit_result \<times> ('s, 'e) outbox) option" where
  "submit S c cb oc payload ob =
     (if spanLen payload > 0 \<and> spanDataNull payload
      then
        let st = failure InvalidArgument ''Span has non-zero length but null data'' in
        Some (\<lparr>suStatus = SubmitError, suDetail = st\<rparr>, obDiagnostic oc Error st ''submit'' ob)
      else if \<not> configured cb
      then Some (\<lparr>suStatus = SubmitError, suDetail = notConfigured\<rparr>,
                 obDiagnostic oc Error notConfigured ''submit'' ob)
      else do {
        (qs, ob) \<leftarrow> onQueue (statsResult S c) ob;
        if ok (srStatus qs) \<and> statCount (srStats qs) > 0
        then enqueueRecord S c oc (spanToString payload) 0 ob
        else
          let ob = (if \<not> ok (srStatus qs)
                    then obDiagnostic oc Warning (srStatus qs)
                           ''submit_queue_stats_failed_live_send_fallback'' ob
                    else ob)
          in submitLive S c cb oc (spanToString payload) ob
      })"

section \<open>Draining\<close>

definition isCorruptFrontRecordStatus :: "status_code \<Rightarrow> bool" where
  "isCorruptFrontRecordStatus c \<longleftrightarrow> c = InvalidRecord \<or> c = CrcMismatch"

definition canDropCorruptFrontRecord :: "outbox_config \<Rightarrow> ('s, 'e) outbox \<Rightarrow> bool" where
  "canDropCorruptFrontRecord oc ob \<longleftrightarrow>
     maxCorruptDropsPerLifetime oc \<noteq> 0 \<and> corruptDrops ob < maxCorruptDropsPerLifetime oc"

definition dropCorruptFrontRecord ::
  "'s store_ops \<Rightarrow> queue_config \<Rightarrow> outbox_config \<Rightarrow> status \<Rightarrow> u32 \<Rightarrow> ('s, 'e) outbox
     \<Rightarrow> (drain_result \<times> ('s, 'e) outbox) option" where
  "dropCorruptFrontRecord S c oc corruptStatus recordBytes ob =
     (if \<not> canDropCorruptFrontRecord oc ob
      then
        let st = failure_code (code corruptStatus) ''corrupt front record drop limit exceeded''
                   (backendCode corruptStatus)
        in Some (empty_drain\<lparr>drQueueError := True, drDetail := st\<rparr>,
                 obDiagnostic oc Error st ''drain_corrupt_front_limit'' ob)
      else do {
        (popStatus, ob) \<leftarrow> onQueue (pop S c) ob;
        if \<not> ok popStatus
        then Some (empty_drain\<lparr>drQueueError := True, drDetail := popStatus\<rparr>,
                   obDiagnostic oc Error popStatus ''drain_corrupt_front_pop'' ob)
        else
          let ob = clearFrontCooldown ob; ob = ob\<lparr>corruptDrops := corruptDrops ob + 1\<rparr>
          in Some (empty_drain\<lparr>drCorruptDropped := 1, drRemovedQueuedBytes := recordBytes,
                     drDetail := corruptStatus\<rparr>,
                   obRequestEvent oc RequestDropped Error corruptStatus ''drain_corrupt_front'' 0 0 0 ob)
      })"

text \<open>The \<open>Sent\<close> and \<open>Drop\<close> branches of the switch: the record leaves the queue.\<close>

definition removeDrained ::
  "'s store_ops \<Rightarrow> queue_config \<Rightarrow> outbox_config \<Rightarrow> bool \<Rightarrow> bytes \<Rightarrow> drain_result
     \<Rightarrow> ('s, 'e) outbox \<Rightarrow> (drain_result \<times> ('s, 'e) outbox) option" where
  "removeDrained S c oc sent record r ob =
     do {
       (st, ob) \<leftarrow> onQueue (pop S c) ob;
       if \<not> ok st
       then Some (r\<lparr>drQueueError := True, drDetail := st\<rparr>, obDiagnostic oc Error st ''drain'' ob)
       else
         let attemptCount = frontAttempts ob; ob = clearFrontCooldown ob;
             r = r\<lparr>drRemovedQueuedBytes := drRemovedQueuedBytes r + word_of_nat (length record)\<rparr>
         in Some (if sent
           then (r\<lparr>drSent := drSent r + 1\<rparr>,
                 obRequestEvent oc RequestSent Debug success ''drain'' attemptCount 0 0 ob)
           else (r\<lparr>drDropped := drDropped r + 1\<rparr>,
                 obRequestEvent oc RequestDropped Warning
                   (failure Dropped ''request was dropped by send policy'') ''drain'' attemptCount 0 0 ob))
     }"

text \<open>The send of the decoded front record and what the decision means.\<close>

definition drainSend ::
  "'s store_ops \<Rightarrow> queue_config \<Rightarrow> 'e callbacks \<Rightarrow> outbox_config \<Rightarrow> u64 \<Rightarrow> bytes \<Rightarrow> bytes
     \<Rightarrow> ('s, 'e) outbox \<Rightarrow> (drain_result \<times> ('s, 'e) outbox) option" where
  "drainSend S c cb oc nowMs record payload ob =
     (let ob = recordDrainAttempt nowMs ob;
          r = empty_drain\<lparr>drAttempts := 1\<rparr>;
          ob = obRequestEvent oc Diagnostic Debug success ''drain_send_start'' (frontAttempts ob) 0 0 ob;
          (sendResult, ob) = dispatchSend cb payload (frontAttempts ob) ob
      in case srDecision sendResult of
           DecideSent \<Rightarrow> removeDrained S c oc True record r ob
         | DecideDrop \<Rightarrow> removeDrained S c oc False record r ob
         | DecideRetry \<Rightarrow>
             let ob = (if frontAttempts ob < 0xff then ob\<lparr>frontAttempts := frontAttempts ob + 1\<rparr> else ob);
                 (delayMs, ob) = computeRetryDelay cb oc (frontAttempts ob - 1) (srRetryAfterMs sendResult) ob;
                 ob = setFrontCooldown (nowMs + ucast delayMs) ob
             in Some (r, obRequestEvent oc RequestRetried Info success ''drain'' (frontAttempts ob) delayMs 0 ob)
         | DecideOther \<Rightarrow>
             let st = failure SendFailed ''unknown send decision'' in
             Some (r\<lparr>drSendError := True, drDetail := st\<rparr>, obDiagnostic oc Error st ''drain'' ob))"

definition drainFront ::
  "'s store_ops \<Rightarrow> queue_config \<Rightarrow> 'e callbacks \<Rightarrow> outbox_config \<Rightarrow> bool \<Rightarrow> u64 \<Rightarrow> bytes
     \<Rightarrow> ('s, 'e) outbox \<Rightarrow> (drain_result \<times> ('s, 'e) outbox) option" where
  "drainFront S c cb oc enforceRateLimit nowMs record ob =
     (case decodeEnvelope record of
        None \<Rightarrow>
          dropCorruptFrontRecord S c oc
            (failure DecodeFailed ''stored outbox envelope could not be decoded'')
            (word_of_nat (length record)) ob
      | Some decoded \<Rightarrow>
          if frontIsCoolingDown nowMs ob
          then Some (empty_drain\<lparr>drNotDue := True\<rparr>,
                 obRequestEvent oc Diagnostic Debug
                   (failure SendFailed ''front request retry cooldown not due'') ''drain''
                   (frontAttempts ob) (ucast (frontNextAttemptMs ob - nowMs)) 0 ob)
          else if enforceRateLimit \<and> \<not> drainRateAllows oc nowMs ob
          then Some (empty_drain\<lparr>drRateLimited := True\<rparr>,
                 obRequestEvent oc Diagnostic Debug
                   (failure SendFailed ''drain rate limit not due'') ''drain''
                   (frontAttempts ob) (drainRateRemainingMs nowMs ob) 0 ob)
          else drainSend S c cb oc nowMs record (envPayload decoded) ob)"

definition drainOne ::
  "'s store_ops \<Rightarrow> queue_config \<Rightarrow> 'e callbacks \<Rightarrow> outbox_config \<Rightarrow> bool \<Rightarrow> ('s, 'e) outbox
     \<Rightarrow> (drain_result \<times> ('s, 'e) outbox) option" where
  "drainOne S c cb oc enforceRateLimit ob =
     (if \<not> configured cb
      then Some (empty_drain\<lparr>drSendError := True, drDetail := notConfigured\<rparr>,
                 obDiagnostic oc Error notConfigured ''drain'' ob)
      else do {
        let (nowMs, ob) = readClock cb ob;
        ((st, record), ob) \<leftarrow> onQueue (peek S c) ob;
        if \<not> ok st then
          (if code st = QueueEmpty then Some (empty_drain, clearFrontCooldown ob)
           else if isCorruptFrontRecordStatus (code st)
           then dropCorruptFrontRecord S c oc st 0 ob
           else Some (empty_drain\<lparr>drQueueError := True, drDetail := st\<rparr>,
                      obDiagnostic oc Error st ''drain'' ob))
        else drainFront S c cb oc enforceRateLimit nowMs record ob
      })"

definition drain ::
  "'s store_ops \<Rightarrow> queue_config \<Rightarrow> 'e callbacks \<Rightarrow> outbox_config \<Rightarrow> ('s, 'e) outbox
     \<Rightarrow> (drain_result \<times> ('s, 'e) outbox) option" where
  "drain S c cb oc = drainOne S c cb oc True"

definition addDrain :: "drain_result \<Rightarrow> drain_result \<Rightarrow> drain_result" where
  "addDrain t r =
     \<lparr>drAttempts = drAttempts t + drAttempts r, drSent = drSent t + drSent r,
      drDropped = drDropped t + drDropped r,
      drCorruptDropped = drCorruptDropped t + drCorruptDropped r,
      drRemovedQueuedBytes = drRemovedQueuedBytes t + drRemovedQueuedBytes r,
      drRateLimited = (drRateLimited t \<or> drRateLimited r), drNotDue = (drNotDue t \<or> drNotDue r),
      drQueueError = (drQueueError t \<or> drQueueError r),
      drSendError = (drSendError t \<or> drSendError r),
      drDetail = (if \<not> ok (drDetail r) then drDetail r else drDetail t)\<rparr>"

definition drainShouldStop :: "drain_result \<Rightarrow> bool" where
  "drainShouldStop r \<longleftrightarrow>
     \<not> (drSent r \<noteq> 0 \<or> drDropped r \<noteq> 0 \<or> drCorruptDropped r \<noteq> 0)
     \<or> drNotDue r \<or> drRateLimited r \<or> drQueueError r \<or> drSendError r"

fun drainLoop ::
  "'s store_ops \<Rightarrow> queue_config \<Rightarrow> 'e callbacks \<Rightarrow> outbox_config \<Rightarrow> nat \<Rightarrow> drain_result
     \<Rightarrow> ('s, 'e) outbox \<Rightarrow> (drain_result \<times> ('s, 'e) outbox) option" where
  "drainLoop S c cb oc 0 t ob = Some (t, ob)"
| "drainLoop S c cb oc (Suc n) t ob =
     do {
       (current, ob) \<leftarrow> drainOne S c cb oc True ob;
       if drainShouldStop current then Some (addDrain t current, ob)
       else drainLoop S c cb oc n (addDrain t current) ob
     }"

definition drainUpTo ::
  "'s store_ops \<Rightarrow> queue_config \<Rightarrow> 'e callbacks \<Rightarrow> outbox_config \<Rightarrow> u16 \<Rightarrow> ('s, 'e) outbox
     \<Rightarrow> (drain_result \<times> ('s, 'e) outbox) option" where
  "drainUpTo S c cb oc maxDrainAttempts =
     drainLoop S c cb oc (unat (if maxDrainAttempts = 0 then 1 else maxDrainAttempts)) empty_drain"

section \<open>Maintenance\<close>

definition outboxCompactIdle ::
  "'s store_ops \<Rightarrow> queue_config \<Rightarrow> nat \<Rightarrow> ('s, 'e) outbox
     \<Rightarrow> (compact_idle_result \<times> ('s, 'e) outbox) option" where
  "outboxCompactIdle S c maxSteps = onQueue (queueCompactIdle S c maxSteps)"

definition addOutboxValidationError ::
  "validation_options \<Rightarrow> validation_issue \<Rightarrow> validation_result \<Rightarrow> validation_result" where
  "addOutboxValidationError maxErrors issue r =
     (let r = r\<lparr>vrOk := False\<rparr> in
      if length (vrErrors r) < maxErrors then r\<lparr>vrErrors := vrErrors r @ [issue]\<rparr>
      else r\<lparr>stoppedEarly := True\<rparr>)"

definition makeOutboxIssue :: "issue_code \<Rightarrow> string \<Rightarrow> u32 \<Rightarrow> validation_issue" where
  "makeOutboxIssue c msg sequence =
     default_issue\<lparr>viCode := c, viMessage := msg, expectedSequence := sequence,
       hasExpectedSequence := True\<rparr>"

text \<open>A payload validator: whether the payload is valid, and the issue it filled in.\<close>

type_synonym payload_validator = "bytes \<Rightarrow> validation_issue \<Rightarrow> bool \<times> validation_issue"

definition validateOutboxRecord ::
  "payload_validator option \<Rightarrow> validation_options \<Rightarrow> validation_result visitor" where
  "validateOutboxRecord validator maxErrors r record sequence ordinal =
     (case decodeEnvelope record of
        None \<Rightarrow>
          let r = addOutboxValidationError maxErrors
                (makeOutboxIssue OutboxEnvelopeInvalid
                   ''stored outbox envelope could not be decoded'' sequence) r
          in (\<not> stoppedEarly r, r)
      | Some decoded \<Rightarrow>
          (case validator of
             None \<Rightarrow> (True, r)
           | Some f \<Rightarrow>
               let (valid, issue) = f (envPayload decoded) default_issue in
               if valid then (True, r)
               else
                 let issue = (if \<not> hasExpectedSequence issue
                              then issue\<lparr>expectedSequence := sequence, hasExpectedSequence := True\<rparr>
                              else issue);
                     r = addOutboxValidationError maxErrors issue r
                 in (\<not> stoppedEarly r, r)))"

definition validatePayloads ::
  "'s store_ops \<Rightarrow> queue_config \<Rightarrow> payload_validator option \<Rightarrow> validation_options
     \<Rightarrow> ('s, 'e) outbox \<Rightarrow> (validation_result \<times> ('s, 'e) outbox) option" where
  "validatePayloads S c validator maxErrors ob =
     do {
       (r, ob) \<leftarrow> onQueue (queueValidate S c maxErrors) ob;
       if \<not> vrOk r \<or> stoppedEarly r \<or> length (vrErrors r) \<ge> maxErrors then Some (r, ob)
       else do {
         ((st, r), ob) \<leftarrow>
           onQueue (visitRecords S c (Some (validateOutboxRecord validator maxErrors)) r) ob;
         if \<not> ok st \<and> length (vrErrors r) < maxErrors
         then Some (addOutboxValidationError maxErrors
                      (makeOutboxIssue QueueLoadFailed (message st) 0) r, ob)
         else Some (r, ob)
       }
     }"

definition outboxValidate ::
  "'s store_ops \<Rightarrow> queue_config \<Rightarrow> validation_options \<Rightarrow> ('s, 'e) outbox
     \<Rightarrow> (validation_result \<times> ('s, 'e) outbox) option" where
  "outboxValidate S c = validatePayloads S c None"

definition outboxStats ::
  "'s store_ops \<Rightarrow> queue_config \<Rightarrow> ('s, 'e) outbox \<Rightarrow> (stats \<times> ('s, 'e) outbox) option" where
  "outboxStats S c = onQueue (queueStats S c)"

end
