(* ===== verification/Request_Envelope.thy ===== *)
theory Request_Envelope
  imports Outbox_Envelope
begin

text \<open>
  The HTTP request envelope (\<open>http/request_envelope.h\<close>, \<open>http/request_envelope.cpp\<close>), the
  payload an HTTP outbox stores: the current format (version 2, with a body-encoding byte) and
  the reader of the older version 1, which had none.  The file repeats the byte writers and
  readers of \<open>envelope.cpp\<close>; the model uses the ones of theory \<open>Outbox_Envelope\<close> and adds
  the 16-bit pair.

  \<open>Method\<close> and \<open>BodyEncoding\<close> are C++ enumerations over \<open>uint8_t\<close>: any byte can be
  cast to them, so they are bytes here.
\<close>

section \<open>Definitions\<close>

definition kHttpRequestEnvelopeMagic :: u32 where "kHttpRequestEnvelopeMagic = 0x50514852"
definition kHttpRequestEnvelopeVersion :: u8 where "kHttpRequestEnvelopeVersion = 2"
definition kHttpRequestEnvelopeV1 :: u8 where "kHttpRequestEnvelopeV1 = 1"

definition MethodPost :: u8 where "MethodPost = 1"
definition EncodingRaw :: u8 where "EncodingRaw = 0"
definition EncodingCompact :: u8 where "EncodingCompact = 1"

record request_envelope =
  reqMethod :: u8
  reqEncoding :: u8
  reqPath :: bytes
  reqBody :: bytes

definition default_request :: request_envelope where
  "default_request =
     \<lparr>reqMethod = MethodPost, reqEncoding = EncodingRaw, reqPath = [], reqBody = []\<rparr>"

definition appendLittleEndian16 :: "bytes \<Rightarrow> u16 \<Rightarrow> bytes" where
  "appendLittleEndian16 encoded value =
     fold (\<lambda>byte enc. enc @ [ucast (drop_bit (8 * byte) value AND 0xff)]) [0..<2] encoded"

definition readLittleEndian16 :: "bytes \<Rightarrow> nat \<Rightarrow> (u16 \<times> nat) option" where
  "readLittleEndian16 encoded offset =
     (if offset + 2 > length encoded then None
      else Some (fold (\<lambda>byte value. value OR push_bit (8 * byte) (ucast (encoded ! (offset + byte))))
                   [0..<2] 0, offset + 2))"

definition methodIsSupported :: "u8 \<Rightarrow> bool" where
  "methodIsSupported method \<longleftrightarrow> method = MethodPost"

definition encodingIsSupported :: "u8 \<Rightarrow> bool" where
  "encodingIsSupported encoding \<longleftrightarrow> encoding = EncodingRaw \<or> encoding = EncodingCompact"

definition encodeRequestEnvelope :: "request_envelope \<Rightarrow> bytes option" where
  "encodeRequestEnvelope request =
     (if reqMethod request \<noteq> MethodPost then None
      else if \<not> encodingIsSupported (reqEncoding request) then None
      else if length (reqPath request) > 0xffff then None
      else if length (reqBody request) > 0xffffffff then None
      else
        let encoded = appendLittleEndian32 [] kHttpRequestEnvelopeMagic;
            encoded = appendByte encoded kHttpRequestEnvelopeVersion;
            encoded = appendByte encoded (reqMethod request);
            encoded = appendByte encoded (reqEncoding request);
            encoded = appendLittleEndian16 encoded (word_of_nat (length (reqPath request)));
            encoded = appendLittleEndian32 encoded (word_of_nat (length (reqBody request)));
            encoded = encoded @ reqPath request
        in Some (encoded @ reqBody request))"

text \<open>The encoding byte: absent in version 1, mandatory and checked in version 2.\<close>

definition readEncodingByte :: "bytes \<Rightarrow> u8 \<Rightarrow> nat \<Rightarrow> (u8 \<times> nat) option" where
  "readEncodingByte encoded version offset =
     (if version = kHttpRequestEnvelopeV1 then Some (EncodingRaw, offset)
      else if version = kHttpRequestEnvelopeVersion then
        do {
          (encodingByte, offset) \<leftarrow> readByte encoded offset;
          if \<not> encodingIsSupported encodingByte then None else Some (encodingByte, offset)
        }
      else None)"

definition decodeRequestEnvelope :: "bytes \<Rightarrow> request_envelope option" where
  "decodeRequestEnvelope encoded =
     do {
       (magic, offset) \<leftarrow> readLittleEndian32 encoded 0;
       (version, offset) \<leftarrow> readByte encoded offset;
       (method, offset) \<leftarrow> readByte encoded offset;
       if magic \<noteq> kHttpRequestEnvelopeMagic \<or> \<not> methodIsSupported method then None
       else do {
         (encodingByte, offset) \<leftarrow> readEncodingByte encoded version offset;
         (pathLength, offset) \<leftarrow> readLittleEndian16 encoded offset;
         (bodyLength, offset) \<leftarrow> readLittleEndian32 encoded offset;
         if unat pathLength > length encoded - offset then None
         else do {
           let path = take (unat pathLength) (drop offset encoded);
           let offset = offset + unat pathLength;
           if unat bodyLength > length encoded - offset then None
           else do {
             let body = take (unat bodyLength) (drop offset encoded);
             let offset = offset + unat bodyLength;
             if offset = length encoded
             then Some \<lparr>reqMethod = method, reqEncoding = encodingByte, reqPath = path,
                        reqBody = body\<rparr>
             else None
           }
         }
       }
     }"

section \<open>Round trip, canonicity, version 1\<close>

lemma appendLittleEndian16_le2 [byte_simps]: "appendLittleEndian16 encoded v = encoded @ le2 v"
  by (simp add: appendLittleEndian16_def le2_def upt_conv_Cons byte_simps)

lemma readLittleEndian16_leU16 [byte_simps]: "readLittleEndian16 = leU16"
  by (intro ext) (simp add: readLittleEndian16_def leU16_def upt_conv_Cons eval_nat_numeral)

definition requestTail :: "bytes \<Rightarrow> bytes \<Rightarrow> bytes" where
  "requestTail path body =
     le2 (word_of_nat (length path)) @ le4 (word_of_nat (length body)) @ path @ body"

definition requestBytes :: "u8 \<Rightarrow> bytes \<Rightarrow> bytes \<Rightarrow> bytes" where
  "requestBytes encoding path body =
     le4 kHttpRequestEnvelopeMagic @ [kHttpRequestEnvelopeVersion, MethodPost, encoding]
     @ requestTail path body"

text \<open>What version 1 firmware wrote: the same layout without the encoding byte.\<close>

definition requestBytesV1 :: "bytes \<Rightarrow> bytes \<Rightarrow> bytes" where
  "requestBytesV1 path body =
     le4 kHttpRequestEnvelopeMagic @ [kHttpRequestEnvelopeV1, MethodPost] @ requestTail path body"

definition encodableRequest :: "request_envelope \<Rightarrow> bool" where
  "encodableRequest r \<longleftrightarrow>
     reqMethod r = MethodPost \<and> encodingIsSupported (reqEncoding r)
     \<and> length (reqPath r) \<le> 0xffff \<and> length (reqBody r) \<le> 0xffffffff"

lemma encodeRequestEnvelope_bytes:
  "encodeRequestEnvelope r =
     (if encodableRequest r then Some (requestBytes (reqEncoding r) (reqPath r) (reqBody r))
      else None)"
  by (auto simp: encodeRequestEnvelope_def encodableRequest_def requestBytes_def requestTail_def
      appendByte_def Let_def byte_simps)

text \<open>The part both versions share, after the encoding byte, as one step.\<close>

definition decodeTail :: "bytes \<Rightarrow> nat \<Rightarrow> (bytes \<times> bytes) option" where
  "decodeTail encoded offset =
     do {
       (pathLength, offset) \<leftarrow> leU16 encoded offset;
       (bodyLength, offset) \<leftarrow> leU32 encoded offset;
       if unat pathLength \<le> length encoded - offset
          \<and> unat bodyLength \<le> length encoded - (offset + unat pathLength)
          \<and> offset + unat pathLength + unat bodyLength = length encoded
       then Some (take (unat pathLength) (drop offset encoded),
                  take (unat bodyLength) (drop (offset + unat pathLength) encoded))
       else None
     }"

lemma decodeRequestEnvelope_tail:
  "decodeRequestEnvelope encoded =
     do {
       (magic, offset) \<leftarrow> leU32 encoded 0;
       (version, offset) \<leftarrow> readByte encoded offset;
       (method, offset) \<leftarrow> readByte encoded offset;
       if magic \<noteq> kHttpRequestEnvelopeMagic \<or> \<not> methodIsSupported method then None
       else do {
         (encodingByte, offset) \<leftarrow> readEncodingByte encoded version offset;
         (path, body) \<leftarrow> decodeTail encoded offset;
         Some \<lparr>reqMethod = method, reqEncoding = encodingByte, reqPath = path, reqBody = body\<rparr>
       }
     }"
  unfolding decodeRequestEnvelope_def decodeTail_def byte_simps
  by (auto simp: Let_def split: prod.splits intro!: Option.bind_cong)

lemma decodeTail_tail:
  assumes d: "drop off e = requestTail path body"
    and p: "length path \<le> 0xffff" and b: "length body \<le> 0xffffffff"
  shows "decodeTail e off = Some (path, body)"
proof -
  have up: "unat (word_of_nat (length path) :: u16) = length path"
    and ub: "unat (word_of_nat (length body) :: u32) = length body"
    using p b by (simp_all add: unat_of_nat)
  have r1: "leU16 e off = Some (word_of_nat (length path), off + 2)"
    using d by (intro leU16_drop) (simp add: requestTail_def)
  have d2: "drop (off + 2) e = le4 (word_of_nat (length body)) @ path @ body"
    using arg_cong [OF d, of "drop 2"] by (simp add: requestTail_def add.commute)
  have r2: "leU32 e (off + 2) = Some (word_of_nat (length body), off + 6)"
    using leU32_drop [OF d2] by (simp add: eval_nat_numeral)
  have d6: "drop (off + 6) e = path @ body"
    using arg_cong [OF d2, of "drop 4"] by (simp add: add.commute)
  have dp: "drop (off + 6 + length path) e = body"
    using arg_cong [OF d6, of "drop (length path)"] by (simp add: ac_simps)
  have off: "off \<le> length e"
    using d by (metis append_is_Nil_conv drop_all le2_def list.distinct(1) nat_le_linear requestTail_def)
  have len: "length e = off + 6 + length path + length body"
    using arg_cong [OF d, of length] off by (simp add: requestTail_def)
  show ?thesis
    by (simp add: decodeTail_def r1 r2 up ub d6 dp len del: add_2_eq_Suc')
qed

lemma decodeTail_SomeD:
  assumes "decodeTail e off = Some (path, body)"
  shows "e = take off e @ requestTail path body"
    "length path \<le> 0xffff" "length body \<le> 0xffffffff"
proof -
  obtain pl o1 bl o2 where r: "leU16 e off = Some (pl, o1)" "leU32 e o1 = Some (bl, o2)"
    and len: "o2 + unat pl + unat bl = length e"
    and p: "path = take (unat pl) (drop o2 e)" and b: "body = take (unat bl) (drop (o2 + unat pl) e)"
    using assms by (auto simp: decodeTail_def bind_eq_Some_conv split: if_splits)
  note t = leU16_SomeD [OF r(1)] leU32_SomeD [OF r(2)]
  have lp: "length path = unat pl" and lb: "length body = unat bl"
    using len by (simp_all add: p b)
  show "length path \<le> 0xffff" using unsigned_less [of pl, where ?'a = nat] lp by simp
  show "length body \<le> 0xffffffff" using unsigned_less [of bl, where ?'a = nat] lb by simp
  have "drop o2 e = path @ body"
    using len by (simp add: p b) (metis add.commute append_take_drop_id drop_drop le_add1 take_all
        length_drop diff_add_inverse order_refl add_diff_cancel_left)
  then have "e = take o2 e @ path @ body"
    by (metis append_take_drop_id)
  moreover have "take o2 e = take off e @ le2 pl @ le4 bl" using t by simp
  moreover have "pl = word_of_nat (length path)" "bl = word_of_nat (length body)"
    by (simp_all add: lp lb)
  ultimately show "e = take off e @ requestTail path body"
    by (simp add: requestTail_def)
qed

lemma decodeRequestEnvelope_encode:
  assumes "encodeRequestEnvelope r = Some e"
  shows "decodeRequestEnvelope e = Some r"
proof -
  have enc: "encodableRequest r" and e: "e = requestBytes (reqEncoding r) (reqPath r) (reqBody r)"
    using assms by (auto simp: encodeRequestEnvelope_bytes split: if_splits)
  have d0: "drop 0 e = le4 kHttpRequestEnvelopeMagic @ kHttpRequestEnvelopeVersion # MethodPost
      # reqEncoding r # requestTail (reqPath r) (reqBody r)"
    by (simp add: e requestBytes_def)
  note step = arg_cong [OF d0, of "drop k" for k, simplified drop_drop]
  have r1: "leU32 e 0 = Some (kHttpRequestEnvelopeMagic, 4)" using leU32_drop [OF d0] by simp
  have r2: "readByte e 4 = Some (kHttpRequestEnvelopeVersion, 5)"
    using readByte_drop [OF step [of 4, simplified]] by simp
  have r3: "readByte e 5 = Some (MethodPost, 6)"
    using readByte_drop [OF step [of 5, simplified]] by simp
  have r4: "readByte e 6 = Some (reqEncoding r, 7)"
    using readByte_drop [OF step [of 6, simplified]] by simp
  have r5: "decodeTail e 7 = Some (reqPath r, reqBody r)"
    using enc by (intro decodeTail_tail step [of 7, simplified, THEN trans])
      (simp_all add: encodableRequest_def)
  show ?thesis
    using enc by (simp add: decodeRequestEnvelope_tail r1 r2 r3 r4 r5 readEncodingByte_def
        methodIsSupported_def encodableRequest_def kHttpRequestEnvelopeV1_def
        kHttpRequestEnvelopeVersion_def)
qed

lemma decodeRequestEnvelope_V1:
  assumes "length path \<le> 0xffff" "length body \<le> 0xffffffff"
  shows "decodeRequestEnvelope (requestBytesV1 path body)
    = Some \<lparr>reqMethod = MethodPost, reqEncoding = EncodingRaw, reqPath = path, reqBody = body\<rparr>"
proof -
  define e where "e = requestBytesV1 path body"
  have d0: "drop 0 e = le4 kHttpRequestEnvelopeMagic @ kHttpRequestEnvelopeV1 # MethodPost
      # requestTail path body"
    by (simp add: e_def requestBytesV1_def)
  note step = arg_cong [OF d0, of "drop k" for k, simplified drop_drop]
  have r1: "leU32 e 0 = Some (kHttpRequestEnvelopeMagic, 4)" using leU32_drop [OF d0] by simp
  have r2: "readByte e 4 = Some (kHttpRequestEnvelopeV1, 5)"
    using readByte_drop [OF step [of 4, simplified]] by simp
  have r3: "readByte e 5 = Some (MethodPost, 6)"
    using readByte_drop [OF step [of 5, simplified]] by simp
  have r5: "decodeTail e 6 = Some (path, body)"
    using assms by (intro decodeTail_tail step [of 6, simplified, THEN trans]) simp_all
  have "decodeRequestEnvelope e
      = Some \<lparr>reqMethod = MethodPost, reqEncoding = EncodingRaw, reqPath = path, reqBody = body\<rparr>"
    by (simp add: decodeRequestEnvelope_tail r1 r2 r3 r5 readEncodingByte_def methodIsSupported_def)
  then show ?thesis by (simp add: e_def)
qed

text \<open>Every accepted string is one of the two layouts of the request it decodes to.\<close>

lemma decodeRequestEnvelope_SomeD:
  assumes "decodeRequestEnvelope e = Some r"
  shows "encodableRequest r \<and>
    (e = requestBytes (reqEncoding r) (reqPath r) (reqBody r)
     \<or> reqEncoding r = EncodingRaw \<and> e = requestBytesV1 (reqPath r) (reqBody r))"
proof -
  obtain mg o1 vs o2 mt o3 en o4 path body where
    r: "leU32 e 0 = Some (mg, o1)" "readByte e o1 = Some (vs, o2)" "readByte e o2 = Some (mt, o3)"
       "readEncodingByte e vs o3 = Some (en, o4)" "decodeTail e o4 = Some (path, body)"
    and g: "mg = kHttpRequestEnvelopeMagic" "mt = MethodPost"
    and req: "r = \<lparr>reqMethod = mt, reqEncoding = en, reqPath = path, reqBody = body\<rparr>"
    using assms by (auto simp: decodeRequestEnvelope_tail bind_eq_Some_conv methodIsSupported_def
        split: if_splits)
  note t = leU32_SomeD [OF r(1)] readByte_SomeD [OF r(2)] readByte_SomeD [OF r(3)]
  note tl = decodeTail_SomeD [OF r(5)]
  have hd: "take o3 e = le4 kHttpRequestEnvelopeMagic @ [vs, MethodPost]"
    using t g by simp
  consider (v1) "vs = kHttpRequestEnvelopeV1" "en = EncodingRaw" "o4 = o3"
    | (v2) "vs = kHttpRequestEnvelopeVersion" "readByte e o3 = Some (en, o4)"
      "encodingIsSupported en"
    using r(4) by (auto simp: readEncodingByte_def bind_eq_Some_conv split: if_splits)
  then show ?thesis
  proof cases
    case v1
    then show ?thesis
      using tl hd g by (auto simp: req encodableRequest_def encodingIsSupported_def requestBytesV1_def)
  next
    case v2
    have "take o4 e = take o3 e @ [en]" using readByte_SomeD [OF v2(2)] by simp
    then show ?thesis
      using tl hd g v2 by (auto simp: req encodableRequest_def requestBytes_def)
  qed
qed

section \<open>Properties of the request envelope\<close>

text \<open>C15. The decoder accepts exactly two byte strings for a request: the version 2 encoding, and
  for an uncompressed body the version 1 encoding of older firmware; every accepted request is
  one the encoder would accept.\<close>

theorem request_codec:
  "decodeRequestEnvelope e = Some r \<longleftrightarrow>
     encodableRequest r \<and>
     (encodeRequestEnvelope r = Some e
      \<or> reqEncoding r = EncodingRaw \<and> e = requestBytesV1 (reqPath r) (reqBody r))"
  (is "?L \<longleftrightarrow> ?R")
proof
  assume ?L
  then show ?R using decodeRequestEnvelope_SomeD [of e r] by (auto simp: encodeRequestEnvelope_bytes)
next
  assume r: ?R
  then consider "encodeRequestEnvelope r = Some e"
    | "reqEncoding r = EncodingRaw" "e = requestBytesV1 (reqPath r) (reqBody r)" by blast
  then show ?L
  proof cases
    case 1
    then show ?thesis by (rule decodeRequestEnvelope_encode)
  next
    case 2
    with r decodeRequestEnvelope_V1 [of "reqPath r" "reqBody r"] show ?thesis
      by (simp add: encodableRequest_def)
  qed
qed

end
