(* ===== verification/Http_Outbox.thy ===== *)
theory Http_Outbox
  imports Outbox_Core Request_Envelope
begin

text \<open>
  The HTTP outbox (\<open>http/outbox.cpp\<close>, \<open>http/outbox.h\<close>): an \<open>Outbox\<close> whose payloads are request
  envelopes and whose send callback posts the request over a \<open>Transport\<close>.

  The transport and the callbacks of the configuration are user code: functions that may change
  an environment of type \<open>'u\<close>.  The environment of the inner outbox is that environment together
  with the events the HTTP outbox itself has emitted.  Strings of the interface are C strings:
  \<open>cString\<close> cuts at the first NUL byte, as \<open>c_str()\<close> does for its reader.
\<close>

section \<open>Types\<close>

datatype transport_error = TransportNone | TransportTimeout | TransportNetwork | TransportTls
  | TransportDns | TransportUnknown

fun transportErrorValue :: "transport_error \<Rightarrow> int" where
  "transportErrorValue TransportNone = 0"
| "transportErrorValue TransportTimeout = 1"
| "transportErrorValue TransportNetwork = 2"
| "transportErrorValue TransportTls = 3"
| "transportErrorValue TransportDns = 4"
| "transportErrorValue TransportUnknown = 5"

record response =
  respStatus :: int
  respError :: transport_error
  respBody :: bytes
  respRetryAfterMs :: u32

definition kNoStatusCode :: int where "kNoStatusCode = 0"

datatype drop_reason = DropDecodeFailed | DropServerRejected | DropExpandFailed

type_synonym header = "bytes \<times> bytes"

type_synonym 'u transport = "bytes \<Rightarrow> header list \<Rightarrow> bytes \<Rightarrow> 'u \<Rightarrow> response \<times> 'u"

record 'u http_config =
  hcQueue :: queue_config
  hcOutbox :: outbox_config
  hcFullQueuePolicy :: full_queue_policy
  hcBaseUrl :: "bytes option"
  hcHeaders :: "header list"
  hcClassify :: "(response \<Rightarrow> 'u \<Rightarrow> send_decision \<times> 'u) option"
  hcOnResponse :: "(request_envelope \<Rightarrow> response \<Rightarrow> 'u \<Rightarrow> 'u) option"
  hcOnDrop :: "(request_envelope option \<Rightarrow> drop_reason \<Rightarrow> response option \<Rightarrow> 'u \<Rightarrow> 'u) option"
  hcExpandBody :: "(bytes \<Rightarrow> bytes \<Rightarrow> 'u \<Rightarrow> (bool \<times> bytes) \<times> 'u) option"

definition default_http_config :: "'u http_config" where
  "default_http_config =
     \<lparr>hcQueue = default_queue_config, hcOutbox = default_outbox_config,
      hcFullQueuePolicy = DropOldest, hcBaseUrl = Some [], hcHeaders = [], hcClassify = None,
      hcOnResponse = None, hcOnDrop = None, hcExpandBody = None\<rparr>"

record 'u http_env =
  heUser :: 'u
  heEmitted :: "event list"

text \<open>\<open>CallbackTransport::post\<close>.\<close>

definition callbackPost :: "'u transport option \<Rightarrow> 'u transport" where
  "callbackPost post url headers body u =
     (case post of
        None \<Rightarrow> (\<lparr>respStatus = kNoStatusCode, respError = TransportUnknown, respBody = [],
                  respRetryAfterMs = 0\<rparr>, u)
      | Some f \<Rightarrow> f url headers body u)"

definition resolveQueueConfig :: "'u http_config \<Rightarrow> queue_config" where
  "resolveQueueConfig hc = (hcQueue hc)\<lparr>fullQueuePolicy := hcFullQueuePolicy hc\<rparr>"

section \<open>Responses\<close>

definition isSuccessfulStatus :: "int \<Rightarrow> bool" where
  "isSuccessfulStatus statusCode \<longleftrightarrow> statusCode \<ge> 200 \<and> statusCode < 300"

definition isPermanentErrorStatus :: "int \<Rightarrow> bool" where
  "isPermanentErrorStatus statusCode \<longleftrightarrow> statusCode = 501 \<or> statusCode = 505 \<or> statusCode = 508"

definition isRetryableStatus :: "int \<Rightarrow> bool" where
  "isRetryableStatus statusCode =
     (if isPermanentErrorStatus statusCode then False
      else statusCode = 408 \<or> statusCode = 429 \<or> (statusCode \<ge> 500 \<and> statusCode < 600))"

definition defaultClassifyResponse :: "response \<Rightarrow> send_decision" where
  "defaultClassifyResponse response =
     (if respError response \<noteq> TransportNone then DecideRetry
      else if isSuccessfulStatus (respStatus response) then DecideSent
      else if isRetryableStatus (respStatus response) then DecideRetry
      else DecideDrop)"

definition classifyResponse :: "'u http_config \<Rightarrow> response \<Rightarrow> 'u \<Rightarrow> send_decision \<times> 'u" where
  "classifyResponse hc response u =
     (case hcClassify hc of
        Some f \<Rightarrow> f response u
      | None \<Rightarrow> (defaultClassifyResponse response, u))"

section \<open>Requests\<close>

definition cString :: "bytes \<Rightarrow> bytes" where
  "cString = takeWhile (\<lambda>b. b \<noteq> 0)"

definition slash :: u8 where "slash = 47"

definition buildUrl :: "'u http_config \<Rightarrow> bytes \<Rightarrow> bytes" where
  "buildUrl hc path =
     (let base = (case hcBaseUrl hc of None \<Rightarrow> [] | Some b \<Rightarrow> b) in
      if base = [] then path
      else if path = [] then base
      else if last base = slash \<and> hd path = slash then base @ drop 1 path
      else if last base \<noteq> slash \<and> hd path \<noteq> slash then base @ [slash] @ path
      else base @ path)"

definition bytesToString :: "bytes \<Rightarrow> string" where
  "bytesToString = map (\<lambda>b. char_of (unat b))"

definition httpDiagnostic ::
  "'u http_config \<Rightarrow> severity \<Rightarrow> status \<Rightarrow> string \<Rightarrow> request_envelope option \<Rightarrow> response option
     \<Rightarrow> u8 \<Rightarrow> 'u http_env \<Rightarrow> 'u http_env" where
  "httpDiagnostic hc sev st operation request response attempt env =
     env\<lparr>heEmitted := emitEvent (outboxEvents (hcOutbox hc))
       (default_event\<lparr>evKind := Diagnostic, evSeverity := sev, evStatus := st,
          evComponent := ''HttpOutbox'', evOperation := operation,
          evPath := (case request of None \<Rightarrow> [] | Some r \<Rightarrow> bytesToString (cString (reqPath r))),
          evMethod := (case request of None \<Rightarrow> [] | Some r \<Rightarrow> ''POST''),
          evBodyBytes := (case request of None \<Rightarrow> 0 | Some r \<Rightarrow> word_of_nat (length (reqBody r))),
          evHttpStatus := (case response of None \<Rightarrow> 0 | Some r \<Rightarrow> respStatus r),
          evAttempt := attempt\<rparr>) (heEmitted env)\<rparr>"

definition onUser :: "('u \<Rightarrow> 'a \<times> 'u) \<Rightarrow> 'u http_env \<Rightarrow> 'a \<times> 'u http_env" where
  "onUser f env = (let (r, u) = f (heUser env) in (r, env\<lparr>heUser := u\<rparr>))"

definition notifyResponse ::
  "'u http_config \<Rightarrow> request_envelope \<Rightarrow> response \<Rightarrow> 'u http_env \<Rightarrow> 'u http_env" where
  "notifyResponse hc request response env =
     (case hcOnResponse hc of
        None \<Rightarrow> env
      | Some f \<Rightarrow> env\<lparr>heUser := f request response (heUser env)\<rparr>)"

definition notifyDrop ::
  "'u http_config \<Rightarrow> request_envelope option \<Rightarrow> drop_reason \<Rightarrow> response option
     \<Rightarrow> 'u http_env \<Rightarrow> 'u http_env" where
  "notifyDrop hc request reason response env =
     (case hcOnDrop hc of
        None \<Rightarrow> env
      | Some f \<Rightarrow> env\<lparr>heUser := f request reason response (heUser env)\<rparr>)"

section \<open>Sending a stored request\<close>

definition dropped :: send_result where
  "dropped = \<lparr>srDecision = DecideDrop, srRetryAfterMs = 0\<rparr>"

text \<open>The body to post, or \<open>None\<close> when the compact record cannot be expanded.\<close>

definition expandHttpBody ::
  "'u http_config \<Rightarrow> request_envelope \<Rightarrow> u8 \<Rightarrow> 'u http_env \<Rightarrow> bytes option \<times> 'u http_env" where
  "expandHttpBody hc request attempts env =
     (if reqEncoding request = EncodingCompact
      then (case hcExpandBody hc of
        None \<Rightarrow>
          (None, notifyDrop hc (Some request) DropExpandFailed None
             (httpDiagnostic hc Error
                (failure DecodeFailed ''compact record requires expandBody callback'')
                ''sendStoredRequest'' (Some request) None attempts env))
      | Some expand \<Rightarrow>
          let ((expanded, out), env) = onUser (expand (cString (reqPath request)) (reqBody request)) env in
          if expanded then (Some out, env)
          else (None, notifyDrop hc (Some request) DropExpandFailed None
                 (httpDiagnostic hc Error (failure DecodeFailed ''failed to expand compact record'')
                    ''sendStoredRequest'' (Some request) None attempts env)))
      else (Some (reqBody request), env))"

definition postRequest ::
  "'u transport \<Rightarrow> 'u http_config \<Rightarrow> request_envelope \<Rightarrow> bytes \<Rightarrow> u8 \<Rightarrow> 'u http_env
     \<Rightarrow> send_result \<times> 'u http_env" where
  "postRequest tr hc request httpBody attempts env =
     (let url = buildUrl hc (reqPath request);
          env = httpDiagnostic hc Debug success ''transport_post_start'' (Some request) None attempts env;
          (response, env) = onUser (tr (cString url) (hcHeaders hc) httpBody) env;
          env = notifyResponse hc request response env;
          env = httpDiagnostic hc
                  (if respError response = TransportNone then Debug else Warning)
                  (if respError response = TransportNone then success
                   else failure_code SendFailed ''HTTP transport returned an error''
                          (transportErrorValue (respError response)))
                  ''transport_post_complete'' (Some request) (Some response) attempts env;
          (decision, env) = onUser (classifyResponse hc response) env;
          env = (if decision = DecideDrop
                 then notifyDrop hc (Some request) DropServerRejected (Some response) env else env)
      in (\<lparr>srDecision = decision, srRetryAfterMs = respRetryAfterMs response\<rparr>, env))"

definition sendStoredRequest ::
  "'u transport \<Rightarrow> 'u http_config \<Rightarrow> bytes \<Rightarrow> u8 \<Rightarrow> 'u http_env \<Rightarrow> send_result \<times> 'u http_env" where
  "sendStoredRequest tr hc encodedRequest attempts env =
     (case decodeRequestEnvelope encodedRequest of
        Some request \<Rightarrow>
          if reqMethod request \<noteq> MethodPost
          then (dropped, notifyDrop hc None DropDecodeFailed None
                 (httpDiagnostic hc Error (failure DecodeFailed ''failed to decode HTTP request envelope'')
                    ''sendStoredRequest'' None None attempts env))
          else
            let (body, env) = expandHttpBody hc request attempts env in
            case body of
              None \<Rightarrow> (dropped, env)
            | Some httpBody \<Rightarrow> postRequest tr hc request httpBody attempts env
      | None \<Rightarrow>
          (dropped, notifyDrop hc None DropDecodeFailed None
             (httpDiagnostic hc Error (failure DecodeFailed ''failed to decode HTTP request envelope'')
                ''sendStoredRequest'' None None attempts env)))"

text \<open>The callbacks the HTTP outbox gives its inner outbox: no random source, so no jitter.\<close>

definition httpCallbacks ::
  "'u transport \<Rightarrow> 'u http_config \<Rightarrow> ('u \<Rightarrow> u64 \<times> 'u) option \<Rightarrow> 'u http_env callbacks" where
  "httpCallbacks tr hc clk =
     \<lparr>cbSend = Some (sendStoredRequest tr hc), cbRawSend = None,
      cbClock = map_option onUser clk, cbRand = None\<rparr>"

section \<open>Operations\<close>

definition submitEncoded ::
  "'s store_ops \<Rightarrow> 'u transport \<Rightarrow> 'u http_config \<Rightarrow> ('u \<Rightarrow> u64 \<times> 'u) option \<Rightarrow> string
     \<Rightarrow> request_envelope \<Rightarrow> ('s, 'u http_env) outbox \<Rightarrow> (submit_result \<times> ('s, 'u http_env) outbox) option" where
  "submitEncoded S tr hc clk operation request ob =
     (case encodeRequestEnvelope request of
        None \<Rightarrow>
          let st = failure EncodeFailed ''failed to encode HTTP request envelope'' in
          Some (\<lparr>suStatus = SubmitError, suDetail = st\<rparr>,
                ob\<lparr>obEnv := httpDiagnostic hc Error st operation (Some request) None 0 (obEnv ob)\<rparr>)
      | Some encoded \<Rightarrow>
          submit S (resolveQueueConfig hc) (httpCallbacks tr hc clk) (hcOutbox hc) (DataSpan encoded)
            (ob\<lparr>obEnv := httpDiagnostic hc Debug success operation (Some request) None 0 (obEnv ob)\<rparr>))"

definition submitPost ::
  "'s store_ops \<Rightarrow> 'u transport \<Rightarrow> 'u http_config \<Rightarrow> ('u \<Rightarrow> u64 \<times> 'u) option \<Rightarrow> bytes \<Rightarrow> bytes
     \<Rightarrow> ('s, 'u http_env) outbox \<Rightarrow> (submit_result \<times> ('s, 'u http_env) outbox) option" where
  "submitPost S tr hc clk path body =
     submitEncoded S tr hc clk ''submitPost'' (default_request\<lparr>reqPath := path, reqBody := body\<rparr>)"

definition submitCompactPost ::
  "'s store_ops \<Rightarrow> 'u transport \<Rightarrow> 'u http_config \<Rightarrow> ('u \<Rightarrow> u64 \<times> 'u) option \<Rightarrow> bytes \<Rightarrow> span
     \<Rightarrow> ('s, 'u http_env) outbox \<Rightarrow> (submit_result \<times> ('s, 'u http_env) outbox) option" where
  "submitCompactPost S tr hc clk path record ob =
     (if spanLen record > 0 \<and> spanDataNull record
      then
        let st = failure InvalidArgument ''compact record span has non-zero length but null data'' in
        Some (\<lparr>suStatus = SubmitError, suDetail = st\<rparr>,
              ob\<lparr>obEnv := httpDiagnostic hc Error st ''submitCompactPost'' None None 0 (obEnv ob)\<rparr>)
      else submitEncoded S tr hc clk ''submitCompactPost''
             (default_request\<lparr>reqEncoding := EncodingCompact, reqPath := path,
                reqBody := spanToString record\<rparr>) ob)"

definition httpDrain ::
  "'s store_ops \<Rightarrow> 'u transport \<Rightarrow> 'u http_config \<Rightarrow> ('u \<Rightarrow> u64 \<times> 'u) option
     \<Rightarrow> ('s, 'u http_env) outbox \<Rightarrow> (drain_result \<times> ('s, 'u http_env) outbox) option" where
  "httpDrain S tr hc clk = drain S (resolveQueueConfig hc) (httpCallbacks tr hc clk) (hcOutbox hc)"

definition httpDrainUpTo ::
  "'s store_ops \<Rightarrow> 'u transport \<Rightarrow> 'u http_config \<Rightarrow> ('u \<Rightarrow> u64 \<times> 'u) option \<Rightarrow> u16
     \<Rightarrow> ('s, 'u http_env) outbox \<Rightarrow> (drain_result \<times> ('s, 'u http_env) outbox) option" where
  "httpDrainUpTo S tr hc clk =
     drainUpTo S (resolveQueueConfig hc) (httpCallbacks tr hc clk) (hcOutbox hc)"

definition httpCompactIdle ::
  "'s store_ops \<Rightarrow> 'u http_config \<Rightarrow> nat \<Rightarrow> ('s, 'u http_env) outbox
     \<Rightarrow> (compact_idle_result \<times> ('s, 'u http_env) outbox) option" where
  "httpCompactIdle S hc = outboxCompactIdle S (resolveQueueConfig hc)"

definition validateHttpRequestPayload :: payload_validator where
  "validateHttpRequestPayload payload issue =
     (case decodeRequestEnvelope payload of
        Some request \<Rightarrow> (True, issue)
      | None \<Rightarrow>
          (False, issue\<lparr>viCode := HttpRequestEnvelopeInvalid,
             viMessage := ''stored HTTP request envelope could not be decoded''\<rparr>))"

definition httpValidate ::
  "'s store_ops \<Rightarrow> 'u http_config \<Rightarrow> validation_options \<Rightarrow> ('s, 'u http_env) outbox
     \<Rightarrow> (validation_result \<times> ('s, 'u http_env) outbox) option" where
  "httpValidate S hc = validatePayloads S (resolveQueueConfig hc) (Some validateHttpRequestPayload)"

definition httpStats ::
  "'s store_ops \<Rightarrow> 'u http_config \<Rightarrow> ('s, 'u http_env) outbox \<Rightarrow> (stats \<times> ('s, 'u http_env) outbox) option" where
  "httpStats S hc = outboxStats S (resolveQueueConfig hc)"

end
