(* ===== verification/Log_Replay.thy ===== *)
theory Log_Replay
  imports Segment_Scan
begin

text \<open>
  The meaning of a segment: a list of logical events.  \<open>encodeEvent\<close> is the bytes the store
  appends for an event; scanning the encoding of any list of events performs exactly those
  events, in order, and a torn event at the end changes nothing.  \<open>absEvent\<close> is the effect of
  an event on the abstract queue of sequence numbers and payloads, which the index entries in
  \<open>records_\<close> denote through the bytes on disk.
\<close>

section \<open>Logical events\<close>

datatype log_event = LogEnqueue u32 bytes | LogRewrite u32 bytes | LogPop u32

fun encodeEvent :: "log_event \<Rightarrow> bytes" where
  "encodeEvent (LogEnqueue q p) = serializeEnqueueEvent q p"
| "encodeEvent (LogRewrite q p) = serializeRewriteEvent q p"
| "encodeEvent (LogPop q) = serializePopEvent q"

fun eventSize :: "log_event \<Rightarrow> nat" where
  "eventSize (LogEnqueue q p) = 24 + length p"
| "eventSize (LogRewrite q p) = 24 + length p"
| "eventSize (LogPop q) = 20"

fun eventFits :: "append_log_config \<Rightarrow> log_event \<Rightarrow> bool" where
  "eventFits cfg (LogEnqueue q p) \<longleftrightarrow> length p \<le> maxRecordBytes cfg"
| "eventFits cfg (LogRewrite q p) \<longleftrightarrow> length p \<le> maxRecordBytes cfg"
| "eventFits cfg (LogPop q) \<longleftrightarrow> True"

definition encodeEvents :: "log_event list \<Rightarrow> bytes" where
  "encodeEvents evs = concat (map encodeEvent evs)"

lemma encodeEvents_simps [simp]:
  "encodeEvents [] = []" "encodeEvents (e # evs) = encodeEvent e @ encodeEvents evs"
  "encodeEvents (evs @ evs') = encodeEvents evs @ encodeEvents evs'"
  by (simp_all add: encodeEvents_def)

lemma length_encodeEvent [simp]: "length (encodeEvent e) = eventSize e"
  by (cases e) (simp_all add: serializeEnqueueEvent_bytes serializeRewriteEvent_bytes)

text \<open>The record an ENQUEUE or REWRITE event at offset \<open>off\<close> of segment \<open>gen\<close> puts in the
  index.\<close>

definition recordAt :: "u32 \<Rightarrow> u32 \<Rightarrow> u32 \<Rightarrow> bytes \<Rightarrow> segment_record" where
  "recordAt gen off sequence payload =
     \<lparr>srSequence = sequence, srGeneration = gen, srPayloadOffset = off + kEnqueueHeaderBytes,
      srPayloadBytes = word_of_nat (length payload)\<rparr>"

fun scanEvent :: "u32 \<Rightarrow> bool \<Rightarrow> log_event \<Rightarrow> scan_state \<Rightarrow> scan_state" where
  "scanEvent gen isLast (LogEnqueue q p) st =
     (let off = scOffset st + word_of_nat (24 + length p) in
      \<lparr>scOffset = off, scLastGood = off,
       scRecords = scRecords st @ [recordAt gen (scOffset st) q p],
       scNextSequence = advanceSequence q (scNextSequence st), scAffected = scAffected st\<rparr>)"
| "scanEvent gen isLast (LogRewrite q p) st =
     (let off = scOffset st + word_of_nat (24 + length p);
          (rs, affected) = applyRewrite isLast (recordAt gen (scOffset st) q p)
                             (scRecords st, scAffected st)
      in \<lparr>scOffset = off, scLastGood = off, scRecords = rs,
          scNextSequence = advanceSequence q (scNextSequence st), scAffected = affected\<rparr>)"
| "scanEvent gen isLast (LogPop q) st =
     (let off = scOffset st + 20;
          (rs, affected) = applyPop isLast q (scRecords st, scAffected st)
      in \<lparr>scOffset = off, scLastGood = off, scRecords = rs,
          scNextSequence = advanceSequence q (scNextSequence st), scAffected = affected\<rparr>)"

section \<open>Scanning one event\<close>

lemma readLE32_leU32: "leU32 buf off = Some (v, off') \<Longrightarrow> readLE32 buf off = v"
  by (auto simp: leU32_def readLE32_def un_le4_def split: if_splits)

lemma readLE32_drop: "drop off buf = le4 v @ ys \<Longrightarrow> readLE32 buf off = v"
  by (rule readLE32_leU32, rule leU32_drop)

lemma unat_word_u32: "n < 4294967296 \<Longrightarrow> unat (word_of_nat n :: u32) = n"
  by (simp add: unat_of_nat)

lemma scanEnqueueOrRewrite_event:
  assumes m: "magic = kEnqueueMagic \<or> magic = kRewriteMagic"
    and d: "drop (unat (scOffset st)) buf = eventBytes magic q p @ rest"
    and len: "length buf = unat fileSize" and p: "length p \<le> maxRecordBytes cfg"
  shows "scanStep cfg gen isLast buf fileSize st =
    (let off = scOffset st + word_of_nat (24 + length p);
         (rs, affected) =
           (if magic = kEnqueueMagic
            then (scRecords st @ [recordAt gen (scOffset st) q p], scAffected st)
            else applyRewrite isLast (recordAt gen (scOffset st) q p) (scRecords st, scAffected st))
     in ScanNext \<lparr>scOffset = off, scLastGood = off, scRecords = rs,
          scNextSequence = advanceSequence q (scNextSequence st), scAffected = affected\<rparr>)"
proof -
  define o1 where "o1 = scOffset st"
  define n where "n = (word_of_nat (length p) :: u32)"
  have tot: "unat o1 + (24 + length p + length rest) = unat fileSize"
    using arg_cong [OF d, of length] len by (simp add: o1_def)
  note b = u32_bound [of fileSize]
  have un: "unat n = length p" using tot b unfolding n_def by (intro unat_word_u32) simp
  have rem: "unat (fileSize - o1) = 24 + length p + length rest"
    using tot by (simp add: unat_sub_if')
  have r16: "min (fileSize - o1) kEnqueueHeaderBytes = 16"
    using rem by (simp add: min_def word_le_nat_alt kEnqueueHeaderBytes_def)
  define hdr where "hdr = headerBytesOf magic q n"
  have ev: "drop (unat o1) buf = hdr @ p @ le4 (enqueueEventCrc (headerOf magic q n) p)
      @ le4 kFooterMagic @ rest"
    using d by (simp add: eventBytes_def hdr_def n_def o1_def)
  have hb: "take 16 (drop (unat o1) buf) = hdr" by (simp add: ev hdr_def)
  have magic: "readLE32 hdr 0 = magic"
    by (rule readLE32_drop [of _ _ _ "drop 4 hdr"]) (simp add: hdr_def headerBytesOf_def)
  have ph: "parseEnqueueHeader hdr default_enqueue_header = (True, headerOf magic q n)"
    using parseEnqueueHeader_bytes [OF m, of q n "[]"] by (simp add: hdr_def)
  have u8: "unat (n + kEventTrailerBytes) = length p + 8"
    using un tot b by (simp add: kEventTrailerBytes_def unat_word_ariths)
  have u4: "unat (n + 4) = length p + 4"
    using un tot b by (simp add: unat_word_ariths)
  have u16: "unat (o1 + kEnqueueHeaderBytes) = unat o1 + 16"
    using tot b by (simp add: kEnqueueHeaderBytes_def unat_word_ariths)
  have t24: "kEnqueueHeaderBytes + n + kEventTrailerBytes = 24 + n"
    by (simp add: kEnqueueHeaderBytes_def kEventTrailerBytes_def)
  have ut: "unat (24 + n) = 24 + length p"
    using un tot b by (simp add: unat_word_ariths)
  have sel: "ehPayloadBytes (headerOf m q n) = n" "ehSequence (headerOf m q n) = q" for m
    by (simp_all add: headerOf_def)
  have pt: "take (length p + 8) (drop (unat o1 + 16) buf)
      = p @ le4 (enqueueEventCrc (headerOf magic q n) p) @ le4 kFooterMagic"
    using arg_cong [OF ev, of "drop 16"] by (simp add: hdr_def add.commute)
  have crc: "readLE32 (p @ le4 (enqueueEventCrc (headerOf magic q n) p) @ le4 kFooterMagic)
      (length p) = enqueueEventCrc (headerOf magic q n) p"
    by (rule readLE32_drop [of _ _ _ "le4 kFooterMagic"]) simp
  have foot: "readLE32 (p @ le4 (enqueueEventCrc (headerOf magic q n) p) @ le4 kFooterMagic)
      (length p + 4) = kFooterMagic"
    by (rule readLE32_drop [of _ _ _ "[]"]) simp
  have inner: "scanEnqueueOrRewrite cfg gen isLast buf (fileSize - o1) hdr st =
    (let off = scOffset st + word_of_nat (24 + length p);
         (rs, affected) =
           (if magic = kEnqueueMagic
            then (scRecords st @ [recordAt gen (scOffset st) q p], scAffected st)
            else applyRewrite isLast (recordAt gen (scOffset st) q p) (scRecords st, scAffected st))
     in ScanNext \<lparr>scOffset = off, scLastGood = off, scRecords = rs,
          scNextSequence = advanceSequence q (scNextSequence st), scAffected = affected\<rparr>)"
    unfolding scanEnqueueOrRewrite_def Let_def o1_def [symmetric] r16 ph magic
    using p rem
    by (simp add: sel t24 u8 u4 u16 un pt crc foot ut word_less_nat_alt recordAt_def
        n_def [symmetric] kEnqueueHeaderBytes_def [symmetric] split: prod.splits)
  have "length buf - unat o1 = 24 + length p + length rest" using tot len by simp
  then show ?thesis
    unfolding inner [symmetric]
    using rem m
    by (simp add: scanStep_def Let_def o1_def [symmetric] r16 hb magic word_less_nat_alt)
qed

lemma scanPop_event:
  assumes d: "drop (unat (scOffset st)) buf = serializePopEvent q @ rest"
    and len: "length buf = unat fileSize"
  shows "scanStep cfg gen isLast buf fileSize st =
    (let (rs, affected) = applyPop isLast q (scRecords st, scAffected st)
     in ScanNext \<lparr>scOffset = scOffset st + 20, scLastGood = scOffset st + 20, scRecords = rs,
          scNextSequence = advanceSequence q (scNextSequence st), scAffected = affected\<rparr>)"
proof -
  define o1 where "o1 = scOffset st"
  have tot: "unat o1 + (20 + length rest) = unat fileSize"
    using arg_cong [OF d, of length] len by (simp add: o1_def)
  have rem: "unat (fileSize - o1) = 20 + length rest" using tot by (simp add: unat_sub_if')
  have r16: "min (fileSize - o1) kEnqueueHeaderBytes = 16"
    using rem by (simp add: min_def word_le_nat_alt kEnqueueHeaderBytes_def)
  have ev: "drop (unat o1) buf = serializePopEvent q @ rest" using d by (simp add: o1_def)
  have hb: "readLE32 (take 16 (drop (unat o1) buf)) 0 = kPopMagic"
    by (rule readLE32_drop [of _ _ _ "drop 4 (take 16 (serializePopEvent q @ rest))"])
      (simp add: ev serializePopEvent_bytes popBytesOf_def le4_def)
  have pp: "parsePopEvent (take 20 (drop (unat o1) buf)) default_pop_event = (True, popOf q)"
    using parsePopEvent_serialize [of q "[]" default_pop_event] by (simp add: ev)
  have sel: "peSequence (popOf q) = q" by (simp add: popOf_def)
  have "length buf - unat o1 = 20 + length rest" using tot len by simp
  then show ?thesis
    using rem
    by (simp add: scanStep_def scanPop_def Let_def o1_def [symmetric] r16 hb pp sel word_less_nat_alt
        kPopEventBytes_def kPopMagic_def kEnqueueMagic_def kRewriteMagic_def split: prod.splits)
qed

lemma scanStep_event:
  assumes d: "drop (unat (scOffset st)) buf = encodeEvent ev @ rest"
    and len: "length buf = unat fileSize" and fits: "eventFits cfg ev"
  shows "scanStep cfg gen isLast buf fileSize st = ScanNext (scanEvent gen isLast ev st)"
proof (cases ev)
  case (LogEnqueue q p)
  then show ?thesis
    using scanEnqueueOrRewrite_event [of kEnqueueMagic st buf q p rest fileSize cfg gen isLast] assms
    by (simp add: serializeEnqueueEvent_bytes Let_def)
next
  case (LogRewrite q p)
  then show ?thesis
    using scanEnqueueOrRewrite_event [of kRewriteMagic st buf q p rest fileSize cfg gen isLast] assms
    by (simp add: serializeRewriteEvent_bytes Let_def kEnqueueMagic_def kRewriteMagic_def
        split: prod.splits)
next
  case (LogPop q)
  then show ?thesis
    using scanPop_event [of st buf q rest fileSize cfg gen isLast] assms
    by (simp add: Let_def split: prod.splits)
qed

section \<open>Scanning a list of events\<close>

definition scanEvents :: "u32 \<Rightarrow> bool \<Rightarrow> log_event list \<Rightarrow> scan_state \<Rightarrow> scan_state" where
  "scanEvents gen isLast evs st = foldl (\<lambda>st ev. scanEvent gen isLast ev st) st evs"

lemma scanEvents_simps [simp]:
  "scanEvents gen isLast [] st = st"
  "scanEvents gen isLast (ev # evs) st = scanEvents gen isLast evs (scanEvent gen isLast ev st)"
  "scanEvents gen isLast (evs @ evs') st = scanEvents gen isLast evs' (scanEvents gen isLast evs st)"
  by (simp_all add: scanEvents_def)

lemma scanEvent_offset:
  "scOffset (scanEvent gen isLast ev st) = scOffset st + word_of_nat (eventSize ev)"
  "scLastGood (scanEvent gen isLast ev st) = scOffset st + word_of_nat (eventSize ev)"
  by (cases ev; simp add: Let_def split: prod.splits)+

lemma eventSize_bounds: "20 \<le> eventSize ev" "0 < eventSize ev"
  by (cases ev; simp)+

lemma scanLoop_event:
  assumes d: "drop (unat (scOffset st)) buf = encodeEvent ev @ rest"
    and len: "length buf = unat fileSize" and fits: "eventFits cfg ev"
  shows "scanLoop cfg gen isLast buf fileSize st
      = scanLoop cfg gen isLast buf fileSize (scanEvent gen isLast ev st)"
    and "drop (unat (scOffset (scanEvent gen isLast ev st))) buf = rest"
    and "unat (scOffset (scanEvent gen isLast ev st)) = unat (scOffset st) + eventSize ev"
proof -
  have tot: "unat (scOffset st) + (eventSize ev + length rest) = unat fileSize"
    using arg_cong [OF d, of length] len eventSize_bounds [of ev] by simp
  show "scanLoop cfg gen isLast buf fileSize st
      = scanLoop cfg gen isLast buf fileSize (scanEvent gen isLast ev st)"
    using tot eventSize_bounds [of ev] scanStep_event [OF d len fits]
    by (subst scanLoop.simps) (simp add: word_less_nat_alt)
  show u: "unat (scOffset (scanEvent gen isLast ev st)) = unat (scOffset st) + eventSize ev"
    using tot u32_bound [of fileSize]
    by (simp add: scanEvent_offset unat_word_ariths unat_word_u32)
  show "drop (unat (scOffset (scanEvent gen isLast ev st))) buf = rest"
    using arg_cong [OF d, of "drop (eventSize ev)"] by (simp add: u add.commute)
qed

lemma scanLoop_events:
  assumes "drop (unat (scOffset st)) buf = encodeEvents evs @ rest"
    and "length buf = unat fileSize" and "\<forall>ev \<in> set evs. eventFits cfg ev"
  shows "scanLoop cfg gen isLast buf fileSize st
      = scanLoop cfg gen isLast buf fileSize (scanEvents gen isLast evs st)
    \<and> drop (unat (scOffset (scanEvents gen isLast evs st))) buf = rest
    \<and> unat (scOffset (scanEvents gen isLast evs st))
        = unat (scOffset st) + length (encodeEvents evs)"
  using assms
proof (induction evs arbitrary: st)
  case (Cons ev evs)
  have d: "drop (unat (scOffset st)) buf = encodeEvent ev @ (encodeEvents evs @ rest)"
    using Cons.prems(1) by simp
  have fits: "eventFits cfg ev" using Cons.prems(3) by simp
  note one = scanLoop_event [OF d Cons.prems(2) fits, of gen isLast]
  show ?case
    using Cons.IH [OF one(2) Cons.prems(2)] Cons.prems(3) one(1,3) by auto
qed simp

lemma scanEvents_lastGood:
  "scLastGood st = scOffset st \<Longrightarrow>
   scLastGood (scanEvents gen isLast evs st) = scOffset (scanEvents gen isLast evs st)"
  by (induction evs arbitrary: st) (simp_all add: scanEvent_offset)

section \<open>Torn tails\<close>

text \<open>What a torn append leaves after the last complete event: a proper prefix of an event.\<close>

definition tornEvent :: "append_log_config \<Rightarrow> bytes \<Rightarrow> bool" where
  "tornEvent cfg t \<longleftrightarrow> (\<exists>ev k. eventFits cfg ev \<and> k < eventSize ev \<and> t = take k (encodeEvent ev))"

lemma tornEvent_Nil [simp]: "tornEvent cfg []"
  unfolding tornEvent_def by (intro exI [of _ "LogPop 0"] exI [of _ 0]) simp

lemma scanStep_torn_record:
  assumes m: "magic = kEnqueueMagic \<or> magic = kRewriteMagic"
    and d: "drop (unat (scOffset st)) buf = take k (eventBytes magic q p)"
    and len: "length buf = unat fileSize" and p: "length p \<le> maxRecordBytes cfg"
    and pb: "length p < 4294967272"
    and k: "0 < k" "k < 24 + length p"
  shows "scanStep cfg gen isLast buf fileSize st = ScanStop False"
proof -
  define o1 where "o1 = scOffset st"
  define n where "n = (word_of_nat (length p) :: u32)"
  have ld: "length buf - unat o1 = k"
    using arg_cong [OF d, of length] k by (simp add: o1_def)
  then have tot: "unat o1 + k = unat fileSize" using len k by simp
  have rem: "unat (fileSize - o1) = k" using tot by (simp add: unat_sub_if')
  show ?thesis
  proof (cases "k < 4")
    case True
    then show ?thesis
      using rem by (simp add: scanStep_def Let_def o1_def [symmetric] word_less_nat_alt)
  next
    case k4: False
    define hdr where "hdr = take (unat (min (fileSize - o1) kEnqueueHeaderBytes)) (drop (unat o1) buf)"
    have mn: "unat (min (fileSize - o1) kEnqueueHeaderBytes) = min k 16"
      using rem by (simp add: min_def word_le_nat_alt kEnqueueHeaderBytes_def)
    have hdr: "hdr = take (min k 16) (headerBytesOf magic q n)"
      unfolding hdr_def mn d [folded o1_def] take_min_take by (simp add: eventBytes_def n_def)
    have magic: "readLE32 hdr 0 = magic"
      by (rule readLE32_drop [of _ _ _ "drop 4 hdr"])
        (use k4 in \<open>simp add: hdr headerBytesOf_def min_def\<close>)
    have lh: "\<not> min (length buf - unat o1) (unat (min (fileSize - o1) kEnqueueHeaderBytes)) < 4"
      using k4 by (simp add: ld mn)
    have step: "scanStep cfg gen isLast buf fileSize st
        = scanEnqueueOrRewrite cfg gen isLast buf (fileSize - o1) hdr st"
      using rem m k4 lh magic
      by (simp add: scanStep_def Let_def o1_def [symmetric] word_less_nat_alt hdr_def [symmetric])
    show ?thesis
    proof (cases "k < 16")
      case True
      then have "min (fileSize - o1) kEnqueueHeaderBytes < kEnqueueHeaderBytes"
        using rem by (simp add: min_def word_le_nat_alt word_less_nat_alt kEnqueueHeaderBytes_def)
      then show ?thesis unfolding step by (simp add: scanEnqueueOrRewrite_def)
    next
      case False
      have nl: "\<not> min (fileSize - o1) kEnqueueHeaderBytes < kEnqueueHeaderBytes"
        using rem False by (simp add: min_def word_le_nat_alt word_less_nat_alt kEnqueueHeaderBytes_def)
      have ph: "parseEnqueueHeader hdr default_enqueue_header = (True, headerOf magic q n)"
        using parseEnqueueHeader_bytes [OF m, of q n "[]"] False by (simp add: hdr)
      have un: "unat n = length p" unfolding n_def using pb by (intro unat_word_u32) simp
      have t24: "unat (kEnqueueHeaderBytes + n + kEventTrailerBytes) = 24 + length p"
        using un pb by (simp add: kEnqueueHeaderBytes_def kEventTrailerBytes_def unat_word_ariths)
      have sel: "ehPayloadBytes (headerOf magic q n) = n" by (simp add: headerOf_def)
      show ?thesis
        unfolding step
        using nl ph p un k rem t24
        by (simp add: scanEnqueueOrRewrite_def sel word_less_nat_alt)
    qed
  qed
qed

lemma scanStep_torn_pop:
  assumes d: "drop (unat (scOffset st)) buf = take k (serializePopEvent q)"
    and len: "length buf = unat fileSize" and k: "0 < k" "k < 20"
  shows "scanStep cfg gen isLast buf fileSize st = ScanStop False"
proof -
  define o1 where "o1 = scOffset st"
  have ld: "length buf - unat o1 = k"
    using arg_cong [OF d, of length] k by (simp add: o1_def)
  then have tot: "unat o1 + k = unat fileSize" using len k by simp
  have rem: "unat (fileSize - o1) = k" using tot by (simp add: unat_sub_if')
  show ?thesis
  proof (cases "k < 4")
    case True
    then show ?thesis
      using rem by (simp add: scanStep_def Let_def o1_def [symmetric] word_less_nat_alt)
  next
    case k4: False
    define hdr where "hdr = take (unat (min (fileSize - o1) kEnqueueHeaderBytes)) (drop (unat o1) buf)"
    have mn: "unat (min (fileSize - o1) kEnqueueHeaderBytes) = min k 16"
      using rem by (simp add: min_def word_le_nat_alt kEnqueueHeaderBytes_def)
    have hdr: "hdr = take (min k 16) (serializePopEvent q)"
      unfolding hdr_def mn d [folded o1_def] take_min_take ..
    have magic: "readLE32 hdr 0 = kPopMagic"
      by (rule readLE32_drop [of _ _ _ "drop 4 hdr"])
        (use k4 in \<open>simp add: hdr serializePopEvent_bytes popBytesOf_def min_def\<close>)
    have lh: "\<not> min (length buf - unat o1) (unat (min (fileSize - o1) kEnqueueHeaderBytes)) < 4"
      using k4 by (simp add: ld mn)
    show ?thesis
      using rem k k4 lh magic
      by (simp add: scanStep_def scanPop_def Let_def o1_def [symmetric] word_less_nat_alt
          hdr_def [symmetric] kPopMagic_def kEnqueueMagic_def kRewriteMagic_def kPopEventBytes_def)
  qed
qed

lemma scanLoop_torn:
  assumes t: "tornEvent cfg t" and d: "drop (unat (scOffset st)) buf = t"
    and off: "unat (scOffset st) \<le> length buf" and len: "length buf = unat fileSize"
    and mr: "maxRecordBytes cfg < 4294967272"
  shows "scanLoop cfg gen isLast buf fileSize st = Some (False, st)"
proof (cases "t = []")
  case True
  then have "\<not> scOffset st < fileSize" using d len off by (simp add: word_less_nat_alt)
  then show ?thesis by (subst scanLoop.simps) simp
next
  case False
  obtain ev k where ev: "eventFits cfg ev" "k < eventSize ev" "t = take k (encodeEvent ev)"
    using t by (auto simp: tornEvent_def)
  have k: "0 < k" using False ev(3) by (cases k) auto
  have "scanStep cfg gen isLast buf fileSize st = ScanStop False"
  proof (cases ev)
    case (LogEnqueue q p)
    show ?thesis
      by (rule scanStep_torn_record [of kEnqueueMagic _ _ k q p])
        (use LogEnqueue ev d len mr k in \<open>auto simp: serializeEnqueueEvent_bytes\<close>)
  next
    case (LogRewrite q p)
    show ?thesis
      by (rule scanStep_torn_record [of kRewriteMagic _ _ k q p])
        (use LogRewrite ev d len mr k in \<open>auto simp: serializeRewriteEvent_bytes\<close>)
  next
    case (LogPop q)
    show ?thesis
      by (rule scanStep_torn_pop [of _ _ k q]) (use LogPop ev d len k in auto)
  qed
  then show ?thesis by (subst scanLoop.simps) simp
qed

section \<open>Records beyond the limit\<close>

text \<open>What a log written with a larger \<open>maxRecordBytes\<close> may have after the events that fit: a complete
  record beyond the limit and whatever follows it.  The scan calls it corrupt.\<close>

definition oversizedTail :: "append_log_config \<Rightarrow> bytes \<Rightarrow> bool" where
  "oversizedTail cfg t \<longleftrightarrow> (\<exists>ev rest. \<not> eventFits cfg ev \<and> t = encodeEvent ev @ rest)"

lemma scanStep_oversized:
  assumes m: "magic = kEnqueueMagic \<or> magic = kRewriteMagic"
    and d: "drop (unat (scOffset st)) buf = eventBytes magic q p @ rest"
    and len: "length buf = unat fileSize" and p: "maxRecordBytes cfg < length p"
  shows "scanStep cfg gen isLast buf fileSize st = ScanStop True"
proof -
  define o1 where "o1 = scOffset st"
  define n where "n = (word_of_nat (length p) :: u32)"
  have tot: "unat o1 + (24 + length p + length rest) = unat fileSize"
    using arg_cong [OF d, of length] len by (simp add: o1_def)
  note b = u32_bound [of fileSize]
  have un: "unat n = length p" using tot b unfolding n_def by (intro unat_word_u32) simp
  have rem: "unat (fileSize - o1) = 24 + length p + length rest"
    using tot by (simp add: unat_sub_if')
  have r16: "min (fileSize - o1) kEnqueueHeaderBytes = 16"
    using rem by (simp add: min_def word_le_nat_alt kEnqueueHeaderBytes_def)
  have hb: "take 16 (drop (unat o1) buf) = headerBytesOf magic q n"
    using d by (simp add: eventBytes_def n_def o1_def)
  have magic: "readLE32 (headerBytesOf magic q n) 0 = magic"
    by (rule readLE32_drop [of _ _ _ "drop 4 (headerBytesOf magic q n)"]) (simp add: headerBytesOf_def)
  have ph: "parseEnqueueHeader (headerBytesOf magic q n) default_enqueue_header
      = (True, headerOf magic q n)"
    using parseEnqueueHeader_bytes [OF m, of q n "[]"] by simp
  have sel: "ehPayloadBytes (headerOf magic q n) = n" by (simp add: headerOf_def)
  have "length buf - unat o1 = 24 + length p + length rest" using tot len by simp
  then show ?thesis
    using rem m p
    by (simp add: scanStep_def scanEnqueueOrRewrite_def Let_def o1_def [symmetric] r16 hb magic ph sel
        un word_less_nat_alt kEnqueueHeaderBytes_def)
qed

text \<open>What a mount drops from the end of the active segment.\<close>

definition tornTail :: "append_log_config \<Rightarrow> bytes \<Rightarrow> bool" where
  "tornTail cfg t \<longleftrightarrow> tornEvent cfg t \<or> oversizedTail cfg t"

lemma tornTail_Nil [simp]: "tornTail cfg []"
  by (simp add: tornTail_def)

lemma scanLoop_tail:
  assumes t: "tornTail cfg t" and d: "drop (unat (scOffset st)) buf = t"
    and off: "unat (scOffset st) \<le> length buf" and len: "length buf = unat fileSize"
    and mr: "maxRecordBytes cfg < 4294967272"
  shows "\<exists>corrupt. scanLoop cfg gen isLast buf fileSize st = Some (corrupt, st) \<and> (corrupt \<longrightarrow> t \<noteq> [])"
proof (cases "tornEvent cfg t")
  case True
  then show ?thesis using scanLoop_torn [OF True d off len mr] by blast
next
  case False
  then obtain ev rest where ev: "\<not> eventFits cfg ev" "t = encodeEvent ev @ rest"
    using t by (auto simp: tornTail_def oversizedTail_def)
  have "scanStep cfg gen isLast buf fileSize st = ScanStop True"
    using ev d len
    by (cases ev) (auto simp: serializeEnqueueEvent_bytes serializeRewriteEvent_bytes
        intro: scanStep_oversized [of kEnqueueMagic] scanStep_oversized [of kRewriteMagic])
  moreover have "t \<noteq> []" using eventSize_bounds(2) [of ev] arg_cong [OF ev(2), of length] by auto
  moreover from this have "scOffset st < fileSize"
    using d len by (auto simp: word_less_nat_alt not_less)
  ultimately show ?thesis
    by (intro exI [of _ True]) (simp add: scanLoop.simps [of cfg gen isLast buf fileSize st])
qed

section \<open>The abstract queue\<close>

text \<open>Sequence numbers with payloads, front first.\<close>

type_synonym abs_queue = "(u32 \<times> bytes) list"

fun absReplace :: "u32 \<Rightarrow> bytes \<Rightarrow> abs_queue \<Rightarrow> abs_queue" where
  "absReplace q p [] = []"
| "absReplace q p (x # xs) = (if fst x = q then (q, p) # xs else x # absReplace q p xs)"

fun absEvent :: "log_event \<Rightarrow> abs_queue \<Rightarrow> abs_queue" where
  "absEvent (LogEnqueue q p) xs = xs @ [(q, p)]"
| "absEvent (LogRewrite q p) xs =
     (if q \<in> fst ` set xs then absReplace q p xs
      else takeWhile (\<lambda>x. fst x < q) xs @ (q, p) # dropWhile (\<lambda>x. fst x < q) xs)"
| "absEvent (LogPop q) xs = (if xs \<noteq> [] \<and> fst (hd xs) = q then tl xs else xs)"

definition absEvents :: "log_event list \<Rightarrow> abs_queue \<Rightarrow> abs_queue" where
  "absEvents evs xs = foldl (\<lambda>xs ev. absEvent ev xs) xs evs"

lemma absEvents_simps [simp]:
  "absEvents [] xs = xs" "absEvents (ev # evs) xs = absEvents evs (absEvent ev xs)"
  "absEvents (evs @ evs') xs = absEvents evs' (absEvents evs xs)"
  by (simp_all add: absEvents_def)

text \<open>An index entry denotes a payload when the segment file holds it at that place.\<close>

definition holdsPayload :: "bytes \<Rightarrow> segment_record \<Rightarrow> bytes \<Rightarrow> bool" where
  "holdsPayload c r p \<longleftrightarrow>
     unat (srPayloadBytes r) = length p
     \<and> unat (srPayloadOffset r) + length p \<le> length c
     \<and> take (length p) (drop (unat (srPayloadOffset r)) c) = p"

definition denotes :: "(string \<Rightarrow> bytes option) \<Rightarrow> segment_record \<Rightarrow> u32 \<times> bytes \<Rightarrow> bool" where
  "denotes v r x \<longleftrightarrow>
     srSequence r = fst x \<and> (\<exists>c. v (segmentName (srGeneration r)) = Some c \<and> holdsPayload c r (snd x))"

abbreviation denotesAll ::
  "(string \<Rightarrow> bytes option) \<Rightarrow> segment_record list \<Rightarrow> abs_queue \<Rightarrow> bool" where
  "denotesAll v \<equiv> list_all2 (denotes v)"

lemma holdsPayload_append: "holdsPayload c r p \<Longrightarrow> holdsPayload (c @ d) r p"
  by (simp add: holdsPayload_def)

lemma denotes_sequence: "denotes v r x \<Longrightarrow> srSequence r = fst x"
  by (simp add: denotes_def)

lemma denotesAll_sequences: "denotesAll v rs xs \<Longrightarrow> map srSequence rs = map fst xs"
  by (induction rule: list_all2_induct) (simp_all add: denotes_sequence)

lemma denotesAll_find:
  "denotesAll v rs xs \<Longrightarrow> (find (\<lambda>r. srSequence r = q) rs = None) \<longleftrightarrow> q \<notin> fst ` set xs"
  by (induction rule: list_all2_induct) (auto simp: denotes_sequence)

lemma denotes_moved:
  "denotes v new (q, p) \<Longrightarrow> srSequence r = q \<Longrightarrow>
   denotes v (r\<lparr>srGeneration := srGeneration new, srPayloadOffset := srPayloadOffset new,
     srPayloadBytes := srPayloadBytes new\<rparr>) (q, p)"
  by (simp add: denotes_def holdsPayload_def)

lemma denotesAll_rewriteFirst:
  assumes "denotesAll v rs xs" and n: "denotes v new (q, p)"
  shows "denotesAll v (rewriteFirst new rs) (absReplace q p xs)"
  using assms(1) denotes_sequence [OF n]
  by (induction rule: list_all2_induct) (auto simp: denotes_sequence denotes_moved [OF n])

lemma denotesAll_while:
  "denotesAll v rs xs \<Longrightarrow>
   denotesAll v (takeWhile (\<lambda>r. srSequence r < q) rs) (takeWhile (\<lambda>x. fst x < q) xs)
   \<and> denotesAll v (dropWhile (\<lambda>r. srSequence r < q) rs) (dropWhile (\<lambda>x. fst x < q) xs)"
  by (induction rule: list_all2_induct) (auto simp: denotes_sequence)

lemma denotesAll_applyRewrite:
  assumes "denotesAll v rs xs" and n: "denotes v new (q, p)"
  shows "denotesAll v (fst (applyRewrite isLast new (rs, aff))) (absEvent (LogRewrite q p) xs)"
proof -
  have q: "srSequence new = q" using n by (simp add: denotes_def)
  show ?thesis
    using assms denotesAll_find [OF assms(1), of q] denotesAll_rewriteFirst [OF assms]
      denotesAll_while [OF assms(1), of q]
    by (auto simp: applyRewrite_def q insertBySequence_def list_all2_appendI
        split: option.splits)
qed

lemma denotesAll_applyPop:
  "denotesAll v rs xs \<Longrightarrow>
   denotesAll v (fst (applyPop isLast q (rs, aff))) (absEvent (LogPop q) xs)"
  by (cases rs; cases xs) (auto simp: applyPop_def denotes_sequence)

text \<open>The entry of an event that starts at the current offset denotes the event's payload.\<close>

lemma denotes_recordAt:
  assumes v: "v (segmentName gen) = Some buf"
    and d: "drop (unat off) buf = eventBytes magic q p @ rest"
    and len: "length buf = unat (fileSize :: u32)"
  shows "denotes v (recordAt gen off q p) (q, p)"
proof -
  have tot: "unat off + (24 + length p + length rest) = unat fileSize"
    using arg_cong [OF d, of length] len by simp
  note b = u32_bound [of fileSize]
  have u: "unat (off + 16) = unat off + 16" using tot b by (simp add: unat_word_ariths)
  have n: "unat (word_of_nat (length p) :: u32) = length p"
    using tot b by (intro unat_word_u32) simp
  have "take (length p) (drop (unat off + 16) buf) = p"
    using arg_cong [OF d, of "drop 16"] by (simp add: eventBytes_def add.commute)
  then show ?thesis
    using v tot len
    by (simp add: denotes_def recordAt_def holdsPayload_def kEnqueueHeaderBytes_def u n)
qed

lemma denotesAll_scanEvent:
  assumes v: "v (segmentName gen) = Some buf" and len: "length buf = unat (fileSize :: u32)"
    and d: "drop (unat (scOffset st)) buf = encodeEvent ev @ rest"
    and r: "denotesAll v (scRecords st) xs"
  shows "denotesAll v (scRecords (scanEvent gen isLast ev st)) (absEvent ev xs)"
proof (cases ev)
  case (LogEnqueue q p)
  with d have "drop (unat (scOffset st)) buf = eventBytes kEnqueueMagic q p @ rest"
    by (simp add: serializeEnqueueEvent_bytes)
  from denotes_recordAt [of v, OF v this len] r LogEnqueue show ?thesis
    by (simp add: Let_def list_all2_appendI)
next
  case (LogRewrite q p)
  with d have "drop (unat (scOffset st)) buf = eventBytes kRewriteMagic q p @ rest"
    by (simp add: serializeRewriteEvent_bytes)
  from denotesAll_applyRewrite [OF r denotes_recordAt [of v, OF v this len], of isLast "scAffected st"]
    LogRewrite show ?thesis
    by (simp add: Let_def case_prod_beta del: absEvent.simps)
next
  case (LogPop q)
  with denotesAll_applyPop [OF r, of isLast q "scAffected st"] show ?thesis
    by (simp add: Let_def case_prod_beta del: absEvent.simps)
qed

lemma denotesAll_scanEvents:
  assumes "v (segmentName gen) = Some buf" and "length buf = unat (fileSize :: u32)"
    and "drop (unat (scOffset st)) buf = encodeEvents evs @ rest"
    and "denotesAll v (scRecords st) xs" and "\<forall>ev \<in> set evs. eventFits cfg ev"
  shows "denotesAll v (scRecords (scanEvents gen isLast evs st)) (absEvents evs xs)"
  using assms
proof (induction evs arbitrary: st xs)
  case (Cons ev evs)
  have d: "drop (unat (scOffset st)) buf = encodeEvent ev @ (encodeEvents evs @ rest)"
    using Cons.prems(3) by simp
  have fits: "eventFits cfg ev" using Cons.prems(5) by simp
  note one = scanLoop_event [OF d Cons.prems(2) fits, of gen isLast]
  show ?case
    using Cons.IH [OF Cons.prems(1,2) one(2) denotesAll_scanEvent [OF Cons.prems(1,2) d Cons.prems(4)]]
      Cons.prems(5) by simp
qed simp

end
