(* ===== verification/Log_Index.thy ===== *)
theory Log_Index
  imports Log_Replay
begin

text \<open>
  The in-memory index a log describes.  An event with its place in the log, the generation of its
  segment and its offset, is a \<open>located\<close> event; \<open>indexLog\<close> is the index \<open>records_\<close> a replay of
  located events builds.  \<open>orderedLog\<close> says that sequence numbers never decrease along the queue,
  which every log written by the store satisfies.

  \<open>compaction_index\<close> is the principle compaction rests on: in an ordered log whose oldest
  segments are \<open>G\<close>, these segments may be replaced by ENQUEUE events of just the records
  that live in them now, and the replay of everything after them gives the same queue.
\<close>

section \<open>Located events\<close>

type_synonym located = "u32 \<times> u32 \<times> log_event"

fun indexEvent :: "u32 \<Rightarrow> u32 \<Rightarrow> log_event \<Rightarrow> segment_record list \<Rightarrow> segment_record list" where
  "indexEvent g off (LogEnqueue q p) rs = rs @ [recordAt g off q p]"
| "indexEvent g off (LogRewrite q p) rs =
     (if q \<in> srSequence ` set rs then rewriteFirst (recordAt g off q p) rs
      else insertBySequence (recordAt g off q p) rs)"
| "indexEvent g off (LogPop q) rs = (if rs \<noteq> [] \<and> srSequence (hd rs) = q then tl rs else rs)"

definition indexLocated :: "located \<Rightarrow> segment_record list \<Rightarrow> segment_record list" where
  "indexLocated = (\<lambda>(g, off, ev). indexEvent g off ev)"

definition indexLog :: "located list \<Rightarrow> segment_record list \<Rightarrow> segment_record list" where
  "indexLog evs rs = foldl (\<lambda>rs e. indexLocated e rs) rs evs"

lemma indexLog_simps [simp]:
  "indexLog [] rs = rs" "indexLog (e # evs) rs = indexLog evs (indexLocated e rs)"
  "indexLog (evs @ evs') rs = indexLog evs' (indexLog evs rs)"
  by (simp_all add: indexLog_def)

lemma indexLocated_simps [simp]: "indexLocated (g, off, ev) rs = indexEvent g off ev rs"
  by (simp add: indexLocated_def)

text \<open>The events of one segment, from offset \<open>off\<close> on.\<close>

fun locate :: "u32 \<Rightarrow> u32 \<Rightarrow> log_event list \<Rightarrow> located list" where
  "locate g off [] = []"
| "locate g off (ev # evs) = (g, off, ev) # locate g (off + word_of_nat (eventSize ev)) evs"

lemma locate_append:
  "locate g off (evs @ evs') = locate g off evs @ locate g (off + word_of_nat (length (encodeEvents evs))) evs'"
  by (induction evs arbitrary: off) (simp_all add: add.assoc)

lemma locate_gens: "fst ` set (locate g off evs) \<subseteq> {g}"
  by (induction evs arbitrary: off) auto

lemma scanEvent_index: "scRecords (scanEvent g isLast ev st) = indexEvent g (scOffset st) ev (scRecords st)"
proof (cases ev)
  case (LogRewrite q p)
  then show ?thesis
    by (auto simp: Let_def applyRewrite_def recordAt_def find_None_iff find_Some_iff image_iff
        split: option.splits)
qed (auto simp: Let_def applyPop_def)

lemma scanEvents_index:
  "scRecords (scanEvents g isLast evs st) = indexLog (locate g (scOffset st) evs) (scRecords st)"
  by (induction evs arbitrary: st) (simp_all add: scanEvent_index scanEvent_offset)

section \<open>Ordered logs\<close>

definition seqSorted :: "segment_record list \<Rightarrow> bool" where
  "seqSorted rs \<longleftrightarrow> sorted_wrt (<) (map srSequence rs)"

lemma seqSorted_simps [simp]:
  "seqSorted []" "seqSorted (r # rs) \<longleftrightarrow> (\<forall>x \<in> set rs. srSequence r < srSequence x) \<and> seqSorted rs"
  "seqSorted (rs @ rs') \<longleftrightarrow> seqSorted rs \<and> seqSorted rs'
     \<and> (\<forall>x \<in> set rs. \<forall>y \<in> set rs'. srSequence x < srSequence y)"
  by (auto simp: seqSorted_def sorted_wrt_append)

lemma seqSorted_inj:
  "seqSorted rs \<Longrightarrow> x \<in> set rs \<Longrightarrow> y \<in> set rs \<Longrightarrow> srSequence x = srSequence y \<Longrightarrow> x = y"
  by (induction rs) auto

text \<open>A POP event names the front record, or one that is gone already.\<close>

fun popsFront :: "log_event \<Rightarrow> segment_record list \<Rightarrow> bool" where
  "popsFront (LogPop q) rs \<longleftrightarrow> (\<forall>r \<in> set rs. q \<le> srSequence r)"
| "popsFront ev rs \<longleftrightarrow> True"

fun orderedLog :: "located list \<Rightarrow> segment_record list \<Rightarrow> bool" where
  "orderedLog [] rs \<longleftrightarrow> seqSorted rs"
| "orderedLog (e # evs) rs \<longleftrightarrow>
     seqSorted rs \<and> popsFront (snd (snd e)) rs \<and> orderedLog evs (indexLocated e rs)"

lemma orderedLog_start: "orderedLog evs rs \<Longrightarrow> seqSorted rs"
  by (cases evs) auto

lemma orderedLog_append:
  "orderedLog (evs @ evs') rs \<longleftrightarrow> orderedLog evs rs \<and> orderedLog evs' (indexLog evs rs)"
  by (induction evs arbitrary: rs) (auto dest: orderedLog_start)

lemma orderedLog_end: "orderedLog evs rs \<Longrightarrow> seqSorted (indexLog evs rs)"
  using orderedLog_append [of evs "[]" rs] by simp

lemma rewriteFirst_split:
  "srSequence r = srSequence new \<Longrightarrow> \<forall>x \<in> set xs. srSequence x \<noteq> srSequence new \<Longrightarrow>
   rewriteFirst new (xs @ r # ys) = xs @ new # ys"
  by (induction xs) auto

lemma insertBySequence_split:
  assumes "\<forall>x \<in> set xs. srSequence x < srSequence new" "\<forall>y \<in> set ys. srSequence new < srSequence y"
  shows "insertBySequence new (xs @ ys) = xs @ new # ys"
proof -
  have "takeWhile (\<lambda>r. srSequence r < srSequence new) ys = []"
    and "dropWhile (\<lambda>r. srSequence r < srSequence new) ys = ys"
    using assms(2) by (cases ys; fastforce)+
  then show ?thesis using assms(1) by (simp add: insertBySequence_def takeWhile_append2 dropWhile_append2)
qed

text \<open>A sorted index splits around a sequence number.\<close>

lemma seqSorted_around:
  assumes "seqSorted rs" and "q \<notin> srSequence ` set rs"
  obtains xs ys where "rs = xs @ ys" "\<forall>x \<in> set xs. srSequence x < q" "\<forall>y \<in> set ys. q < srSequence y"
proof (rule that [of "takeWhile (\<lambda>r. srSequence r < q) rs" "dropWhile (\<lambda>r. srSequence r < q) rs"])
  show "\<forall>y \<in> set (dropWhile (\<lambda>r. srSequence r < q) rs). q < srSequence y"
    using assms
  proof (induction rs)
    case (Cons r rs)
    then show ?case by (auto simp: not_less order_le_less dest: order.strict_trans)
  qed simp
qed (auto dest: set_takeWhileD)

section \<open>Replacing the oldest segments\<close>

text \<open>The index without the records of the segments \<open>G\<close> that do not survive (\<open>K\<close> are those that
  do), the survivors moved to their new places by \<open>\<rho>\<close>.\<close>

definition compacted ::
  "u32 set \<Rightarrow> segment_record set \<Rightarrow> (segment_record \<Rightarrow> segment_record)
     \<Rightarrow> segment_record list \<Rightarrow> segment_record list" where
  "compacted G K \<rho> rs = map \<rho> (filter (\<lambda>r. srGeneration r \<notin> G \<or> r \<in> K) rs)"

lemma compacted_simps [simp]:
  "compacted G K \<rho> [] = []"
  "compacted G K \<rho> (rs @ rs') = compacted G K \<rho> rs @ compacted G K \<rho> rs'"
  by (simp_all add: compacted_def)

definition moves :: "u32 set \<Rightarrow> (segment_record \<Rightarrow> segment_record) \<Rightarrow> bool" where
  "moves G \<rho> \<longleftrightarrow> (\<forall>r. srSequence (\<rho> r) = srSequence r) \<and> (\<forall>r. srGeneration r \<notin> G \<longrightarrow> \<rho> r = r)"

lemma compacted_seqs:
  "moves G \<rho> \<Longrightarrow> srSequence ` set (compacted G K \<rho> rs) \<subseteq> srSequence ` set rs"
  by (auto simp: compacted_def moves_def)

lemma compacted_sorted:
  assumes "moves G \<rho>" and "seqSorted rs"
  shows "seqSorted (compacted G K \<rho> rs)"
proof -
  have "map srSequence (compacted G K \<rho> rs)
      = map srSequence (filter (\<lambda>r. srGeneration r \<notin> G \<or> r \<in> K) rs)"
    using assms(1) by (simp add: compacted_def moves_def)
  then show ?thesis using assms(2) by (simp add: seqSorted_def sorted_wrt_map sorted_wrt_filter)
qed

lemma compacted_Cons:
  "compacted G K \<rho> (r # rs) = (if srGeneration r \<notin> G \<or> r \<in> K then [\<rho> r] else []) @ compacted G K \<rho> rs"
  by (simp add: compacted_def)

lemma recordAt_sel [simp]:
  "srSequence (recordAt g off q p) = q" "srGeneration (recordAt g off q p) = g"
  by (simp_all add: recordAt_def)

lemma compacted_step_enqueue:
  assumes "moves G \<rho>" and "g \<notin> G" and "\<forall>r \<in> K. srGeneration r \<in> G"
  shows "filter (\<lambda>r. r \<in> K) (indexEvent g off (LogEnqueue q p) rs) = filter (\<lambda>r. r \<in> K) rs
    \<and> indexEvent g off (LogEnqueue q p) (compacted G K \<rho> rs)
      = compacted G K \<rho> (indexEvent g off (LogEnqueue q p) rs)"
  using assms by (auto simp: compacted_def moves_def)

lemma compacted_step_pop:
  assumes m: "moves G \<rho>" and s: "seqSorted rs" and p: "popsFront (LogPop q) rs"
    and k: "K \<subseteq> set (indexEvent g off (LogPop q) rs)"
  shows "filter (\<lambda>r. r \<in> K) (indexEvent g off (LogPop q) rs) = filter (\<lambda>r. r \<in> K) rs
    \<and> indexEvent g off (LogPop q) (compacted G K \<rho> rs)
      = compacted G K \<rho> (indexEvent g off (LogPop q) rs)"
proof (cases "rs \<noteq> [] \<and> srSequence (hd rs) = q")
  case True
  then obtain r rs' where rs: "rs = r # rs'" "srSequence r = q" by (cases rs) auto
  have nk: "r \<notin> K" using k s by (fastforce simp: rs)
  have "srSequence (hd (compacted G K \<rho> rs')) \<noteq> q" if "compacted G K \<rho> rs' \<noteq> []"
  proof -
    have "hd (compacted G K \<rho> rs') \<in> set (compacted G K \<rho> rs')" using that by simp
    then obtain x where "x \<in> set rs'" "srSequence (hd (compacted G K \<rho> rs')) = srSequence x"
      using compacted_seqs [OF m, of K rs'] by fast
    then show ?thesis using s rs by auto
  qed
  then show ?thesis using m nk by (auto simp: rs compacted_Cons moves_def)
next
  case False
  have "srSequence (hd (compacted G K \<rho> rs)) \<noteq> q" if ne: "compacted G K \<rho> rs \<noteq> []"
  proof -
    have "hd (compacted G K \<rho> rs) \<in> set (compacted G K \<rho> rs)" using ne by simp
    then obtain x where x: "x \<in> set rs" "srSequence (hd (compacted G K \<rho> rs)) = srSequence x"
      using compacted_seqs [OF m, of K rs] by fast
    obtain r rs' where rs: "rs = r # rs'" using x by (cases rs) auto
    have "q < srSequence r" using False p by (auto simp: rs order_le_less)
    then show ?thesis using x s by (auto simp: rs)
  qed
  then show ?thesis using False by auto
qed

lemma compacted_step_rewrite:
  assumes m: "moves G \<rho>" and g: "g \<notin> G" and kg: "\<forall>r \<in> K. srGeneration r \<in> G"
    and s: "seqSorted rs" and s': "seqSorted (indexEvent g off (LogRewrite q p) rs)"
    and k: "K \<subseteq> set (indexEvent g off (LogRewrite q p) rs)"
  shows "filter (\<lambda>r. r \<in> K) (indexEvent g off (LogRewrite q p) rs) = filter (\<lambda>r. r \<in> K) rs
    \<and> indexEvent g off (LogRewrite q p) (compacted G K \<rho> rs)
      = compacted G K \<rho> (indexEvent g off (LogRewrite q p) rs)"
proof -
  let ?new = "recordAt g off q p"
  have new: "?new \<notin> K" "\<rho> ?new = ?new" "compacted G K \<rho> [?new] = [?new]"
    using kg g m by (auto simp: moves_def compacted_def)
  have sub: "q \<notin> srSequence ` set (compacted G K \<rho> xs)" if "q \<notin> srSequence ` set xs" for xs
    using compacted_seqs [OF m, of K xs] that by blast
  have split: "insertBySequence ?new (compacted G K \<rho> xs @ compacted G K \<rho> ys)
      = compacted G K \<rho> xs @ ?new # compacted G K \<rho> ys"
    if "\<forall>x \<in> set xs. srSequence x < q" "\<forall>y \<in> set ys. q < srSequence y" for xs ys
    using that compacted_seqs [OF m, of K xs] compacted_seqs [OF m, of K ys]
    by (intro insertBySequence_split) fastforce+
  have ins: "compacted G K \<rho> (xs @ ?new # ys) = compacted G K \<rho> xs @ ?new # compacted G K \<rho> ys" for xs ys
    using new by (simp add: compacted_def g)
  show ?thesis
  proof (cases "q \<in> srSequence ` set rs")
    case False
    then obtain xs ys where rs: "rs = xs @ ys" "\<forall>x \<in> set xs. srSequence x < q"
        "\<forall>y \<in> set ys. q < srSequence y" using seqSorted_around [OF s] by blast
    have "insertBySequence ?new rs = xs @ ?new # ys"
      unfolding rs(1) using rs(2,3) by (intro insertBySequence_split) simp_all
    then show ?thesis using False sub [OF False] split [OF rs(2,3)] ins new by (simp add: rs(1))
  next
    case True
    then obtain xs r ys where rs: "rs = xs @ r # ys" "srSequence r = q"
      by (auto simp: in_set_conv_decomp)
    have lt: "\<forall>x \<in> set xs. srSequence x < q" "\<forall>y \<in> set ys. q < srSequence y"
      using s rs by auto
    have rw: "rewriteFirst ?new rs = xs @ ?new # ys"
      unfolding rs(1) using lt rs(2) by (intro rewriteFirst_split) auto
    have nk: "r \<notin> K"
    proof
      assume "r \<in> K"
      then have "r \<in> set (xs @ ?new # ys)" using k True rw by auto
      then show False using lt rs(2) new \<open>r \<in> K\<close> by auto
    qed
    have both: "\<forall>x \<in> set (compacted G K \<rho> xs). srSequence x \<noteq> q" "\<forall>x \<in> set (compacted G K \<rho> ys). srSequence x \<noteq> q"
      using lt compacted_seqs [OF m, of K xs] compacted_seqs [OF m, of K ys] by fastforce+
    have "indexEvent g off (LogRewrite q p) (compacted G K \<rho> rs)
        = compacted G K \<rho> xs @ ?new # compacted G K \<rho> ys"
    proof (cases "srGeneration r \<in> G")
      case gG: True
      then have "compacted G K \<rho> rs = compacted G K \<rho> xs @ compacted G K \<rho> ys"
        using nk by (simp add: rs(1) compacted_Cons)
      then show ?thesis using split [OF lt] both by auto
    next
      case gG: False
      then have "compacted G K \<rho> rs = compacted G K \<rho> xs @ r # compacted G K \<rho> ys"
        using m by (simp add: rs(1) compacted_Cons moves_def)
      then show ?thesis using both rs(2) by (auto intro!: rewriteFirst_split)
    qed
    then show ?thesis using True rw ins nk new by (auto simp: rs(1))
  qed
qed

lemma compacted_step:
  assumes "moves G \<rho>" and "g \<notin> G" and "\<forall>r \<in> K. srGeneration r \<in> G" and "seqSorted rs"
    and "seqSorted (indexEvent g off ev rs)" and "popsFront ev rs"
    and "K \<subseteq> set (indexEvent g off ev rs)"
  shows "filter (\<lambda>r. r \<in> K) (indexEvent g off ev rs) = filter (\<lambda>r. r \<in> K) rs
    \<and> indexEvent g off ev (compacted G K \<rho> rs) = compacted G K \<rho> (indexEvent g off ev rs)"
proof (cases ev)
  case (LogEnqueue q p)
  show ?thesis unfolding LogEnqueue by (rule compacted_step_enqueue [OF assms(1-3)])
next
  case (LogRewrite q p)
  show ?thesis
    using assms(5,7) unfolding LogRewrite by (rule compacted_step_rewrite [OF assms(1-4)])
next
  case (LogPop q)
  show ?thesis
    using assms(6,7) unfolding LogPop by (rule compacted_step_pop [OF assms(1,4)])
qed

lemma popsFront_compacted: "moves G \<rho> \<Longrightarrow> popsFront ev rs \<Longrightarrow> popsFront ev (compacted G K \<rho> rs)"
  by (cases ev) (auto simp: compacted_def moves_def)

text \<open>Replaying later segments commutes with the compaction of \<open>G\<close>.\<close>

lemma compacted_log:
  assumes "moves G \<rho>" and "\<forall>r \<in> K. srGeneration r \<in> G"
    and "orderedLog evs rs" and "fst ` set evs \<inter> G = {}" and "K \<subseteq> set (indexLog evs rs)"
  shows "filter (\<lambda>r. r \<in> K) (indexLog evs rs) = filter (\<lambda>r. r \<in> K) rs
    \<and> indexLog evs (compacted G K \<rho> rs) = compacted G K \<rho> (indexLog evs rs)
    \<and> orderedLog evs (compacted G K \<rho> rs)"
  using assms(3-5)
proof (induction evs arbitrary: rs)
  case Nil
  then show ?case using compacted_sorted [OF assms(1)] by simp
next
  case (Cons e evs)
  obtain g off ev where e: "e = (g, off, ev)" by (metis prod.collapse)
  have ih: "filter (\<lambda>r. r \<in> K) (indexLog evs (indexEvent g off ev rs))
        = filter (\<lambda>r. r \<in> K) (indexEvent g off ev rs)"
      "indexLog evs (compacted G K \<rho> (indexEvent g off ev rs))
        = compacted G K \<rho> (indexLog evs (indexEvent g off ev rs))"
      "orderedLog evs (compacted G K \<rho> (indexEvent g off ev rs))"
    using Cons by (auto simp: e)
  have "K \<subseteq> set (indexEvent g off ev rs)"
  proof
    fix r assume "r \<in> K"
    then have "r \<in> set (filter (\<lambda>r. r \<in> K) (indexLog evs (indexEvent g off ev rs)))"
      using Cons.prems(3) by (auto simp: e)
    then show "r \<in> set (indexEvent g off ev rs)" unfolding ih(1) by simp
  qed
  then have "filter (\<lambda>r. r \<in> K) (indexEvent g off ev rs) = filter (\<lambda>r. r \<in> K) rs
      \<and> indexEvent g off ev (compacted G K \<rho> rs) = compacted G K \<rho> (indexEvent g off ev rs)"
    using Cons.prems(1,2) assms(1,2)
    by (intro compacted_step) (auto simp: e dest: orderedLog_start)
  then show ?case
    using ih Cons.prems(1) compacted_sorted [OF assms(1)] popsFront_compacted [OF assms(1)]
    by (auto simp: e)
qed

text \<open>The generations of an index are those of its log.\<close>

lemma rewriteFirst_gens:
  "srGeneration ` set (rewriteFirst new rs) \<subseteq> insert (srGeneration new) (srGeneration ` set rs)"
  by (induction rs) auto

lemma insertBySequence_set: "set (insertBySequence new rs) = insert new (set rs)"
proof -
  let ?P = "\<lambda>r. srSequence r < srSequence new"
  have "set rs = set (takeWhile ?P rs) \<union> set (dropWhile ?P rs)"
    by (simp add: set_append [symmetric] del: set_append)
  then show ?thesis by (auto simp: insertBySequence_def)
qed

lemma indexEvent_gens:
  "srGeneration ` set (indexEvent g off ev rs) \<subseteq> insert g (srGeneration ` set rs)"
proof (cases ev)
  case (LogRewrite q p)
  then show ?thesis
    using rewriteFirst_gens [of "recordAt g off q p" rs]
    by (simp add: insertBySequence_set)
qed (auto dest: list.set_sel(2))

lemma indexLog_gens:
  "srGeneration ` set (indexLog evs rs) \<subseteq> fst ` set evs \<union> srGeneration ` set rs"
proof (induction evs arbitrary: rs)
  case (Cons e evs)
  obtain g off ev where e: "e = (g, off, ev)" by (metis prod.collapse)
  show ?case
    using Cons.IH [of "indexEvent g off ev rs"] indexEvent_gens [of g off ev rs] by (auto simp: e)
qed simp

text \<open>The principle: \<open>old\<close> are the events of the segments \<open>G\<close>, the oldest ones of the log,
  \<open>out\<close> any events that build the surviving records of \<open>G\<close> at their new places.\<close>

lemma compaction_index:
  assumes m: "moves G \<rho>" and o: "orderedLog (old @ kept) []"
    and g: "fst ` set old \<subseteq> G" "fst ` set kept \<inter> G = {}"
    and r: "rs = indexLog (old @ kept) []"
    and out: "indexLog out [] = map \<rho> (filter (\<lambda>r. srGeneration r \<in> G) rs)" "orderedLog out []"
  shows "indexLog (out @ kept) [] = map \<rho> rs" "orderedLog (out @ kept) []"
proof -
  define K where "K = {r \<in> set rs. srGeneration r \<in> G}"
  have ok: "orderedLog kept (indexLog old [])" using o by (simp add: orderedLog_append)
  have kk: "\<forall>r \<in> K. srGeneration r \<in> G" "K \<subseteq> set (indexLog kept (indexLog old []))"
    by (auto simp: K_def r)
  note c = compacted_log [OF m kk(1) ok g(2) kk(2)]
  have og: "srGeneration x \<in> G" if "x \<in> set (indexLog old [])" for x
    using that indexLog_gens [of old "[]"] g(1) by fastforce
  have fk: "filter (\<lambda>x. x \<in> K) rs = filter (\<lambda>x. srGeneration x \<in> G) rs"
    by (rule filter_cong) (auto simp: K_def)
  have "compacted G K \<rho> (indexLog old []) = map \<rho> (filter (\<lambda>x. x \<in> K) (indexLog old []))"
    unfolding compacted_def using og by (intro arg_cong [of _ _ "map \<rho>"] filter_cong) auto
  also have "filter (\<lambda>x. x \<in> K) (indexLog old []) = filter (\<lambda>x. x \<in> K) rs" using c by (simp add: r)
  also note fk
  finally have start: "compacted G K \<rho> (indexLog old []) = indexLog out []" by (simp add: out)
  have "filter (\<lambda>x. srGeneration x \<notin> G \<or> x \<in> K) rs = rs"
    by (rule filter_True) (auto simp: K_def)
  then have "compacted G K \<rho> rs = map \<rho> rs" by (simp add: compacted_def)
  then show "indexLog (out @ kept) [] = map \<rho> rs"
    using c by (simp add: start [symmetric] r)
  show "orderedLog (out @ kept) []"
    using c out(2) by (simp add: orderedLog_append start)
qed

end
