(* ===== verification/Mount_Correct.thy ===== *)
theory Mount_Correct
  imports Log_Index
begin

text \<open>
  What mounting does to a directory that holds a log: \<open>logOnDisk\<close> says that the elected
  manifest lists certain segments and that each segment file is the encoding of a list of
  events, the last one possibly followed by a torn event.  In a file system without pending
  errors, mounting succeeds on every such directory, drops exactly the torn tail, and leaves
  an index that denotes the abstract queue of all the events.
\<close>

section \<open>Logs on disk\<close>

type_synonym segment = "u32 \<times> u32 \<times> log_event list"

definition segBytes :: "segment \<Rightarrow> bytes" where
  "segBytes = (\<lambda>(gen, startSeq, evs). serializeSegmentHeader gen startSeq @ encodeEvents evs)"

definition segGen :: "segment \<Rightarrow> u32" where "segGen sg = fst sg"
definition segEvents :: "segment \<Rightarrow> log_event list" where "segEvents sg = snd (snd sg)"

lemma seg_simps [simp]:
  "segGen (gen, startSeq, evs) = gen" "segEvents (gen, startSeq, evs) = evs"
  by (simp_all add: segGen_def segEvents_def)

lemma length_segBytes: "length (segBytes sg) = 20 + length (encodeEvents (segEvents sg))"
  by (cases sg) (simp add: segBytes_def)

text \<open>The largest segment file replay accepts.\<close>

abbreviation maxReplayBytes :: nat where "maxReplayBytes \<equiv> 262144"

definition segFits :: "append_log_config \<Rightarrow> segment \<Rightarrow> bool" where
  "segFits cfg sg \<longleftrightarrow>
     (\<forall>ev \<in> set (segEvents sg). eventFits cfg ev) \<and> length (segBytes sg) \<le> maxReplayBytes"

fun segsOnDisk :: "(string \<Rightarrow> bytes option) \<Rightarrow> segment list \<Rightarrow> bytes \<Rightarrow> bool" where
  "segsOnDisk v [] t \<longleftrightarrow> True"
| "segsOnDisk v (sg # sgs) t \<longleftrightarrow>
     v (segmentName (segGen sg)) = Some (segBytes sg @ (if sgs = [] then t else []))
     \<and> segsOnDisk v sgs t"

fun replaySegs :: "segment list \<Rightarrow> scan_state \<Rightarrow> scan_state" where
  "replaySegs [] st = st"
| "replaySegs (sg # sgs) st =
     replaySegs sgs (scanEvents (segGen sg) (sgs = []) (segEvents sg)
       (st\<lparr>scOffset := kSegmentHeaderBytes, scLastGood := kSegmentHeaderBytes\<rparr>))"

definition logEvents :: "segment list \<Rightarrow> log_event list" where
  "logEvents segs = concat (map segEvents segs)"

lemma logEvents_simps [simp]:
  "logEvents [] = []" "logEvents (sg # sgs) = segEvents sg @ logEvents sgs"
  "logEvents (sgs @ sgs') = logEvents sgs @ logEvents sgs'"
  by (simp_all add: logEvents_def)

text \<open>The events of all segments with their places, and the index they build.\<close>

definition locSegs :: "segment list \<Rightarrow> located list" where
  "locSegs segs = concat (map (\<lambda>sg. locate (segGen sg) kSegmentHeaderBytes (segEvents sg)) segs)"

lemma locSegs_simps [simp]:
  "locSegs [] = []"
  "locSegs (sg # sgs) = locate (segGen sg) kSegmentHeaderBytes (segEvents sg) @ locSegs sgs"
  "locSegs (sgs @ sgs') = locSegs sgs @ locSegs sgs'"
  by (simp_all add: locSegs_def)

lemma locSegs_gens: "fst ` set (locSegs segs) \<subseteq> segGen ` set segs"
proof (induction segs)
  case (Cons sg segs)
  then show ?case
    using locate_gens [of "segGen sg" kSegmentHeaderBytes "segEvents sg"] by (auto simp: image_Un)
qed simp

lemma locSegs_events: "locSegs segs' = locSegs segs \<Longrightarrow> logEvents segs' = logEvents segs"
proof -
  have one: "map (snd \<circ> snd) (locate g off evs) = evs" for g off evs
    by (induction evs arbitrary: off) auto
  have "logEvents sgs = map (snd \<circ> snd) (locSegs sgs)" for sgs
    by (induction sgs) (simp_all add: one del: map_map comp_apply)
  then show "locSegs segs' = locSegs segs \<Longrightarrow> logEvents segs' = logEvents segs" by simp
qed

lemma replaySegs_index: "scRecords (replaySegs segs st) = indexLog (locSegs segs) (scRecords st)"
  by (induction segs arbitrary: st) (simp_all add: scanEvents_index)

section \<open>One segment file\<close>

lemma scanLoop_segment:
  assumes buf: "buf = segBytes (g, ss, evs) @ t"
    and fits: "\<forall>ev \<in> set evs. eventFits cfg ev" and torn: "tornTail cfg t"
    and len: "length buf = unat fileSize" and mr: "maxRecordBytes cfg < 4294967272"
    and off: "scOffset st = kSegmentHeaderBytes"
  shows "\<exists>corrupt. scanLoop cfg g isLast buf fileSize st = Some (corrupt, scanEvents g isLast evs st)
      \<and> (corrupt \<longrightarrow> t \<noteq> [])"
    and "unat (scOffset (scanEvents g isLast evs st)) = length (segBytes (g, ss, evs))"
proof -
  have u: "unat (scOffset st) = 20" by (simp add: off kSegmentHeaderBytes_def)
  have d: "drop (unat (scOffset st)) buf = encodeEvents evs @ t"
    by (simp add: u buf segBytes_def)
  note L = scanLoop_events [OF d len fits, of g isLast]
  show o: "unat (scOffset (scanEvents g isLast evs st)) = length (segBytes (g, ss, evs))"
    using L by (simp add: u length_segBytes)
  have "unat (scOffset (scanEvents g isLast evs st)) \<le> length buf" by (simp add: o buf)
  from scanLoop_tail [OF torn _ this len mr, of g isLast] L
  show "\<exists>corrupt. scanLoop cfg g isLast buf fileSize st = Some (corrupt, scanEvents g isLast evs st)
      \<and> (corrupt \<longrightarrow> t \<noteq> [])" by auto
qed

text \<open>What the scan does, whatever the operations of the file system do: the three calls it makes on a
  segment whose events end before a torn tail, and the state it leaves.\<close>

lemma scanSegmentFile_steps:
  assumes fs1: "fs_fileSize F (segmentName g) (world s) = ((st1, word_of_nat (length buf)), w1)" "ok st1"
    and fs2: "fs_readFile F (segmentName g) w1 = ((st2, buf), w2)" "ok st2"
    and fs3: "fs_resizeFile F (segmentName g) (word_of_nat (length (segBytes (g, ss, evs)))) w2 = (st3, w3)"
    and buf_def: "buf = segBytes (g, ss, evs) @ t"
    and fits: "\<forall>ev \<in> set evs. eventFits cfg ev" and torn: "tornTail cfg t"
    and last: "t \<noteq> [] \<longrightarrow> isLast" and le: "length buf \<le> maxReplayBytes"
    and mr: "maxRecordBytes cfg < 4294967272"
    and sc: "sc = scanEvents g isLast evs \<lparr>scOffset = kSegmentHeaderBytes,
      scLastGood = kSegmentHeaderBytes, scRecords = records s, scNextSequence = nextSequence s,
      scAffected = aff\<rparr>"
  shows "\<exists>em. scanSegmentFile F cfg g isLast aff s = Some ((success, scAffected sc),
      s\<lparr>world := (if t = [] then w2 else w3), records := scRecords sc, nextSequence := scNextSequence sc,
        activeGeneration := g, activeSegmentBytes := scOffset sc, emitted := em\<rparr>)"
    and "unat (scOffset sc) = length (segBytes (g, ss, evs))"
proof -
  have lb: "20 \<le> length buf" by (simp add: buf_def length_segBytes)
  have u64: "unat (word_of_nat (length buf) :: u64) = length buf"
    using le by (simp add: unat_of_nat)
  have u32: "unat (word_of_nat (length buf) :: u32) = length buf"
    using le by (simp add: unat_of_nat)
  have uc: "(ucast (word_of_nat (length buf) :: u64) :: u32) = word_of_nat (length buf)"
    using u32 u64 le by (simp add: u32_eq_unat unsigned_ucast_eq take_bit_nat_eq_self)
  have guard: "\<not> (word_of_nat (length buf) :: u64) < ucast kSegmentHeaderBytes"
    "\<not> (word_of_nat (length buf) :: u64) > kMaxReplaySegmentReadBytes"
    using lb le by (simp_all add: word_less_nat_alt u64 kSegmentHeaderBytes_def
        kMaxReplaySegmentReadBytes_def)
  have hd: "take 20 buf = serializeSegmentHeader g ss @ []" by (simp add: buf_def segBytes_def)
  have ph: "parseSegmentHeader (take 20 buf) default_segment_header = (True, segHeaderOf g ss)"
    unfolding hd by (rule parseSegmentHeader_serialize)
  have sel: "shGeneration (segHeaderOf g ss) = g" by (simp add: segHeaderOf_def Let_def)
  have "\<exists>corrupt. scanLoop cfg g isLast buf (word_of_nat (length buf)) \<lparr>scOffset = kSegmentHeaderBytes,
      scLastGood = kSegmentHeaderBytes, scRecords = records s, scNextSequence = nextSequence s,
      scAffected = aff\<rparr> = Some (corrupt, sc) \<and> (corrupt \<longrightarrow> t \<noteq> [])"
    and so: "unat (scOffset sc) = length (segBytes (g, ss, evs))"
    unfolding sc
    by (rule scanLoop_segment [OF buf_def fits torn _ mr, where fileSize = "word_of_nat (length buf)"];
        simp add: u32)+
  then obtain corrupt where L: "scanLoop cfg g isLast buf (word_of_nat (length buf))
      \<lparr>scOffset = kSegmentHeaderBytes, scLastGood = kSegmentHeaderBytes, scRecords = records s,
       scNextSequence = nextSequence s, scAffected = aff\<rparr> = Some (corrupt, sc)"
    and ct: "corrupt \<longrightarrow> t \<noteq> []" by blast
  have lg: "scLastGood sc = scOffset sc" unfolding sc by (rule scanEvents_lastGood) simp
  have "unat (scOffset sc) < 2 ^ 32" using unsigned_less [of "scOffset sc"] by simp
  then have us: "(ucast (scOffset sc) :: u64) = word_of_nat (length (segBytes (g, ss, evs)))"
    unfolding so [symmetric] by (simp add: word_eq_iff_unsigned unsigned_ucast_eq unat_of_nat take_bit_nat_eq_self)
  note start = scanSegmentFile_def onWorld_def Let_def fs1(1) fs2(1)
  show "unat (scOffset sc) = length (segBytes (g, ss, evs))" by (rule so)
  show "\<exists>em. scanSegmentFile F cfg g isLast aff s = Some ((success, scAffected sc),
      s\<lparr>world := (if t = [] then w2 else w3), records := scRecords sc, nextSequence := scNextSequence sc,
        activeGeneration := g, activeSegmentBytes := scOffset sc, emitted := em\<rparr>)"
  proof (cases "t = []")
    case True
    then have nl: "\<not> scOffset sc < word_of_nat (length buf)"
      unfolding word_less_nat_alt u32 so by (simp add: buf_def)
    show ?thesis
      by (intro exI [of _ "emitted s"])
        (use fs1(2) fs2(2) guard ph sel L ct True nl in \<open>simp add: start u64 uc kSegmentHeaderBytes_def\<close>)
  next
    case False
    then have lt: "scOffset sc < word_of_nat (length buf)"
      unfolding word_less_nat_alt u32 so by (simp add: buf_def)
    show ?thesis
      by (intro exI [of _ "emitEvent (storeEvents cfg) (diagnosticEvent Warning
            (failure DataCorrupt ''discarding active-segment tail after last good event'')
            ''AppendLogStore'' ''mount'') (emitted s)"])
        (use fs1(2) fs2(2) guard ph sel L lt last False fs3 lg us in
          \<open>simp add: start u64 uc kSegmentHeaderBytes_def storeDiagnostic_def\<close>)
  qed
qed

context file_system
begin

lemma healthy_read:
  assumes "healthy w" and "view w name = Some c"
  shows "\<exists>st w'. fs_readFile F name w = ((st, c), w') \<and> ok st \<and> healthy w' \<and> view w' = view w"
proof -
  obtain st d w' where e: "fs_readFile F name w = ((st, d), w')" by (metis prod.collapse)
  show ?thesis using e read_healthy [OF assms(1) e] read_view [OF e] assms(2) by auto
qed

lemma healthy_size:
  assumes "healthy w" and "view w name = Some c"
  shows "\<exists>st w'. fs_fileSize F name w = ((st, word_of_nat (length c)), w') \<and> ok st \<and> healthy w'
    \<and> view w' = view w"
proof -
  obtain st n w' where e: "fs_fileSize F name w = ((st, n), w')" by (metis prod.collapse)
  show ?thesis using e size_healthy [OF assms(1) e] size_view [OF e] assms(2) by auto
qed

lemma scanSegmentFile_log:
  assumes h: "healthy (world s)"
    and v: "view (world s) (segmentName g) = Some (segBytes (g, ss, evs) @ t)"
    and fits: "\<forall>ev \<in> set evs. eventFits cfg ev" and torn: "tornTail cfg t"
    and last: "t \<noteq> [] \<longrightarrow> isLast"
    and sz: "length (segBytes (g, ss, evs) @ t) \<le> maxReplayBytes"
    and mr: "maxRecordBytes cfg < 4294967272"
    and sc: "sc = scanEvents g isLast evs \<lparr>scOffset = kSegmentHeaderBytes,
      scLastGood = kSegmentHeaderBytes, scRecords = records s, scNextSequence = nextSequence s,
      scAffected = aff\<rparr>"
  shows "\<exists>w em. scanSegmentFile F cfg g isLast aff s = Some ((success, scAffected sc),
      s\<lparr>world := w, records := scRecords sc, nextSequence := scNextSequence sc,
        activeGeneration := g, activeSegmentBytes := scOffset sc, emitted := em\<rparr>)
    \<and> healthy w \<and> view w = (view (world s))(segmentName g := Some (segBytes (g, ss, evs)))
    \<and> unat (scOffset sc) = length (segBytes (g, ss, evs))"
proof -
  define buf where "buf = segBytes (g, ss, evs) @ t"
  define n where "n = length (segBytes (g, ss, evs))"
  obtain st1 w1 where fs1: "fs_fileSize F (segmentName g) (world s)
        = ((st1, word_of_nat (length buf)), w1)" "ok st1" "healthy w1" "view w1 = view (world s)"
    using healthy_size [OF h v] by (auto simp: buf_def)
  obtain st2 w2 where fs2: "fs_readFile F (segmentName g) w1 = ((st2, buf), w2)" "ok st2"
      "healthy w2" "view w2 = view (world s)"
    using healthy_read [of w1 "segmentName g" buf] fs1 v by (auto simp: buf_def)
  obtain st3 w3 where fs3: "fs_resizeFile F (segmentName g) (word_of_nat n) w2 = (st3, w3)" by fastforce
  note steps = scanSegmentFile_steps [OF fs1(1,2) fs2(1,2) fs3 [unfolded n_def] buf_def fits torn last _ mr sc]
  have u: "unat (word_of_nat n :: u64) = n" using sz by (simp add: n_def unat_of_nat)
  have w3: "healthy w3 \<and> view w3 = (view w2)(segmentName g := Some (take n buf))"
    using resize_healthy [OF fs2(3) fs3] resize_ok [OF fs3, of buf] v fs2(4) by (simp add: u [unfolded n_def] buf_def n_def)
  have "healthy (if t = [] then w2 else w3)
      \<and> view (if t = [] then w2 else w3) = (view (world s))(segmentName g := Some (segBytes (g, ss, evs)))"
    using w3 fs2(3,4) v by (auto simp: buf_def n_def)
  then show ?thesis using steps sz by (force simp: buf_def)
qed

end


section \<open>All segment files\<close>

lemma segsOnDisk_cong:
  "(\<And>g. g \<in> segGen ` set segs \<Longrightarrow> v (segmentName g) = v' (segmentName g)) \<Longrightarrow>
   segsOnDisk v segs t = segsOnDisk v' segs t"
  by (induction segs) auto

lemma segsOnDisk_upd [simp]:
  "g \<notin> segGen ` set segs \<Longrightarrow> segsOnDisk (v(segmentName g := x)) segs t = segsOnDisk v segs t"
  by (rule segsOnDisk_cong) auto

lemma denotesAll_replaySegs:
  assumes "segsOnDisk v segs t" and "\<forall>sg \<in> set segs. segFits cfg sg"
    and "length t \<le> maxReplayBytes" and "denotesAll v (scRecords st) xs"
  shows "denotesAll v (scRecords (replaySegs segs st)) (absEvents (logEvents segs) xs)"
  using assms
proof (induction segs arbitrary: st xs)
  case (Cons sg segs)
  obtain g ss evs where sg: "sg = (g, ss, evs)" by (metis prod.collapse)
  define u where "u = (if segs = [] then t else [])"
  define buf where "buf = segBytes sg @ u"
  have "length buf \<le> 2 * maxReplayBytes"
    using Cons.prems(2,3) by (auto simp: buf_def u_def segFits_def)
  then have len: "length buf = unat (word_of_nat (length buf) :: u32)" by (simp add: unat_of_nat)
  have b: "v (segmentName g) = Some buf" using Cons.prems(1) by (auto simp: sg buf_def u_def)
  have d: "drop (unat (scOffset (st\<lparr>scOffset := kSegmentHeaderBytes,
      scLastGood := kSegmentHeaderBytes\<rparr>))) buf = encodeEvents evs @ u"
    by (simp add: kSegmentHeaderBytes_def buf_def segBytes_def sg)
  have r: "denotesAll v (scRecords (st\<lparr>scOffset := kSegmentHeaderBytes,
      scLastGood := kSegmentHeaderBytes\<rparr>)) xs"
    using Cons.prems(4) by simp
  have f: "\<forall>ev \<in> set evs. eventFits cfg ev" using Cons.prems(2) by (simp add: segFits_def sg)
  have next_segs: "segsOnDisk v segs t" "\<forall>sg \<in> set segs. segFits cfg sg"
    using Cons.prems(1,2) by simp_all
  show ?case
    using Cons.IH [OF next_segs Cons.prems(3) denotesAll_scanEvents [OF b len d r f]]
    by (simp add: sg)
qed simp

context file_system
begin

lemma scanActive_log:
  assumes "healthy (world s)" and "segsOnDisk (view (world s)) segs t"
    and "distinct (map segGen segs)" and "\<forall>sg \<in> set segs. segFits cfg sg"
    and "segs \<noteq> [] \<longrightarrow> length (segBytes (last segs) @ t) \<le> maxReplayBytes"
    and "tornTail cfg t" and "maxRecordBytes cfg < 4294967272"
    and "sc = replaySegs segs \<lparr>scOffset = x, scLastGood = y, scRecords = records s,
           scNextSequence = nextSequence s, scAffected = aff\<rparr>"
  shows "\<exists>w em. scanActiveSegments F cfg (map segGen segs) aff s = Some ((success, scAffected sc),
      s\<lparr>world := w, records := scRecords sc, nextSequence := scNextSequence sc,
        activeGeneration := (if segs = [] then activeGeneration s else segGen (last segs)),
        activeSegmentBytes := (if segs = [] then activeSegmentBytes s else scOffset sc),
        emitted := em\<rparr>)
    \<and> healthy w
    \<and> view w = (if segs = [] then view (world s)
        else (view (world s))(segmentName (segGen (last segs)) := Some (segBytes (last segs))))
    \<and> (segs \<noteq> [] \<longrightarrow> unat (scOffset sc) = length (segBytes (last segs)))"
  using assms
proof (induction segs arbitrary: s aff x y)
  case Nil
  then show ?case
    by (intro exI [of _ "world s"] exI [of _ "emitted s"]) simp
next
  case (Cons sg segs)
  obtain g ss evs where sg: "sg = (g, ss, evs)" by (metis prod.collapse)
  define u where "u = (if segs = [] then t else [])"
  define sc1 where "sc1 = scanEvents g (segs = []) evs \<lparr>scOffset = kSegmentHeaderBytes,
      scLastGood = kSegmentHeaderBytes, scRecords = records s, scNextSequence = nextSequence s,
      scAffected = aff\<rparr>"
  have v: "view (world s) (segmentName g) = Some (segBytes (g, ss, evs) @ u)"
    using Cons.prems(2) by (auto simp: sg u_def)
  have f: "\<forall>ev \<in> set evs. eventFits cfg ev" using Cons.prems(4) by (simp add: segFits_def sg)
  have tu: "tornTail cfg u" using Cons.prems(6) by (simp add: u_def)
  have ul: "u \<noteq> [] \<longrightarrow> segs = []" by (simp add: u_def)
  have sz: "length (segBytes (g, ss, evs) @ u) \<le> maxReplayBytes"
    using Cons.prems(4,5) by (auto simp: u_def sg segFits_def)
  obtain w em where one: "scanSegmentFile F cfg g (segs = []) aff s = Some ((success, scAffected sc1),
      s\<lparr>world := w, records := scRecords sc1, nextSequence := scNextSequence sc1,
        activeGeneration := g, activeSegmentBytes := scOffset sc1, emitted := em\<rparr>)"
    "healthy w" "view w = (view (world s))(segmentName g := Some (segBytes (g, ss, evs)))"
    "unat (scOffset sc1) = length (segBytes (g, ss, evs))"
    using scanSegmentFile_log [OF Cons.prems(1) v f tu ul sz Cons.prems(7) sc1_def] by blast
  have sc: "sc = replaySegs segs sc1" using Cons.prems(8) by (simp add: sg sc1_def)
  show ?case
  proof (cases "segs = []")
    case True
    then show ?thesis
      by (intro exI [of _ w] exI [of _ em]) (use one sc sg in simp)
  next
    case False
    define s1 where "s1 = s\<lparr>world := w, records := scRecords sc1, nextSequence := scNextSequence sc1,
        activeGeneration := g, activeSegmentBytes := scOffset sc1, emitted := em\<rparr>"
    have vw: "view w = view (world s)"
      using one(3) v False by (auto simp: u_def)
    have p1: "healthy (world s1)" using one(2) by (simp add: s1_def)
    have p2: "segsOnDisk (view (world s1)) segs t" using Cons.prems(2) vw by (simp add: s1_def)
    have p3: "distinct (map segGen segs)" and p4: "\<forall>sg \<in> set segs. segFits cfg sg"
      and p5: "segs \<noteq> [] \<longrightarrow> length (segBytes (last segs) @ t) \<le> maxReplayBytes"
      using Cons.prems(3,4,5) False by simp_all
    have "sc = replaySegs segs \<lparr>scOffset = scOffset sc1, scLastGood = scLastGood sc1,
        scRecords = records s1, scNextSequence = nextSequence s1, scAffected = scAffected sc1\<rparr>"
      by (cases sc1) (simp add: sc s1_def)
    note ih = Cons.IH [OF p1 p2 p3 p4 p5 Cons.prems(6,7) this]
    have vs1: "view (world s1) = view w" by (simp add: s1_def)
    obtain w2 em2 where two: "scanActiveSegments F cfg (map segGen segs) (scAffected sc1) s1
        = Some ((success, scAffected sc),
      s1\<lparr>world := w2, records := scRecords sc, nextSequence := scNextSequence sc,
        activeGeneration := segGen (last segs), activeSegmentBytes := scOffset sc,
        emitted := em2\<rparr>)" "healthy w2"
      "view w2 = (view w)(segmentName (segGen (last segs)) := Some (segBytes (last segs)))"
      "unat (scOffset sc) = length (segBytes (last segs))"
      using ih False unfolding vs1 by (simp only: False if_False) blast
    show ?thesis
      by (intro exI [of _ w2] exI [of _ em2])
        (use one(1) two False vw in \<open>simp add: sg s1_def [symmetric], simp add: s1_def\<close>)
  qed
qed

end

section \<open>The invariant of a mounted store\<close>

text \<open>File names that parse to a generation are the canonical names of their generation.\<close>

definition canonicalNames :: "(string \<Rightarrow> bytes option) \<Rightarrow> bool" where
  "canonicalNames v \<longleftrightarrow> (\<forall>name g. v name \<noteq> None \<and> isSegmentName name = Some g \<longrightarrow> name = segmentName g)"

text \<open>The directory holds the log \<open>segs\<close>, with torn bytes \<open>t\<close> after the last segment.\<close>

definition manifestMatches :: "manifest_data option \<Rightarrow> segment list \<Rightarrow> bool" where
  "manifestMatches m segs \<longleftrightarrow>
     (case m of
        None \<Rightarrow> segs = []
      | Some md \<Rightarrow> loadable (ranges md) \<and> nextGeneration md \<noteq> 0
          \<and> totalGenerations md \<le> ucast kManifestMaxTotalGenerations
          \<and> manifestGens md = map segGen segs)"

definition logOnDisk ::
  "append_log_config \<Rightarrow> (string \<Rightarrow> bytes option) \<Rightarrow> segment list \<Rightarrow> bytes \<Rightarrow> bool" where
  "logOnDisk cfg v segs t \<longleftrightarrow>
     manifestMatches (electedManifest v) segs
     \<and> (electedManifest v = None \<longrightarrow> (\<forall>g. v (segmentName g) = None))
     \<and> segsOnDisk v segs t \<and> distinct (map segGen segs)
     \<and> (\<forall>sg \<in> set segs. segFits cfg sg)
     \<and> (segs \<noteq> [] \<longrightarrow> length (segBytes (last segs) @ t) \<le> maxReplayBytes)
     \<and> tornTail cfg t \<and> canonicalNames v
     \<and> v (segmentName 0xffffffff) = None"

definition emptyScan :: scan_state where
  "emptyScan = \<lparr>scOffset = 0, scLastGood = 0, scRecords = [], scNextSequence = 0, scAffected = {}\<rparr>"

text \<open>What holds of a mounted store between operations: the directory holds exactly the log
  \<open>segs\<close>, and the store's fields are those a replay of it gives.\<close>

definition storeInv ::
  "append_log_config \<Rightarrow> (string \<Rightarrow> bytes option) \<Rightarrow> segment list \<Rightarrow> 'w store \<Rightarrow> bool" where
  "storeInv cfg v segs s \<longleftrightarrow>
     mounted s \<and> logOnDisk cfg v segs [] \<and> cacheWins v s
     \<and> manifestRanges s = (case electedManifest v of None \<Rightarrow> [] | Some md \<Rightarrow> ranges md)
     \<and> activeGenerations s = map segGen segs
     \<and> activeGeneration s = (if segs = [] then 0 else segGen (last segs))
     \<and> unat (activeSegmentBytes s) = (if segs = [] then 0 else length (segBytes (last segs)))
     \<and> records s = indexLog (locSegs segs) []
     \<and> nextGen s \<noteq> 0 \<and> (\<forall>sg \<in> set segs. segGen sg < nextGen s)"

text \<open>The index of a log denotes its queue and points into its segments.\<close>

lemma logOnDisk_index:
  assumes "logOnDisk cfg v segs []"
  shows "denotesAll v (indexLog (locSegs segs) []) (absEvents (logEvents segs) [])"
  using denotesAll_replaySegs [of v segs "[]" cfg emptyScan "[]"] assms
  by (simp add: logOnDisk_def replaySegs_index emptyScan_def)

lemma storeInv_gens: "storeInv cfg v segs s \<Longrightarrow> r \<in> set (records s) \<Longrightarrow> srGeneration r \<in> segGen ` set segs"
  using indexLog_gens [of "locSegs segs" "[]"] locSegs_gens [of segs]
  by (fastforce simp: storeInv_def)

lemma storeInv_denotes: "storeInv cfg v segs s \<Longrightarrow> denotesAll v (records s) (absEvents (logEvents segs) [])"
  by (auto simp: storeInv_def intro: logOnDisk_index)

section \<open>Mounting\<close>

lemma advanceNextGen_ge: "next \<le> advanceNextGen gens next"
proof (induction gens arbitrary: "next")
  case (Cons g gens)
  have "next \<le> (if g + 1 > next then g + 1 else next)" by (simp add: less_imp_le)
  also have "\<dots> \<le> advanceNextGen gens (if g + 1 > next then g + 1 else next)" by (rule Cons.IH)
  also have "\<dots> = advanceNextGen (g # gens) next" by (simp add: advanceNextGen_def)
  finally show ?case .
qed (simp add: advanceNextGen_def)

lemma advanceNextGen_past:
  "g \<in> set gens \<Longrightarrow> g \<noteq> 0xffffffff \<Longrightarrow> g < advanceNextGen gens next"
proof (induction gens arbitrary: "next")
  case (Cons h gens)
  define n1 where "n1 = (if h + 1 > next then h + 1 else next)"
  have st: "advanceNextGen (h # gens) next = advanceNextGen gens n1"
    by (simp add: advanceNextGen_def n1_def)
  show ?case
  proof (cases "g \<in> set gens")
    case True
    then show ?thesis unfolding st using Cons by blast
  next
    case False
    then have "g = h" using Cons.prems by simp
    then have "g < g + 1" "g + 1 \<le> n1"
      using unat_Suc_u32 [OF Cons.prems(2)]
      by (auto simp: n1_def word_less_nat_alt word_le_nat_alt not_less)
    then show ?thesis unfolding st using advanceNextGen_ge [of n1 gens] by order
  qed
qed simp

lemma segmentGenerations_set: "g \<in> set (segmentGenerations files) \<longleftrightarrow> (\<exists>name \<in> set files. isSegmentName name = Some g)"
  by (force simp: segmentGenerations_def List.map_filter_def)

context file_system
begin

lemma tryRead_healthy:
  assumes "healthy (world s)"
  shows "\<exists>w. tryRead F sl s = (slotManifest (view (world s)) sl, s\<lparr>world := w\<rparr>)
    \<and> healthy w \<and> view w = view (world s)"
proof -
  obtain st d w where e: "fs_readFile F (slotName sl) (world s) = ((st, d), w)"
    by (metis prod.collapse)
  note r = read_healthy [OF assms e] read_view [OF e]
  show ?thesis
  proof (cases "ok st")
    case True
    then show ?thesis using r
      by (intro exI [of _ w]) (simp add: tryRead_def onWorld_def e slotManifest_def)
  next
    case False
    then show ?thesis using r
      by (intro exI [of _ w]) (auto simp: tryRead_def onWorld_def e slotManifest_def)
  qed
qed

lemma readManifest_healthy:
  assumes "healthy (world s)"
  shows "\<exists>w. readManifest F s = (electedManifest (view (world s)), s\<lparr>world := w\<rparr>)
    \<and> healthy w \<and> view w = view (world s)"
proof -
  obtain w1 where w1: "tryRead F SlotA s = (slotManifest (view (world s)) SlotA, s\<lparr>world := w1\<rparr>)"
    "healthy w1" "view w1 = view (world s)" using tryRead_healthy [OF assms] by blast
  then have "healthy (world (s\<lparr>world := w1\<rparr>))" by simp
  from tryRead_healthy [OF this, of SlotB] obtain w2 where
    w2: "tryRead F SlotB (s\<lparr>world := w1\<rparr>) = (slotManifest (view (world s)) SlotB, s\<lparr>world := w2\<rparr>)"
    "healthy w2" "view w2 = view (world s)" by (auto simp: w1(3))
  then show ?thesis
    by (intro exI [of _ w2]) (simp add: readManifest_def present w1(1) electedManifest_def)
qed

lemma totalSegmentFiles_healthy:
  assumes "healthy (world s)" and "\<forall>g \<in> set gens. view (world s) (segmentName g) \<noteq> None"
  shows "\<exists>w b sb. totalSegmentFiles F gens s
      = (success, s\<lparr>world := w, totalOnDiskBytes := b, sealedSegmentBytes := sb\<rparr>)
    \<and> healthy w \<and> view w = view (world s)"
  using assms
proof (induction gens arbitrary: s)
  case Nil
  then show ?case
    by (intro exI [of _ "world s"] exI [of _ "totalOnDiskBytes s"]
        exI [of _ "sealedSegmentBytes s"]) simp
next
  case (Cons g gens)
  obtain c where c: "view (world s) (segmentName g) = Some c" using Cons.prems(2) by auto
  obtain st w1 where fs: "fs_fileSize F (segmentName g) (world s)
      = ((st, word_of_nat (length c)), w1)" "ok st" "healthy w1" "view w1 = view (world s)"
    using healthy_size [OF Cons.prems(1) c] by blast
  define n where "n = (ucast (word_of_nat (length c) :: u64) :: u32)"
  define s1 where "s1 = s\<lparr>world := w1, totalOnDiskBytes := totalOnDiskBytes s + n,
      sealedSegmentBytes := (sealedSegmentBytes s)(g := Some n)\<rparr>"
  have "totalSegmentFiles F (g # gens) s = totalSegmentFiles F gens s1"
    by (simp add: onWorld_def fs s1_def n_def Let_def)
  moreover obtain w b sb where "totalSegmentFiles F gens s1
      = (success, s1\<lparr>world := w, totalOnDiskBytes := b, sealedSegmentBytes := sb\<rparr>)"
      "healthy w" "view w = view (world s1)"
    using Cons.IH [of s1] Cons.prems(2) fs(3,4) by (auto simp: s1_def)
  ultimately show ?case
    by (intro exI [of _ w] exI [of _ b] exI [of _ sb]) (simp add: s1_def fs(4))
qed

lemma totalSlot_healthy:
  assumes "healthy (world s)"
  shows "\<exists>w b mb. totalSlot F sl s = s\<lparr>world := w, totalOnDiskBytes := b, manifestSlotBytes := mb\<rparr>
    \<and> healthy w \<and> view w = view (world s)"
proof -
  obtain st n w where e: "fs_fileSize F (slotName sl) (world s) = ((st, n), w)"
    by (metis prod.collapse)
  note r = size_healthy [OF assms e] size_view [OF e]
  show ?thesis
  proof (cases "ok st")
    case True
    then show ?thesis
      by (intro exI [of _ w] exI [of _ "totalOnDiskBytes s + ucast n"]
          exI [of _ "(manifestSlotBytes s)(sl := ucast n)"])
        (use r in \<open>simp add: totalSlot_def onWorld_def e\<close>)
  next
    case False
    then show ?thesis
      by (intro exI [of _ w] exI [of _ "totalOnDiskBytes s"] exI [of _ "manifestSlotBytes s"])
        (use r in \<open>simp add: totalSlot_def onWorld_def e\<close>)
  qed
qed

text \<open>The clean-up removes at most one file, of a generation that is not active.\<close>

lemma cleanup_view:
  "\<exists>w b sb. cleanupOneDanglingSegment F s
      = s\<lparr>world := w, totalOnDiskBytes := b, sealedSegmentBytes := sb\<rparr>
    \<and> (healthy (world s) \<longrightarrow> healthy w)
    \<and> (view w = view (world s)
       \<or> (\<exists>name g. isSegmentName name = Some g \<and> g \<notin> set (activeGenerations s)
            \<and> view w = (view (world s))(name := None)))"
proof -
  obtain st files w1 where l: "fs_listFiles F (world s) = ((st, files), w1)"
    by (metis prod.collapse)
  have v1: "view w1 = view (world s)" using list_view [OF l] by simp
  have h1: "healthy (world s) \<longrightarrow> healthy w1" using list_healthy [OF _ l] by blast
  define pick where "pick = find (isDangling (activeGenerations s)) files"
  consider "\<not> ok st \<or> pick = None" | name where "ok st" "pick = Some name" by fastforce
  then show ?thesis
  proof cases
    case 1
    then show ?thesis
      by (intro exI [of _ w1] exI [of _ "totalOnDiskBytes s"] exI [of _ "sealedSegmentBytes s"])
        (use 1 h1 in \<open>auto simp: cleanupOneDanglingSegment_def present onWorld_def l v1 pick_def
          split: option.splits\<close>)
  next
    case 2
    obtain g where g: "isSegmentName name = Some g" "g \<notin> set (activeGenerations s)"
      using 2(2) by (auto simp: pick_def find_Some_iff isDangling_def split: option.splits)
    obtain st2 n w2 where f: "fs_fileSize F name w1 = ((st2, n), w2)" by (metis prod.collapse)
    obtain st3 w3 where r: "fs_removeFile F name w2 = (st3, w3)" by fastforce
    have v2: "view w2 = view (world s)" using size_view [OF f] v1 by simp
    have h3: "healthy (world s) \<longrightarrow> healthy w3"
      using h1 size_healthy [OF _ f] remove_healthy [OF _ r] by blast
    define sb where "sb = (if ok st3 then (sealedSegmentBytes s)(g := None) else sealedSegmentBytes s)"
    define b where "b = (if ok st3 then totalOnDiskBytes s - ucast n else totalOnDiskBytes s)"
    have "cleanupOneDanglingSegment F s
        = s\<lparr>world := w3, totalOnDiskBytes := b, sealedSegmentBytes := sb\<rparr>"
      using 2 by (simp add: cleanupOneDanglingSegment_def present onWorld_def l f r g
          pick_def Let_def b_def sb_def)
    moreover have "view w3 = (view (world s))(name := None) \<or> view w3 = view (world s)"
      using remove_cases [OF r] v2 by auto
    ultimately show ?thesis using g h3 by blast
  qed
qed

end

lemma segsOnDisk_truncate:
  "segsOnDisk v segs t \<Longrightarrow> distinct (map segGen segs) \<Longrightarrow> segs \<noteq> [] \<Longrightarrow>
   segsOnDisk (v(segmentName (segGen (last segs)) := Some (segBytes (last segs)))) segs []"
proof (induction segs)
  case (Cons sg segs)
  show ?case
  proof (cases "segs = []")
    case False
    then have "segGen (last segs) \<in> segGen ` set segs" by (rule imageI [OF last_in_set])
    with Cons.prems(2) have "segGen sg \<noteq> segGen (last segs)"
      by (metis distinct.simps(2) list.simps(9) set_map)
    then show ?thesis using Cons False by auto
  qed simp
qed simp

definition truncated ::
  "(string \<Rightarrow> bytes option) \<Rightarrow> segment list \<Rightarrow> string \<Rightarrow> bytes option" where
  "truncated v segs =
     (if segs = [] then v
      else v(segmentName (segGen (last segs)) := Some (segBytes (last segs))))"

lemma segsOnDisk_present: "segsOnDisk v segs t \<Longrightarrow> g \<in> segGen ` set segs \<Longrightarrow> v (segmentName g) \<noteq> None"
  by (induction segs) auto

lemma logOnDisk_truncate:
  assumes "logOnDisk cfg v segs t"
  shows "logOnDisk cfg (truncated v segs) segs []"
proof (cases "segs = []")
  case True
  with assms show ?thesis by (simp add: logOnDisk_def truncated_def)
next
  case False
  then have p: "v (segmentName (segGen (last segs))) \<noteq> None"
    using assms by (intro segsOnDisk_present [of v segs t]) (auto simp: logOnDisk_def)
  then have e: "electedManifest v \<noteq> None" using assms by (auto simp: logOnDisk_def)
  have "canonicalNames (truncated v segs)"
    using assms by (auto simp: logOnDisk_def canonicalNames_def truncated_def)
  moreover have "truncated v segs (segmentName 0xffffffff) = None"
    using assms p by (auto simp: logOnDisk_def truncated_def)
  moreover have "segsOnDisk (truncated v segs) segs []"
    using assms False segsOnDisk_truncate [of v segs t] by (simp add: logOnDisk_def truncated_def)
  ultimately show ?thesis
    using assms False e by (auto simp: logOnDisk_def truncated_def)
qed

lemma logOnDisk_cleanup:
  assumes l: "logOnDisk cfg v segs t" and n: "isSegmentName name = Some g"
    and g: "g \<notin> set (map segGen segs)"
  shows "logOnDisk cfg (v(name := None)) segs t"
proof (cases "v name = None")
  case True
  then have "v(name := None) = v" by auto
  with l show ?thesis by simp
next
  case False
  then have name: "name = segmentName g" using l n by (auto simp: logOnDisk_def canonicalNames_def)
  have "canonicalNames (v(segmentName g := None))"
    using l by (auto simp: logOnDisk_def canonicalNames_def)
  then show ?thesis using l g by (auto simp: logOnDisk_def name)
qed

text \<open>A directory from which at most one segment that the manifest does not list was removed.\<close>

definition cleaned :: "u32 list \<Rightarrow> (string \<Rightarrow> bytes option) \<Rightarrow> (string \<Rightarrow> bytes option) \<Rightarrow> bool" where
  "cleaned gens v v' \<longleftrightarrow>
     v' = v \<or> (\<exists>name g. isSegmentName name = Some g \<and> g \<notin> set gens \<and> v' = v(name := None))"

lemma cleaned_log: "cleaned (map segGen segs) v v' \<Longrightarrow> logOnDisk cfg v segs t \<Longrightarrow> logOnDisk cfg v' segs t"
  unfolding cleaned_def by (metis logOnDisk_cleanup)

lemma cleaned_elected: "cleaned gens v v' \<Longrightarrow> electedManifest v' = electedManifest v"
  unfolding cleaned_def by (auto intro!: electedManifest_other)

lemma cleaned_dom: "cleaned gens v v' \<Longrightarrow> dom v' \<subseteq> dom v"
  by (auto simp: cleaned_def split: if_splits)

lemma truncated_dom: "logOnDisk cfg v segs t \<Longrightarrow> dom (truncated v segs) = dom v"
  using segsOnDisk_present [of v segs t "segGen (last segs)"] by (auto simp: truncated_def logOnDisk_def)

lemma truncated_elected [simp]: "electedManifest (truncated v segs) = electedManifest v"
  by (simp add: truncated_def)

text \<open>The generations that \<open>scanSegments\<close> finds in the listing of a directory with a log.\<close>

lemma segmentGenerations_log:
  assumes log: "logOnDisk cfg v segs t" and files: "set files = dom v"
  shows "g \<in> set (segmentGenerations files) \<longleftrightarrow> v (segmentName g) \<noteq> None"
    and "g \<in> set (segmentGenerations files) \<Longrightarrow> g \<noteq> 0xffffffff"
    and "electedManifest v = None \<Longrightarrow> segmentGenerations files = []"
proof -
  show fg: "g \<in> set (segmentGenerations files) \<longleftrightarrow> v (segmentName g) \<noteq> None" for g
    using log files unfolding segmentGenerations_set logOnDisk_def canonicalNames_def
    by (metis domIff isSegmentName_segmentName)
  show "g \<in> set (segmentGenerations files) \<Longrightarrow> g \<noteq> 0xffffffff" using log fg by (auto simp: logOnDisk_def)
  show "electedManifest v = None \<Longrightarrow> segmentGenerations files = []"
    using fg log by (simp add: logOnDisk_def) (metis all_not_in_conv set_empty)
qed

context file_system
begin

lemma loadManifest_log:
  assumes h: "healthy (world s)" and log: "logOnDisk cfg (view (world s)) segs t"
    and gens: "electedManifest (view (world s)) = None \<Longrightarrow> gens = []"
    and act: "activeGenerations s = []" and ng: "nextGen s = 1"
    and rg: "electedManifest (view (world s)) = None \<Longrightarrow> manifestRanges s = []"
  shows "\<exists>w n. loadManifest F gens s = Some (success, s\<lparr>world := w,
      manifestRanges := (case electedManifest (view (world s)) of None \<Rightarrow> [] | Some md \<Rightarrow> ranges md),
      activeGenerations := map segGen segs, nextGen := n\<rparr>)
    \<and> n \<noteq> 0 \<and> healthy w \<and> view w = view (world s)"
proof -
  obtain w where w: "readManifest F s = (electedManifest (view (world s)), s\<lparr>world := w\<rparr>)"
    "healthy w" "view w = view (world s)" using readManifest_healthy [OF h] by blast
  show ?thesis
  proof (cases "electedManifest (view (world s))")
    case None
    then have "segs = []" using log by (simp add: logOnDisk_def manifestMatches_def)
    then show ?thesis
      by (intro exI [of _ w] exI [of _ 1])
        (use None w gens act ng rg in \<open>simp add: loadManifest_def Let_def\<close>)
  next
    case (Some md)
    then have md: "loadable (ranges md)" "nextGeneration md \<noteq> 0"
      "totalGenerations md \<le> ucast kManifestMaxTotalGenerations"
      "manifestGens md = map segGen segs"
      using log by (auto simp: logOnDisk_def manifestMatches_def)
    show ?thesis
      by (intro exI [of _ w] exI [of _ "nextGeneration md"])
        (use Some w md in \<open>simp add: loadManifest_def Let_def applyManifestToRam_eq not_less\<close>)
  qed
qed

text \<open>The second half of \<open>scanSegments\<close>: the byte counts and the removal of a dangling segment.\<close>

lemma scanTotals_healthy:
  assumes h: "healthy (world s)" and p: "\<forall>g \<in> set gens. view (world s) (segmentName g) \<noteq> None"
  shows "\<exists>s3 w b sb mb. totalSegmentFiles F gens (s\<lparr>totalOnDiskBytes := 0\<rparr>) = (success, s3)
    \<and> cleanupOneDanglingSegment F ((totalSlot F SlotB (totalSlot F SlotA s3))
        \<lparr>activeTailDependenciesTracked := True, activeTailAffectedGenerations := aff\<rparr>)
      = s\<lparr>world := w, totalOnDiskBytes := b, sealedSegmentBytes := sb, manifestSlotBytes := mb,
          activeTailDependenciesTracked := True, activeTailAffectedGenerations := aff\<rparr>
    \<and> healthy w \<and> cleaned (activeGenerations s) (view (world s)) (view w)"
proof -
  let ?v = "view (world s)"
  obtain w3 b3 sb3 where t3: "totalSegmentFiles F gens (s\<lparr>totalOnDiskBytes := 0\<rparr>)
      = (success, s\<lparr>world := w3, totalOnDiskBytes := b3, sealedSegmentBytes := sb3\<rparr>)"
      "healthy w3" "view w3 = ?v"
    using totalSegmentFiles_healthy [of "s\<lparr>totalOnDiskBytes := 0\<rparr>" gens] h p by auto
  define s3 where "s3 = s\<lparr>world := w3, totalOnDiskBytes := b3, sealedSegmentBytes := sb3\<rparr>"
  obtain w4 b4 mb4 where t4: "totalSlot F SlotA s3
      = s3\<lparr>world := w4, totalOnDiskBytes := b4, manifestSlotBytes := mb4\<rparr>" "healthy w4" "view w4 = ?v"
    using totalSlot_healthy [of s3 SlotA] t3 by (auto simp: s3_def)
  define s4 where "s4 = s3\<lparr>world := w4, totalOnDiskBytes := b4, manifestSlotBytes := mb4\<rparr>"
  obtain w5 b5 mb5 where t5: "totalSlot F SlotB s4
      = s4\<lparr>world := w5, totalOnDiskBytes := b5, manifestSlotBytes := mb5\<rparr>" "healthy w5" "view w5 = ?v"
    using totalSlot_healthy [of s4 SlotB] t4 by (auto simp: s4_def)
  define s5 where "s5 = s4\<lparr>world := w5, totalOnDiskBytes := b5, manifestSlotBytes := mb5,
      activeTailDependenciesTracked := True, activeTailAffectedGenerations := aff\<rparr>"
  have f5: "activeGenerations s5 = activeGenerations s" "view (world s5) = ?v" "healthy (world s5)"
    using t5 by (simp_all add: s5_def s4_def s3_def)
  obtain w6 b6 sb6 where t6: "cleanupOneDanglingSegment F s5
      = s5\<lparr>world := w6, totalOnDiskBytes := b6, sealedSegmentBytes := sb6\<rparr>"
      "healthy w6" "cleaned (activeGenerations s) ?v (view w6)"
    using cleanup_view [of s5] f5(3) unfolding f5(1,2) cleaned_def by blast
  have "cleanupOneDanglingSegment F ((totalSlot F SlotB (totalSlot F SlotA s3))
        \<lparr>activeTailDependenciesTracked := True, activeTailAffectedGenerations := aff\<rparr>)
      = s\<lparr>world := w6, totalOnDiskBytes := b6, sealedSegmentBytes := sb6, manifestSlotBytes := mb5,
          activeTailDependenciesTracked := True, activeTailAffectedGenerations := aff\<rparr>"
    using t4(1) t5(1) t6(1) by (simp add: s5_def [symmetric] s4_def [symmetric]) (simp add: s5_def s4_def s3_def)
  then show ?thesis using t3(1) t6(2,3) unfolding s3_def by blast
qed

lemma scanSegments_log:
  assumes h: "healthy (world s)" and log: "logOnDisk cfg (view (world s)) segs t"
    and mr: "maxRecordBytes cfg < 4294967272"
    and rg: "electedManifest (view (world s)) = None \<Longrightarrow> manifestRanges s = []"
  shows "\<exists>s'. scanSegments F cfg s = Some (success, s')
    \<and> storeInv cfg (view (world s')) segs (s'\<lparr>mounted := True\<rparr>) \<and> healthy (world s')
    \<and> electedManifest (view (world s')) = electedManifest (view (world s))
    \<and> dom (view (world s')) \<subseteq> dom (view (world s))"
proof -
  let ?v = "view (world s)"
  obtain st files w0 where l: "fs_listFiles F (world s) = ((st, files), w0)"
    by (metis prod.collapse)
  have l': "ok st" "view w0 = ?v" "healthy w0" "set files = dom ?v"
    using list_view [OF l] list_healthy [OF h l] by auto
  define gens where "gens = segmentGenerations files"
  note fg = segmentGenerations_log [OF log l'(4), folded gens_def]
  define s0 where "s0 = resetForScan (s\<lparr>world := w0\<rparr>)"
  have s0: "world s0 = w0" "activeGenerations s0 = []" "nextGen s0 = 1"
    "manifestRanges s0 = manifestRanges s" "records s0 = []" "nextSequence s0 = 0"
    "activeGeneration s0 = 0" "activeSegmentBytes s0 = 0" "cachedWrittenSlot s0 = None"
    by (simp_all add: s0_def resetForScan_def)
  obtain w1 n where ld: "loadManifest F gens s0 = Some (success, s0\<lparr>world := w1,
      manifestRanges := (case electedManifest ?v of None \<Rightarrow> [] | Some md \<Rightarrow> ranges md),
      activeGenerations := map segGen segs, nextGen := n\<rparr>)"
    "n \<noteq> 0" "healthy w1" "view w1 = ?v"
    using loadManifest_log [of s0 cfg segs t gens] l' log fg(3) rg s0 by auto
  define s1 where "s1 = s0\<lparr>world := w1,
      manifestRanges := (case electedManifest ?v of None \<Rightarrow> [] | Some md \<Rightarrow> ranges md),
      activeGenerations := map segGen segs, nextGen := advanceNextGen gens n\<rparr>"
  define sc where "sc = replaySegs segs \<lparr>scOffset = 0, scLastGood = 0, scRecords = records s1,
      scNextSequence = nextSequence s1, scAffected = {}\<rparr>"
  have pre: "healthy (world s1)" "segsOnDisk (view (world s1)) segs t"
      "distinct (map segGen segs)" "\<forall>sg \<in> set segs. segFits cfg sg"
      "segs \<noteq> [] \<longrightarrow> length (segBytes (last segs) @ t) \<le> maxReplayBytes" "tornTail cfg t"
    using log ld by (simp_all add: s1_def logOnDisk_def)
  have vs1: "view (world s1) = ?v" by (simp add: s1_def ld)
  obtain w2 em where sa: "scanActiveSegments F cfg (map segGen segs) {} s1
      = Some ((success, scAffected sc),
      s1\<lparr>world := w2, records := scRecords sc, nextSequence := scNextSequence sc,
        activeGeneration := (if segs = [] then activeGeneration s1 else segGen (last segs)),
        activeSegmentBytes := (if segs = [] then activeSegmentBytes s1 else scOffset sc),
        emitted := em\<rparr>)" "healthy w2" "view w2 = truncated ?v segs"
      "segs \<noteq> [] \<longrightarrow> unat (scOffset sc) = length (segBytes (last segs))"
    using scanActive_log [OF pre mr sc_def] unfolding vs1 truncated_def by blast
  define s2 where "s2 = s1\<lparr>world := w2, records := scRecords sc, nextSequence := scNextSequence sc,
        activeGeneration := (if segs = [] then activeGeneration s1 else segGen (last segs)),
        activeSegmentBytes := (if segs = [] then activeSegmentBytes s1 else scOffset sc),
        emitted := em\<rparr>"
  have v2: "view (world s2) = truncated ?v segs" "healthy (world s2)" "activeGenerations s2 = map segGen segs"
    by (simp_all add: s2_def s1_def sa)
  have p2: "\<forall>g \<in> set gens. view (world s2) (segmentName g) \<noteq> None"
    using fg(1) truncated_dom [OF log] unfolding v2 by (metis domIff)
  obtain s3 w b sb mb where t3: "totalSegmentFiles F gens (s2\<lparr>totalOnDiskBytes := 0\<rparr>) = (success, s3)"
      "cleanupOneDanglingSegment F ((totalSlot F SlotB (totalSlot F SlotA s3))
        \<lparr>activeTailDependenciesTracked := True, activeTailAffectedGenerations := scAffected sc\<rparr>)
      = s2\<lparr>world := w, totalOnDiskBytes := b, sealedSegmentBytes := sb, manifestSlotBytes := mb,
          activeTailDependenciesTracked := True, activeTailAffectedGenerations := scAffected sc\<rparr>"
      "healthy w" and cl: "cleaned (map segGen segs) (truncated ?v segs) (view w)"
    using scanTotals_healthy [OF v2(2) p2, of "scAffected sc"] unfolding v2 by blast
  define s6 where "s6 = s2\<lparr>world := w, totalOnDiskBytes := b, sealedSegmentBytes := sb, manifestSlotBytes := mb,
          activeTailDependenciesTracked := True, activeTailAffectedGenerations := scAffected sc\<rparr>"
  have run: "scanSegments F cfg s = Some (success, s6)"
    unfolding scanSegments_def onWorld_def l
    using l'(1) ld(1) sa(1) t3
    by (simp add: Let_def gens_def [symmetric] s0_def [symmetric] s1_def [symmetric] s2_def [symmetric]
        s6_def [symmetric])
  have log6: "logOnDisk cfg (view w) segs []" by (rule cleaned_log [OF cl logOnDisk_truncate [OF log]])
  have el6: "electedManifest (view w) = electedManifest ?v" using cleaned_elected [OF cl] by simp
  have sub: "dom (view w) \<subseteq> dom ?v" using cleaned_dom [OF cl] truncated_dom [OF log] by simp
  have "view w (segmentName (segGen sg)) \<noteq> None" if "sg \<in> set segs" for sg
    using log6 that segsOnDisk_present [of "view w" segs "[]"] by (simp add: logOnDisk_def)
  then have "\<forall>sg \<in> set segs. segGen sg < advanceNextGen gens n"
    using sub fg(1,2) advanceNextGen_past by (metis domIff subsetD)
  then have "storeInv cfg (view (world s6)) segs (s6\<lparr>mounted := True\<rparr>)"
    unfolding storeInv_def
    using log6 sa(4) el6 advanceNextGen_ge [of n gens] ld(2)
    by (auto simp: cacheWins_def s6_def s2_def sc_def s1_def s0 replaySegs_index split: option.splits)
  then show ?thesis using run t3(3) el6 sub by (auto simp: s6_def)
qed

lemma mountStore_log:
  assumes h: "healthy (world s)" and log: "logOnDisk cfg (view (world s)) segs t"
    and mr: "maxRecordBytes cfg < 4294967272"
    and rg: "electedManifest (view (world s)) = None \<Longrightarrow> manifestRanges s = []"
  shows "\<exists>s'. mountStore F cfg s = Some (success, s')
    \<and> storeInv cfg (view (world s')) segs s' \<and> healthy (world s')
    \<and> electedManifest (view (world s')) = electedManifest (view (world s))
    \<and> dom (view (world s')) \<subseteq> dom (view (world s))"
proof -
  obtain st w where m: "fs_mount F (basePath cfg) (world s) = (st, w)" by fastforce
  have m': "ok st" "healthy w" "view w = view (world s)"
    using mount_healthy [OF h m] mount_view [OF m] by simp_all
  obtain s' where "scanSegments F cfg (s\<lparr>world := w\<rparr>) = Some (success, s')"
    "storeInv cfg (view (world s')) segs (s'\<lparr>mounted := True\<rparr>)" "healthy (world s')"
    "electedManifest (view (world s')) = electedManifest (view (world s))" "dom (view (world s')) \<subseteq> dom (view (world s))"
    using scanSegments_log [of "s\<lparr>world := w\<rparr>" cfg segs t] m' log mr rg by auto
  then show ?thesis
    by (intro exI [of _ "s'\<lparr>mounted := True\<rparr>"])
      (simp add: mountStore_def present onWorld_def m m' Let_def)
qed

end

end
