(* ===== verification/Append_Correct.thy ===== *)
theory Append_Correct
  imports Mount_Correct Store_Ops
begin

text \<open>
  Appending keeps the store's invariant and is crash safe.

  \<open>diskHolds cfg v q\<close> says that the directory \<open>v\<close> holds a log whose replay gives the
  abstract queue \<open>q\<close>; \<open>storeHolds cfg v q s\<close> that the mounted store \<open>s\<close> over it does.  Each
  operation that reports success takes \<open>storeHolds q\<close> to \<open>storeHolds q'\<close>; each that reports
  an error leaves a directory that holds \<open>q\<close> or \<open>q'\<close>.
\<close>

section \<open>Manifests that list a log\<close>

lemma length_rangeGens:
  "startGen r \<le> endGen r \<Longrightarrow> length (rangeGens r) = unat (endGen r) - unat (startGen r) + 1"
  by (simp add: rangeGens_def word_le_nat_alt)

lemma rangeGens_last:
  "startGen r \<le> endGen r \<Longrightarrow> rangeGens r \<noteq> [] \<and> last (rangeGens r) = endGen r"
  by (simp add: rangeGens_def word_le_nat_alt)

lemma rangeGens_single: "rangeGens \<lparr>startGen = g, endGen = g\<rparr> = [g]"
  by (simp add: rangeGens_def)

lemma rangeGens_extend:
  assumes "startGen r \<le> endGen r" "endGen r \<noteq> 0xffffffff" "endGen r + 1 = g"
  shows "rangeGens (r\<lparr>endGen := g\<rparr>) = rangeGens r @ [g]"
  using assms unat_Suc_u32 [OF assms(2)] by (auto simp: rangeGens_def word_le_nat_alt)

lemma concat_rangesWithTail:
  assumes "\<forall>r \<in> set rs. wf_range r" and "loadable rs" and "g \<noteq> 0"
  shows "concat (map rangeGens (rangesWithTail rs g)) = concat (map rangeGens rs) @ [g]"
proof (cases "rs \<noteq> [] \<and> endGen (last rs) + 1 = g")
  case True
  then have l: "last rs \<in> set rs" by simp
  have "concat (map rangeGens rs) = concat (map rangeGens (butlast rs)) @ rangeGens (last rs)"
  proof -
    have "concat (map rangeGens rs) = concat (map rangeGens (butlast rs @ [last rs]))"
      using True by simp
    also have "\<dots> = concat (map rangeGens (butlast rs)) @ rangeGens (last rs)"
      by (simp only: map_append concat_append list.map concat.simps append_Nil2)
    finally show ?thesis .
  qed
  then show ?thesis
    using True assms l by (simp add: rangesWithTail_def rangeGens_extend wf_range_def loadable_def)
next
  case False
  then show ?thesis using assms(3) by (auto simp: rangesWithTail_def rangeGens_single)
qed

lemma rangesWithTail_wf:
  assumes "\<forall>r \<in> set rs. wf_range r" and "g \<noteq> 0" and "loadable rs"
  shows "\<forall>r \<in> set (rangesWithTail rs g). wf_range r"
proof -
  have "wf_range ((last rs)\<lparr>endGen := g\<rparr>)" if "rs \<noteq> []" "endGen (last rs) + 1 = g"
  proof -
    have "wf_range (last rs)" and nm: "endGen (last rs) \<noteq> 0xffffffff"
      using assms that by (auto simp: loadable_def)
    then show ?thesis using that unat_Suc_u32 [OF nm] by (auto simp: wf_range_def word_le_nat_alt)
  qed
  then show ?thesis
    using assms(1,2) by (auto simp: rangesWithTail_def wf_range_def dest: in_set_butlastD)
qed

lemma rangesWithTail_loadable:
  "loadable rs \<Longrightarrow> g \<noteq> 0xffffffff \<Longrightarrow> loadable (rangesWithTail rs g)"
  by (auto simp: loadable_def rangesWithTail_def dest: in_set_butlastD)

text \<open>The 64-bit count of \<open>scanSegments\<close> is the number of generations.\<close>

lemma range_count:
  assumes "wf_range r"
  shows "(ucast (endGen r) - ucast (startGen r) + 1 :: u64) = word_of_nat (length (rangeGens r))"
proof -
  have le: "unat (startGen r) \<le> unat (endGen r)"
    using assms by (simp add: wf_range_def word_le_nat_alt)
  have "(ucast (endGen r) - ucast (startGen r) + 1 :: u64)
      = word_of_nat (unat (endGen r)) - word_of_nat (unat (startGen r)) + 1"
    by (simp add: unsigned_def)
  then show ?thesis
    using le assms by (simp add: length_rangeGens wf_range_def of_nat_diff)
qed

lemma totalGenerations_length:
  assumes "\<forall>r \<in> set (ranges md). wf_range r"
  shows "totalGenerations md = word_of_nat (length (manifestGens md))"
proof -
  have "foldl (\<lambda>acc r. acc + (ucast (endGen r) - ucast (startGen r) + 1)) (a :: u64) rs
      = a + word_of_nat (length (concat (map rangeGens rs)))" if "\<forall>r \<in> set rs. wf_range r" for a rs
    using that by (induction rs arbitrary: a) (simp_all add: range_count add.assoc)
  from this [OF assms] show ?thesis
    by (simp add: totalGenerations_def manifestGens_def)
qed

lemma rangeGens_not_Nil: "wf_range r \<Longrightarrow> rangeGens r \<noteq> []"
  using rangeGens_last by (simp add: wf_range_def)

text \<open>A well-formed manifest that lists no generation has neither ranges nor a tail.\<close>

lemma manifestGens_Nil:
  "wf_manifest md \<Longrightarrow> manifestGens md = [] \<longleftrightarrow> ranges md = [] \<and> tailGeneration md = 0"
  using rangeGens_not_Nil by (cases "ranges md") (auto simp: manifestGens_def wf_manifest_def)

lemma manifestGens_nonzero:
  assumes "wf_manifest md" and "g \<in> set (manifestGens md)"
  shows "g \<noteq> 0"
proof -
  have "unat g \<noteq> 0" if w: "wf_range r" and m: "g \<in> set (rangeGens r)" for r
  proof -
    obtain n where n: "g = word_of_nat n" "unat (startGen r) \<le> n" "n \<le> unat (endGen r)"
      using m by (auto simp: rangeGens_def)
    then have "unat g = n" using u32_bound [of "endGen r"] by (simp add: unat_word_u32)
    then show ?thesis using n w by (auto simp: wf_range_def u32_eq_unat)
  qed
  then show ?thesis
    using assms unfolding manifestGens_def wf_manifest_def
    by (auto simp del: u32_eq_unat split: if_splits) (metis unat_0)+
qed

lemma electedManifest_wf: "electedManifest v = Some md \<Longrightarrow> wf_manifest md"
  using parseManifest_SomeD
  by (cases "slotManifest v SlotA"; cases "slotManifest v SlotB")
    (auto simp: electedManifest_def slotManifest_def bind_eq_Some_conv split: if_splits)

text \<open>The ranges and the tail of the elected manifest of a log that has segments.\<close>

lemma log_manifest:
  assumes "logOnDisk cfg v segs t" and "segs \<noteq> []"
  obtains md where "electedManifest v = Some md" "wf_manifest md" "loadable (ranges md)"
    "concat (map rangeGens (ranges md)) = map segGen (butlast segs)"
    "tailGeneration md = segGen (last segs)" "tailGeneration md \<noteq> 0"
    "totalGenerations md \<le> ucast kManifestMaxTotalGenerations"
proof -
  obtain md where md: "electedManifest v = Some md"
    and g: "manifestGens md = map segGen segs" "loadable (ranges md)"
      "totalGenerations md \<le> ucast kManifestMaxTotalGenerations"
    using assms by (auto simp: logOnDisk_def manifestMatches_def split: option.splits)
  have wf: "wf_manifest md" by (rule electedManifest_wf [OF md])
  have t0: "tailGeneration md \<noteq> 0"
    using g(1) assms(2) wf by (auto simp: manifestGens_def wf_manifest_def)
  have "concat (map rangeGens (ranges md)) @ [tailGeneration md]
      = map segGen (butlast segs) @ [segGen (last segs)]"
  proof -
    have "map segGen segs = map segGen (butlast segs @ [last segs])" using assms(2) by simp
    then have "map segGen segs = map segGen (butlast segs) @ [segGen (last segs)]"
      by (simp only: map_append list.map)
    then show ?thesis using g(1) t0 by (simp add: manifestGens_def)
  qed
  then show thesis using that [OF md wf g(2) _ _ t0 g(3)] by simp
qed

lemma log_gen_nonzero:
  assumes "logOnDisk cfg v segs t" and "sg \<in> set segs"
  shows "segGen sg \<noteq> 0"
proof -
  obtain md where "electedManifest v = Some md" "manifestGens md = map segGen segs"
    using assms by (auto simp: logOnDisk_def manifestMatches_def split: option.splits)
  moreover from this have "wf_manifest md" using electedManifest_wf by blast
  ultimately show ?thesis using manifestGens_nonzero [of md "segGen sg"] assms(2) by auto
qed

section \<open>Changes of the directory that keep the log\<close>

text \<open>A segment file that is not in the manifest may come, go and change.\<close>

lemma logOnDisk_dangling:
  assumes l: "logOnDisk cfg v segs t" and e: "electedManifest v \<noteq> None"
    and g: "g \<notin> segGen ` set segs" "g \<noteq> 0xffffffff"
  shows "logOnDisk cfg (v(segmentName g := x)) segs t"
proof -
  have "canonicalNames (v(segmentName g := x))"
    using l by (auto simp: logOnDisk_def canonicalNames_def)
  then show ?thesis using l e g by (auto simp: logOnDisk_def)
qed

lemma onlySlots_segment: "onlySlotsChange v v' \<Longrightarrow> v' (segmentName g) = v (segmentName g)"
  by (simp add: onlySlotsChange_def)

lemma canonicalNames_slots: "onlySlotsChange v v' \<Longrightarrow> canonicalNames v \<Longrightarrow> canonicalNames v'"
  unfolding canonicalNames_def onlySlotsChange_def
  by (metis isSegmentName_slot option.distinct(1))

lemma segsOnDisk_slots: "onlySlotsChange v v' \<Longrightarrow> segsOnDisk v' segs t = segsOnDisk v segs t"
  by (rule segsOnDisk_cong) (simp add: onlySlots_segment)

lemma logOnDisk_slots:
  assumes "logOnDisk cfg v segs t" and "onlySlotsChange v v'"
    and "manifestMatches (electedManifest v') segs" and "electedManifest v' \<noteq> None"
  shows "logOnDisk cfg v' segs t"
  using assms
  by (auto simp: logOnDisk_def segsOnDisk_slots onlySlots_segment intro: canonicalNames_slots)

lemma segsOnDisk_append:
  "segsOnDisk v (xs @ ys) [] \<longleftrightarrow> segsOnDisk v xs [] \<and> segsOnDisk v ys []"
  by (induction xs) auto

text \<open>Index entries of the log do not notice changes to other files.\<close>

lemma denotesAll_cong:
  assumes "denotesAll v rs xs"
    and "\<And>r. r \<in> set rs \<Longrightarrow> v' (segmentName (srGeneration r)) = v (segmentName (srGeneration r))"
  shows "denotesAll v' rs xs"
  using assms by (induction rule: list_all2_induct) (auto simp: denotes_def)

section \<open>What a crash may leave\<close>

definition diskHolds :: "append_log_config \<Rightarrow> (string \<Rightarrow> bytes option) \<Rightarrow> abs_queue \<Rightarrow> bool" where
  "diskHolds cfg v q \<longleftrightarrow>
     (\<exists>segs t. logOnDisk cfg v segs t \<and> orderedLog (locSegs segs) []
        \<and> absEvents (logEvents segs) [] = q)"

definition storeHolds ::
  "append_log_config \<Rightarrow> (string \<Rightarrow> bytes option) \<Rightarrow> abs_queue \<Rightarrow> 'w store \<Rightarrow> bool" where
  "storeHolds cfg v q s \<longleftrightarrow>
     (\<exists>segs. storeInv cfg v segs s \<and> orderedLog (locSegs segs) []
        \<and> absEvents (logEvents segs) [] = q)"

lemma storeHolds_disk: "storeHolds cfg v q s \<Longrightarrow> diskHolds cfg v q"
  by (auto simp: storeHolds_def diskHolds_def storeInv_def)

section \<open>Rotation\<close>

text \<open>The manifest a rotation publishes, and the log it lists.\<close>

definition rotatedManifest :: "manifest_range list \<Rightarrow> u32 \<Rightarrow> u32 \<Rightarrow> manifest_data" where
  "rotatedManifest rs oldTailGen newGen =
     default_manifest\<lparr>ranges := rangesWithTail rs oldTailGen, tailGeneration := newGen,
       nextGeneration := newGen + 1\<rparr>"

lemma rotatedManifest_simps [simp]:
  "ranges (rotatedManifest rs t g) = rangesWithTail rs t"
  "tailGeneration (rotatedManifest rs t g) = g" "nextGeneration (rotatedManifest rs t g) = g + 1"
  by (simp_all add: rotatedManifest_def)

lemma u32_Suc_nonzero: "(x :: u32) \<noteq> 0xffffffff \<Longrightarrow> x + 1 \<noteq> 0"
  using unat_Suc_u32 [of x] by (auto simp del: unat_eq_zero)

lemma rotatedManifest_matches:
  assumes l: "logOnDisk cfg v segs t" and ne: "segs \<noteq> []" and n: "length segs < 1025"
    and md: "electedManifest v = Some md"
    and g: "g \<noteq> 0" "g \<noteq> 0xffffffff" and lt: "\<forall>sg \<in> set segs. segGen sg < g"
    and len: "length (rangesWithTail (ranges md) (segGen (last segs))) \<le> 1024"
  shows "wf_manifest (rotatedManifest (ranges md) (segGen (last segs)) g)"
    and "manifestMatches (Some ((rotatedManifest (ranges md) (segGen (last segs)) g)\<lparr>epoch := e\<rparr>))
       (segs @ [(g, ss, [])])"
proof -
  let ?t = "segGen (last segs)"
  let ?m = "rotatedManifest (ranges md) ?t g"
  have wf: "wf_manifest md" and ld: "loadable (ranges md)" and t0: "?t \<noteq> 0"
    and cg: "concat (map rangeGens (ranges md)) = map segGen (butlast segs)"
    using log_manifest [OF l ne] md by auto
  have wr: "\<forall>r \<in> set (ranges md). wf_range r" using wf by (simp add: wf_manifest_def)
  have "?t < g" using lt ne by simp
  then have tmax: "?t \<noteq> 0xffffffff" by (metis leD u32_le_max)
  show wfm: "wf_manifest ?m"
    using rangesWithTail_wf [OF wr t0 ld] len g by (simp add: wf_manifest_def)
  have "map segGen segs = map segGen (butlast segs) @ [?t]"
    using ne by (metis append_butlast_last_id list.simps(8,9) map_append)
  then have gens: "manifestGens ?m = map segGen segs @ [g]"
    using concat_rangesWithTail [OF wr ld t0] g by (simp add: manifestGens_def cg)
  have "totalGenerations ?m = word_of_nat (length segs + 1)"
    using totalGenerations_length [of ?m] wfm by (simp add: gens wf_manifest_def)
  moreover have "unat (word_of_nat (length segs + 1) :: u64) = length segs + 1"
    using n by (subst unat_of_nat) simp
  then have "(word_of_nat (length segs + 1) :: u64) \<le> ucast kManifestMaxTotalGenerations"
    using n unfolding word_le_nat_alt
    by (simp add: kManifestMaxTotalGenerations_def kManifestMaxRanges_def)
  moreover have "totalGenerations (?m\<lparr>epoch := e\<rparr>) = totalGenerations ?m"
    by (simp add: totalGenerations_def)
  ultimately show "manifestMatches (Some (?m\<lparr>epoch := e\<rparr>)) (segs @ [(g, ss, [])])"
    using rangesWithTail_loadable [OF ld tmax] g gens u32_Suc_nonzero
    by (simp add: manifestMatches_def)
qed

lemma length_header_seg [simp]: "segBytes (g, ss, []) = serializeSegmentHeader g ss"
  by (simp add: segBytes_def)

lemma logOnDisk_newSegment:
  assumes l: "logOnDisk cfg v segs t" and t: "t = []"
    and v1: "v1 = v(segmentName g := Some (serializeSegmentHeader g ss))"
    and o: "onlySlotsChange v1 v2"
    and m: "manifestMatches (electedManifest v2) (segs @ [(g, ss, [])])"
    and e: "electedManifest v2 \<noteq> None"
    and g: "g \<notin> segGen ` set segs" "g \<noteq> 0xffffffff"
  shows "logOnDisk cfg v2 (segs @ [(g, ss, [])]) []"
proof -
  have "segsOnDisk v1 (segs @ [(g, ss, [])]) []"
    using l g t by (simp add: segsOnDisk_append v1 logOnDisk_def)
  moreover have "canonicalNames v1"
    using l by (auto simp: v1 logOnDisk_def canonicalNames_def)
  moreover have "v1 (segmentName 0xffffffff) = None" using l g by (auto simp: v1 logOnDisk_def)
  ultimately show ?thesis
    using l m e g o canonicalNames_slots [OF o]
    by (auto simp: logOnDisk_def segsOnDisk_slots [OF o] onlySlots_segment [OF o] segFits_def)
qed

context readable_file_system
begin

lemma readable_after_tryRead: "readable (world s) \<Longrightarrow> readable (world (snd (tryRead F sl s)))"
  using readable_read [of "world s" "slotName sl"]
  by (auto simp: tryRead_def onWorld_def split: prod.splits)

lemma tryRead_readable:
  assumes "readable (world s)"
  shows "fst (tryRead F sl s) = slotManifest (view (world s)) sl"
proof -
  obtain st d w where e: "fs_readFile F (slotName sl) (world s) = ((st, d), w)"
    by (metis prod.collapse)
  show ?thesis using readable_read [OF assms e] read_view [OF e]
    by (cases "ok st") (auto simp: tryRead_def onWorld_def e slotManifest_def)
qed

lemma slotExists_readable:
  assumes "readable (world s)"
  shows "fst (slotExists F sl s) \<longleftrightarrow> view (world s) (slotName sl) \<noteq> None"
    and "readable (world (snd (slotExists F sl s)))"
    and "view (world (snd (slotExists F sl s))) = view (world s)"
proof -
  obtain st d w where e: "fs_fileSize F (slotName sl) (world s) = ((st, d), w)"
    by (metis prod.collapse)
  show "fst (slotExists F sl s) \<longleftrightarrow> view (world s) (slotName sl) \<noteq> None"
    and "readable (world (snd (slotExists F sl s)))"
    and "view (world (snd (slotExists F sl s))) = view (world s)"
    using readable_size [OF assms e] size_view [OF e]
    by (auto simp: slotExists_def onWorld_def e)
qed

lemma tryRead_view_snd: "view (world (snd (tryRead F sl s))) = view (world s)"
  using tryRead_view [of sl s "fst (tryRead F sl s)" "snd (tryRead F sl s)"] by auto

text \<open>When no read fails, the slow path sees the slots as they are.\<close>

lemma probeSlots_readable:
  assumes "readable (world s)"
  shows "fst (probeSlots F s) = idealTarget (view (world s))"
    and "readable (world (snd (probeSlots F s)))"
proof -
  define s1 where "s1 = snd (slotExists F SlotA s)"
  define s2 where "s2 = snd (slotExists F SlotB s1)"
  define eA where "eA = fst (slotExists F SlotA s)"
  define eB where "eB = fst (slotExists F SlotB s1)"
  define s3 where "s3 = (if eA then snd (tryRead F SlotA s2) else s2)"
  define s4 where "s4 = (if eB then snd (tryRead F SlotB s3) else s3)"
  define mA where "mA = (if eA then fst (tryRead F SlotA s2) else None)"
  define mB where "mB = (if eB then fst (tryRead F SlotB s3) else None)"
  note r1 = slotExists_readable [OF assms, of SlotA, folded s1_def eA_def]
  note r2 = slotExists_readable [OF r1(2), of SlotB, folded s2_def eB_def]
  have r3: "readable (world s3)" "view (world s3) = view (world s)"
    using r1 r2 readable_after_tryRead tryRead_view_snd by (auto simp: s3_def)
  have r4: "readable (world s4)" using r3 readable_after_tryRead by (auto simp: s4_def)
  have m: "mA = slotManifest (view (world s)) SlotA" "mB = slotManifest (view (world s)) SlotB"
    using tryRead_readable [of s2 SlotA] tryRead_readable [of s3 SlotB] r1 r2 r3
    by (auto simp: mA_def mB_def slotManifest_def)
  have p: "probeSlots F s = ((chooseInactiveSlot eA (mA \<noteq> None) (slotEpoch mA) eB (mB \<noteq> None)
      (slotEpoch mB), case chooseWinningSlot mA mB of None \<Rightarrow> 0 | Some w \<Rightarrow> epoch w), s4)"
    by (simp add: probeSlots_def case_prod_beta Let_def s1_def s2_def s3_def s4_def eA_def eB_def
        mA_def mB_def)
  show "fst (probeSlots F s) = idealTarget (view (world s))"
    using r1 r2 by (simp add: p m idealTarget_def electedEpoch_def electedManifest_def)
  show "readable (world (snd (probeSlots F s)))" using r4 by (simp add: p)
qed

lemma probeExact_readable: "readable (world s) \<Longrightarrow> probeExact F (view (world s)) s"
  by (simp add: probeExact_def probeSlots_readable)

lemma writeTracked_readable:
  assumes w: "writeSegmentFileTracked F name d disposition s = (st, s')" and r: "readable (world s)"
  shows "readable (world s')"
proof -
  obtain w1 st0 w2 where s: "w1 = world s \<or> w1 = snd (fs_fileSize F name (world s))"
    "fs_writeFile F name d w1 = (st0, w2)"
    and c: "\<not> ok st \<longrightarrow> s' = s\<lparr>world := w2\<rparr>"
      "ok st \<longrightarrow> st = success \<and> (\<exists>t. s' = s\<lparr>world := w2, totalOnDiskBytes := t,
        sealedSegmentBytes := (case isSegmentName name of None \<Rightarrow> sealedSegmentBytes s
          | Some gen \<Rightarrow> (sealedSegmentBytes s)(gen := Some (word_of_nat (length d))))\<rparr>)"
    using writeSegmentFileTracked_shape [OF w] by blast
  have w2: "world s' = w2" using c by (cases "ok st") auto
  have "readable w1" using s(1) r readable_size [OF r, of name] by (metis prod.collapse)
  from readable_write [OF this s(2)] w2 show ?thesis by simp
qed

lemma publishManifest_readable:
  assumes p: "publishManifest F m s = Some (st, s')" and r: "readable (world s)"
  shows "readable (world s')"
proof -
  obtain t e s1 where t: "publishTarget F s = ((t, e), s1)" by (metis prod.collapse)
  have r1: "readable (world s1)"
    using t r probeSlots_readable(2) [OF r] by (auto simp: publishTarget_def split: option.splits)
  show ?thesis
    using p r1 writeTracked_readable
    by (auto simp: publishManifest_def present t Let_def applyManifestToRam_eq
        split: option.splits prod.splits if_splits)
qed

end

lemma locSegs_newSegment [simp]: "locSegs (segs @ [(g, ss, [])]) = locSegs segs"
  by simp

text \<open>Publishing a manifest that lists a new, empty segment behind the log and making it active.\<close>

lemma activated_storeInv:
  assumes inv: "storeInv cfg v segs s" and g: "nextGen s \<noteq> 0xffffffff"
    and m: "nextGeneration m = nextGen s + 1" "manifestGens m = map segGen (segs @ [(nextGen s, ss, [])])"
    and s1: "s1 = s\<lparr>world := w, totalOnDiskBytes := b, sealedSegmentBytes := sb\<rparr>"
    and pub: "published m s1 s2" and cw: "cacheWins v2 s2"
    and e2: "electedManifest v2 = Some (m\<lparr>epoch := e\<rparr>)"
    and log: "logOnDisk cfg v2 (segs @ [(nextGen s, ss, [])]) []"
  shows "storeInv cfg v2 (segs @ [(nextGen s, ss, [])]) (activateSegment (nextGen s) s2)"
    and "records (activateSegment (nextGen s) s2) = records s"
    and "manifestRanges (activateSegment (nextGen s) s2) = ranges m"
    and "nextGen (activateSegment (nextGen s) s2) = nextGen s + 1"
    and "world (activateSegment (nextGen s) s2) = world s2"
proof -
  obtain w2 b2 sl ep mb where s2: "s2 = s1\<lparr>world := w2, totalOnDiskBytes := b2, manifestRanges := ranges m,
      activeGenerations := manifestGens m, nextGen := nextGeneration m, cachedWrittenSlot := Some sl,
      cachedWrittenEpoch := ep, manifestSlotBytes := mb\<rparr>"
    using pub unfolding published_def by blast
  have "\<forall>sg \<in> set (segs @ [(nextGen s, ss, [])]). segGen sg < nextGen s + 1"
    using inv unat_Suc_u32 [OF g] by (auto simp: storeInv_def word_less_nat_alt intro: less_SucI)
  moreover have "cacheWins v2 (activateSegment (nextGen s) s2)"
    using cw by (simp add: cacheWins_def activateSegment_def)
  ultimately show "storeInv cfg v2 (segs @ [(nextGen s, ss, [])]) (activateSegment (nextGen s) s2)"
    using inv log e2 m u32_Suc_nonzero [OF g]
    by (auto simp: storeInv_def activateSegment_def s2 s1 kSegmentHeaderBytes_def)
qed (use pub m(1) s1 in \<open>auto simp: published_def activateSegment_def\<close>)

context readable_file_system
begin

text \<open>After a new segment file was created the store is ready to publish its manifest.\<close>

lemma createSegment_ok:
  assumes c: "createSegment F g ss s = (st, s1)" and "ok st" and r: "readable (world s)"
    and cw: "cacheWins (view (world s)) s" and em: "electedEpoch (view (world s)) \<noteq> 0xffffffff"
  shows "\<exists>w b sb. s1 = s\<lparr>world := w, totalOnDiskBytes := b, sealedSegmentBytes := sb\<rparr>
      \<and> view w = (view (world s))(segmentName g := Some (serializeSegmentHeader g ss))"
    and "readable (world s1)" and "cacheWins (view (world s1)) s1" and "probeExact F (view (world s1)) s1"
    and "electedManifest (view (world s1)) = electedManifest (view (world s))"
    and "electedEpoch (view (world s1)) \<noteq> 0xffffffff"
proof -
  note c' = c [unfolded createSegment_def]
  obtain w b sb where s1: "s1 = s\<lparr>world := w, totalOnDiskBytes := b, sealedSegmentBytes := sb\<rparr>"
      "view w = (view (world s))(segmentName g := Some (serializeSegmentHeader g ss))"
    using writeTracked_ok [OF c' assms(2)] by auto
  then show "\<exists>w b sb. s1 = s\<lparr>world := w, totalOnDiskBytes := b, sealedSegmentBytes := sb\<rparr>
      \<and> view w = (view (world s))(segmentName g := Some (serializeSegmentHeader g ss))" by blast
  show "readable (world s1)" by (rule writeTracked_readable [OF c' r])
  then show "probeExact F (view (world s1)) s1" by (rule probeExact_readable)
  show e: "electedManifest (view (world s1)) = electedManifest (view (world s))" by (simp add: s1)
  then show "electedEpoch (view (world s1)) \<noteq> 0xffffffff" using em by (simp add: electedEpoch_def)
  show "cacheWins (view (world s1)) s1"
    using cw e by (simp add: cacheWins_def s1 electedEpoch_def slotManifest_def)
qed

lemma rotateSegment_cases:
  assumes inv: "storeInv cfg (view (world s)) segs s" and r: "readable (world s)"
    and ne: "segs \<noteq> []" and n: "length segs < 1025" and gm: "nextGen s \<noteq> 0xffffffff"
    and em: "electedEpoch (view (world s)) \<noteq> 0xffffffff"
    and run: "rotateSegment F s = Some (st, s')"
  obtains (rotated) ss where "ok st" "readable (world s')"
      "storeInv cfg (view (world s')) (segs @ [(nextGen s, ss, [])]) s'" "records s' = records s"
      "manifestRanges s' = rangesWithTail (manifestRanges s) (segGen (last segs))"
      "nextGen s' = nextGen s + 1" "electedEpoch (view (world s')) = electedEpoch (view (world s)) + 1"
  | (failed) segs' where "\<not> ok st" "logOnDisk cfg (view (world s')) segs' []"
      "locSegs segs' = locSegs segs"
proof -
  let ?v = "view (world s)" and ?g = "nextGen s" and ?t = "segGen (last segs)"
  have l: "logOnDisk cfg ?v segs []" and cw: "cacheWins ?v s" and mt: "mounted s"
    and ag: "activeGeneration s = ?t" and g0: "?g \<noteq> 0"
    and lt: "\<forall>sg \<in> set segs. segGen sg < ?g"
    and idx: "records s = indexLog (locSegs segs) []"
    using inv ne by (auto simp: storeInv_def)
  obtain md where md: "electedManifest ?v = Some md" "wf_manifest md" "tailGeneration md = ?t"
    "?t \<noteq> 0" using log_manifest [OF l ne] by metis
  have mr: "manifestRanges s = ranges md" using inv md by (simp add: storeInv_def)
  have gn: "?g \<notin> segGen ` set segs" using lt by auto
  let ?m = "rotatedManifest (ranges md) ?t ?g"
  define s0 where "s0 = s\<lparr>sealedSegmentBytes := (sealedSegmentBytes s)(?t := Some (activeSegmentBytes s))\<rparr>"
  define ss where "ss = baseSequence s"
  obtain st1 s1 where c: "createSegment F ?g ss s0 = (st1, s1)" by fastforce
  show thesis
  proof (cases "length (rangesWithTail (ranges md) ?t) \<le> 1024")
    case False
    then have "st = failure RangeLimitExceeded
        ''segment range limit exceeded; compaction required before rollover''" "s' = s"
      using run by (simp_all add: rotateSegment_def mr ag kManifestMaxRanges_def)
    then show thesis using l by (intro failed [of segs]) simp_all
  next
    case len: True
    note wfm = rotatedManifest_matches [OF l ne n md(1) g0 gm lt len]
    have step: "(if \<not> ok st1 then Some (st1, s1) else do {
        (st, s) \<leftarrow> publishManifest F ?m s1;
        if \<not> ok st then Some (st, s) else Some (success, activateSegment ?g s) }) = Some (st, s')"
      using run len md(4) c by (simp add: rotateSegment_def mr ag kManifestMaxRanges_def
          rotatedManifest_def s0_def ss_def Let_def not_less split: if_splits)
    show thesis
    proof (cases "ok st1")
      case False
      obtain w x where s1: "s1 = s0\<lparr>world := w\<rparr>" "view w = ?v(segmentName ?g := x)"
        using writeTracked_fail [OF c [unfolded createSegment_def] False]
        by (auto simp: s0_def partialWrite_def)
      have "logOnDisk cfg (view w) segs []"
        unfolding s1(2) using md(1) by (intro logOnDisk_dangling [OF l _ gn gm]) simp
      then show thesis using step False s1(1) by (intro failed [of segs]) auto
    next
      case True
      define v1 where "v1 = ?v(segmentName ?g := Some (serializeSegmentHeader ?g ss))"
      have ready: "readable (world s0)" "cacheWins (view (world s0)) s0"
          "electedEpoch (view (world s0)) \<noteq> 0xffffffff"
        using r cw em by (simp_all add: s0_def cacheWins_def)
      note cr = createSegment_ok [OF c True ready]
      obtain w b sb where s1: "s1 = s\<lparr>world := w, totalOnDiskBytes := b, sealedSegmentBytes := sb\<rparr>" "view w = v1"
        using cr(1) by (auto simp: s0_def v1_def)
      have ev1: "electedManifest (view (world s1)) = Some md" using cr(5) md(1) by (simp add: s0_def)
      obtain st2 s2 where p: "publishManifest F ?m s1 = Some (st2, s2)"
        using step True by (cases "publishManifest F ?m s1") auto
      have fin: "st = (if ok st2 then success else st2)"
        "s' = (if ok st2 then activateSegment ?g s2 else s2)"
        using step True p by (auto split: if_splits)
      have new: "logOnDisk cfg v2 (segs @ [(?g, ss, [])]) []"
        if "onlySlotsChange (view (world s1)) v2" "electedManifest v2 = Some (?m\<lparr>epoch := e\<rparr>)" for v2 e
        using that wfm(2) s1 by (intro logOnDisk_newSegment [OF l refl v1_def _ _ _ gn gm]) auto
      from publish_cases [OF p cr(4,3,6) wfm(1)] show thesis
      proof cases
        case (1 e)
        have gens: "manifestGens ?m = map segGen (segs @ [(?g, ss, [])])"
          using wfm(2) by (simp add: manifestMatches_def)
        note act = activated_storeInv [OF inv gm _ gens s1(1) 1(2,7,4) new [OF 1(6,4)]]
        have "electedEpoch (view (world s2)) = electedEpoch ?v + 1"
          using 1(4,5) ev1 md(1) by (simp add: electedEpoch_def)
        then show thesis
          using act fin 1(1) publishManifest_readable [OF p cr(2)] mr by (intro rotated [of ss]) simp_all
      next
        case (2 w2)
        note unpublished = 2
        have s': "world s' = w2" "\<not> ok st" using fin unpublished(1,2) by auto
        from unpublished(3) consider "electedManifest (view w2) = Some md"
          | e where "electedManifest (view w2) = Some (?m\<lparr>epoch := e\<rparr>)"
          by (auto simp: ev1)
        then show thesis
        proof cases
          case 1
          have l1: "logOnDisk cfg v1 segs []"
            unfolding v1_def using md(1) by (intro logOnDisk_dangling [OF l _ gn gm]) simp
          then have "logOnDisk cfg (view w2) segs []"
            using unpublished(4) ev1 1 by (intro logOnDisk_slots [OF l1]) (auto simp: logOnDisk_def s1)
          then show thesis using s' that(2) [of segs] by simp
        next
          case 2
          then have "logOnDisk cfg (view w2) (segs @ [(?g, ss, [])]) []" by (intro new [OF unpublished(4)])
          then show thesis using s' that(2) [of "segs @ [(?g, ss, [])]"] by simp
        qed
      qed
    qed
  qed
qed

end

section \<open>The first segment\<close>

lemma logOnDisk_first:
  assumes c: "canonicalNames v" "v (segmentName 0xffffffff) = None"
    and v1: "v1 = v(segmentName g := Some (serializeSegmentHeader g ss))"
    and o: "onlySlotsChange v1 v2" and g: "g \<noteq> 0xffffffff"
    and e: "electedManifest v2 \<noteq> None" "manifestMatches (electedManifest v2) [(g, ss, [])]"
  shows "logOnDisk cfg v2 [(g, ss, [])] []"
proof -
  have "canonicalNames v1" using c by (auto simp: v1 canonicalNames_def)
  then show ?thesis
    using c e g canonicalNames_slots [OF o]
    by (auto simp: logOnDisk_def onlySlots_segment [OF o] v1 segFits_def)
qed

context readable_file_system
begin

lemma ensureActiveSegment_first:
  assumes inv: "storeInv cfg (view (world s)) [] s" and r: "readable (world s)"
    and gm: "nextGen s \<noteq> 0xffffffff" and em: "electedEpoch (view (world s)) \<noteq> 0xffffffff"
    and run: "ensureActiveSegment F q s = Some (st, s')" and ok: "ok st"
  obtains ss where "storeInv cfg (view (world s')) [(nextGen s, ss, [])] s'" "readable (world s')"
    "records s' = records s" "nextGen s' = nextGen s + 1" "manifestRanges s' = []"
    "electedManifest (view (world s')) = Some (default_manifest\<lparr>ranges := [],
       tailGeneration := nextGen s, nextGeneration := nextGen s + 1,
       epoch := electedEpoch (view (world s)) + 1\<rparr>)"
proof -
  let ?v = "view (world s)" and ?g = "nextGen s"
  have l: "logOnDisk cfg ?v [] []" and cw: "cacheWins ?v s" and mt: "mounted s"
    and ab: "activeSegmentBytes s = 0" and g0: "?g \<noteq> 0" and rs: "records s = []"
    using inv by (auto simp: storeInv_def u32_eq_unat)
  have mr: "manifestRanges s = []"
  proof (cases "electedManifest ?v")
    case (Some md)
    then have "manifestGens md = []" using l by (simp add: logOnDisk_def manifestMatches_def)
    then show ?thesis
      using inv Some manifestGens_Nil [OF electedManifest_wf [OF Some]] by (simp add: storeInv_def)
  qed (use inv in \<open>simp add: storeInv_def\<close>)
  let ?m = "default_manifest\<lparr>ranges := [], tailGeneration := ?g, nextGeneration := ?g + 1\<rparr>"
  have wfm: "wf_manifest ?m" by (simp add: wf_manifest_def)
  have mm: "manifestMatches (Some (?m\<lparr>epoch := e\<rparr>)) [(?g, q, [])]" for e
    using g0 u32_Suc_nonzero [OF gm]
    by (simp add: manifestMatches_def loadable_def totalGenerations_def manifestGens_def
        kManifestMaxTotalGenerations_def kManifestMaxRanges_def)
  obtain st1 s1 where c: "createSegment F ?g q s = (st1, s1)" by fastforce
  have ok1: "ok st1"
    using run ok ab c by (auto simp: ensureActiveSegment_def mr Let_def split: if_splits)
  define v1 where "v1 = ?v(segmentName ?g := Some (serializeSegmentHeader ?g q))"
  note cr = createSegment_ok [OF c ok1 r cw em]
  obtain w b sb where s1: "s1 = s\<lparr>world := w, totalOnDiskBytes := b, sealedSegmentBytes := sb\<rparr>" "view w = v1"
    using cr(1) by (auto simp: v1_def)
  obtain st2 s2 where p: "publishManifest F ?m s1 = Some (st2, s2)"
    and fin: "ok st2" "s' = activateSegment ?g s2"
    using run ok ab c ok1
    by (cases "publishManifest F ?m s1")
      (auto simp: ensureActiveSegment_def mr s1 Let_def split: if_splits)
  from publish_cases [OF p cr(4,3,6) wfm] show thesis
  proof cases
    case (1 e)
    have gens: "manifestGens ?m = map segGen ([] @ [(?g, q, [])])"
      using g0 by (simp add: manifestGens_def segGen_def)
    have "logOnDisk cfg (view (world s2)) [(?g, q, [])] []"
      using l 1(4,6) mm [of e] by (intro logOnDisk_first [OF _ _ v1_def _ gm]) (auto simp: logOnDisk_def s1)
    then have log: "logOnDisk cfg (view (world s2)) ([] @ [(?g, q, [])]) []" by simp
    have ng: "nextGeneration ?m = nextGen s + 1" by simp
    note act = activated_storeInv [OF inv gm ng gens s1(1) 1(2,7,4) log]
    have "e = electedEpoch ?v + 1" using 1(5) cr(5) by (simp add: electedEpoch_def)
    then show thesis
      using act 1(4) publishManifest_readable [OF p cr(2)] by (intro that [of q]) (simp_all add: fin(2))
  next
    case (2 w2)
    then show thesis using fin by simp
  qed
qed

end

section \<open>Appending one event\<close>

definition appendToLog :: "segment list \<Rightarrow> log_event \<Rightarrow> segment list" where
  "appendToLog segs ev =
     butlast segs @ [(segGen (last segs), fst (snd (last segs)), segEvents (last segs) @ [ev])]"

lemma appendToLog_events: "segs \<noteq> [] \<Longrightarrow> logEvents (appendToLog segs ev) = logEvents segs @ [ev]"
proof -
  assume "segs \<noteq> []"
  then have "logEvents segs = logEvents (butlast segs @ [last segs])" by simp
  then show ?thesis by (simp only: appendToLog_def logEvents_simps) simp
qed

lemma appendToLog_loc:
  assumes "segs \<noteq> []"
  shows "locSegs (appendToLog segs ev)
    = locSegs segs @ [(segGen (last segs), word_of_nat (length (segBytes (last segs))), ev)]"
proof -
  have "locSegs segs = locSegs (butlast segs @ [last segs])" using assms by simp
  then show ?thesis
    by (simp only: appendToLog_def locSegs_simps)
      (simp add: locate_append length_segBytes kSegmentHeaderBytes_def)
qed

lemma appendToLog_gens: "segs \<noteq> [] \<Longrightarrow> map segGen (appendToLog segs ev) = map segGen segs"
proof -
  assume "segs \<noteq> []"
  then have "map segGen segs = map segGen (butlast segs @ [last segs])" by simp
  then show ?thesis by (simp only: appendToLog_def map_append) simp
qed

lemma appendToLog_last:
  "segBytes (last (appendToLog segs ev)) = segBytes (last segs) @ encodeEvent ev"
  "segGen (last (appendToLog segs ev)) = segGen (last segs)"
  by (cases "last segs"; simp add: appendToLog_def segBytes_def segEvents_def)+

lemma segsOnDisk_last:
  "segs \<noteq> [] \<Longrightarrow> distinct (map segGen segs) \<Longrightarrow>
   segsOnDisk v segs t \<longleftrightarrow>
     segsOnDisk v (butlast segs) [] \<and> v (segmentName (segGen (last segs))) = Some (segBytes (last segs) @ t)"
  by (induction segs) auto

lemma appendToLog_butlast: "segs \<noteq> [] \<Longrightarrow> butlast (appendToLog segs ev) = butlast segs"
  by (simp add: appendToLog_def)

lemma appendToLog_not_Nil [simp]: "appendToLog segs ev \<noteq> []"
  by (simp add: appendToLog_def)

lemma last_not_in_butlast:
  assumes "distinct (map f xs)" and "xs \<noteq> []"
  shows "f (last xs) \<notin> f ` set (butlast xs)"
proof -
  have "distinct (map f (butlast xs @ [last xs]))" using assms by simp
  then have "distinct (map f (butlast xs) @ [f (last xs)])" by (simp only: map_append list.map)
  then show ?thesis by simp
qed

text \<open>The bytes after the last complete event are replaced by torn bytes, or by one more event.\<close>

lemma logOnDisk_tear:
  assumes l: "logOnDisk cfg v segs t0" and ne: "segs \<noteq> []" and t: "tornTail cfg t"
    and sz: "length (segBytes (last segs) @ t) \<le> maxReplayBytes"
  shows "logOnDisk cfg (v(segmentName (segGen (last segs)) := Some (segBytes (last segs) @ t))) segs t"
proof -
  let ?g = "segGen (last segs)"
  have d: "distinct (map segGen segs)" using l by (simp add: logOnDisk_def)
  have p: "v (segmentName ?g) \<noteq> None"
    using l ne by (intro segsOnDisk_present [of v segs t0]) (auto simp: logOnDisk_def)
  have gm: "?g \<noteq> 0xffffffff" using p l by (auto simp: logOnDisk_def)
  have em: "electedManifest v \<noteq> None" using p l by (auto simp: logOnDisk_def)
  have "?g \<notin> segGen ` set (butlast segs)"
    by (rule last_not_in_butlast [OF d ne])
  then have "segsOnDisk (v(segmentName ?g := Some (segBytes (last segs) @ t))) segs t"
    using l by (simp add: segsOnDisk_last [OF ne d] logOnDisk_def)
  moreover have "canonicalNames (v(segmentName ?g := Some (segBytes (last segs) @ t)))"
    using l by (auto simp: logOnDisk_def canonicalNames_def)
  ultimately show ?thesis using l ne sz t gm em by (auto simp: logOnDisk_def)
qed

lemma manifestMatches_gens:
  "map segGen segs = map segGen segs' \<Longrightarrow> manifestMatches m segs = manifestMatches m segs'"
  by (cases m) (auto simp: manifestMatches_def)

lemma logOnDisk_append:
  assumes l: "logOnDisk cfg v segs t0" and ne: "segs \<noteq> []" and f: "eventFits cfg ev"
    and sz: "length (segBytes (last segs)) + eventSize ev \<le> maxReplayBytes"
  shows "logOnDisk cfg (v(segmentName (segGen (last segs))
      := Some (segBytes (last segs) @ encodeEvent ev))) (appendToLog segs ev) []"
proof -
  let ?g = "segGen (last segs)" and ?l = "appendToLog segs ev"
  let ?v = "v(segmentName ?g := Some (segBytes (last segs) @ encodeEvent ev))"
  have e: "map segGen ?l = map segGen segs" by (rule appendToLog_gens [OF ne])
  have d: "distinct (map segGen segs)" using l by (simp add: logOnDisk_def)
  have p: "v (segmentName ?g) \<noteq> None"
    using l ne by (intro segsOnDisk_present [of v segs t0]) (auto simp: logOnDisk_def)
  have gm: "?g \<noteq> 0xffffffff" using p l by (auto simp: logOnDisk_def)
  have em: "electedManifest v \<noteq> None" using p l by (auto simp: logOnDisk_def)
  have dl: "distinct (map segGen ?l)" using d e by simp
  have nb: "?g \<notin> segGen ` set (butlast segs)"
    by (rule last_not_in_butlast [OF d ne])
  have "segsOnDisk v (butlast segs) []" using l by (simp add: segsOnDisk_last [OF ne d] logOnDisk_def)
  then have "segsOnDisk ?v ?l []"
    using nb by (simp add: segsOnDisk_last [OF _ dl] appendToLog_butlast [OF ne] appendToLog_last)
  moreover have "canonicalNames ?v" using l by (auto simp: logOnDisk_def canonicalNames_def)
  moreover have "\<forall>sg \<in> set ?l. segFits cfg sg"
  proof -
    have "segFits cfg (last segs)" and "\<forall>sg \<in> set (butlast segs). segFits cfg sg"
      using l ne by (auto simp: logOnDisk_def dest: in_set_butlastD)
    then show ?thesis
      using f sz by (cases "last segs") (auto simp: appendToLog_def segFits_def segBytes_def)
  qed
  moreover have "length (segBytes (last ?l)) \<le> maxReplayBytes"
    using sz by (simp add: appendToLog_last)
  ultimately show ?thesis
    using l gm em dl manifestMatches_gens [OF e] by (auto simp: logOnDisk_def)
qed

text \<open>The index after an event appended at the end of the active segment.\<close>

definition indexAfter :: "log_event \<Rightarrow> 'w store \<Rightarrow> segment_record list" where
  "indexAfter ev s =
     scRecords (scanEvent (activeGeneration s) False ev
       \<lparr>scOffset = activeSegmentBytes s, scLastGood = 0, scRecords = records s,
        scNextSequence = 0, scAffected = {}\<rparr>)"

context readable_file_system
begin

lemma append_cases:
  assumes inv: "storeInv cfg (view (world s)) segs s" and r: "readable (world s)"
    and ne: "segs \<noteq> []" and f: "eventFits cfg ev"
    and sz: "length (segBytes (last segs)) + eventSize ev \<le> maxReplayBytes"
    and run: "appendEnqueueEventBytes F (encodeEvent ev) s = (st, s')"
  obtains (appended) w b where "ok st" "readable w"
      "s' = s\<lparr>world := w, activeSegmentBytes := activeSegmentBytes s + word_of_nat (eventSize ev),
         totalOnDiskBytes := b\<rparr>"
      "storeInv cfg (view w) (appendToLog segs ev) (s'\<lparr>records := indexAfter ev s\<rparr>)"
  | (failed) w segs' t where "\<not> ok st" "s' = s\<lparr>world := w\<rparr>" "logOnDisk cfg (view w) segs' t"
      "segs' = segs \<or> segs' = appendToLog segs ev"
proof -
  let ?v = "view (world s)" and ?g = "segGen (last segs)"
  let ?name = "segmentName ?g" and ?b = "segBytes (last segs)"
  have l: "logOnDisk cfg ?v segs []" and ag: "activeGeneration s = ?g"
    and ab: "unat (activeSegmentBytes s) = length ?b"
    using inv ne by (auto simp: storeInv_def)
  have fl: "?v ?name = Some ?b"
    using l segsOnDisk_last [OF ne] by (simp add: logOnDisk_def)
  have off: "unat (ucast (activeSegmentBytes s) :: u64) = length ?b"
    using u32_bound [of "activeSegmentBytes s"] by (simp add: unsigned_ucast_eq ab take_bit_nat_eq_self)
  obtain w where wr: "fs_writeAt F ?name (ucast (activeSegmentBytes s)) (encodeEvent ev) (world s) = (st, w)"
    and s': "s' = (if ok st then s\<lparr>world := w,
        activeSegmentBytes := activeSegmentBytes s + word_of_nat (eventSize ev),
        totalOnDiskBytes := totalOnDiskBytes s + word_of_nat (eventSize ev)\<rparr> else s\<lparr>world := w\<rparr>)"
    using run by (auto simp: appendEnqueueEventBytes_def onWorld_def ag split: prod.splits if_splits)
  show thesis
  proof (cases "ok st")
    case True
    have v': "view w = ?v(?name := Some (?b @ encodeEvent ev))"
      using writeAt_ok [OF wr True] fl by (auto simp: off overlay_at_end)
    have l': "logOnDisk cfg (view w) (appendToLog segs ev) []"
      unfolding v' by (rule logOnDisk_append [OF l ne f sz])
    have idx: "records s = indexLog (locSegs segs) []" using inv by (simp add: storeInv_def)
    have ab': "activeSegmentBytes s = word_of_nat (length ?b)"
      by (simp flip: ab)
    have idx': "indexAfter ev s = indexLog (locSegs (appendToLog segs ev)) []"
      by (simp add: indexAfter_def scanEvent_index ag ab' idx appendToLog_loc [OF ne])
    have sets: "segGen ` set (appendToLog segs ev) = segGen ` set segs"
      using arg_cong [OF appendToLog_gens [OF ne], of set ev] by simp
    have ev: "electedManifest (view w) = electedManifest ?v" by (simp add: v')
    have cw: "cacheWins (view w) s'"
      using inv True by (auto simp: storeInv_def cacheWins_def s' v' electedEpoch_def slotManifest_def)
    have ub: "unat (activeSegmentBytes s + word_of_nat (eventSize ev)) = length ?b + eventSize ev"
      using sz ab by (simp add: unat_word_ariths unat_word_u32)
    have lt: "\<forall>sg \<in> set (appendToLog segs ev). segGen sg < nextGen s"
    proof
      fix sg assume "sg \<in> set (appendToLog segs ev)"
      then have "segGen sg \<in> segGen ` set segs" unfolding sets [symmetric] by (rule imageI)
      then show "segGen sg < nextGen s" using inv by (auto simp: storeInv_def)
    qed
    have "storeInv cfg (view w) (appendToLog segs ev) (s'\<lparr>records := indexAfter ev s\<rparr>)"
      using inv True l' idx' cw ub lt ev ne
      by (simp add: storeInv_def s' appendToLog_gens [OF ne] appendToLog_last cacheWins_def del: Ball_def)
    then show thesis
      using True readable_writeAt [OF r wr] s' by (intro appended) auto
  next
    case False
    have "\<exists>k \<le> eventSize ev. view w = ?v(?name := Some (?b @ take k (encodeEvent ev)))"
    proof -
      from writeAt_fail [OF wr False] consider "view w = ?v"
        | k where "k \<le> eventSize ev" "view w = ?v(?name := Some (?b @ take k (encodeEvent ev)))"
        using fl by (auto simp: off overlay_at_end)
      then show ?thesis
      proof cases
        case 1
        then show ?thesis using fl by (intro exI [of _ 0]) auto
      qed blast
    qed
    then obtain k where k: "k \<le> eventSize ev"
      and v': "view w = ?v(?name := Some (?b @ take k (encodeEvent ev)))" by blast
    show thesis
    proof (cases "k = eventSize ev")
      case True
      then have "logOnDisk cfg (view w) (appendToLog segs ev) []"
        using logOnDisk_append [OF l ne f sz] by (simp add: v')
      then show thesis using False s' by (intro failed) auto
    next
      case kl: False
      have "tornTail cfg (take k (encodeEvent ev))"
        unfolding tornTail_def tornEvent_def using f k kl by (intro disjI1 exI [of _ ev] exI [of _ k]) simp
      then have "logOnDisk cfg (view w) segs (take k (encodeEvent ev))"
        unfolding v' using sz k by (intro logOnDisk_tear [OF l ne]) simp_all
      then show thesis using False s' by (intro failed) auto
    qed
  qed
qed

end

section \<open>Making room for an event\<close>

text \<open>The configurations whose segments replay can read back, and the counters that must not be
  exhausted for one more append.\<close>

definition configOk :: "append_log_config \<Rightarrow> bool" where
  "configOk cfg \<longleftrightarrow> unat (maxSegmentBytes cfg) \<le> maxReplayBytes \<and> maxRecordBytes cfg < 4294967272"

definition countersOk :: "(string \<Rightarrow> bytes option) \<Rightarrow> 'w store \<Rightarrow> bool" where
  "countersOk v s \<longleftrightarrow>
     nextGen s \<noteq> 0xffffffff \<and> electedEpoch v \<noteq> 0xffffffff \<and> length (activeGenerations s) < 1025"

text \<open>An event that a fresh segment can take.\<close>

definition eventAdmissible :: "append_log_config \<Rightarrow> log_event \<Rightarrow> bool" where
  "eventAdmissible cfg ev \<longleftrightarrow> eventFits cfg ev \<and> 20 + eventSize ev \<le> maxReplayBytes"

context readable_file_system
begin

lemma rotateIfFull_cases:
  assumes inv: "storeInv cfg (view (world s)) segs s" and r: "readable (world s)"
    and c: "configOk cfg" and k: "countersOk (view (world s)) s" and a: "eventAdmissible cfg ev"
    and run: "rotateIfFull F cfg (word_of_nat (eventSize ev)) s = Some (st, s')"
  obtains (room) segs' where "ok st" "storeInv cfg (view (world s')) segs' s'" "readable (world s')"
      "locSegs segs' = locSegs segs" "records s' = records s" "segs' = [] \<longleftrightarrow> segs = []"
      "segs = [] \<longrightarrow> s' = s"
      "segs' \<noteq> [] \<longrightarrow> length (segBytes (last segs')) + eventSize ev \<le> maxReplayBytes"
  | (failed) segs' where "\<not> ok st" "segs \<noteq> []" "logOnDisk cfg (view (world s')) segs' []"
      "locSegs segs' = locSegs segs"
proof (cases "needsRotation cfg (word_of_nat (eventSize ev)) s")
  case False
  then have e: "st = success" "s' = s" using run by (simp_all add: rotateIfFull_def)
  have "length (segBytes (last segs)) + eventSize ev \<le> maxReplayBytes" if ne: "segs \<noteq> []"
  proof -
    have u: "unat (activeSegmentBytes s) = length (segBytes (last segs))"
      using inv ne by (simp add: storeInv_def)
    have le: "length (segBytes (last segs)) \<le> maxReplayBytes"
      using inv ne by (simp add: storeInv_def logOnDisk_def)
    have ue: "unat (word_of_nat (eventSize ev) :: u32) = eventSize ev"
      using a by (intro unat_word_u32) (simp add: eventAdmissible_def)
    have "unat (activeSegmentBytes s + word_of_nat (eventSize ev))
        = length (segBytes (last segs)) + eventSize ev"
      using le a by (simp add: unat_word_ariths u ue eventAdmissible_def)
    then show ?thesis
      using False c a u
      by (auto simp: needsRotation_def configOk_def eventAdmissible_def word_less_nat_alt
          kSegmentHeaderBytes_def)
  qed
  then show thesis using e inv r by (intro room [of segs]) simp_all
next
  case True
  then have ne: "segs \<noteq> []"
    using inv by (auto simp: needsRotation_def storeInv_def word_less_nat_alt)
  have n: "length segs < 1025" using k inv by (simp add: countersOk_def storeInv_def)
  have k1: "nextGen s \<noteq> 0xffffffff" and k2: "electedEpoch (view (world s)) \<noteq> 0xffffffff"
    using k by (simp_all add: countersOk_def)
  have "rotateSegment F s = Some (st, s')" using run True by (simp add: rotateIfFull_def)
  from rotateSegment_cases [OF inv r ne n k1 k2 this] show thesis
  proof cases
    case (1 ss)
    then show ?thesis
      using ne a by (intro room [of "segs @ [(nextGen s, ss, [])]"]) (auto simp: eventAdmissible_def)
  next
    case (2 segs')
    then show ?thesis using ne by (intro failed [of segs']) auto
  qed
qed

lemma ensureActive_some: "segs \<noteq> [] \<Longrightarrow> storeInv cfg v segs s \<Longrightarrow> ensureActiveSegment F q s = Some (success, s)"
  by (auto simp: storeInv_def ensureActiveSegment_def length_segBytes)

lemma prepare_ok:
  assumes inv: "storeInv cfg (view (world s)) segs s" and r: "readable (world s)"
    and c: "configOk cfg" and k: "countersOk (view (world s)) s" and a: "eventAdmissible cfg ev"
    and rot: "rotateIfFull F cfg (word_of_nat (eventSize ev)) s = Some (st1, s1)" "ok st1"
    and ens: "ensureActiveSegment F q s1 = Some (st2, s2)" "ok st2"
  obtains segs' where "storeInv cfg (view (world s2)) segs' s2" "readable (world s2)" "segs' \<noteq> []"
      "locSegs segs' = locSegs segs" "records s2 = records s"
      "length (segBytes (last segs')) + eventSize ev \<le> maxReplayBytes"
  using inv r c k a rot(1)
proof (cases rule: rotateIfFull_cases)
  case (room segs')
  show thesis
  proof (cases "segs = []")
    case True
    then have s1: "s1 = s" and i: "storeInv cfg (view (world s)) [] s" using room inv by auto
    show thesis
      by (rule ensureActiveSegment_first [OF i r _ _ ens(1) [unfolded s1] ens(2)])
        (use k a True in \<open>auto intro!: that simp: countersOk_def eventAdmissible_def\<close>)
  next
    case False
    then have "s2 = s1" using ensureActive_some [OF _ room(2)] room(6) ens by simp
    then show thesis using room False that by blast
  qed
qed (use rot in simp)

end

section \<open>The three commits\<close>

lemma diagnostic_world [simp]: "world (snd (storeDiagnostic cfg sev st op s)) = world s"
  by (simp add: storeDiagnostic_def)

lemma diagnostic_status [simp]: "fst (storeDiagnostic cfg sev st op s) = st"
  by (simp add: storeDiagnostic_def)

lemma storeInv_tail [simp]:
  "storeInv cfg v segs (s\<lparr>activeTailAffectedGenerations := x\<rparr>) = storeInv cfg v segs s"
  "storeInv cfg v segs (s\<lparr>emitted := em\<rparr>) = storeInv cfg v segs s"
  by (simp_all add: storeInv_def cacheWins_def)

definition logQueue :: "segment list \<Rightarrow> abs_queue" where
  "logQueue segs = absEvents (logEvents segs) []"

lemma logQueue_append: "segs \<noteq> [] \<Longrightarrow> logQueue (appendToLog segs ev) = absEvent ev (logQueue segs)"
  by (simp add: logQueue_def appendToLog_events)

lemma storeInv_queue: "storeInv cfg v segs s \<Longrightarrow> denotesAll v (records s) (logQueue segs)"
  by (simp add: storeInv_denotes logQueue_def)

lemma diskHolds_intro:
  "logOnDisk cfg v segs t \<Longrightarrow> orderedLog (locSegs segs) [] \<Longrightarrow> logQueue segs = q \<Longrightarrow> diskHolds cfg v q"
  by (auto simp: diskHolds_def logQueue_def)

lemma storeHolds_intro:
  "storeInv cfg v segs s \<Longrightarrow> orderedLog (locSegs segs) [] \<Longrightarrow> logQueue segs = q \<Longrightarrow> storeHolds cfg v q s"
  by (auto simp: storeHolds_def logQueue_def)

lemma locSegs_queue: "locSegs segs' = locSegs segs \<Longrightarrow> logQueue segs' = logQueue segs"
  unfolding logQueue_def by (drule locSegs_events) simp

lemma diskHolds_same:
  "logOnDisk cfg v segs' t \<Longrightarrow> locSegs segs' = locSegs segs \<Longrightarrow> orderedLog (locSegs segs) [] \<Longrightarrow>
   diskHolds cfg v (logQueue segs)"
  using locSegs_queue [of segs' segs] by (auto intro: diskHolds_intro)

text \<open>The events a store appends to a log that holds the queue \<open>xs\<close>; they keep it ordered.\<close>

fun continues :: "log_event \<Rightarrow> abs_queue \<Rightarrow> bool" where
  "continues (LogEnqueue q p) xs \<longleftrightarrow> (\<forall>x \<in> set xs. fst x < q)"
| "continues (LogRewrite q p) xs \<longleftrightarrow> q \<in> fst ` set xs"
| "continues (LogPop q) xs \<longleftrightarrow> xs \<noteq> [] \<and> q = fst (hd xs)"

lemma rewriteFirst_sequences [simp]: "map srSequence (rewriteFirst new rs) = map srSequence rs"
  by (induction rs) auto

lemma continues_ordered:
  assumes s: "seqSorted rs" and m: "map srSequence rs = map fst xs" and c: "continues ev xs"
  shows "popsFront ev rs \<and> seqSorted (indexEvent g off ev rs)"
proof -
  have sets: "srSequence ` set rs = fst ` set xs" using arg_cong [OF m, of set] by simp
  show ?thesis
  proof (cases ev)
    case (LogEnqueue q p)
    then show ?thesis using s c sets by (fastforce simp: image_iff)
  next
    case (LogRewrite q p)
    then show ?thesis using s c sets by (auto simp: seqSorted_def)
  next
    case (LogPop q)
    then show ?thesis using s c m by (cases rs; cases xs) (auto simp: order_le_less)
  qed
qed

lemma appendToLog_ordered:
  assumes o: "orderedLog (locSegs segs) []" and ne: "segs \<noteq> []"
    and d: "denotesAll v (indexLog (locSegs segs) []) (logQueue segs)"
    and c: "continues ev (logQueue segs)"
  shows "orderedLog (locSegs (appendToLog segs ev)) []"
  using continues_ordered [OF orderedLog_end [OF o] denotesAll_sequences [OF d] c] o
    orderedLog_end [OF o]
  by (simp add: appendToLog_loc [OF ne] orderedLog_append)

context readable_file_system
begin

text \<open>The append of an event after the room was made: the log gets the event, or the directory
  holds the old or the new queue.\<close>

lemma append_step:
  assumes inv: "storeInv cfg (view (world s)) segs s" and r: "readable (world s)"
    and ne: "segs \<noteq> []" and f: "eventFits cfg ev"
    and sz: "length (segBytes (last segs)) + eventSize ev \<le> maxReplayBytes"
    and run: "appendEnqueueEventBytes F (encodeEvent ev) s = (st, s')"
    and o: "orderedLog (locSegs segs) []" and c: "continues ev (logQueue segs)"
  shows "ok st \<Longrightarrow> records s' = records s \<and> activeGeneration s' = activeGeneration s
      \<and> storeHolds cfg (view (world s')) (absEvent ev (logQueue segs)) (s'\<lparr>records := indexAfter ev s\<rparr>)
      \<and> readable (world s')"
    and "\<not> ok st \<Longrightarrow> diskHolds cfg (view (world s')) (logQueue segs)
      \<or> diskHolds cfg (view (world s')) (absEvent ev (logQueue segs))"
proof -
  have d: "denotesAll (view (world s)) (indexLog (locSegs segs) []) (logQueue segs)"
    using storeInv_queue [OF inv] inv by (simp add: storeInv_def)
  note o' = appendToLog_ordered [OF o ne d c]
  from append_cases [OF inv r ne f sz run]
  have "(ok st \<longrightarrow> records s' = records s \<and> activeGeneration s' = activeGeneration s
      \<and> storeHolds cfg (view (world s')) (absEvent ev (logQueue segs)) (s'\<lparr>records := indexAfter ev s\<rparr>)
      \<and> readable (world s'))
    \<and> (\<not> ok st \<longrightarrow> diskHolds cfg (view (world s')) (logQueue segs)
      \<or> diskHolds cfg (view (world s')) (absEvent ev (logQueue segs)))"
  proof cases
    case (1 w b)
    have "storeHolds cfg (view w) (absEvent ev (logQueue segs)) (s'\<lparr>records := indexAfter ev s\<rparr>)"
      by (rule storeHolds_intro [OF 1(4) o' logQueue_append [OF ne]])
    then show ?thesis using 1 by auto
  next
    case (2 w segs' t)
    then show ?thesis
      using diskHolds_intro [OF 2(3)] logQueue_append [OF ne, of ev] o o' by auto
  qed
  then show "ok st \<Longrightarrow> records s' = records s \<and> activeGeneration s' = activeGeneration s
      \<and> storeHolds cfg (view (world s')) (absEvent ev (logQueue segs)) (s'\<lparr>records := indexAfter ev s\<rparr>)
      \<and> readable (world s')"
    and "\<not> ok st \<Longrightarrow> diskHolds cfg (view (world s')) (logQueue segs)
      \<or> diskHolds cfg (view (world s')) (absEvent ev (logQueue segs))" by blast+
qed

lemma enqueue_size:
  assumes "recordSizeError cfg (length p) = None" and "configOk cfg"
  shows "eventAdmissible cfg (LogEnqueue q p)" "eventAdmissible cfg (LogRewrite q p)"
    "kEnqueueOverheadBytes + word_of_nat (length p) = word_of_nat (eventSize (LogEnqueue q p))"
    "kEnqueueOverheadBytes + word_of_nat (length p) = word_of_nat (eventSize (LogRewrite q p))"
  using assms
  by (auto simp: recordSizeError_def eventAdmissible_def configOk_def kSegmentHeaderBytes_def
      kEnqueueOverheadBytes_def kEnqueueHeaderBytes_def kEventTrailerBytes_def split: if_splits)

lemma writeEnqueue_cases:
  assumes inv: "storeInv cfg (view (world s)) segs s" and r: "readable (world s)"
    and c: "configOk cfg" and k: "countersOk (view (world s)) s"
    and sz: "recordSizeError cfg (length p) = None"
    and run: "writeEnqueue F cfg q p s = Some (st, s')"
    and o: "orderedLog (locSegs segs) []" and nx: "\<forall>x \<in> set (logQueue segs). fst x < q"
  shows "ok st \<Longrightarrow> storeHolds cfg (view (world s')) (logQueue segs @ [(q, p)]) s' \<and> readable (world s')"
    and "\<not> ok st \<Longrightarrow> segs \<noteq> [] \<Longrightarrow> diskHolds cfg (view (world s')) (logQueue segs)
      \<or> diskHolds cfg (view (world s')) (logQueue segs @ [(q, p)])"
proof -
  let ?ev = "LogEnqueue q p"
  note a = enqueue_size [OF sz c, of q]
  obtain st1 s1 where rot: "rotateIfFull F cfg (word_of_nat (eventSize ?ev)) s = Some (st1, s1)"
    using run by (cases "rotateIfFull F cfg (word_of_nat (eventSize ?ev)) s")
      (auto simp: writeEnqueue_def a(3) simp del: eventSize.simps)
  have "(ok st \<longrightarrow> storeHolds cfg (view (world s')) (logQueue segs @ [(q, p)]) s' \<and> readable (world s'))
    \<and> (\<not> ok st \<longrightarrow> segs \<noteq> [] \<longrightarrow> diskHolds cfg (view (world s')) (logQueue segs)
      \<or> diskHolds cfg (view (world s')) (logQueue segs @ [(q, p)]))"
  proof (cases "ok st1")
    case False
    have e: "world s' = world s1" "\<not> ok st"
      using run rot False by (auto simp: writeEnqueue_def a(3) storeDiagnostic_def
          simp del: eventSize.simps)
    from inv r c k a(1) rot show ?thesis
    proof (cases rule: rotateIfFull_cases)
      case (failed segs')
      then show ?thesis using e diskHolds_same [OF failed(3,4) o] by auto
    qed (use False in simp)
  next
    case ok1: True
    obtain st2 s2 where ens: "ensureActiveSegment F q s1 = Some (st2, s2)"
      using run rot ok1 by (cases "ensureActiveSegment F q s1")
        (auto simp: writeEnqueue_def a(3) simp del: eventSize.simps)
    show ?thesis
    proof (cases "ok st2")
      case False
      have "segs = []"
      proof (rule ccontr)
        assume ne: "segs \<noteq> []"
        from inv r c k a(1) rot show False
        proof (cases rule: rotateIfFull_cases)
          case (room segs')
          then show False using ensureActive_some [of segs' cfg _ s1 q] ens ne False by auto
        qed (use ok1 in simp)
      qed
      moreover have "\<not> ok st"
        using run rot ok1 ens False by (auto simp: writeEnqueue_def a(3) storeDiagnostic_def
            simp del: eventSize.simps)
      ultimately show ?thesis by simp
    next
      case ok2: True
      obtain segs2 where p2: "storeInv cfg (view (world s2)) segs2 s2" "readable (world s2)"
          "segs2 \<noteq> []" "locSegs segs2 = locSegs segs" "records s2 = records s"
          "length (segBytes (last segs2)) + eventSize ?ev \<le> maxReplayBytes"
        by (rule prepare_ok [OF inv r c k a(1) rot ok1 ens ok2])
      have f: "eventFits cfg ?ev" using a(1) by (simp add: eventAdmissible_def)
      obtain st3 s3 where ap: "appendEnqueueEventBytes F (encodeEvent ?ev) s2 = (st3, s3)"
        by fastforce
      have q2: "logQueue segs2 = logQueue segs" by (rule locSegs_queue [OF p2(4)])
      have o2: "orderedLog (locSegs segs2) []" "continues ?ev (logQueue segs2)"
        using o nx by (simp_all add: p2(4) q2)
      note step = append_step [OF p2(1-3) f p2(6) ap o2]
      have fin: "if ok st3
        then ok st \<and> s' = s3\<lparr>records := records s3 @ [recordAt (activeGeneration s3)
               (activeSegmentBytes s2) q p]\<rparr>
        else \<not> ok st \<and> world s' = world s3"
        using run rot ok1 ens ok2 ap
        by (auto simp: writeEnqueue_def a(3) storeDiagnostic_def recordAt_def
            simp del: eventSize.simps split: if_splits)
      show ?thesis
        using fin step
        by (cases "ok st3") (auto simp: q2 indexAfter_def Let_def)
    qed
  qed
  then show "ok st \<Longrightarrow> storeHolds cfg (view (world s')) (logQueue segs @ [(q, p)]) s' \<and> readable (world s')"
    and "\<not> ok st \<Longrightarrow> segs \<noteq> [] \<Longrightarrow> diskHolds cfg (view (world s')) (logQueue segs)
      \<or> diskHolds cfg (view (world s')) (logQueue segs @ [(q, p)])" by blast+
qed

end

lemma queue_head:
  assumes "storeInv cfg v segs s" and "records s \<noteq> []"
  shows "logQueue segs \<noteq> []" and "fst (hd (logQueue segs)) = srSequence (hd (records s))"
proof -
  have "denotesAll v (records s) (logQueue segs)" by (rule storeInv_queue [OF assms(1)])
  then show "logQueue segs \<noteq> []" and "fst (hd (logQueue segs)) = srSequence (hd (records s))"
    using assms(2) by (cases "records s"; cases "logQueue segs"; auto simp: denotes_sequence)+
qed

context readable_file_system
begin

lemma appendPopEvent_cases:
  assumes inv: "storeInv cfg (view (world s)) segs s" and r: "readable (world s)"
    and c: "configOk cfg" and k: "countersOk (view (world s)) s" and rs: "records s \<noteq> []"
    and q: "q = srSequence (hd (records s))"
    and run: "appendPopEvent F cfg q s = Some (st, s')" and o: "orderedLog (locSegs segs) []"
  shows "ok st \<Longrightarrow> records s' = records s
      \<and> storeHolds cfg (view (world s')) (tl (logQueue segs)) (s'\<lparr>records := tl (records s)\<rparr>)
      \<and> readable (world s')"
    and "\<not> ok st \<Longrightarrow> diskHolds cfg (view (world s')) (logQueue segs)
      \<or> diskHolds cfg (view (world s')) (tl (logQueue segs))"
proof -
  let ?ev = "LogPop q"
  have a: "eventAdmissible cfg ?ev" by (simp add: eventAdmissible_def)
  have n: "kPopEventBytes = word_of_nat (eventSize ?ev)" by (simp add: kPopEventBytes_def)
  have ne: "segs \<noteq> []" using queue_head [OF inv rs] by (auto simp: logQueue_def)
  have hd_q: "absEvent ?ev (logQueue segs) = tl (logQueue segs)"
    using queue_head [OF inv rs] q by simp
  obtain st1 s1 where rot: "rotateIfFull F cfg (word_of_nat (eventSize ?ev)) s = Some (st1, s1)"
    using run by (cases "rotateIfFull F cfg (word_of_nat (eventSize ?ev)) s")
      (auto simp: appendPopEvent_def n simp del: eventSize.simps)
  have "(ok st \<longrightarrow> records s' = records s
      \<and> storeHolds cfg (view (world s')) (tl (logQueue segs)) (s'\<lparr>records := tl (records s)\<rparr>)
      \<and> readable (world s'))
    \<and> (\<not> ok st \<longrightarrow> diskHolds cfg (view (world s')) (logQueue segs)
      \<or> diskHolds cfg (view (world s')) (tl (logQueue segs)))"
    using inv r c k a rot
  proof (cases rule: rotateIfFull_cases)
    case (failed segs')
    then have "st = st1" "s' = s1"
      using run rot by (auto simp: appendPopEvent_def n simp del: eventSize.simps)
    then show ?thesis using failed diskHolds_same [OF failed(3,4) o] by auto
  next
    case (room segs')
    have ens: "ensureActiveSegment F q s1 = Some (success, s1)"
      using ensureActive_some [OF _ room(2)] room(6) ne by simp
    obtain st3 s3 where ap: "appendEnqueueEventBytes F (encodeEvent ?ev) s1 = (st3, s3)" by fastforce
    have fin: "st = st3" "s' = s3"
      using run rot room(1) ens ap by (auto simp: appendPopEvent_def n simp del: eventSize.simps)
    have ne': "segs' \<noteq> []" using room(6) ne by simp
    have q': "logQueue segs' = logQueue segs" by (rule locSegs_queue [OF room(4)])
    have o': "orderedLog (locSegs segs') []" "continues ?ev (logQueue segs')"
      using o queue_head [OF inv rs] q by (simp_all add: room(4) q')
    have sz: "length (segBytes (last segs')) + eventSize ?ev \<le> maxReplayBytes"
      using room(8) ne' by simp
    have f: "eventFits cfg ?ev" by simp
    note step = append_step [OF room(2,3) ne' f sz ap o', unfolded q' hd_q]
    have "indexAfter ?ev s1 = tl (records s)"
      using rs q by (simp add: indexAfter_def Let_def applyPop_def room(5))
    then show ?thesis using step fin room(5) by auto
  qed
  then show "ok st \<Longrightarrow> records s' = records s
      \<and> storeHolds cfg (view (world s')) (tl (logQueue segs)) (s'\<lparr>records := tl (records s)\<rparr>)
      \<and> readable (world s')"
    and "\<not> ok st \<Longrightarrow> diskHolds cfg (view (world s')) (logQueue segs)
      \<or> diskHolds cfg (view (world s')) (tl (logQueue segs))" by blast+
qed

lemma appendRewriteEvent_cases:
  assumes inv: "storeInv cfg (view (world s)) segs s" and r: "readable (world s)"
    and c: "configOk cfg" and k: "countersOk (view (world s)) s"
    and sz: "recordSizeError cfg (length p) = None" and q: "q \<in> fst ` set (logQueue segs)"
    and run: "appendRewriteEvent F cfg q p s = Some (st, s')" and o: "orderedLog (locSegs segs) []"
  shows "ok st \<Longrightarrow> storeHolds cfg (view (world s')) (absReplace q p (logQueue segs)) s'
      \<and> readable (world s')"
    and "\<not> ok st \<Longrightarrow> diskHolds cfg (view (world s')) (logQueue segs)
      \<or> diskHolds cfg (view (world s')) (absReplace q p (logQueue segs))"
proof -
  let ?ev = "LogRewrite q p"
  note a = enqueue_size [OF sz c, of q]
  have ne: "segs \<noteq> []" using q by (auto simp: logQueue_def)
  have abs: "absEvent ?ev (logQueue segs) = absReplace q p (logQueue segs)" using q by simp
  obtain target where tg: "find (\<lambda>r. srSequence r = q) (records s) = Some target"
    using denotesAll_find [OF storeInv_queue [OF inv], of q] q by auto
  obtain st1 s1 where rot: "rotateIfFull F cfg (word_of_nat (eventSize ?ev)) s = Some (st1, s1)"
    using run tg by (cases "rotateIfFull F cfg (word_of_nat (eventSize ?ev)) s")
      (auto simp: appendRewriteEvent_def a(4) simp del: eventSize.simps)
  have "(ok st \<longrightarrow> storeHolds cfg (view (world s')) (absReplace q p (logQueue segs)) s'
      \<and> readable (world s'))
    \<and> (\<not> ok st \<longrightarrow> diskHolds cfg (view (world s')) (logQueue segs)
      \<or> diskHolds cfg (view (world s')) (absReplace q p (logQueue segs)))"
    using inv r c k a(2) rot
  proof (cases rule: rotateIfFull_cases)
    case (failed segs')
    then have "st = st1" "s' = s1"
      using run rot tg by (auto simp: appendRewriteEvent_def a(4) simp del: eventSize.simps)
    then show ?thesis using failed diskHolds_same [OF failed(3,4) o] by auto
  next
    case (room segs')
    have ens: "ensureActiveSegment F q s1 = Some (success, s1)"
      using ensureActive_some [OF _ room(2)] room(6) ne by simp
    obtain st3 s3 where ap: "appendEnqueueEventBytes F (encodeEvent ?ev) s1 = (st3, s3)" by fastforce
    have ne': "segs' \<noteq> []" using room(6) ne by simp
    have q': "logQueue segs' = logQueue segs" by (rule locSegs_queue [OF room(4)])
    have o': "orderedLog (locSegs segs') []" "continues ?ev (logQueue segs')"
      using o q by (simp_all add: room(4) q')
    have rz: "length (segBytes (last segs')) + eventSize ?ev \<le> maxReplayBytes"
      using room(8) ne' by simp
    have f: "eventFits cfg ?ev" using a(2) by (simp add: eventAdmissible_def)
    note step = append_step [OF room(2,3) ne' f rz ap o', unfolded q' abs]
    have ix: "indexAfter ?ev s1
        = rewriteFirst (recordAt (activeGeneration s1) (activeSegmentBytes s1) q p) (records s1)"
      using tg by (simp add: indexAfter_def Let_def applyRewrite_def recordAt_def room(5))
    show ?thesis
    proof (cases "ok st3")
      case False
      then have "st = st3" "s' = s3"
        using run rot room(1) ens ap tg
        by (auto simp: appendRewriteEvent_def a(4) simp del: eventSize.simps)
      then show ?thesis using step False by simp
    next
      case True
      then have "st = success" and s': "\<exists>x. s' = s3\<lparr>activeTailAffectedGenerations := x,
          records := rewriteFirst (recordAt (activeGeneration s3) (activeSegmentBytes s1) q p)
             (records s3)\<rparr>"
        using run rot room(1) ens ap tg
        by (cases "activeTailDependenciesTracked s3"; cases s3;
            force simp: appendRewriteEvent_def a(4) recordAt_def simp del: eventSize.simps)+
      obtain x where "s' = s3\<lparr>activeTailAffectedGenerations := x,
          records := rewriteFirst (recordAt (activeGeneration s3) (activeSegmentBytes s1) q p)
             (records s3)\<rparr>" using s' by blast
      moreover have "s3\<lparr>activeTailAffectedGenerations := x, records := rs\<rparr>
          = (s3\<lparr>records := rs\<rparr>)\<lparr>activeTailAffectedGenerations := x\<rparr>" for rs by simp
      ultimately show ?thesis
        using step(1) True \<open>st = success\<close> by (simp add: ix storeHolds_def)
    qed
  qed
  then show "ok st \<Longrightarrow> storeHolds cfg (view (world s')) (absReplace q p (logQueue segs)) s'
      \<and> readable (world s')"
    and "\<not> ok st \<Longrightarrow> diskHolds cfg (view (world s')) (logQueue segs)
      \<or> diskHolds cfg (view (world s')) (absReplace q p (logQueue segs))" by blast+
qed

end

end
