(* ===== verification/Store_Correct.thy ===== *)
theory Store_Correct
  imports Append_Correct Store_Ops
begin

text \<open>
  The operations of a mounted store on the queue it holds: reading a record returns its payload,
  and a commit that needs no compaction either makes the new queue durable or leaves the
  directory with the old queue or the new one.
\<close>

lemma unat_ucast_u32_u64: "unat (ucast (x :: u32) :: u64) = unat x"
  using u32_bound [of x] by (simp add: unsigned_ucast_eq take_bit_nat_eq_self)

section \<open>Returning\<close>

lemma publishManifest_returns:
  "loadable (ranges m) \<Longrightarrow> publishManifest F m s \<noteq> None"
  by (simp add: publishManifest_def applyManifestToRam_eq Let_def split: prod.splits option.splits)

lemma rotateSegment_returns:
  "loadable (rangesWithTail (manifestRanges s) (activeGeneration s)) \<Longrightarrow> rotateSegment F s \<noteq> None"
  by (cases "activeGeneration s = 0")
    (simp_all add: rotateSegment_def Let_def publishManifest_returns bind_eq_None_conv
      del: not_None_eq split: prod.splits)

lemma createSegment_ranges: "createSegment F g b s = (st, s') \<Longrightarrow> manifestRanges s' = manifestRanges s"
  by (auto simp: createSegment_def writeSegmentFileTracked_def onWorld_def Let_def
      split: prod.splits option.splits if_splits)

lemma ensureActiveSegment_returns:
  "loadable (manifestRanges s) \<Longrightarrow> ensureActiveSegment F q s \<noteq> None"
  by (simp add: ensureActiveSegment_def Let_def publishManifest_returns bind_eq_None_conv
      createSegment_ranges del: not_None_eq split: prod.splits)

lemma appendEnqueueEventBytes_returns:
  "\<exists>st s'. appendEnqueueEventBytes F d s = (st, s')"
  by (cases "appendEnqueueEventBytes F d s") simp

lemma storeInv_loadable:
  assumes "storeInv cfg v segs s"
  shows "loadable (manifestRanges s)"
    and "loadable (rangesWithTail (manifestRanges s) (activeGeneration s))"
proof -
  show l: "loadable (manifestRanges s)"
    using assms by (auto simp: storeInv_def logOnDisk_def manifestMatches_def loadable_def
        split: option.splits)
  have "activeGeneration s \<noteq> 0xffffffff"
  proof (cases "segs = []")
    case False
    then have "activeGeneration s < nextGen s" using assms by (simp add: storeInv_def)
    then show ?thesis using u32_max [of "nextGen s"] by auto
  qed (use assms in \<open>simp add: storeInv_def\<close>)
  with l show "loadable (rangesWithTail (manifestRanges s) (activeGeneration s))"
    by (rule rangesWithTail_loadable)
qed

lemma rotateIfFull_returns: "storeInv cfg v segs s \<Longrightarrow> rotateIfFull F cfg n s \<noteq> None"
  by (simp add: rotateIfFull_def rotateSegment_returns storeInv_loadable del: not_None_eq)

section \<open>The index\<close>

text \<open>The sequence numbers of the queue count up from the front one and do not reach the
  maximum, which \<open>commitEnqueue\<close> never hands out.\<close>

definition contiguous :: "abs_queue \<Rightarrow> bool" where
  "contiguous q \<longleftrightarrow>
     (\<forall>i < length q. unat (fst (q ! i)) = unat (fst (hd q)) + i \<and> fst (q ! i) \<noteq> 0xffffffff)"

text \<open>The sequence number the next record gets.\<close>

definition nextTail :: "abs_queue \<Rightarrow> 'w store \<Rightarrow> u32" where
  "nextTail q s = (if q = [] then nextSequence s else fst (last q) + 1)"

lemma contiguous_Nil [simp]: "contiguous []"
  by (simp add: contiguous_def)

lemma contiguous_last:
  assumes "contiguous q" "q \<noteq> []"
  shows "unat (fst (last q)) + 1 = unat (fst (hd q)) + length q" "fst (last q) \<noteq> 0xffffffff"
  using assms by (auto simp: contiguous_def last_conv_nth Suc_diff_Suc)

lemma contiguous_bound:
  assumes "contiguous q" "q \<noteq> []"
  shows "unat (fst (hd q)) + length q \<le> 4294967295"
proof -
  have "unat (fst (last q)) < 4294967295"
    using contiguous_last(2) [OF assms] u32_bound [of "fst (last q)"] by (simp add: u32_eq_unat)
  then show ?thesis using contiguous_last(1) [OF assms] by simp
qed

lemma contiguous_tl: "contiguous q \<Longrightarrow> contiguous (tl q)"
proof (cases q)
  case (Cons x xs)
  assume c: "contiguous q"
  have "unat (fst (xs ! i)) = unat (fst (hd xs)) + i" "fst (xs ! i) \<noteq> 0xffffffff" if "i < length xs" for i
  proof -
    have z: "hd xs = q ! 1" using that Cons by (cases xs) auto
    have "unat (fst (q ! Suc i)) = unat (fst (hd q)) + Suc i" "fst (q ! Suc i) \<noteq> 0xffffffff"
      "unat (fst (q ! 1)) = unat (fst (hd q)) + 1"
      using c that Cons unfolding contiguous_def by (metis Suc_less_eq length_Cons less_imp_Suc_add zero_less_Suc One_nat_def)+
    then show "unat (fst (xs ! i)) = unat (fst (hd xs)) + i" "fst (xs ! i) \<noteq> 0xffffffff"
      unfolding z by (simp_all add: Cons)
  qed
  then show ?thesis by (simp add: contiguous_def Cons)
qed simp

lemma contiguous_snoc:
  assumes c: "contiguous q" and t: "q \<noteq> [] \<Longrightarrow> t = fst (last q) + 1" and m: "t \<noteq> 0xffffffff"
  shows "contiguous (q @ [(t, p)])"
proof (cases "q = []")
  case True
  then show ?thesis using m by (simp add: contiguous_def)
next
  case False
  have "unat t = unat (fst (last q)) + 1"
    using t [OF False] unat_Suc_u32 [OF contiguous_last(2) [OF c False]] by simp
  then have u: "unat t = unat (fst (hd q)) + length q" using contiguous_last(1) [OF c False] by simp
  show ?thesis
    using c u m False by (auto simp: contiguous_def nth_append less_Suc_eq)
qed

lemma contiguous_absReplace: "contiguous q \<Longrightarrow> contiguous (absReplace sq p q)"
proof -
  have f: "map fst (absReplace sq p xs) = map fst xs" for xs by (induction xs) auto
  have l: "length (absReplace sq p xs) = length xs" for xs by (induction xs) auto
  have n: "fst (absReplace sq p xs ! i) = fst (xs ! i)" if "i < length xs" for xs i
    using f [of xs] l [of xs] that by (metis nth_map)
  have h: "fst (hd (absReplace sq p xs)) = fst (hd xs)" if "xs \<noteq> []" for xs
    using that by (cases xs) auto
  assume c: "contiguous q"
  have "fst (hd (absReplace sq p q)) = fst (hd q)" if "i < length q" for i
    using that h by (cases q) auto
  with c show ?thesis unfolding contiguous_def l by (simp add: n)
qed

section \<open>Reading\<close>

lemma ensureMounted_mounted [simp]: "mounted s \<Longrightarrow> ensureMounted F cfg s = Some (success, s)"
  by (simp add: ensureMounted_def)

lemma storeInv_mounted: "storeInv cfg v segs s \<Longrightarrow> mounted s"
  by (simp add: storeInv_def)

lemma storeHoldsE:
  assumes "storeHolds cfg v q s"
  obtains segs where "storeInv cfg v segs s" "logQueue segs = q" "mounted s"
    "orderedLog (locSegs segs) []"
  using assms by (auto simp: storeHolds_def logQueue_def storeInv_mounted)

lemma storeHolds_records:
  assumes "storeHolds cfg v q s"
  shows "denotesAll v (records s) q" "length (records s) = length q" "records s = [] \<longleftrightarrow> q = []"
    "q \<noteq> [] \<Longrightarrow> srSequence (hd (records s)) = fst (hd q)"
    "q \<noteq> [] \<Longrightarrow> srSequence (last (records s)) = fst (last q)"
proof -
  show d: "denotesAll v (records s) q"
    using assms by (auto elim!: storeHoldsE dest: storeInv_queue)
  then show l: "length (records s) = length q" and n: "records s = [] \<longleftrightarrow> q = []"
    by (auto dest: list_all2_lengthD)
  have "map srSequence (records s) = map fst q" by (rule denotesAll_sequences [OF d])
  then show "q \<noteq> [] \<Longrightarrow> srSequence (hd (records s)) = fst (hd q)"
    "q \<noteq> [] \<Longrightarrow> srSequence (last (records s)) = fst (last q)"
    using n by (metis hd_map last_map)+
qed

lemma readIndex_holds:
  assumes "storeHolds cfg v q s"
  shows "readIndex F cfg s = Some ((success,
    \<lparr>ixHead = (if q = [] then nextSequence s else fst (hd q)), ixTail = nextTail q s,
     ixCount = word_of_nat (length q)\<rparr>), s)"
  using storeHolds_records [OF assms] assms
  by (auto simp: readIndex_def indexFromRecords_def nextTail_def elim!: storeHoldsE)

text \<open>The place of a live sequence number.\<close>

lemma contiguous_next:
  assumes c: "contiguous q" and t: "q \<noteq> [] \<Longrightarrow> t = fst (last q) + 1"
  shows "\<forall>x \<in> set q. fst x < t"
proof
  fix x assume "x \<in> set q"
  then obtain i where i: "i < length q" "x = q ! i" by (metis in_set_conv_nth)
  define n where "n = length q - 1"
  have n: "q \<noteq> []" "n < length q" "i \<le> n" using i by (auto simp: n_def)
  have l: "last q = q ! n" using n(1) by (simp add: n_def last_conv_nth)
  have u: "unat (fst (q ! n)) = unat (fst (hd q)) + n" "fst (q ! n) \<noteq> 0xffffffff"
    "unat (fst (q ! i)) = unat (fst (hd q)) + i"
    using c n(2) i(1) by (auto simp: contiguous_def)
  have "unat t = unat (fst (q ! n)) + 1" using t [OF n(1)] u(2) l unat_Suc_u32 by simp
  then show "fst x < t" using u n(3) i(2) by (simp add: word_less_nat_alt)
qed

lemma contiguous_place:
  assumes c: "contiguous q" and i: "i < length q"
  shows "fst (q ! i) - fst (hd q) = word_of_nat i" "\<not> fst (q ! i) < fst (hd q)"
    "fst (q ! i) < fst (hd q) + word_of_nat (length q)" "unat (fst (q ! i) - fst (hd q)) = i"
proof -
  have ne: "q \<noteq> []" using i by auto
  note b = contiguous_bound [OF c ne]
  have u: "unat (fst (q ! i)) = unat (fst (hd q)) + i" using c i by (simp add: contiguous_def)
  have e: "fst (q ! i) = fst (hd q) + word_of_nat i"
    using u b i by (simp add: u32_eq_unat unat_word_ariths unat_word_u32)
  show "fst (q ! i) - fst (hd q) = word_of_nat i" by (simp add: e)
  then show "unat (fst (q ! i) - fst (hd q)) = i" using b i by (simp add: unat_word_u32)
  show "\<not> fst (q ! i) < fst (hd q)" using u by (simp add: word_less_nat_alt)
  show "fst (q ! i) < fst (hd q) + word_of_nat (length q)"
    using u b i by (simp add: word_less_nat_alt unat_word_ariths unat_word_u32)
qed

lemma readRecordSize_holds:
  assumes h: "storeHolds cfg v q s" and c: "contiguous q" and i: "i < length q"
  shows "readRecordSize F cfg (fst (q ! i)) s = Some ((success, length (snd (q ! i))), s)"
proof -
  note r = storeHolds_records [OF h]
  have ne: "q \<noteq> []" using i by auto
  have "denotes v (records s ! i) (q ! i)" using r(1,2) i by (simp add: list_all2_conv_all_nth)
  then have "unat (srPayloadBytes (records s ! i)) = length (snd (q ! i))"
    by (auto simp: denotes_def holdsPayload_def)
  moreover have "mounted s" using h by (blast elim: storeHoldsE)
  ultimately show ?thesis
    using r ne i contiguous_place [OF c i] by (simp add: readRecordSize_def Let_def)
qed

context locking_file_system
begin

lemma readRecord_holds:
  assumes h: "storeHolds cfg (view (world s)) q s" and c: "contiguous q" and i: "i < length q"
    and rd: "readable (world s)"
  shows "\<exists>w. readRecord F cfg (fst (q ! i)) s = Some ((success, snd (q ! i)), s\<lparr>world := w\<rparr>)
    \<and> view w = view (world s) \<and> readable w"
proof -
  note r = storeHolds_records [OF h]
  have ne: "q \<noteq> []" using i by auto
  have m: "mounted s" using h by (blast elim: storeHoldsE)
  define sr where "sr = records s ! i"
  have "denotes (view (world s)) sr (q ! i)"
    using r(1,2) i by (simp add: list_all2_conv_all_nth sr_def)
  then obtain d where d: "view (world s) (segmentName (srGeneration sr)) = Some d"
      "holdsPayload d sr (snd (q ! i))" by (auto simp: denotes_def)
  obtain st out w where ra: "fs_readAt F (segmentName (srGeneration sr)) (ucast (srPayloadOffset sr))
      (unat (srPayloadBytes sr)) (world s) = ((st, out), w)" by (metis surj_pair)
  have o: "unat (ucast (srPayloadOffset sr) :: u64) = unat (srPayloadOffset sr)"
    by (rule unat_ucast_u32_u64)
  have "ok st" "readable w"
    using readable_readAt [OF rd ra] d by (auto simp: o holdsPayload_def)
  moreover from this have "view w = view (world s)" "out = snd (q ! i)"
    using readAt_view [OF ra] d by (auto simp: o holdsPayload_def)
  moreover have "readRecord F cfg (fst (q ! i)) s = Some ((success, out), s\<lparr>world := w\<rparr>)"
    using r ne i contiguous_place [OF c i] contiguous_place(3) [OF c i, unfolded not_le [symmetric]] m \<open>ok st\<close> ra
    by (simp add: readRecord_def Let_def onWorld_def sr_def [symmetric])
  ultimately show ?thesis by auto
qed

end

section \<open>Commits without compaction\<close>

text \<open>The admission checks pass as they are: no compaction is started.\<close>

definition admits :: "'w fs_ops \<Rightarrow> append_log_config \<Rightarrow> nat \<Rightarrow> 'w store \<Rightarrow> bool" where
  "admits F cfg n s \<longleftrightarrow>
     (maxTotalBytes cfg > 0 \<longrightarrow> \<not> footprintFull cfg (word_of_nat n) s)
     \<and> (minFreeBytes cfg > 0 \<longrightarrow>
          \<not> storeFreeBytes F s < ucast (minFreeBytes cfg)
              + ucast (appendGrowthBytes cfg (word_of_nat n) s) + ucast (drainReserveBytes cfg))"

lemma makeRoom_admits: "admits F cfg n s \<Longrightarrow> makeRoom F cfg op (word_of_nat n) s = Some (success, s)"
  by (auto simp: admits_def makeRoom_def footprintLoop.simps freeSpaceLoop.simps)

text \<open>A manifest with a segment is on disk: some event has been appended before.\<close>

definition started :: "(string \<Rightarrow> bytes option) \<Rightarrow> bool" where
  "started v \<longleftrightarrow> (case electedManifest v of None \<Rightarrow> False | Some md \<Rightarrow> manifestGens md \<noteq> [])"

lemma started_segs: "storeInv cfg v segs s \<Longrightarrow> started v \<longleftrightarrow> segs \<noteq> []"
  by (auto simp: storeInv_def logOnDisk_def manifestMatches_def started_def split: option.splits)

lemma storeHolds_started: "storeHolds cfg v q s \<Longrightarrow> q \<noteq> [] \<Longrightarrow> started v"
  by (auto simp: started_segs logQueue_def elim!: storeHoldsE)

lemma storeHolds_emitted [simp]:
  "storeHolds cfg v q (s\<lparr>emitted := em\<rparr>) = storeHolds cfg v q s"
  "storeHolds cfg v q (s\<lparr>activeTailAffectedGenerations := x\<rparr>) = storeHolds cfg v q s"
  by (simp_all add: storeHolds_def)

context readable_file_system
begin

lemma commitEnqueue_writes:
  assumes h: "storeHolds cfg (view (world s)) q s" and sz: "recordSizeError cfg (length p) = None"
    and sq: "sq \<noteq> 0xffffffff" and ad: "admits F cfg (length p) s"
  shows "commitEnqueue F cfg sq p s = writeEnqueue F cfg sq p s"
  using h sz sq makeRoom_admits [OF ad] by (auto simp: commitEnqueue_def elim: storeHoldsE)

lemma commitEnqueue_holds:
  assumes h: "storeHolds cfg (view (world s)) q s" and r: "readable (world s)"
    and c: "configOk cfg" and k: "countersOk (view (world s)) s"
    and sz: "recordSizeError cfg (length p) = None" and sq: "sq \<noteq> 0xffffffff"
    and ad: "admits F cfg (length p) s" and nx: "\<forall>x \<in> set q. fst x < sq"
    and run: "commitEnqueue F cfg sq p s = Some (st, s')"
  shows "ok st \<Longrightarrow> storeHolds cfg (view (world s')) (q @ [(sq, p)]) s' \<and> readable (world s')"
    and "\<not> ok st \<Longrightarrow> started (view (world s)) \<Longrightarrow> diskHolds cfg (view (world s')) q
      \<or> diskHolds cfg (view (world s')) (q @ [(sq, p)])"
proof -
  obtain segs where i: "storeInv cfg (view (world s)) segs s" "logQueue segs = q"
      "orderedLog (locSegs segs) []"
    using h by (blast elim: storeHoldsE)
  note w = writeEnqueue_cases [OF i(1) r c k sz run [unfolded commitEnqueue_writes [OF h sz sq ad]]
      i(3) nx [folded i(2)]]
  show "ok st \<Longrightarrow> storeHolds cfg (view (world s')) (q @ [(sq, p)]) s' \<and> readable (world s')"
    using w(1) i(2) by simp
  show "\<not> ok st \<Longrightarrow> started (view (world s)) \<Longrightarrow> diskHolds cfg (view (world s')) q
      \<or> diskHolds cfg (view (world s')) (q @ [(sq, p)])"
    using w(2) i by (simp add: started_segs)
qed

lemma commitPop_holds:
  assumes h: "storeHolds cfg (view (world s)) q s" and r: "readable (world s)"
    and c: "configOk cfg" and k: "countersOk (view (world s)) s" and ne: "q \<noteq> []"
    and run: "commitPop F cfg (fst (hd q)) s = Some (st, s')"
  shows "ok st \<Longrightarrow> storeHolds cfg (view (world s')) (tl q) s' \<and> readable (world s')"
    and "\<not> ok st \<Longrightarrow> diskHolds cfg (view (world s')) q \<or> diskHolds cfg (view (world s')) (tl q)"
proof -
  obtain segs where i: "storeInv cfg (view (world s)) segs s" "logQueue segs = q" and m: "mounted s"
    and o: "orderedLog (locSegs segs) []"
    using h by (blast elim: storeHoldsE)
  note rec = storeHolds_records [OF h]
  have rs: "records s \<noteq> []" "srSequence (hd (records s)) = fst (hd q)" using rec ne by auto
  obtain st1 s1 where ap: "appendPopEvent F cfg (fst (hd q)) s = Some (st1, s1)"
    using run m rs by (cases "appendPopEvent F cfg (fst (hd q)) s") (auto simp: commitPop_def Let_def)
  note w = appendPopEvent_cases [OF i(1) r c k rs(1) rs(2) [symmetric] ap o, unfolded i(2)]
  have "(ok st \<longrightarrow> storeHolds cfg (view (world s')) (tl q) s' \<and> readable (world s'))
    \<and> (\<not> ok st \<longrightarrow> diskHolds cfg (view (world s')) q \<or> diskHolds cfg (view (world s')) (tl q))"
  proof (cases "ok st1")
    case False
    then have "world s' = world s1" "\<not> ok st"
      using run m rs ap by (auto simp: commitPop_def Let_def storeDiagnostic_def)
    then show ?thesis using w(2) [OF False] by simp
  next
    case True
    have e: "st = success \<and> (\<exists>x. s' = s1\<lparr>activeTailAffectedGenerations := x, records := tl (records s)\<rparr>)"
      using run m rs ap True w(1) [OF True]
      by (cases "activeTailDependenciesTracked s1"; cases s1;
          force simp: commitPop_def Let_def)
    then obtain x where "s' = s1\<lparr>activeTailAffectedGenerations := x, records := tl (records s)\<rparr>"
      by blast
    also have "\<dots> = (s1\<lparr>records := tl (records s)\<rparr>)\<lparr>activeTailAffectedGenerations := x\<rparr>" by simp
    finally have x: "s' = \<dots>" .
    show ?thesis using w(1) [OF True] e unfolding x by simp
  qed
  then show "ok st \<Longrightarrow> storeHolds cfg (view (world s')) (tl q) s' \<and> readable (world s')"
    and "\<not> ok st \<Longrightarrow> diskHolds cfg (view (world s')) q \<or> diskHolds cfg (view (world s')) (tl q)"
    by blast+
qed

lemma rewriteRecord_holds:
  assumes h: "storeHolds cfg (view (world s)) q s" and r: "readable (world s)"
    and c: "configOk cfg" and k: "countersOk (view (world s)) s"
    and sz: "recordSizeError cfg (length p) = None" and sq: "sq \<in> fst ` set q"
    and ad: "admits F cfg (length p) s" and run: "rewriteRecord F cfg sq p s = Some (st, s')"
  shows "ok st \<Longrightarrow> storeHolds cfg (view (world s')) (absReplace sq p q) s' \<and> readable (world s')"
    and "\<not> ok st \<Longrightarrow> diskHolds cfg (view (world s')) q
      \<or> diskHolds cfg (view (world s')) (absReplace sq p q)"
proof -
  obtain segs where i: "storeInv cfg (view (world s)) segs s" "logQueue segs = q" and m: "mounted s"
    and o: "orderedLog (locSegs segs) []"
    using h by (blast elim: storeHoldsE)
  note ru = run [unfolded rewriteRecord_def] 
  obtain st1 s1 where ap: "appendRewriteEvent F cfg sq p s = Some (st1, s1)"
    using ru m sz makeRoom_admits [OF ad]
    by (cases "appendRewriteEvent F cfg sq p s") auto
  note w = appendRewriteEvent_cases [OF i(1) r c k sz _ ap o, unfolded i(2), OF sq]
  have "ok st \<longleftrightarrow> ok st1" "ok st1 \<Longrightarrow> s' = s1" "world s' = world s1"
    using ru m sz makeRoom_admits [OF ad] ap
    by (auto simp: storeDiagnostic_def split: if_splits)
  then show "ok st \<Longrightarrow> storeHolds cfg (view (world s')) (absReplace sq p q) s' \<and> readable (world s')"
    and "\<not> ok st \<Longrightarrow> diskHolds cfg (view (world s')) q
      \<or> diskHolds cfg (view (world s')) (absReplace sq p q)"
    using w by simp_all
qed

end

section \<open>Other files in the directory\<close>

text \<open>Names the store does not use, such as the lock file of the queue.\<close>

definition foreignName :: "string \<Rightarrow> bool" where
  "foreignName name \<longleftrightarrow> isSegmentName name = None \<and> name \<noteq> slotName SlotA \<and> name \<noteq> slotName SlotB"

definition sameLog :: "(string \<Rightarrow> bytes option) \<Rightarrow> (string \<Rightarrow> bytes option) \<Rightarrow> bool" where
  "sameLog v v' \<longleftrightarrow> (\<forall>name. \<not> foreignName name \<longrightarrow> v' name = v name)"

lemma sameLogD: 
  assumes "sameLog v v'"
  shows "v' (segmentName g) = v (segmentName g)" "v' (slotName sl) = v (slotName sl)"
    "isSegmentName name = Some g \<Longrightarrow> v' name = v name"
  using assms by (cases sl; force simp: sameLog_def foreignName_def)+

lemma sameLog_refl [simp]: "sameLog v v"
  by (simp add: sameLog_def)

lemma sameLog_trans: "sameLog v v' \<Longrightarrow> sameLog v' v'' \<Longrightarrow> sameLog v v''"
  by (simp add: sameLog_def)

lemma sameLog_elected: "sameLog v v' \<Longrightarrow> electedManifest v' = electedManifest v"
  by (rule electedManifest_cong) (simp add: sameLogD)

lemma sameLog_slot: "sameLog v v' \<Longrightarrow> slotManifest v' sl = slotManifest v sl"
  by (simp add: slotManifest_def sameLogD(2))

lemma sameLog_segs: "sameLog v v' \<Longrightarrow> segsOnDisk v' segs t = segsOnDisk v segs t"
  by (rule segsOnDisk_cong) (simp add: sameLogD)

lemma sameLog_logOnDisk: "sameLog v v' \<Longrightarrow> logOnDisk cfg v segs t \<Longrightarrow> logOnDisk cfg v' segs t"
  using sameLogD [of v v']
  by (simp add: logOnDisk_def sameLog_elected sameLog_segs canonicalNames_def) metis

lemma sameLog_storeInv:
  assumes s: "sameLog v v'" and i: "storeInv cfg v segs s"
  shows "storeInv cfg v' segs (s\<lparr>world := w\<rparr>)"
proof -
  have "cacheWins v' (s\<lparr>world := w\<rparr>)"
  proof -
    have "cacheWins v s" using i by (simp add: storeInv_def)
    then show ?thesis
      by (simp add: cacheWins_def electedEpoch_def sameLog_elected [OF s] sameLog_slot [OF s])
  qed
  moreover have "logOnDisk cfg v' segs []"
    using i by (intro sameLog_logOnDisk [OF s]) (simp add: storeInv_def)
  ultimately show ?thesis
    using i unfolding storeInv_def sameLog_elected [OF s] by simp
qed

lemma sameLog_storeHolds:
  "sameLog v v' \<Longrightarrow> storeHolds cfg v q s \<Longrightarrow> storeHolds cfg v' q (s\<lparr>world := w\<rparr>)"
  by (auto simp: storeHolds_def intro: sameLog_storeInv)

lemma sameLog_diskHolds: "sameLog v v' \<Longrightarrow> diskHolds cfg v q \<Longrightarrow> diskHolds cfg v' q"
  by (auto simp: diskHolds_def intro: sameLog_logOnDisk)

section \<open>Mounting and formatting\<close>

lemma logOnDisk_fresh:
  "(\<And>name. \<not> foreignName name \<Longrightarrow> v name = None) \<Longrightarrow> logOnDisk cfg v [] []"
proof -
  assume f: "\<And>name. \<not> foreignName name \<Longrightarrow> v name = None"
  have seg: "v name = None" if "isSegmentName name = Some g" for name g
    using f that by (simp add: foreignName_def)
  have sl: "v (slotName sl) = None" for sl
    using f by (cases sl) (simp_all add: foreignName_def)
  show ?thesis
    by (auto simp: logOnDisk_def electedManifest_def slotManifest_def sl seg canonicalNames_def
        manifestMatches_def)
qed

context file_system
begin

lemma mountStore_holds:
  assumes "healthy (world s)" and "diskHolds cfg (view (world s)) q"
    and "maxRecordBytes cfg < 4294967272"
    and "electedManifest (view (world s)) = None \<Longrightarrow> manifestRanges s = []"
  shows "\<exists>s'. mountStore F cfg s = Some (success, s')
    \<and> storeHolds cfg (view (world s')) q s' \<and> healthy (world s')"
  using assms mountStore_log [of s cfg] by (auto simp: diskHolds_def storeHolds_def) metis

lemma removeFiles_view:
  assumes "healthy (world s)"
  shows "healthy (world (removeFiles F names s))
    \<and> view (world (removeFiles F names s)) = (\<lambda>name. if name \<in> set names then None else view (world s) name)"
  using assms
proof (induction names arbitrary: s)
  case (Cons name names)
  obtain st w where rm: "fs_removeFile F name (world s) = (st, w)" by fastforce
  have h: "healthy w" using remove_healthy [OF Cons.prems rm] by simp
  have v: "view w = (view (world s))(name := None)"
    using remove_ok [OF rm] remove_fail [OF rm] remove_healthy [OF Cons.prems rm]
    by (cases "view (world s) name = None"; cases "ok st") auto
  show ?case
    using Cons.IH [of "s\<lparr>world := w\<rparr>"] h by (auto simp: onWorld_def rm v)
qed simp

lemma formatStore_holds:
  assumes h: "healthy (world s)"
  shows "\<exists>s'. formatStore F cfg s = (success, s') \<and> healthy (world s')
    \<and> storeHolds cfg (view (world s')) [] s' \<and> nextSequence s' = 0 \<and> nextGen s' = 1
    \<and> activeGenerations s' = [] \<and> manifestRanges s' = []
    \<and> (\<forall>name. view (world s') name = (if foreignName name then view (world s) name else None))"
proof -
  obtain st w where m: "fs_mount F (basePath cfg) (world s) = (st, w)" by fastforce
  have m': "ok st" "healthy w" "view w = view (world s)"
    using mount_healthy [OF h m] mount_view [OF m] by simp_all
  obtain st2 fl w2 where l: "fs_listFiles F w = ((st2, fl), w2)" by (metis surj_pair)
  have l': "ok st2" "healthy w2" "view w2 = view (world s)" "set fl = dom (view (world s))"
    using list_healthy [OF m'(2) l] list_view [OF l] m'(3) by auto
  define s2 where "s2 = s\<lparr>world := w2\<rparr>"
  define s3 where "s3 = removeFiles F (filter (\<lambda>name. isSegmentName name \<noteq> None) fl) s2"
  define s4 where "s4 = removeFiles F [slotName SlotA, slotName SlotB] s3"
  have r3: "healthy (world s3)" "view (world s3) = (\<lambda>name.
      if isSegmentName name \<noteq> None \<and> name \<in> set fl then None else view (world s) name)"
    using removeFiles_view [of s2 "filter (\<lambda>name. isSegmentName name \<noteq> None) fl"] l'
    by (auto simp: s3_def s2_def fun_eq_iff)
  have r4: "healthy (world s4)" "\<And>name. view (world s4) name = (if foreignName name then view (world s) name else None)"
    using removeFiles_view [OF r3(1), of "[slotName SlotA, slotName SlotB]"] l'(4)
    by (auto simp: s4_def r3(2) foreignName_def)
  have log: "logOnDisk cfg (view (world s4)) [] []" by (rule logOnDisk_fresh) (simp add: r4)
  have el: "electedManifest (view (world s4)) = None"
    by (simp add: electedManifest_def slotManifest_def r4 foreignName_def)
  show ?thesis
    using m' l' r4 log el
    by (simp add: formatStore_def present Let_def onWorld_def m l s2_def [symmetric]
        s3_def [symmetric] s4_def [symmetric] storeHolds_def del: removeFiles.simps not_None_eq)
      (auto simp: storeInv_def cacheWins_def intro!: exI [of _ "[]"])
qed

end

end
