(* ===== verification/Store_Progress.thy ===== *)
theory Store_Progress
  imports Store_Correct
begin

text \<open>
  Progress: on a file system with no pending error, a commit within the limits of the format
  returns and succeeds, and leaves the file system without a pending error.
\<close>

text \<open>There is a manifest slot to write: a manifest is elected, or there are no slot files.\<close>

definition slotFree :: "(string \<Rightarrow> bytes option) \<Rightarrow> bool" where
  "slotFree v \<longleftrightarrow> fst (idealTarget v) \<noteq> None"

lemma slotFree_other [simp]: "slotFree (v(segmentName g := x)) = slotFree v"
  by (simp add: slotFree_def idealTarget_def slotManifest_def)

lemma slotFree_elected: "electedManifest v \<noteq> None \<Longrightarrow> slotFree v"
  by (auto simp: slotFree_def idealTarget_def electedManifest_def chooseInactiveSlot_def)

lemma slotFree_fresh: "v (slotName SlotA) = None \<Longrightarrow> v (slotName SlotB) = None \<Longrightarrow> slotFree v"
  by (simp add: slotFree_def idealTarget_def chooseInactiveSlot_def)

text \<open>The manifest has space for one more range.\<close>

definition rangeRoom :: "'w store \<Rightarrow> bool" where
  "rangeRoom s \<longleftrightarrow> length (manifestRanges s) < 1024"

lemma length_rangesWithTail: "length (rangesWithTail rs g) \<le> length rs + 1"
  by (simp add: rangesWithTail_def)

lemma storeInv_started: "storeInv cfg v segs s \<Longrightarrow> segs \<noteq> [] \<Longrightarrow> electedManifest v \<noteq> None"
  by (auto simp: storeInv_def logOnDisk_def manifestMatches_def split: option.splits)

context locking_file_system
begin

lemma slotExists_healthy: "slotExists F sl s = (b, s') \<Longrightarrow> healthy (world s) \<Longrightarrow> healthy (world s')"
  using size_healthy by (fastforce simp: slotExists_def onWorld_eq split: prod.splits)

lemma tryRead_stays_healthy: "tryRead F sl s = (m, s') \<Longrightarrow> healthy (world s) \<Longrightarrow> healthy (world s')"
  using read_healthy by (fastforce simp: tryRead_def onWorld_eq split: prod.splits if_splits)

lemma probeSlots_healthy: "probeSlots F s = (r, s') \<Longrightarrow> healthy (world s) \<Longrightarrow> healthy (world s')"
  by (auto simp: probeSlots_def Let_def split: prod.splits if_splits
      dest!: slotExists_healthy tryRead_stays_healthy)

lemma publishTarget_healthy:
  assumes "healthy (world s)" and "slotFree (view (world s))"
  shows "\<exists>sl e s'. publishTarget F s = ((Some sl, e), s') \<and> healthy (world s')"
proof (cases "cachedWrittenSlot s")
  case None
  obtain t e s' where p: "probeSlots F s = ((t, e), s')" by (metis surj_pair)
  have "t \<noteq> None"
    using probeSlots_readable [OF healthy_is_readable [OF assms(1)]] p assms(2)
    by (simp add: slotFree_def) (metis fst_conv)
  then show ?thesis using None p probeSlots_healthy [OF p assms(1)] by (auto simp: publishTarget_def)
next
  case (Some sl)
  then show ?thesis using assms(1) by (simp add: publishTarget_def)
qed

lemma publish_healthy:
  assumes h: "healthy (world s)" and f: "slotFree (view (world s))" and l: "loadable (ranges m)"
  shows "\<exists>s'. publishManifest F m s = Some (success, s') \<and> healthy (world s')"
proof -
  obtain sl e s1 where t: "publishTarget F s = ((Some sl, e), s1)" "healthy (world s1)"
    using publishTarget_healthy [OF h f] by blast
  obtain st s2 where w: "writeSegmentFileTracked F (slotName sl)
      (serialiseManifest (m\<lparr>epoch := e + 1\<rparr>)) MayOverwrite s1 = (st, s2)" by fastforce
  have "ok st" "healthy (world s2)" using writeTracked_healthy [OF w t(2)] by simp_all
  with t w l show ?thesis
    by (simp add: publishManifest_def present applyManifestToRam_eq)
qed

lemma createSegment_healthy:
  assumes h: "healthy (world s)" and c: "createSegment F g b s = (st, s')"
  shows "ok st" "healthy (world s')" "slotFree (view (world s')) = slotFree (view (world s))"
proof -
  show o: "ok st" and "healthy (world s')"
    using writeTracked_healthy [OF c [unfolded createSegment_def] h] by simp_all
  show "slotFree (view (world s')) = slotFree (view (world s))"
    using writeTracked_ok [OF c [unfolded createSegment_def] o] by auto
qed

lemma rotateSegment_healthy:
  assumes h: "healthy (world s)" and f: "slotFree (view (world s))" and r: "rangeRoom s"
    and l: "loadable (rangesWithTail (manifestRanges s) (activeGeneration s))"
  shows "\<exists>s'. rotateSegment F s = Some (success, s') \<and> healthy (world s')"
proof -
  define rs where "rs = rangesWithTail (manifestRanges s) (activeGeneration s)"
  define s0 where "s0 = (if activeGeneration s \<noteq> 0 then s\<lparr>sealedSegmentBytes :=
      (sealedSegmentBytes s)(activeGeneration s := Some (activeSegmentBytes s))\<rparr> else s)"
  have w0: "world s0 = world s" by (simp add: s0_def)
  obtain st s1 where c: "createSegment F (nextGen s) (baseSequence s0) s0 = (st, s1)" by fastforce
  have c1: "ok st" "healthy (world s1)" "slotFree (view (world s1))"
    using createSegment_healthy [OF _ c] h f by (simp_all add: w0)
  have n: "\<not> length rs > unat kManifestMaxRanges"
    using r length_rangesWithTail [of "manifestRanges s" "activeGeneration s"]
    by (simp add: rs_def rangeRoom_def kManifestMaxRanges_def)
  obtain s2 where "publishManifest F (default_manifest\<lparr>ranges := rs, tailGeneration := nextGen s,
      nextGeneration := nextGen s + 1\<rparr>) s1 = Some (success, s2)" "healthy (world s2)"
    using publish_healthy [OF c1(2,3), of "default_manifest\<lparr>ranges := rs,
      tailGeneration := nextGen s, nextGeneration := nextGen s + 1\<rparr>"] l by (auto simp: rs_def)
  then have "rotateSegment F s = Some (success, activateSegment (nextGen s) s2)"
    using n c c1(1) unfolding rotateSegment_def Let_def rs_def [symmetric] s0_def [symmetric]
    by simp
  with \<open>healthy (world s2)\<close> show ?thesis by (simp add: activateSegment_def)
qed

lemma ensureActiveSegment_healthy:
  assumes h: "healthy (world s)" and f: "slotFree (view (world s))" and l: "loadable (manifestRanges s)"
  shows "\<exists>s'. ensureActiveSegment F q s = Some (success, s') \<and> healthy (world s')"
proof (cases "activeSegmentBytes s = 0")
  case True
  obtain st s1 where c: "createSegment F (nextGen s) q s = (st, s1)" by fastforce
  note c1 = createSegment_healthy [OF h c]
  have mr: "manifestRanges s1 = manifestRanges s" by (rule createSegment_ranges [OF c])
  obtain s2 where "publishManifest F (default_manifest\<lparr>ranges := manifestRanges s1,
      tailGeneration := nextGen s, nextGeneration := nextGen s + 1\<rparr>) s1 = Some (success, s2)"
      "healthy (world s2)"
    using publish_healthy [OF c1(2), of "default_manifest\<lparr>ranges := manifestRanges s1,
      tailGeneration := nextGen s, nextGeneration := nextGen s + 1\<rparr>"] l mr f c1(3) by auto
  then show ?thesis using True c c1(1) by (simp add: ensureActiveSegment_def activateSegment_def)
qed (use h in \<open>simp add: ensureActiveSegment_def\<close>)

lemma append_healthy:
  assumes h: "healthy (world s)" and i: "storeInv cfg (view (world s)) segs s" and ne: "segs \<noteq> []"
    and run: "appendEnqueueEventBytes F d s = (st, s')"
  shows "ok st" "healthy (world s')"
proof -
  obtain st0 w where wa: "fs_writeAt F (segmentName (activeGeneration s)) (ucast (activeSegmentBytes s)) d
      (world s) = (st0, w)" by fastforce
  have "view (world s) (segmentName (activeGeneration s)) \<noteq> None"
    using i segsOnDisk_last [OF ne] ne by (auto simp: storeInv_def logOnDisk_def)
  then have "ok st0" "healthy w" using writeAt_healthy [OF h wa] by simp_all
  with run wa show "ok st" "healthy (world s')"
    by (auto simp: appendEnqueueEventBytes_def onWorld_def Let_def)
qed

text \<open>Making room for an event: afterwards there is an active segment that takes it.\<close>

lemma prepare_healthy:
  assumes i: "storeInv cfg (view (world s)) segs s" and h: "healthy (world s)"
    and c: "configOk cfg" and k: "countersOk (view (world s)) s" and a: "eventAdmissible cfg ev"
    and f: "slotFree (view (world s))" and rr: "rangeRoom s"
  obtains s1 s2 segs' where "rotateIfFull F cfg (word_of_nat (eventSize ev)) s = Some (success, s1)"
    "ensureActiveSegment F q s1 = Some (success, s2)" "healthy (world s2)"
    "storeInv cfg (view (world s2)) segs' s2" "segs' \<noteq> []"
proof -
  note l = storeInv_loadable [OF i]
  obtain s1 where r1: "rotateIfFull F cfg (word_of_nat (eventSize ev)) s = Some (success, s1)"
      "healthy (world s1)"
    using rotateSegment_healthy [OF h f rr l(2)] h
    by (cases "needsRotation cfg (word_of_nat (eventSize ev)) s") (auto simp: rotateIfFull_def)
  have s1: "loadable (manifestRanges s1)" "slotFree (view (world s1))"
  proof -
    from i healthy_is_readable [OF h] c k a r1(1)
    have "loadable (manifestRanges s1) \<and> slotFree (view (world s1))"
    proof (cases rule: rotateIfFull_cases)
      case (room segs1)
      then show ?thesis
        using storeInv_loadable [OF room(2)] storeInv_started [OF room(2)] slotFree_elected f
        by (cases "segs1 = []") auto
    qed simp
    then show "loadable (manifestRanges s1)" "slotFree (view (world s1))" by simp_all
  qed
  obtain s2 where r2: "ensureActiveSegment F q s1 = Some (success, s2)" "healthy (world s2)"
    using ensureActiveSegment_healthy [OF r1(2) s1(2) s1(1)] by blast
  from i healthy_is_readable [OF h] c k a r1(1) _ r2(1) show thesis
    by (rule prepare_ok) (use that r1 r2 in auto)
qed

lemma writeEnqueue_healthy:
  assumes i: "storeInv cfg (view (world s)) segs s" and h: "healthy (world s)"
    and c: "configOk cfg" and k: "countersOk (view (world s)) s"
    and sz: "recordSizeError cfg (length p) = None"
    and f: "slotFree (view (world s))" and rr: "rangeRoom s"
  shows "\<exists>s'. writeEnqueue F cfg q p s = Some (success, s') \<and> healthy (world s')"
proof -
  note a = enqueue_size [OF sz c, of q]
  obtain s1 s2 segs' where p: "rotateIfFull F cfg (word_of_nat (eventSize (LogEnqueue q p))) s = Some (success, s1)"
    "ensureActiveSegment F q s1 = Some (success, s2)" "healthy (world s2)"
    "storeInv cfg (view (world s2)) segs' s2" "segs' \<noteq> []"
    by (rule prepare_healthy [OF i h c k a(1) f rr])
  obtain st s3 where ap: "appendEnqueueEventBytes F (serializeEnqueueEvent q p) s2 = (st, s3)"
    by fastforce
  have "ok st" "healthy (world s3)" using append_healthy [OF p(3-5) ap] by simp_all
  then show ?thesis
    using p ap by (simp add: writeEnqueue_def a(3) Let_def del: eventSize.simps)
qed

lemma appendPopEvent_healthy:
  assumes i: "storeInv cfg (view (world s)) segs s" and h: "healthy (world s)"
    and c: "configOk cfg" and k: "countersOk (view (world s)) s"
    and f: "slotFree (view (world s))" and rr: "rangeRoom s"
  shows "\<exists>st s'. appendPopEvent F cfg q s = Some (st, s') \<and> ok st \<and> healthy (world s')"
proof -
  have a: "eventAdmissible cfg (LogPop q)" by (simp add: eventAdmissible_def)
  have n: "kPopEventBytes = word_of_nat (eventSize (LogPop q))" by (simp add: kPopEventBytes_def)
  obtain s1 s2 segs' where p: "rotateIfFull F cfg (word_of_nat (eventSize (LogPop q))) s = Some (success, s1)"
    "ensureActiveSegment F q s1 = Some (success, s2)" "healthy (world s2)"
    "storeInv cfg (view (world s2)) segs' s2" "segs' \<noteq> []"
    by (rule prepare_healthy [OF i h c k a f rr])
  obtain st s3 where ap: "appendEnqueueEventBytes F (serializePopEvent q) s2 = (st, s3)"
    by fastforce
  have "ok st" "healthy (world s3)" using append_healthy [OF p(3-5) ap] by simp_all
  then show ?thesis
    using p ap by (simp add: appendPopEvent_def n del: eventSize.simps)
qed

lemma appendRewriteEvent_healthy:
  assumes i: "storeInv cfg (view (world s)) segs s" and h: "healthy (world s)"
    and c: "configOk cfg" and k: "countersOk (view (world s)) s"
    and sz: "recordSizeError cfg (length p) = None" and q: "q \<in> fst ` set (logQueue segs)"
    and f: "slotFree (view (world s))" and rr: "rangeRoom s"
  shows "\<exists>s'. appendRewriteEvent F cfg q p s = Some (success, s') \<and> healthy (world s')"
proof -
  note a = enqueue_size [OF sz c, of q]
  obtain target where tg: "find (\<lambda>r. srSequence r = q) (records s) = Some target"
    using denotesAll_find [OF storeInv_queue [OF i], of q] q by auto
  obtain s1 s2 segs' where p: "rotateIfFull F cfg (word_of_nat (eventSize (LogRewrite q p))) s = Some (success, s1)"
    "ensureActiveSegment F q s1 = Some (success, s2)" "healthy (world s2)"
    "storeInv cfg (view (world s2)) segs' s2" "segs' \<noteq> []"
    by (rule prepare_healthy [OF i h c k a(2) f rr])
  obtain st s3 where ap: "appendEnqueueEventBytes F (serializeRewriteEvent q p) s2 = (st, s3)"
    by fastforce
  have "ok st" "healthy (world s3)" using append_healthy [OF p(3-5) ap] by simp_all
  then show ?thesis
    using p ap tg by (simp add: appendRewriteEvent_def a(4) Let_def del: eventSize.simps)
qed

end

text \<open>The limits under which a commit cannot be refused: the counters and the manifest have room,
  and a manifest slot can be written.\<close>

definition withinLimits :: "(string \<Rightarrow> bytes option) \<Rightarrow> 'w store \<Rightarrow> bool" where
  "withinLimits v s \<longleftrightarrow> countersOk v s \<and> rangeRoom s \<and> slotFree v"

context locking_file_system
begin

lemma commitEnqueue_healthy:
  assumes s: "storeHolds cfg (view (world s)) q s" and h: "healthy (world s)" and c: "configOk cfg"
    and k: "withinLimits (view (world s)) s" and sz: "recordSizeError cfg (length p) = None"
    and sq: "sq \<noteq> 0xffffffff" and nx: "\<forall>x \<in> set q. fst x < sq" and ad: "admits F cfg (length p) s"
  shows "\<exists>s'. commitEnqueue F cfg sq p s = Some (success, s') \<and> healthy (world s')
    \<and> storeHolds cfg (view (world s')) (q @ [(sq, p)]) s'"
proof -
  have k': "countersOk (view (world s)) s" "rangeRoom s" "slotFree (view (world s))"
    using k by (simp_all add: withinLimits_def)
  obtain segs where i: "storeInv cfg (view (world s)) segs s" "logQueue segs = q"
    using s by (blast elim: storeHoldsE)
  obtain s' where r: "commitEnqueue F cfg sq p s = Some (success, s')" "healthy (world s')"
    using writeEnqueue_healthy [OF i(1) h c k'(1) sz k'(3,2)]
    unfolding commitEnqueue_writes [OF s sz sq ad] by blast
  show ?thesis
    using r commitEnqueue_holds(1) [OF s healthy_is_readable [OF h] c k'(1) sz sq ad nx r(1)] by simp
qed

lemma commitPop_healthy:
  assumes s: "storeHolds cfg (view (world s)) q s" and h: "healthy (world s)" and c: "configOk cfg"
    and k: "withinLimits (view (world s)) s" and ne: "q \<noteq> []"
  shows "\<exists>s'. commitPop F cfg (fst (hd q)) s = Some (success, s') \<and> healthy (world s')
    \<and> storeHolds cfg (view (world s')) (tl q) s'"
proof -
  have k': "countersOk (view (world s)) s" "rangeRoom s" "slotFree (view (world s))"
    using k by (simp_all add: withinLimits_def)
  obtain segs where i: "storeInv cfg (view (world s)) segs s" "logQueue segs = q" and m: "mounted s"
    using s by (blast elim: storeHoldsE)
  have rs: "records s \<noteq> []" "srSequence (hd (records s)) = fst (hd q)"
    using storeHolds_records [OF s] ne by auto
  obtain st1 s1 where ap: "appendPopEvent F cfg (fst (hd q)) s = Some (st1, s1)" "ok st1"
      "healthy (world s1)" using appendPopEvent_healthy [OF i(1) h c k'(1,3,2)] by blast
  then obtain s' where r: "commitPop F cfg (fst (hd q)) s = Some (success, s')" "healthy (world s')"
    using m rs by (auto simp: commitPop_def Let_def)
  show ?thesis
    using r commitPop_holds(1) [OF s healthy_is_readable [OF h] c k'(1) ne r(1)] by simp
qed

lemma rewriteRecord_healthy:
  assumes s: "storeHolds cfg (view (world s)) q s" and h: "healthy (world s)" and c: "configOk cfg"
    and k: "withinLimits (view (world s)) s" and sz: "recordSizeError cfg (length p) = None"
    and sq: "sq \<in> fst ` set q" and ad: "admits F cfg (length p) s"
  shows "\<exists>s'. rewriteRecord F cfg sq p s = Some (success, s') \<and> healthy (world s')
    \<and> storeHolds cfg (view (world s')) (absReplace sq p q) s'"
proof -
  have k': "countersOk (view (world s)) s" "rangeRoom s" "slotFree (view (world s))"
    using k by (simp_all add: withinLimits_def)
  obtain segs where i: "storeInv cfg (view (world s)) segs s" "logQueue segs = q" and m: "mounted s"
    using s by (blast elim: storeHoldsE)
  obtain s' where "appendRewriteEvent F cfg sq p s = Some (success, s')" "healthy (world s')"
    using appendRewriteEvent_healthy [OF i(1) h c k'(1) sz _ k'(3,2), unfolded i(2), OF sq] by blast
  then have r: "rewriteRecord F cfg sq p s = Some (success, s')" "healthy (world s')"
    using m sz makeRoom_admits [OF ad] by (auto simp: rewriteRecord_def)
  show ?thesis
    using r rewriteRecord_holds(1) [OF s healthy_is_readable [OF h] c k'(1) sz sq ad r(1)] by simp
qed

text \<open>The first commit of a formatted store creates its first segment.\<close>

lemma first_enqueue_manifest:
  assumes s: "storeHolds cfg (view (world s)) [] s" and h: "healthy (world s)" and c: "configOk cfg"
    and f: "electedManifest (view (world s)) = None" "nextGen s = 1"
    and sz: "recordSizeError cfg (length p) = None"
    and sq: "sq \<noteq> 0xffffffff" and ad: "admits F cfg (length p) s"
    and run: "commitEnqueue F cfg sq p s = Some (st, s')" and ok: "ok st"
  shows "nextGen s' = 2 \<and> manifestRanges s' = [] \<and> activeGenerations s' = [1]
    \<and> electedManifest (view (world s')) = Some (default_manifest\<lparr>ranges := [],
         tailGeneration := 1, nextGeneration := 2, epoch := 1\<rparr>)"
proof -
  obtain segs where i: "storeInv cfg (view (world s)) segs s" using s by (blast elim: storeHoldsE)
  have n: "segs = []" using i f by (auto simp: storeInv_def logOnDisk_def manifestMatches_def)
  note i = i [unfolded n]
  have a0: "activeSegmentBytes s = 0" using i by (simp add: storeInv_def u32_eq_unat)
  obtain st2 s2 where e: "ensureActiveSegment F sq s = Some (st2, s2)" "ok st2"
    using run [unfolded commitEnqueue_writes [OF s sz sq ad]] ok a0
    by (cases "ensureActiveSegment F sq s")
      (auto simp: writeEnqueue_def rotateIfFull_def needsRotation_def kSegmentHeaderBytes_def
        storeDiagnostic_def split: if_splits)
  have ee: "electedEpoch (view (world s)) = 0" by (simp add: electedEpoch_def f)
  obtain ss where s2: "storeInv cfg (view (world s2)) [(1, ss, [])] s2" "nextGen s2 = 2"
      "manifestRanges s2 = []" "electedManifest (view (world s2)) = Some (default_manifest\<lparr>ranges := [],
       tailGeneration := 1, nextGeneration := 2, epoch := 1\<rparr>)"
    by (rule ensureActiveSegment_first [OF i healthy_is_readable [OF h] _ _ e]) (simp_all add: f ee)
  obtain st3 s3 where ap: "appendEnqueueEventBytes F (serializeEnqueueEvent sq p) s2 = (st3, s3)"
    by fastforce
  have s': "ok st3" "\<exists>rs. s' = s3\<lparr>records := rs\<rparr>"
    using run [unfolded commitEnqueue_writes [OF s sz sq ad]] ok a0 e ap
    by (auto simp: writeEnqueue_def rotateIfFull_def needsRotation_def kSegmentHeaderBytes_def Let_def
        storeDiagnostic_def split: if_splits)
  obtain st0 w where wa: "fs_writeAt F (segmentName (activeGeneration s2))
      (ucast (activeSegmentBytes s2)) (serializeEnqueueEvent sq p) (world s2) = (st0, w)" by fastforce
  have "ok st0" and s3: "\<exists>b t. s3 = s2\<lparr>world := w, activeSegmentBytes := b, totalOnDiskBytes := t\<rparr>"
    using ap wa s'(1) by (cases s2, auto simp: appendEnqueueEventBytes_def onWorld_def Let_def split: if_splits)+
  from writeAt_ok [OF wa this(1)] have "electedManifest (view w) = electedManifest (view (world s2))"
    by auto
  then have el: "electedManifest (view (world s')) = electedManifest (view (world s2))"
    using s'(2) s3 by auto
  show ?thesis using s'(2) s3 s2 el by (auto simp: storeInv_def)
qed

lemma first_enqueue_limits:
  assumes "nextGen s = 2 \<and> manifestRanges s = [] \<and> activeGenerations s = [1]
    \<and> electedManifest v = Some (default_manifest\<lparr>ranges := [],
         tailGeneration := 1, nextGeneration := 2, epoch := 1\<rparr>)"
  shows "withinLimits v s"
  using assms slotFree_elected [of v]
  by (simp add: withinLimits_def countersOk_def rangeRoom_def electedEpoch_def)

text \<open>Whatever became of a commit, it returned.\<close>

lemma prepare_returns:
  assumes i: "storeInv cfg (view (world s)) segs s" and h: "readable (world s)"
    and c: "configOk cfg" and k: "countersOk (view (world s)) s" and a: "eventAdmissible cfg ev"
  obtains st s1 where "rotateIfFull F cfg (word_of_nat (eventSize ev)) s = Some (st, s1)"
    "ok st \<longrightarrow> ensureActiveSegment F q s1 \<noteq> None"
proof -
  obtain st s1 where r: "rotateIfFull F cfg (word_of_nat (eventSize ev)) s = Some (st, s1)"
    using rotateIfFull_returns [OF i, of F "word_of_nat (eventSize ev)"] by auto
  have "ensureActiveSegment F q s1 \<noteq> None" if o: "ok st"
  proof -
    from i h c k a r have "loadable (manifestRanges s1)"
      by (cases rule: rotateIfFull_cases) (use o storeInv_loadable in auto)
    then show "ensureActiveSegment F q s1 \<noteq> None" by (rule ensureActiveSegment_returns)
  qed
  with r show thesis by (blast intro: that)
qed

lemma commitEnqueue_returns:
  assumes s: "storeHolds cfg (view (world s)) q s" and h: "readable (world s)"
    and c: "configOk cfg" and k: "countersOk (view (world s)) s"
    and sz: "recordSizeError cfg (length p) = None" and sq: "sq \<noteq> 0xffffffff"
    and ad: "admits F cfg (length p) s"
  obtains st s' where "commitEnqueue F cfg sq p s = Some (st, s')"
proof -
  note a = enqueue_size [OF sz c, of sq]
  obtain segs where i: "storeInv cfg (view (world s)) segs s" using s by (blast elim: storeHoldsE)
  obtain st s1 where r: "rotateIfFull F cfg (word_of_nat (eventSize (LogEnqueue sq p))) s = Some (st, s1)"
    "ok st \<longrightarrow> ensureActiveSegment F sq s1 \<noteq> None"
    by (rule prepare_returns [where q = sq, OF i h c k a(1)])
  have "writeEnqueue F cfg sq p s \<noteq> None"
    using r by (cases "ok st"; cases "ensureActiveSegment F sq s1")
      (auto simp: writeEnqueue_def a(3) Let_def simp del: eventSize.simps split: prod.splits)
  then show thesis using that commitEnqueue_writes [OF s sz sq ad] by auto
qed

lemma commitPop_returns:
  assumes s: "storeHolds cfg (view (world s)) q s" and h: "readable (world s)"
    and c: "configOk cfg" and k: "countersOk (view (world s)) s"
  obtains st s' where "commitPop F cfg sq s = Some (st, s')"
proof -
  obtain segs where i: "storeInv cfg (view (world s)) segs s" and m: "mounted s"
    using s by (blast elim: storeHoldsE)
  have a: "eventAdmissible cfg (LogPop q)" for q by (simp add: eventAdmissible_def)
  have n: "kPopEventBytes = word_of_nat (eventSize (LogPop sq))" by (simp add: kPopEventBytes_def)
  obtain st s1 where r: "rotateIfFull F cfg (word_of_nat (eventSize (LogPop sq))) s = Some (st, s1)"
    "ok st \<longrightarrow> ensureActiveSegment F sq s1 \<noteq> None"
    by (rule prepare_returns [where q = sq, OF i h c k a [of sq]])
  have "appendPopEvent F cfg sq s \<noteq> None"
    using r by (cases "ok st"; cases "ensureActiveSegment F sq s1")
      (auto simp: appendPopEvent_def n simp del: eventSize.simps)
  then have "commitPop F cfg sq s \<noteq> None" using m by (auto simp: commitPop_def Let_def)
  then show thesis using that by auto
qed

lemma rewriteRecord_returns:
  assumes s: "storeHolds cfg (view (world s)) q s" and h: "readable (world s)"
    and c: "configOk cfg" and k: "countersOk (view (world s)) s"
    and sz: "recordSizeError cfg (length p) = None" and ad: "admits F cfg (length p) s"
  obtains st s' where "rewriteRecord F cfg sq p s = Some (st, s')"
proof -
  obtain segs where i: "storeInv cfg (view (world s)) segs s" and m: "mounted s"
    using s by (blast elim: storeHoldsE)
  note a = enqueue_size [OF sz c, of sq]
  obtain st s1 where r: "rotateIfFull F cfg (word_of_nat (eventSize (LogRewrite sq p))) s = Some (st, s1)"
    "ok st \<longrightarrow> ensureActiveSegment F sq s1 \<noteq> None"
    by (rule prepare_returns [where q = sq, OF i h c k a(2)])
  have "appendRewriteEvent F cfg sq p s \<noteq> None"
    using r by (cases "ok st"; cases "ensureActiveSegment F sq s1")
      (auto simp: appendRewriteEvent_def a(4) Let_def simp del: eventSize.simps
        split: prod.splits option.splits)
  then have "rewriteRecord F cfg sq p s \<noteq> None"
    using m sz makeRoom_admits [OF ad] by (auto simp: rewriteRecord_def)
  then show thesis using that by auto
qed

end

text \<open>A store that was just formatted is within the limits.\<close>

context locking_file_system
begin

lemma formatStore_limits:
  assumes "healthy (world s)"
  shows "\<exists>s'. formatStore F cfg s = (success, s') \<and> healthy (world s')
    \<and> storeHolds cfg (view (world s')) [] s' \<and> nextSequence s' = 0
    \<and> withinLimits (view (world s')) s'
    \<and> electedManifest (view (world s')) = None \<and> nextGen s' = 1"
proof -
  obtain s' where f: "formatStore F cfg s = (success, s')" "healthy (world s')"
      "storeHolds cfg (view (world s')) [] s'" "nextSequence s' = 0" "nextGen s' = 1"
      "activeGenerations s' = []" "manifestRanges s' = []"
      "\<forall>name. view (world s') name = (if foreignName name then view (world s) name else None)"
    using formatStore_holds [OF assms, of cfg] by blast
  have sl: "view (world s') (slotName sl) = None" for sl
    using f(8) by (cases sl) (simp_all add: foreignName_def)
  have "electedManifest (view (world s')) = None"
    by (simp add: electedManifest_def slotManifest_def sl)
  moreover from this have "electedEpoch (view (world s')) = 0" by (simp add: electedEpoch_def)
  ultimately show ?thesis
    using f slotFree_fresh [of "view (world s')"] sl by (auto simp: withinLimits_def countersOk_def rangeRoom_def)
qed

end

end
