(* ===== verification/Queue_Correct.thy ===== *)
theory Queue_Correct
  imports Queue_API Store_Progress
begin

text \<open>
  The queue as a client of the \<open>Store\<close> interface.  The locale \<open>fifo_store\<close> states what the
  queue relies on: a store that \<open>holds\<close> a list of numbered records reports its index, reads its
  records, and changes it by appending at the end and removing at the front; the lock file is not
  part of the contents.  The queue's operations are proved against it, and the locale is
  interpreted on the append log in \<open>Queue_Theorems\<close>.
\<close>

locale fifo_store =
  fixes S :: "'s store_ops" and holds :: "abs_queue \<Rightarrow> 's \<Rightarrow> bool"
    and usable :: "'s \<Rightarrow> bool" and fits :: "nat \<Rightarrow> 's \<Rightarrow> bool"
  assumes numbered: "holds xs s \<Longrightarrow> contiguous xs"
    and index_law: "holds xs s \<Longrightarrow> \<exists>ix. st_readIndex S s = Some ((success, ix), s)
          \<and> ixCount ix = word_of_nat (length xs)
          \<and> (xs \<noteq> [] \<longrightarrow> ixHead ix = fst (hd xs) \<and> ixTail ix = fst (last xs) + 1)"
    and read_law: "holds xs s \<Longrightarrow> i < length xs \<Longrightarrow>
          \<exists>s'. st_readRecord S (fst (xs ! i)) s = Some ((success, snd (xs ! i)), s')
             \<and> holds xs s' \<and> usable s' = usable s"
    and size_law: "holds xs s \<Longrightarrow> i < length xs \<Longrightarrow>
          st_readRecordSize S (fst (xs ! i)) s = Some ((success, length (snd (xs ! i))), s)"
    and enqueue_law: "holds xs s \<Longrightarrow> fits (length p) s \<Longrightarrow> (xs \<noteq> [] \<Longrightarrow> t = fst (last xs) + 1) \<Longrightarrow>
          \<exists>st s'. st_commitEnqueue S t p s = Some (st, s') \<and> (ok st \<longrightarrow> holds (xs @ [(t, p)]) s')"
    and pop_law: "holds xs s \<Longrightarrow> usable s \<Longrightarrow> xs \<noteq> [] \<Longrightarrow>
          \<exists>st s'. st_commitPop S (fst (hd xs)) s = Some (st, s') \<and> (ok st \<longrightarrow> holds (tl xs) s')"
    and rewrite_law: "holds xs s \<Longrightarrow> fits (length p) s \<Longrightarrow> xs \<noteq> [] \<Longrightarrow>
          \<exists>st s'. st_rewriteRecord S (fst (hd xs)) p s = Some (st, s')
             \<and> (ok st \<longrightarrow> holds ((fst (hd xs), p) # tl xs) s')"
    and lock_law: "holds xs s \<Longrightarrow>
          \<exists>st s'. st_tryAcquireLockFile S kLockFileName d s = Some (st, s')
             \<and> holds xs s' \<and> usable s' = usable s \<and> \<not> isCorruptRecordStatus (code st)"
    and unlock_law: "holds xs s \<Longrightarrow> st_releaseLockFile S kLockFileName d s = (st, s') \<Longrightarrow>
          holds xs s' \<and> usable s' = usable s"

lemma queueDiagnostic_simps [simp]:
  "fst (queueDiagnostic c sev st op q) = st"
  "quStore (snd (queueDiagnostic c sev st op q)) = quStore q"
  by (simp_all add: queueDiagnostic_def)

lemma queueDiagnostic_eq: "queueDiagnostic c sev st op q = (r, q') \<longleftrightarrow>
   r = st \<and> q' = q\<lparr>quEmitted := emitEvent (queueEvents c)
               (diagnosticEvent sev st ''Queue'' op) (quEmitted q)\<rparr>"
  by (auto simp: queueDiagnostic_def)

text \<open>The lock operations of a queue in the states its store holds \<open>xs\<close>.\<close>

context fifo_store
begin

lemma lockAttempts_holds:
  "holds xs (quStore q) \<Longrightarrow> \<not> ok lastStatus \<Longrightarrow> \<exists>st q'. lockAttempts S c n lastStatus q = Some (st, q')
     \<and> holds xs (quStore q') \<and> usable (quStore q') = usable (quStore q)
     \<and> \<not> isCorruptRecordStatus (code st)"
proof (induction n arbitrary: q lastStatus)
  case 0
  then show ?case by (simp add: queueDiagnostic_def isCorruptRecordStatus_def failure_code_def)
next
  case (Suc n)
  obtain st s' where l: "st_tryAcquireLockFile S kLockFileName (quLockContents q) (quStore q) = Some (st, s')"
      "holds xs s'" "usable s' = usable (quStore q)" "\<not> isCorruptRecordStatus (code st)"
    using lock_law [OF Suc.prems(1)] by blast
  show ?case
  proof (cases "ok st \<or> code st \<noteq> LockTimeout")
    case True
    then show ?thesis using l
      by (auto simp: onStore_def queueDiagnostic_def isCorruptRecordStatus_def success_def)
  next
    case False
    then show ?thesis using l Suc.IH [of "q\<lparr>quStore := s'\<rparr>" st] by (simp add: onStore_def)
  qed
qed

lemma acquire_holds:
  "holds xs (quStore q) \<Longrightarrow> \<exists>st q'. acquireLock S c q = Some (st, q')
     \<and> holds xs (quStore q') \<and> usable (quStore q') = usable (quStore q)
     \<and> \<not> isCorruptRecordStatus (code st)"
  using lockAttempts_holds [of xs "ensureLockContents q" "failure LockTimeout ''queue lock timeout''" c kLockAttempts]
  by (auto simp: acquireLock_def ensureLockContents_def isCorruptRecordStatus_def success_def)

lemma release_holds:
  "holds xs (quStore q) \<Longrightarrow> holds xs (quStore (releaseLock S q))
     \<and> usable (quStore (releaseLock S q)) = usable (quStore q)"
  using unlock_law by (auto simp: releaseLock_def split: prod.splits)

lemma load_holds:
  assumes "holds xs (quStore q)"
  obtains ix where "loadLatestIndex S c q = Some (success, q\<lparr>quIndex := ix\<rparr>)"
    "ixCount ix = 0 \<longleftrightarrow> xs = []" "unat (ixCount ix) = length xs"
    "xs \<noteq> [] \<Longrightarrow> ixHead ix = fst (hd xs)" "xs \<noteq> [] \<Longrightarrow> ixTail ix = fst (last xs) + 1"
proof -
  obtain ix where ix: "st_readIndex S (quStore q) = Some ((success, ix), quStore q)"
      "ixCount ix = word_of_nat (length xs)"
      "xs \<noteq> [] \<longrightarrow> ixHead ix = fst (hd xs) \<and> ixTail ix = fst (last xs) + 1"
    using index_law [OF assms] by blast
  have "length xs < 2 ^ 32"
    using contiguous_bound [OF numbered [OF assms]] by (cases "xs = []") auto
  then have u: "unat (ixCount ix) = length xs" by (simp add: ix(2) unat_word_u32)
  then have z: "ixCount ix = 0 \<longleftrightarrow> xs = []" by (metis length_0_conv unat_eq_zero)
  have "loadLatestIndex S c q = Some (success, q\<lparr>quIndex := ix\<rparr>)"
    using ix by (simp add: loadLatestIndex_def onStore_def)
  then show thesis using u z ix(3) by (intro that [of ix]) auto
qed

text \<open>An operation on the front: the lock was not granted, the queue is empty, or the body runs on
  a store that holds \<open>xs\<close>.\<close>

lemma withFront_cases:
  assumes h: "holds xs (quStore q)"
  obtains (locked) st q1 where "withFront S c onF body q = Some (onF st, q1)" "\<not> ok st"
      "holds xs (quStore q1)" "\<not> isCorruptRecordStatus (code st)"
  | (empty) q1 where "withFront S c onF body q = Some (onF queueEmpty, q1)" "xs = []"
      "holds xs (quStore q1)"
  | (front) q1 st q0 where "acquireLock S c q = Some (st, q0)" "quStore q1 = quStore q0" "xs \<noteq> []"
      "holds xs (quStore q1)" "usable (quStore q1) = usable (quStore q)"
      "ixHead (quIndex q1) = fst (hd xs)"
      "withFront S c onF body q = do { (r, q2) \<leftarrow> body q1; Some (r, releaseLock S q2) }"
proof -
  obtain st q0 where a: "acquireLock S c q = Some (st, q0)" "holds xs (quStore q0)"
      "usable (quStore q0) = usable (quStore q)" "\<not> isCorruptRecordStatus (code st)"
    using acquire_holds [OF h] by blast
  obtain ix where ix: "loadLatestIndex S c q0 = Some (success, q0\<lparr>quIndex := ix\<rparr>)"
    "ixCount ix = 0 \<longleftrightarrow> xs = []" "xs \<noteq> [] \<Longrightarrow> ixHead ix = fst (hd xs)"
    using load_holds [OF a(2)] by metis
  consider "\<not> ok st" | "ok st" "xs = []" | "ok st" "xs \<noteq> []" by blast
  then show thesis
  proof cases
    case 1
    then show thesis using a by (intro locked [of st q0]) (simp_all add: withFront_def withLock_def)
  next
    case 2
    then show thesis using a ix release_holds [of xs "q0\<lparr>quIndex := ix\<rparr>"]
      by (intro empty [of "releaseLock S (q0\<lparr>quIndex := ix\<rparr>)"]) (simp_all add: withFront_def withLock_def)
  next
    case 3
    then show thesis using a ix
      by (intro front [of st q0 "q0\<lparr>quIndex := ix\<rparr>"]) (simp_all add: withFront_def withLock_def)
  qed
qed

section \<open>The operations\<close>

text \<open>\<open>peek\<close> returns the payload of the front record and leaves the contents as they are.\<close>

lemma peek_holds:
  assumes h: "holds xs (quStore q)"
  shows "\<exists>st d q'. peek S c q = Some ((st, d), q') \<and> holds xs (quStore q')
    \<and> (ok st \<longrightarrow> xs \<noteq> [] \<and> d = snd (hd xs)) \<and> (xs = [] \<longrightarrow> \<not> ok st)"
  using h
proof (cases rule: withFront_cases [where c = c and onF = "\<lambda>st. (st, [])"
    and body = "\<lambda>q. onStore (st_readRecord S (ixHead (quIndex q))) q"])
  case (front q1 st q0)
  then have z: "hd xs = xs ! 0" by (simp add: hd_conv_nth)
  obtain s' where r: "st_readRecord S (fst (hd xs)) (quStore q1) = Some ((success, snd (hd xs)), s')"
      "holds xs s'"
    using read_law [OF front(4), of 0] front(3) z by auto
  then show ?thesis
    using front r release_holds [of xs "q1\<lparr>quStore := s'\<rparr>"]
    by (simp add: peek_def onStore_def)
qed (auto simp: peek_def queueEmpty_def)

lemma peekSize_holds:
  assumes h: "holds xs (quStore q)"
  shows "\<exists>st n q'. peekSize S c q = Some ((st, n), q') \<and> holds xs (quStore q')
    \<and> (ok st \<longrightarrow> xs \<noteq> [] \<and> n = length (snd (hd xs))) \<and> (xs = [] \<longrightarrow> \<not> ok st)"
  using h
proof (cases rule: withFront_cases [where c = c and onF = "\<lambda>st. (st, 0)"
    and body = "\<lambda>q. onStore (st_readRecordSize S (ixHead (quIndex q))) q"])
  case (front q1 st q0)
  then have "st_readRecordSize S (fst (hd xs)) (quStore q1) = Some ((success, length (snd (hd xs))), quStore q1)"
    using size_law [OF front(4), of 0] by (simp add: hd_conv_nth)
  then show ?thesis using front release_holds [of xs "q1\<lparr>quStore := quStore q1\<rparr>"]
    by (simp add: peekSize_def onStore_def)
qed (auto simp: peekSize_def queueEmpty_def)

text \<open>\<open>pop\<close> removes the front record when it reports success.\<close>

lemma pop_holds:
  assumes h: "holds xs (quStore q)" and u: "usable (quStore q)"
  shows "\<exists>st q'. pop S c q = Some (st, q') \<and> (ok st \<longrightarrow> xs \<noteq> [] \<and> holds (tl xs) (quStore q'))
    \<and> (xs = [] \<longrightarrow> \<not> ok st)"
  using h
proof (cases rule: withFront_cases [where c = c and onF = id and body = "popFront S c ''pop''"])
  case (front q1 st q0)
  obtain st' s' where p: "st_commitPop S (fst (hd xs)) (quStore q1) = Some (st', s')"
      "ok st' \<longrightarrow> holds (tl xs) s'"
    using pop_law [OF front(4) _ front(3)] front(5) u by blast
  show ?thesis
  proof (cases "ok st'")
    case True
    then show ?thesis
      using front p release_holds [of "tl xs" "advanceHead (q1\<lparr>quStore := s'\<rparr>)"]
      by (simp add: pop_def popFront_def onStore_def advanceHead_def)
  next
    case False
    then show ?thesis using front p
      by (simp add: pop_def popFront_def onStore_def queueDiagnostic_def)
  qed
qed (auto simp: pop_def queueEmpty_def)

lemma rewriteFront_holds:
  assumes h: "holds xs (quStore q)"
    and f: "\<And>st q0. acquireLock S c q = Some (st, q0) \<Longrightarrow> fits (length p) (quStore q0)"
  shows "\<exists>st q'. rewriteFront S c p q = Some (st, q')
    \<and> (ok st \<longrightarrow> xs \<noteq> [] \<and> holds ((fst (hd xs), p) # tl xs) (quStore q'))
    \<and> (xs = [] \<longrightarrow> \<not> ok st)"
proof -
  define body where "body = (\<lambda>q. if length p > recordSizeBytes c
       then Some (queueDiagnostic c Warning
              (failure RecordTooLarge ''record exceeds configured queue maximum'') ''rewriteFront'' q)
       else onStore (st_rewriteRecord S (ixHead (quIndex q)) p) q)"
  have rw: "rewriteFront S c p = withFront S c id body"
    by (simp add: rewriteFront_def body_def)
  show ?thesis
    using h
  proof (cases rule: withFront_cases [where c = c and onF = id and body = body])
    case (front q1 st q0)
    obtain st' s' where p: "st_rewriteRecord S (fst (hd xs)) p (quStore q1) = Some (st', s')"
        "ok st' \<longrightarrow> holds ((fst (hd xs), p) # tl xs) s'"
      using rewrite_law [OF front(4) _ front(3)] front(2) f [OF front(1)] by metis
    show ?thesis
      using front p release_holds [of "(fst (hd xs), p) # tl xs" "q1\<lparr>quStore := s'\<rparr>"]
      by (cases "ok st'") (auto simp: rw body_def onStore_def queueDiagnostic_def)
  qed (auto simp: rw queueEmpty_def)
qed

text \<open>\<open>enqueue\<close> with the default policy: it appends the record when it reports success.\<close>

lemma enqueue_holds:
  assumes h: "holds xs (quStore q)" and pol: "fullQueuePolicy c = RejectNewest"
    and f: "\<And>st q0. acquireLock S c q = Some (st, q0) \<Longrightarrow> fits (length p) (quStore q0)"
  shows "\<exists>st q'. enqueue S c (DataSpan p) q = Some (st, q')
    \<and> (ok st \<longrightarrow> (\<exists>t. (xs \<noteq> [] \<longrightarrow> t = fst (last xs) + 1) \<and> holds (xs @ [(t, p)]) (quStore q')))"
proof -
  obtain st q0 where a: "acquireLock S c q = Some (st, q0)" "holds xs (quStore q0)"
    using acquire_holds [OF h] by blast
  obtain ix where ix: "loadLatestIndex S c q0 = Some (success, q0\<lparr>quIndex := ix\<rparr>)"
    "xs \<noteq> [] \<Longrightarrow> ixTail ix = fst (last xs) + 1"
    using load_holds [OF a(2)] by metis
  obtain st' s' where e: "st_commitEnqueue S (ixTail ix) p (quStore q0) = Some (st', s')"
      "ok st' \<longrightarrow> holds (xs @ [(ixTail ix, p)]) s'"
    using enqueue_law [OF a(2) f [OF a(1)], of "ixTail ix"] ix(2) by blast
  have r: "reclaimBeforeEviction S c p q1 = Some (success, q1)" for q1
    by (simp add: reclaimBeforeEviction_def pol split: option.splits)
  consider "\<not> ok st" | "ok st" "length p > recordSizeBytes c"
    | "ok st" "\<not> length p > recordSizeBytes c" "\<not> ok st'"
    | "ok st" "\<not> length p > recordSizeBytes c" "ok st'" by blast
  then show ?thesis
  proof cases
    case 1
    then show ?thesis using a by (simp add: enqueue_def withLock_def)
  next
    case 2
    then show ?thesis using a ix
      by (simp add: enqueue_def withLock_def enqueueLocked_def queueDiagnostic_def)
  next
    case 3
    then show ?thesis using a ix e r pol
      by (simp add: enqueue_def withLock_def enqueueLocked_def queueDiagnostic_def onStore_def
          commitEvicting.simps [of S c])
  next
    case 4
    define q2 where "q2 = advanceTail (q0\<lparr>quIndex := ix, quStore := s'\<rparr>)"
    have "enqueue S c (DataSpan p) q = Some (success, releaseLock S q2)"
      using 4 a ix e r pol
      by (simp add: enqueue_def withLock_def enqueueLocked_def onStore_def
          commitEvicting.simps [of S c] q2_def)
    moreover have "holds (xs @ [(ixTail ix, p)]) (quStore (releaseLock S q2))"
      using release_holds [of "xs @ [(ixTail ix, p)]" q2] 4 e(2) by (simp add: q2_def advanceTail_def)
    ultimately show ?thesis using ix(2) by auto
  qed
qed

end

section \<open>Calls and replies\<close>

text \<open>The three public operations a producer and a consumer use, with what they answer.\<close>

datatype call = CallEnqueue bytes | CallPeek | CallPop

datatype reply = Done | Payload bytes | Refused status

fun runCall ::
  "'s store_ops \<Rightarrow> queue_config \<Rightarrow> call \<Rightarrow> 's queue \<Rightarrow> (reply \<times> 's queue) option" where
  "runCall S c (CallEnqueue p) q =
     do { (st, q) \<leftarrow> enqueue S c (DataSpan p) q; Some (if ok st then Done else Refused st, q) }"
| "runCall S c CallPeek q =
     do { ((st, d), q) \<leftarrow> peek S c q; Some (if ok st then Payload d else Refused st, q) }"
| "runCall S c CallPop q =
     do { (st, q) \<leftarrow> pop S c q; Some (if ok st then Done else Refused st, q) }"

text \<open>The abstract FIFO: which replies are right on the list \<open>xs\<close> of payloads, and what becomes of
  it.\<close>

fun fifoCall :: "call \<Rightarrow> reply \<Rightarrow> bytes list \<Rightarrow> bytes list option" where
  "fifoCall (CallEnqueue p) Done xs = Some (xs @ [p])"
| "fifoCall CallPeek (Payload d) (x # xs) = (if d = x then Some (x # xs) else None)"
| "fifoCall CallPeek (Refused st) xs = Some xs"
| "fifoCall CallPop Done (x # xs) = Some xs"
| "fifoCall _ _ _ = None"

fun fifoTrace :: "(call \<times> reply) list \<Rightarrow> bytes list \<Rightarrow> bytes list option" where
  "fifoTrace [] xs = Some xs"
| "fifoTrace ((call, r) # tr) xs = Option.bind (fifoCall call r xs) (fifoTrace tr)"

lemma fifoTrace_append:
  "fifoTrace (tr @ tr') xs = Option.bind (fifoTrace tr xs) (fifoTrace tr')"
  by (induction tr xs rule: fifoTrace.induct) (auto split: bind_splits)

text \<open>The runs of a queue: calls that were answered, one after the other.  \<open>allowed\<close> restricts the
  states a call is made in.  A refused enqueue or pop ends a run.\<close>

inductive served ::
  "'s store_ops \<Rightarrow> queue_config \<Rightarrow> (call \<Rightarrow> 's queue \<Rightarrow> bool) \<Rightarrow> 's queue
     \<Rightarrow> (call \<times> reply) list \<Rightarrow> 's queue \<Rightarrow> bool"
  for S :: "'s store_ops" and c and allowed and q0 where
  start: "served S c allowed q0 [] q0"
| step: "served S c allowed q0 tr q \<Longrightarrow> allowed call q \<Longrightarrow> runCall S c call q = Some (r, q') \<Longrightarrow>
    call = CallPeek \<or> r = Done \<Longrightarrow> served S c allowed q0 (tr @ [(call, r)]) q'"

inductive_cases served_snocE: "served S c allowed q0 (tr @ [cr]) q"

context fifo_store
begin

text \<open>The states in which the store can be expected to take the call.\<close>

definition allowed :: "queue_config \<Rightarrow> call \<Rightarrow> 's queue \<Rightarrow> bool" where
  "allowed c call q \<longleftrightarrow>
     (case call of
        CallEnqueue p \<Rightarrow>
          (case acquireLock S c q of None \<Rightarrow> True | Some (st, q0) \<Rightarrow> fits (length p) (quStore q0))
      | CallPeek \<Rightarrow> True
      | CallPop \<Rightarrow> usable (quStore q))"

lemma runCall_fifo:
  assumes h: "holds xs (quStore q)" and pol: "fullQueuePolicy c = RejectNewest"
    and a: "allowed c call q" and run: "runCall S c call q = Some (r, q')"
    and r: "call = CallPeek \<or> r = Done"
  shows "\<exists>ys. fifoCall call r (map snd xs) = Some (map snd ys) \<and> holds ys (quStore q')"
proof (cases call)
  case (CallEnqueue p)
  have f: "fits (length p) (quStore q0)" if "acquireLock S c q = Some (st, q0)" for st q0
    using a that by (simp add: allowed_def CallEnqueue)
  obtain st q2 t where
    "enqueue S c (DataSpan p) q = Some (st, q2)" "ok st \<longrightarrow> holds (xs @ [(t, p)]) (quStore q2)"
    using enqueue_holds [OF h pol, of p] f by blast
  then show ?thesis using run r CallEnqueue by (intro exI [of _ "xs @ [(t, p)]"]) (auto split: if_splits)
next
  case CallPeek
  obtain st d q2 where "peek S c q = Some ((st, d), q2)" "holds xs (quStore q2)"
    "ok st \<longrightarrow> xs \<noteq> [] \<and> d = snd (hd xs)" using peek_holds [OF h] by blast
  then show ?thesis using run CallPeek by (intro exI [of _ xs]) (cases xs, auto split: if_splits)
next
  case CallPop
  obtain st q2 where "pop S c q = Some (st, q2)"
    "ok st \<longrightarrow> xs \<noteq> [] \<and> holds (tl xs) (quStore q2)"
    using pop_holds [OF h, of c] a by (auto simp: allowed_def CallPop)
  then show ?thesis using run r CallPop by (intro exI [of _ "tl xs"]) (cases xs, auto split: if_splits)
qed

lemma served_fifo:
  assumes "served S c (allowed c) q0 tr q" and "holds xs (quStore q0)"
    and "fullQueuePolicy c = RejectNewest"
  shows "\<exists>ys. fifoTrace tr (map snd xs) = Some (map snd ys) \<and> holds ys (quStore q)"
  using assms
proof (induction rule: served.induct)
  case start
  then show ?case by auto
next
  case (step tr q call r q')
  then obtain ys where ys: "fifoTrace tr (map snd xs) = Some (map snd ys)" "holds ys (quStore q)"
    by blast
  from runCall_fifo [OF ys(2) step.prems(2) step.hyps(2-4)] ys(1)
  show ?case by (auto simp: fifoTrace_append)
qed

end

section \<open>The lock is released\<close>

lemma lockAttempts_unheld:
  "lockAttempts S c n st q = Some (st', q') \<Longrightarrow> \<not> quLockHeld q \<Longrightarrow> quLockHeld q' \<Longrightarrow> ok st'"
proof (induction n arbitrary: st q)
  case (Suc n)
  then show ?case
    by (cases "st_tryAcquireLockFile S kLockFileName (quLockContents q) (quStore q)")
      (auto simp: onStore_def queueDiagnostic_def split: if_splits)
qed (auto simp: queueDiagnostic_def)

lemma acquireLock_unheld:
  "acquireLock S c q = Some (st', q') \<Longrightarrow> \<not> quLockHeld q \<Longrightarrow> quLockHeld q' \<Longrightarrow> ok st'"
  by (auto simp: acquireLock_def ensureLockContents_def split: if_splits dest: lockAttempts_unheld)

lemma releaseLock_unheld: "\<not> quLockHeld (releaseLock S q)"
  by (simp add: releaseLock_def split: prod.splits)

lemma withLock_unheld:
  "withLock S c onF body q = Some (r, q') \<Longrightarrow> \<not> quLockHeld q \<Longrightarrow> \<not> quLockHeld q'"
  by (auto simp: withLock_def bind_eq_Some_conv releaseLock_unheld split: if_splits prod.splits
      dest: acquireLock_unheld)

section \<open>Evictions\<close>

text \<open>The eviction loop ends: every round removes a record from the count of the index.\<close>

lemma commitEvicting_returns:
  assumes "\<And>s. st_commitEnqueue S sq p s \<noteq> None" and "\<And>t s. st_commitPop S t s \<noteq> None"
  shows "commitEvicting S c sq p q \<noteq> None"
proof (induction "unat (ixCount (quIndex q))" arbitrary: q rule: less_induct)
  case less
  obtain st s where e: "st_commitEnqueue S sq p (quStore q) = Some (st, s)"
    using assms(1) [of "quStore q"] by auto
  define q1 where "q1 = q\<lparr>quStore := s\<rparr>"
  obtain st2 s2 where v: "st_commitPop S (ixHead (quIndex q1)) (quStore q1) = Some (st2, s2)"
    using assms(2) [of "ixHead (quIndex q1)" "quStore q1"] by auto
  define q2 where "q2 = advanceHead (q1\<lparr>quStore := s2\<rparr>)"
  have m: "unat (ixCount (quIndex (q2\<lparr>quEmitted := ev\<rparr>))) < unat (ixCount (quIndex q))"
    if "ixCount (quIndex q) > 0" for ev
  proof -
    have "ixCount (quIndex (q2\<lparr>quEmitted := ev\<rparr>)) = ixCount (quIndex q) - 1"
      by (simp add: q2_def q1_def advanceHead_def)
    moreover have "ixCount (quIndex q) \<noteq> 0" using that by auto
    ultimately show ?thesis
      using unat_gt_0 [of "ixCount (quIndex q)"] by (simp add: unat_minus_one)
  qed
  have c1: "ixCount (quIndex q1) = ixCount (quIndex q)" by (simp add: q1_def)
  show ?case
    using less [OF m] e v c1
    by (subst commitEvicting.simps)
      (auto simp: onStore_def evictFront_def q1_def [symmetric] q2_def [symmetric] Let_def
        queueDiagnostic_eq split: prod.splits if_splits)
qed

end
