(* ===== verification/Log_Theorems.thy ===== *)
theory Log_Theorems
  imports Store_Progress
begin

text \<open>
  The append log on the POSIX file system: what the store promises of the queue it keeps in the
  storage directory, across remounts, failed writes and power loss.
\<close>

section \<open>Restarting\<close>

text \<open>A process that starts again on what the directory holds: a new store object, and no error
  pending from before.\<close>

definition restarted :: "posix_world \<Rightarrow> posix_world store" where
  "restarted w = newStore (w\<lparr>pwFaults := [], pwReadFaults := [], pwLockMounted := False\<rparr>)"

lemma restarted_simps [simp]:
  "posixView (world (restarted w)) = posixView w" "posixHealthy (world (restarted w))"
  "manifestRanges (restarted w) = []"
  by (simp_all add: restarted_def newStore_def posixView_def posixHealthy_def)

text \<open>The store the restarted process sees is exactly the queue \<open>q\<close>.\<close>

definition recovers :: "append_log_config \<Rightarrow> posix_world \<Rightarrow> abs_queue \<Rightarrow> bool" where
  "recovers cfg w q \<longleftrightarrow>
     (\<exists>s. mountStore posixFs cfg (restarted w) = Some (success, s)
        \<and> storeHolds cfg (posixView (world s)) q s)"

lemma recoversI:
  "diskHolds cfg (posixView w) q \<Longrightarrow> configOk cfg \<Longrightarrow> recovers cfg w q"
  using posix.mountStore_holds [of "restarted w" cfg q] by (auto simp: recovers_def configOk_def)

lemma recovers_holds:
  "storeHolds cfg (posixView (world s)) q s \<Longrightarrow> configOk cfg \<Longrightarrow> recovers cfg (world s) q"
  by (rule recoversI [OF storeHolds_disk])

section \<open>A sample run\<close>

definition sampleConfig :: append_log_config where
  "sampleConfig = default_append_log_config\<lparr>maxTotalBytes := 0, minFreeBytes := 0\<rparr>"

definition emptyWorld :: posix_world where
  "emptyWorld = \<lparr>pwFiles = [], pwFaults = [], pwReadFaults = [], pwLockMounted = False,
     pwAvailable = (\<lambda>_. None), pwKill = (\<lambda>_. KillOk)\<rparr>"

definition freshStore :: "posix_world store" where
  "freshStore = snd (formatStore posixFs sampleConfig (newStore emptyWorld))"

abbreviation sampleQueue :: abs_queue where "sampleQueue \<equiv> [(0, [1, 2])]"

definition oneRecord :: "posix_world store" where
  "oneRecord = snd (the (commitEnqueue posixFs sampleConfig 0 [1, 2] freshStore))"

lemma sampleConfig_ok: "configOk sampleConfig" "n \<le> 1000 \<Longrightarrow> recordSizeError sampleConfig n = None"
    "admits posixFs sampleConfig n s"
  by (simp_all add: sampleConfig_def default_append_log_config_def configOk_def admits_def
      recordSizeError_def kSegmentHeaderBytes_def kEnqueueOverheadBytes_def
      kEnqueueHeaderBytes_def kEventTrailerBytes_def)

lemma freshStore_ok:
  "posixHealthy (world freshStore)" "storeHolds sampleConfig (posixView (world freshStore)) [] freshStore"
  "withinLimits (posixView (world freshStore)) freshStore"
  "electedManifest (posixView (world freshStore)) = None" "nextGen freshStore = 1"
proof -
  have "posixHealthy (world (newStore emptyWorld))"
    by (simp add: newStore_def emptyWorld_def posixHealthy_def)
  from posix.formatStore_limits [OF this, of sampleConfig]
  show "posixHealthy (world freshStore)"
    "storeHolds sampleConfig (posixView (world freshStore)) [] freshStore"
    "withinLimits (posixView (world freshStore)) freshStore"
    "electedManifest (posixView (world freshStore)) = None" "nextGen freshStore = 1"
    by (auto simp: freshStore_def)
qed

lemma oneRecord_ok:
  "commitEnqueue posixFs sampleConfig 0 [1, 2] freshStore = Some (success, oneRecord)"
  "posixHealthy (world oneRecord)"
  "storeHolds sampleConfig (posixView (world oneRecord)) sampleQueue oneRecord"
proof -
  have "\<exists>s'. commitEnqueue posixFs sampleConfig 0 [1, 2] freshStore = Some (success, s')
      \<and> posixHealthy (world s') \<and> storeHolds sampleConfig (posixView (world s')) ([] @ sampleQueue) s'"
    using freshStore_ok sampleConfig_ok by (intro posix.commitEnqueue_healthy) simp_all
  then show "commitEnqueue posixFs sampleConfig 0 [1, 2] freshStore = Some (success, oneRecord)"
    "posixHealthy (world oneRecord)"
    "storeHolds sampleConfig (posixView (world oneRecord)) sampleQueue oneRecord"
    by (auto simp: oneRecord_def)
qed

lemma oneRecord_manifest:
  "nextGen oneRecord = 2 \<and> manifestRanges oneRecord = [] \<and> activeGenerations oneRecord = [1]
    \<and> electedManifest (posixView (world oneRecord)) = Some (default_manifest\<lparr>ranges := [],
         tailGeneration := 1, nextGeneration := 2, epoch := 1\<rparr>)"
  by (rule posix.first_enqueue_manifest [OF freshStore_ok(2,1) sampleConfig_ok(1) freshStore_ok(4,5)
        _ _ sampleConfig_ok(3) oneRecord_ok(1)]) (simp_all add: sampleConfig_ok)

lemma oneRecord_limits: "withinLimits (posixView (world oneRecord)) oneRecord"
  by (rule posix.first_enqueue_limits [OF oneRecord_manifest])

text \<open>The same store when the coming calls of the operating system end as \<open>fs\<close> says.\<close>

definition faulty :: "io_outcome list \<Rightarrow> posix_world store" where
  "faulty fs = oneRecord\<lparr>world := (world oneRecord)\<lparr>pwFaults := fs\<rparr>\<rparr>"

lemma faulty_view [simp]: "posixView (world (faulty fs)) = posixView (world oneRecord)"
  by (simp add: faulty_def posixView_def)

lemma faulty_ok:
  "storeHolds sampleConfig (posixView (world (faulty fs))) sampleQueue (faulty fs)"
  "posixReadable (world (faulty fs))" "configOk sampleConfig"
  "countersOk (posixView (world (faulty fs))) (faulty fs)" "started (posixView (world (faulty fs)))"
proof -
  show "storeHolds sampleConfig (posixView (world (faulty fs))) sampleQueue (faulty fs)"
    using sameLog_storeHolds [OF sameLog_refl oneRecord_ok(3)] by (simp add: faulty_def posixView_def)
  show "posixReadable (world (faulty fs))"
    using oneRecord_ok(2) by (simp add: faulty_def posixReadable_def posixHealthy_def)
  show "configOk sampleConfig" by (rule sampleConfig_ok)
  show "countersOk (posixView (world (faulty fs))) (faulty fs)"
    using oneRecord_limits by (simp add: withinLimits_def countersOk_def) (simp add: faulty_def)
  show "started (posixView (world (faulty fs)))"
    using storeHolds_started [OF oneRecord_ok(3)] by simp
qed

section \<open>Durability\<close>







section \<open>Progress\<close>

text \<open>C16. On a file system with no pending error, an enqueue within the limits of the format (a
  generation, an epoch, a range and a manifest slot left) and of the admission check succeeds.\<close>

theorem enqueue_succeeds:
  assumes "storeHolds cfg (posixView (world s)) q s" and "posixHealthy (world s)" and "configOk cfg"
    and "withinLimits (posixView (world s)) s" and "recordSizeError cfg (length p) = None"
    and "sq \<noteq> 0xffffffff" and "\<forall>x \<in> set q. fst x < sq" and "admits posixFs cfg (length p) s"
  shows "\<exists>s'. commitEnqueue posixFs cfg sq p s = Some (success, s') \<and> posixHealthy (world s')
    \<and> storeHolds cfg (posixView (world s')) (q @ [(sq, p)]) s'"
  by (rule posix.commitEnqueue_healthy [OF assms])

theorem enqueue_succeeds_witness:
  "\<exists>s'. commitEnqueue posixFs sampleConfig 1 [7] oneRecord = Some (success, s')
    \<and> posixHealthy (world s')
    \<and> storeHolds sampleConfig (posixView (world s')) (sampleQueue @ [(1, [7])]) s'"
  by (rule enqueue_succeeds [OF oneRecord_ok(3,2) sampleConfig_ok(1) oneRecord_limits _ _ _
        sampleConfig_ok(3)]) (simp_all add: sampleConfig_ok)

section \<open>Reading\<close>

text \<open>Reading the record with a live sequence number returns exactly the payload the queue holds
  for it, and changes no file.\<close>

theorem read_returns_payload:
  assumes "storeHolds cfg (posixView (world s)) q s" and "contiguous q" and "i < length q"
    and "posixReadable (world s)"
  shows "\<exists>w. readRecord posixFs cfg (fst (q ! i)) s = Some ((success, snd (q ! i)), s\<lparr>world := w\<rparr>)
    \<and> posixView w = posixView (world s)"
  using posix.readRecord_holds [OF assms] by blast

theorem read_returns_payload_witness:
  "\<exists>w. readRecord posixFs sampleConfig (fst (sampleQueue ! 0)) oneRecord
      = Some ((success, snd (sampleQueue ! 0)), oneRecord\<lparr>world := w\<rparr>)
    \<and> posixView w = posixView (world oneRecord)"
  by (rule read_returns_payload [OF oneRecord_ok(3)])
    (use oneRecord_ok(2) in \<open>simp_all add: contiguous_def\<close>)

section \<open>Mounting\<close>

text \<open>C5. Mounting a directory that holds a log, possibly with a torn event at its end, returns,
  succeeds, and rebuilds the queue the complete events of the log describe; the store it leaves is
  consistent with the directory.\<close>

theorem mount_replays_log:
  assumes "posixHealthy (world s)" and "logOnDisk cfg (posixView (world s)) segs t"
    and "configOk cfg" and "manifestRanges s = []"
  shows "\<exists>s'. mountStore posixFs cfg s = Some (success, s')
    \<and> storeInv cfg (posixView (world s')) segs s'
    \<and> denotesAll (posixView (world s')) (records s') (absEvents (logEvents segs) [])"
  using posix.mountStore_log [OF assms(1,2)] assms(3,4) storeInv_denotes
  by (fastforce simp: configOk_def)

theorem mount_replays_log_witness:
  "\<exists>s'. mountStore posixFs sampleConfig (newStore emptyWorld) = Some (success, s')
    \<and> storeInv sampleConfig (posixView (world s')) [] s'
    \<and> denotesAll (posixView (world s')) (records s') (absEvents (logEvents []) [])"
  by (rule mount_replays_log [where t = "[]"])
    (simp_all add: sampleConfig_ok logOnDisk_fresh newStore_def emptyWorld_def posixHealthy_def
      posixView_def)

text \<open>C17. Applying a manifest to the store's memory ends exactly when no range of it ends in the
  largest 32-bit generation; on such a range the loop never ends.\<close>

theorem load_terminates_iff:
  "applyManifestToRam md s \<noteq> None \<longleftrightarrow> 0xffffffff \<notin> endGen ` set (ranges md)"
  by (auto simp: applyManifestToRam_eq loadable_def)

text \<open>C18. Formatting a directory without pending errors leaves an empty queue, removes every segment
  and both manifests and no other file, and the next process mounts an empty queue.\<close>

theorem format_empties:
  assumes "posixHealthy (world s)" and "configOk cfg"
  shows "\<exists>s'. formatStore posixFs cfg s = (success, s')
    \<and> storeHolds cfg (posixView (world s')) [] s' \<and> recovers cfg (world s') []
    \<and> (\<forall>name. posixView (world s') name
          = (if foreignName name then posixView (world s) name else None))"
  using posix.formatStore_holds [OF assms(1), of cfg] recovers_holds [OF _ assms(2)] by blast

theorem format_empties_witness:
  "\<exists>s'. formatStore posixFs sampleConfig oneRecord = (success, s')
    \<and> storeHolds sampleConfig (posixView (world s')) [] s' \<and> recovers sampleConfig (world s') []
    \<and> (\<forall>name. posixView (world s') name
          = (if foreignName name then posixView (world oneRecord) name else None))"
  by (rule format_empties [OF oneRecord_ok(2) sampleConfig_ok(1)])

end
