(* ===== verification/Queue_Theorems.thy ===== *)
theory Queue_Theorems
  imports Queue_Correct Log_Theorems
begin

text \<open>
  The append log is a store in the sense of \<open>fifo_store\<close>, and the queue over it is a FIFO: what is
  enqueued comes out in order, once, and unchanged.
\<close>

section \<open>The append log as the queue's store\<close>

text \<open>The store holds the records \<open>xs\<close>, reads do not fail, and the numbers count up.\<close>

definition logHolds ::
  "('w \<Rightarrow> string \<Rightarrow> bytes option) \<Rightarrow> ('w \<Rightarrow> bool) \<Rightarrow> append_log_config \<Rightarrow> abs_queue
     \<Rightarrow> 'w store \<Rightarrow> bool" where
  "logHolds view readable cfg xs s \<longleftrightarrow>
     storeHolds cfg (view (world s)) xs s \<and> readable (world s) \<and> contiguous xs"

definition logUsable ::
  "('w \<Rightarrow> string \<Rightarrow> bytes option) \<Rightarrow> append_log_config \<Rightarrow> 'w store \<Rightarrow> bool" where
  "logUsable view cfg s \<longleftrightarrow> configOk cfg \<and> countersOk (view (world s)) s"

definition logFits ::
  "('w \<Rightarrow> string \<Rightarrow> bytes option) \<Rightarrow> 'w fs_ops \<Rightarrow> append_log_config \<Rightarrow> nat \<Rightarrow> 'w store \<Rightarrow> bool" where
  "logFits view F cfg n s \<longleftrightarrow>
     logUsable view cfg s \<and> recordSizeError cfg n = None \<and> admits F cfg n s"

lemma lockFile_foreign: "foreignName kLockFileName"
  by (simp add: foreignName_def kLockFileName_def isSegmentName_def kSegmentPrefix_def
      kSegmentSuffix_def slotName.simps)

lemma sameLog_lock:
  "\<forall>other. other \<noteq> kLockFileName \<longrightarrow> v' other = v other \<Longrightarrow> sameLog v v'"
  using lockFile_foreign by (metis sameLog_def)

lemma sameLog_countersOk:
  "sameLog v v' \<Longrightarrow> countersOk v' (s\<lparr>world := w\<rparr>) = countersOk v s"
  by (simp add: countersOk_def electedEpoch_def sameLog_elected)

lemma commitEnqueue_exhausted:
  assumes "mounted s" and "recordSizeError cfg (length p) = None"
  shows "\<exists>st s'. commitEnqueue F cfg 0xffffffff p s = Some (st, s') \<and> \<not> ok st"
  using assms by (simp add: commitEnqueue_def storeDiagnostic_def)

lemma absReplace_head: "q \<noteq> [] \<Longrightarrow> absReplace (fst (hd q)) p q = (fst (hd q), p) # tl q"
  by (cases q) auto

context locking_file_system
begin

lemma logHolds_lock:
  assumes h: "logHolds view readable cfg xs s" and r: "readable w"
    and v: "\<forall>other. other \<noteq> kLockFileName \<longrightarrow> view w other = view (world s) other"
  shows "logHolds view readable cfg xs (s\<lparr>world := w\<rparr>)"
    and "logUsable view cfg (s\<lparr>world := w\<rparr>) = logUsable view cfg s"
  using h r sameLog_storeHolds [OF sameLog_lock [OF v], where w = w]
    sameLog_countersOk [OF sameLog_lock [OF v], where s = s and w = w]
  by (simp_all add: logHolds_def logUsable_def)

lemma append_log_fifo:
  "fifo_store (appendLogOps F cfg) (logHolds view readable cfg) (logUsable view cfg)
     (logFits view F cfg)"
proof unfold_locales
  fix xs :: abs_queue and s :: "'a store"
  assume h: "logHolds view readable cfg xs s"
  then have s: "storeHolds cfg (view (world s)) xs s" and r: "readable (world s)"
    and ct: "contiguous xs" by (simp_all add: logHolds_def)
  have m: "mounted s" using s by (blast elim: storeHoldsE)
  show "contiguous xs" by (rule ct)
  show "\<exists>ix. st_readIndex (appendLogOps F cfg) s = Some ((success, ix), s)
      \<and> ixCount ix = word_of_nat (length xs)
      \<and> (xs \<noteq> [] \<longrightarrow> ixHead ix = fst (hd xs) \<and> ixTail ix = fst (last xs) + 1)"
    by (simp add: appendLogOps_def readIndex_holds [OF s] nextTail_def)
  show "\<exists>s'. st_readRecord (appendLogOps F cfg) (fst (xs ! i)) s = Some ((success, snd (xs ! i)), s')
      \<and> logHolds view readable cfg xs s' \<and> logUsable view cfg s' = logUsable view cfg s"
    if i: "i < length xs" for i
  proof -
    obtain w where w: "readRecord F cfg (fst (xs ! i)) s = Some ((success, snd (xs ! i)), s\<lparr>world := w\<rparr>)"
        "view w = view (world s)" "readable w"
      using readRecord_holds [OF s ct i r] by blast
    show ?thesis using logHolds_lock [OF h w(3)] w by (auto simp: appendLogOps_def)
  qed
  show "st_readRecordSize (appendLogOps F cfg) (fst (xs ! i)) s = Some ((success, length (snd (xs ! i))), s)"
    if i: "i < length xs" for i
    by (simp add: appendLogOps_def readRecordSize_holds [OF s ct i])
  show "\<exists>st s'. st_commitEnqueue (appendLogOps F cfg) t p s = Some (st, s')
      \<and> (ok st \<longrightarrow> logHolds view readable cfg (xs @ [(t, p)]) s')"
    if f: "logFits view F cfg (length p) s" and t: "xs \<noteq> [] \<Longrightarrow> t = fst (last xs) + 1" for t p
  proof (cases "t = 0xffffffff")
    case True
    then show ?thesis
      using commitEnqueue_exhausted [OF m, of cfg p F] f by (auto simp: appendLogOps_def logFits_def)
  next
    case False
    have f': "configOk cfg" "countersOk (view (world s)) s" "recordSizeError cfg (length p) = None"
      "admits F cfg (length p) s" using f by (simp_all add: logFits_def logUsable_def)
    obtain st s' where e: "commitEnqueue F cfg t p s = Some (st, s')"
      by (rule commitEnqueue_returns [OF s r f'(1-3) False f'(4)])
    show ?thesis
      using commitEnqueue_holds(1) [OF s r f'(1-3) False f'(4) contiguous_next [OF ct t] e] e contiguous_snoc [OF ct t False]
      by (auto simp: appendLogOps_def logHolds_def)
  qed
  show "\<exists>st s'. st_commitPop (appendLogOps F cfg) (fst (hd xs)) s = Some (st, s')
      \<and> (ok st \<longrightarrow> logHolds view readable cfg (tl xs) s')"
    if u: "logUsable view cfg s" and ne: "xs \<noteq> []"
  proof -
    have u': "configOk cfg" "countersOk (view (world s)) s" using u by (simp_all add: logUsable_def)
    obtain st s' where e: "commitPop F cfg (fst (hd xs)) s = Some (st, s')"
      by (rule commitPop_returns [OF s r u'])
    show ?thesis
      using commitPop_holds(1) [OF s r u' ne e] e contiguous_tl [OF ct]
      by (auto simp: appendLogOps_def logHolds_def)
  qed
  show "\<exists>st s'. st_rewriteRecord (appendLogOps F cfg) (fst (hd xs)) p s = Some (st, s')
      \<and> (ok st \<longrightarrow> logHolds view readable cfg ((fst (hd xs), p) # tl xs) s')"
    if f: "logFits view F cfg (length p) s" and ne: "xs \<noteq> []" for p
  proof -
    have f': "configOk cfg" "countersOk (view (world s)) s" "recordSizeError cfg (length p) = None"
      "admits F cfg (length p) s" using f by (simp_all add: logFits_def logUsable_def)
    obtain st s' where e: "rewriteRecord F cfg (fst (hd xs)) p s = Some (st, s')"
      by (rule rewriteRecord_returns [OF s r f'])
    have q: "fst (hd xs) \<in> fst ` set xs" using ne by simp
    show ?thesis
      using rewriteRecord_holds(1) [OF s r f'(1-3) q f'(4) e] e
        contiguous_absReplace [OF ct, of "fst (hd xs)" p]
      by (auto simp: appendLogOps_def logHolds_def absReplace_head [OF ne])
  qed
  show "\<exists>st s'. st_tryAcquireLockFile (appendLogOps F cfg) kLockFileName d s = Some (st, s')
      \<and> logHolds view readable cfg xs s' \<and> logUsable view cfg s' = logUsable view cfg s
      \<and> \<not> isCorruptRecordStatus (code st)" for d
  proof -
    obtain st w where l: "fs_tryAcquireLockFile F kLockFileName d (world s) = (st, w)" by fastforce
    show ?thesis
      using logHolds_lock [OF h acquire_readable [OF r l]] acquire_view [OF l] acquire_code [OF l] m l
      by (simp add: isCorruptRecordStatus_def appendLogOps_def tryAcquireLockFile_def onWorld_def)
  qed
  show "logHolds view readable cfg xs s' \<and> logUsable view cfg s' = logUsable view cfg s"
    if rl: "st_releaseLockFile (appendLogOps F cfg) kLockFileName d s = (st, s')" for d st s'
  proof -
    obtain st' w where l: "fs_releaseLockFile F kLockFileName d (world s) = (st', w)" by fastforce
    then have "s' = s\<lparr>world := w\<rparr>"
      using rl present by (simp add: appendLogOps_def releaseLockFile_def onWorld_def)
    then show ?thesis
      using logHolds_lock [OF h release_readable [OF r l]] release_view [OF l] by simp
  qed
qed

end

interpretation posix_queue: fifo_store "appendLogOps posixFs cfg" "logHolds posixView posixReadable cfg"
  "logUsable posixView cfg" "logFits posixView posixFs cfg" for cfg
  by (rule posix.append_log_fifo)

section \<open>Samples\<close>

definition sampleQueueConfig :: queue_config where
  "sampleQueueConfig = default_queue_config\<lparr>reservedBytes := 0, qcMinFreeBytes := 0,
     recordSizeBytes := 1000\<rparr>"

text \<open>A queue object of a process with process id 42, over a store with one record.\<close>

definition sampleQueueObject :: "posix_world store queue" where
  "sampleQueueObject = newQueue (makeLockContents (chars ''42'') [] (chars ''1'') (chars ''7'')) oneRecord"

lemma sampleQueueObject_ok:
  "logHolds posixView posixReadable sampleConfig sampleQueue (quStore sampleQueueObject)"
  "fullQueuePolicy sampleQueueConfig = RejectNewest"
  "\<not> quLockHeld sampleQueueObject"
  "posix_queue.allowed sampleConfig sampleQueueConfig CallPeek sampleQueueObject"
proof -
  show "logHolds posixView posixReadable sampleConfig sampleQueue (quStore sampleQueueObject)"
    using oneRecord_ok(2,3)
    by (simp add: logHolds_def sampleQueueObject_def newQueue_def contiguous_def)
qed (simp_all add: sampleQueueConfig_def default_queue_config_def sampleQueueObject_def newQueue_def
    posix_queue.allowed_def)

section \<open>First in, first out\<close>



text \<open>Peeking always returns. When it succeeds the queue was not empty and the record is the
  front one, unchanged; the contents of the store stay as they are whether it succeeds or not.\<close>

theorem peek_returns_front:
  assumes "logHolds posixView posixReadable cfg xs (quStore q)"
  shows "\<exists>st d q'. peek (appendLogOps posixFs cfg) c q = Some ((st, d), q')
    \<and> logHolds posixView posixReadable cfg xs (quStore q')
    \<and> (ok st \<longrightarrow> xs \<noteq> [] \<and> d = snd (hd xs)) \<and> (xs = [] \<longrightarrow> \<not> ok st)"
  by (rule posix_queue.peek_holds [OF assms])

theorem peek_returns_front_witness:
  "\<exists>st d q'. peek (appendLogOps posixFs sampleConfig) sampleQueueConfig sampleQueueObject = Some ((st, d), q')
    \<and> logHolds posixView posixReadable sampleConfig sampleQueue (quStore q')
    \<and> (ok st \<longrightarrow> sampleQueue \<noteq> [] \<and> d = snd (hd sampleQueue)) \<and> (sampleQueue = [] \<longrightarrow> \<not> ok st)"
  by (rule peek_returns_front [OF sampleQueueObject_ok(1)])



end
