(* ===== verification/Outbox_Timing.thy ===== *)
theory Outbox_Timing
  imports Outbox_Core Queue_Theorems
begin

text \<open>
  When the outbox sends: the delay after a failed attempt (exponential backoff with a cap and
  jitter) and the limit on the rate of drain attempts.
\<close>

section \<open>Retry delays\<close>

text \<open>The delay before jitter, on natural numbers: the server's hint if there is one, else the
  initial delay doubled for every attempt, never more than the cap.\<close>

definition backoff :: "nat \<Rightarrow> nat \<Rightarrow> nat \<Rightarrow> nat \<Rightarrow> nat" where
  "backoff initial cap attempt hint =
     (if hint > 0 then min hint cap else min (initial * 2 ^ attempt) cap)"

lemma unat_double:
  fixes v :: u64
  assumes "unat v < 2 ^ 32"
  shows "unat (v * 2) = unat v * 2"
  using assms by (subst unat_mult_lem [THEN iffD1]) auto

lemma doubleDelay_min:
  "unat v < 2 ^ 33 \<Longrightarrow>
     unat (doubleDelay n v m) < 2 ^ 33
     \<and> min (unat (doubleDelay n v m)) (unat m) = min (unat v * 2 ^ n) (unat m)"
proof (induction n arbitrary: v)
  case (Suc n)
  show ?case
  proof (cases "v < ucast m")
    case True
    then have v: "unat v < unat m" by (simp add: word_less_nat_alt unat_ucast_u32_u64)
    then have v32: "unat v < 2 ^ 32" using u32_bound [of m] by simp
    show ?thesis using True Suc.IH [of "v * 2"] v32 by (simp add: unat_double mult.assoc)
  next
    case False
    then have v: "unat m \<le> unat v" by (simp add: word_less_nat_alt unat_ucast_u32_u64)
    have "unat v \<le> unat v * 2 ^ Suc n" by simp
    then have "min (unat v * 2 ^ Suc n) (unat m) = unat m" using v by (simp only: min_absorb2 order.trans)
    then show ?thesis using False Suc.prems v by (simp add: min_absorb2 del: power_Suc)
  qed
qed simp

lemma baseDelay_backoff:
  "unat (baseDelay oc e hint) = backoff (unat (initialRetryDelayMs oc)) (unat (maxRetryDelayMs oc)) (unat e) (unat hint)"
proof (cases "hint > 0")
  case True
  then show ?thesis
    by (auto simp: baseDelay_def backoff_def word_less_nat_alt min_def)
next
  case False
  then have h: "hint = 0" by (simp add: word_gt_0)
  define i where "i = initialRetryDelayMs oc"
  define m where "m = maxRetryDelayMs oc"
  define v where "v = doubleDelay (unat e) (ucast i) m"
  have i: "unat (ucast i :: u64) = unat i" by (simp add: unat_ucast_u32_u64)
  have "unat (ucast i :: u64) < 2 ^ 33" using u32_bound [of i] i by simp
  from doubleDelay_min [OF this, of "unat e" m] i
  have v: "min (unat v) (unat m) = min (unat i * 2 ^ unat e) (unat m)" by (simp add: v_def)
  have "unat (if v < ucast m then ucast v else m) = min (unat v) (unat m)"
    using u32_bound [of m]
    by (auto simp: word_less_nat_alt unat_ucast_u32_u64 unsigned_ucast_eq take_bit_nat_eq_self min_def)
  moreover have "baseDelay oc e hint = (if v < ucast m then ucast v else m)"
    using h by (simp add: baseDelay_def Let_def i_def m_def v_def)
  ultimately show ?thesis using h v
    by (simp only: backoff_def i_def [symmetric] m_def [symmetric]) simp
qed

text \<open>C26. The delay after a failed attempt, before jitter, is the server's hint capped at
  \<open>maxRetryDelayMs\<close>, or the initial delay doubled with every attempt and capped; the doubling loop
  on 64-bit numbers computes this without wrapping, for every configuration and attempt count.\<close>

theorem backoff_base:
  "unat (baseDelay oc e hint) = backoff (unat (initialRetryDelayMs oc)) (unat (maxRetryDelayMs oc)) (unat e) (unat hint)"
  by (rule baseDelay_backoff)

lemma baseDelay_capped: "baseDelay oc e hint \<le> maxRetryDelayMs oc"
  by (simp add: word_le_nat_alt baseDelay_backoff backoff_def)

section \<open>Jitter\<close>

lemma clip32_nat: "unat (clip32 x) = min (unat x) 0xffffffff"
  by (auto simp: clip32_def word_less_nat_alt unsigned_ucast_eq take_bit_nat_eq_self min_def)

lemma jitterRange_nat:
  "unat (jitterRange oc base) = unat base * unat (jitterPct oc) div 100"
proof -
  have "unat base * unat (jitterPct oc) \<le> 2 ^ 32 * 2 ^ 8"
    using u32_bound [of base] unsigned_less [where ?'a = nat, of "jitterPct oc"]
    by (intro mult_le_mono) simp_all
  moreover have "unat (ucast (jitterPct oc) :: u64) = unat (jitterPct oc)"
    using unsigned_less [where ?'a = nat, of "jitterPct oc"]
    by (simp add: unsigned_ucast_eq take_bit_nat_eq_self)
  ultimately have "unat (ucast base * ucast (jitterPct oc) :: u64) = unat base * unat (jitterPct oc)"
    by (subst unat_mult_lem [THEN iffD1]) (simp_all add: unat_ucast_u32_u64)
  then show ?thesis by (simp add: jitterRange_def unat_div)
qed

lemma applyJitter_bounds:
  assumes "base \<le> maxRetryDelayMs oc"
  shows "unat base - unat range32 \<le> unat (applyJitter oc base range32 sample)"
    and "applyJitter oc base range32 sample \<le> maxRetryDelayMs oc"
    and "unat sample < 2 * unat range32 \<Longrightarrow>
      unat (applyJitter oc base range32 sample) \<le> unat base + unat range32"
proof -
  have add: "unat (base + (sample - range32)) = unat base + (unat sample - unat range32)"
    if "\<not> sample < range32" "sample - range32 \<le> maxRetryDelayMs oc - base"
  proof -
    have s: "unat (sample - range32) = unat sample - unat range32"
      using that(1) by (simp add: unat_sub not_less)
    have "unat (sample - range32) \<le> unat (maxRetryDelayMs oc) - unat base"
      using that(2) assms by (simp add: word_le_nat_alt unat_sub)
    then have "unat base + unat (sample - range32) < 2 ^ 32"
      using assms u32_bound [of "maxRetryDelayMs oc"] by (simp add: word_le_nat_alt)
    then show ?thesis by (simp add: s [symmetric] unat_add_lem [THEN iffD1])
  qed
  have sub: "unat (base - sample) = unat base - unat sample" if "sample < base"
    using that by (simp add: unat_sub)
  have cap: "unat (sample - range32) \<le> unat (maxRetryDelayMs oc) - unat base \<longleftrightarrow>
      sample - range32 \<le> maxRetryDelayMs oc - base"
    using assms by (simp add: word_le_nat_alt unat_sub)
  have sr: "unat (sample - range32) = unat sample - unat range32" if "\<not> sample < range32"
    using that by (simp add: unat_sub not_less)
  show "unat base - unat range32 \<le> unat (applyJitter oc base range32 sample)"
    using assms add sub by (auto simp: applyJitter_def Let_def word_less_nat_alt word_le_nat_alt)
  show "applyJitter oc base range32 sample \<le> maxRetryDelayMs oc"
    using assms add sub cap sr by (auto simp: applyJitter_def Let_def word_less_nat_alt word_le_nat_alt)
  show "unat (applyJitter oc base range32 sample) \<le> unat base + unat range32"
    if "unat sample < 2 * unat range32"
    using that assms add sub cap sr by (auto simp: applyJitter_def Let_def word_less_nat_alt word_le_nat_alt)
qed

text \<open>The delay is the base delay, or the base delay moved by what the random source returned.\<close>

lemma computeRetryDelay_cases:
  obtains "fst (computeRetryDelay cb oc attempt hint ob) = baseDelay oc attempt hint"
  | f r where "cbRand cb = Some f" "r = clip32 (jitterRange oc (baseDelay oc attempt hint))"
      "jitterRange oc (baseDelay oc attempt hint) \<noteq> 0"
      "fst (computeRetryDelay cb oc attempt hint ob) = applyJitter oc (baseDelay oc attempt hint) r
         (fst (f (clip32 (ucast r * 2)) (obEnv ob)))"
proof (cases "cbRand cb = None \<or> jitterPct oc = 0 \<or> baseDelay oc attempt hint = 0
    \<or> jitterRange oc (baseDelay oc attempt hint) = 0")
  case True
  then have "fst (computeRetryDelay cb oc attempt hint ob) = baseDelay oc attempt hint"
    by (auto simp: computeRetryDelay_def Let_def split: option.splits)
  then show thesis by (rule that(1))
next
  case False
  then obtain f where f: "cbRand cb = Some f" by auto
  show thesis
    using False f by (intro that(2) [OF f refl])
      (simp_all add: computeRetryDelay_def Let_def onEnv_def split: prod.splits)
qed

lemma jitter_width:
  assumes "jitterRange oc base \<noteq> 0" and "r = clip32 (jitterRange oc base)"
  shows "unat r \<le> unat base * unat (jitterPct oc) div 100" and "clip32 (ucast r * 2) > 0"
    and "s < clip32 (ucast r * 2) \<Longrightarrow> unat s < 2 * unat r"
proof -
  show "unat r \<le> unat base * unat (jitterPct oc) div 100"
    by (simp add: assms(2) clip32_nat jitterRange_nat)
  have "unat (jitterRange oc base) \<noteq> 0" using assms(1) by (simp add: unat_eq_zero)
  then have r0: "unat r > 0" by (simp add: assms(2) clip32_nat)
  have "unat (ucast r * 2 :: u64) = unat r * 2"
    using u32_bound [of r] by (subst unat_double) (simp_all add: unat_ucast_u32_u64)
  then have rr: "unat (clip32 (ucast r * 2)) = min (unat r * 2) 0xffffffff" by (simp add: clip32_nat)
  then show "clip32 (ucast r * 2) > 0" using r0 by (simp add: word_less_nat_alt)
  show "unat s < 2 * unat r" if "s < clip32 (ucast r * 2)" using that rr by (simp add: word_less_nat_alt)
qed

text \<open>C27. The delay \<open>computeRetryDelay\<close> returns stays within the jitter percentage of the backoff and
  never exceeds the cap. The random source is assumed to keep its documented contract, a value in
  [0, range); jitter percentages above 100 are included.\<close>

theorem retry_delay_bounds:
  assumes "\<And>f range e. cbRand cb = Some f \<Longrightarrow> range > 0 \<Longrightarrow> fst (f range e) < range"
  shows "let d = unat (fst (computeRetryDelay cb oc attempt hint ob));
             b = backoff (unat (initialRetryDelayMs oc)) (unat (maxRetryDelayMs oc)) (unat attempt) (unat hint);
             j = b * unat (jitterPct oc) div 100
         in b - j \<le> d \<and> d \<le> b + j \<and> d \<le> unat (maxRetryDelayMs oc)"
proof -
  let ?base = "baseDelay oc attempt hint"
  have b: "unat ?base = backoff (unat (initialRetryDelayMs oc)) (unat (maxRetryDelayMs oc)) (unat attempt) (unat hint)"
    by (rule baseDelay_backoff)
  have cap: "?base \<le> maxRetryDelayMs oc" by (rule baseDelay_capped)
  show ?thesis
  proof (cases rule: computeRetryDelay_cases [of cb oc attempt hint ob])
    case 1
    then show ?thesis using cap by (simp add: b [symmetric] Let_def word_le_nat_alt)
  next
    case (2 f r)
    define s where "s = fst (f (clip32 (ucast r * 2)) (obEnv ob))"
    note j = jitter_width [OF 2(3,2)]
    have s: "unat s < 2 * unat r" using assms [OF 2(1) j(2)] j(3) by (simp add: s_def)
    show ?thesis
      using applyJitter_bounds(1,2) [OF cap, of r s] applyJitter_bounds(3) [OF cap s] j(1)
      unfolding b [symmetric] 2(4) s_def [symmetric] Let_def word_le_nat_alt by linarith
  qed
qed

text \<open>A random source that returns the middle of the range, an outbox without a store.\<close>

definition middleRand :: "unit callbacks" where
  "middleRand = \<lparr>cbSend = None, cbRawSend = None, cbClock = None,
     cbRand = Some (\<lambda>range e. (range div 2, e))\<rparr>"

theorem retry_delay_bounds_witness:
  "let d = unat (fst (computeRetryDelay middleRand default_outbox_config 1 0
                   (newOutbox (newQueue [] ()) ())))
   in 16000 \<le> d \<and> d \<le> 24000"
proof -
  have r: "fst (f range e) < range"
    if "cbRand middleRand = Some f" "range > 0" for f :: "u32 \<Rightarrow> unit \<Rightarrow> u32 \<times> unit" and range e
  proof -
    have "unat range div 2 < unat range" using that(2) by (simp add: word_less_nat_alt)
    then show ?thesis using that by (auto simp: middleRand_def word_less_nat_alt unat_div)
  qed
  have "let d = unat (fst (computeRetryDelay middleRand default_outbox_config 1 0 (newOutbox (newQueue [] ()) ())));
          b = backoff 10000 60000 1 0; j = b * 20 div 100
        in b - j \<le> d \<and> d \<le> b + j \<and> d \<le> 60000"
    using retry_delay_bounds [of middleRand default_outbox_config 1 0 "newOutbox (newQueue [] ()) ()"] r
    by (simp add: default_outbox_config_def)
  then show ?thesis by (simp add: Let_def backoff_def)
qed

section \<open>The drain rate\<close>

text \<open>The part of the state the rate limit is about.\<close>

definition rate :: "('s, 'e) outbox \<Rightarrow> bool \<times> u64 \<times> u16" where
  "rate ob = (hasDrainWindow ob, drainWindowStartMs ob, drainAttemptsInWindow ob)"

lemma rate_frame [simp]:
  "rate (obEmit oc ev ob) = rate ob" "rate (obDiagnostic oc sev st op ob) = rate ob"
  "rate (obRequestEvent oc k sev st op a m n ob) = rate ob"
  "rate (setFrontCooldown t ob) = rate ob" "rate (clearFrontCooldown ob) = rate ob"
  "rate (ob\<lparr>frontAttempts := fa\<rparr>) = rate ob" "rate (ob\<lparr>corruptDrops := d\<rparr>) = rate ob"
  "rate (snd (onEnv g ob)) = rate ob" "rate (snd (dispatchSend cb p fa ob)) = rate ob"
  "rate (snd (readClock cb ob)) = rate ob" "rate (snd (computeRetryDelay cb oc e h ob)) = rate ob"
  by (simp_all add: rate_def obEmit_def obDiagnostic_def obRequestEvent_def setFrontCooldown_def
      clearFrontCooldown_def onEnv_def dispatchSend_def readClock_def computeRetryDelay_def Let_def
      split: prod.splits option.splits)

lemma onQueue_rate: "onQueue f ob = Some (r, ob') \<Longrightarrow> rate ob' = rate ob"
  by (auto simp: onQueue_def rate_def)

lemma pair_rate:
  "dispatchSend cb p n ob = (r, ob') \<Longrightarrow> rate ob' = rate ob"
  "readClock cb ob = (t, ob') \<Longrightarrow> rate ob' = rate ob"
  "computeRetryDelay cb oc e h ob = (d, ob') \<Longrightarrow> rate ob' = rate ob"
  by (metis rate_frame snd_conv)+

lemma recordDrainAttempt_rate:
  "rate ob' = rate ob \<Longrightarrow> rate (recordDrainAttempt now ob') = rate (recordDrainAttempt now ob)"
  by (auto simp: rate_def recordDrainAttempt_def Let_def)

lemma removeDrained_rate:
  assumes "removeDrained S c oc sent record r ob = Some (r', ob')"
  shows "rate ob' = rate ob \<and> drAttempts r' = drAttempts r"
  using assms
  by (auto simp: removeDrained_def bind_eq_Some_conv Let_def split: if_splits dest: onQueue_rate)

lemma dropCorrupt_rate:
  assumes "dropCorruptFrontRecord S c oc st n ob = Some (r, ob')"
  shows "rate ob' = rate ob \<and> drAttempts r = 0"
  using assms
  by (auto simp: dropCorruptFrontRecord_def bind_eq_Some_conv Let_def empty_drain_def split: if_splits
      dest: onQueue_rate)

lemma drainSend_rate:
  assumes "drainSend S c cb oc now record payload ob = Some (r, ob')"
  shows "rate ob' = rate (recordDrainAttempt now ob) \<and> drAttempts r = 1"
  using assms
  by (auto simp: drainSend_def Let_def empty_drain_def split: prod.splits send_decision.splits
      dest!: removeDrained_rate pair_rate)

lemma drainFront_rate:
  assumes "drainFront S c cb oc True now record ob = Some (r, ob')"
  shows "drAttempts r = 0 \<and> rate ob' = rate ob
    \<or> drAttempts r \<noteq> 0 \<and> drainRateAllows oc now ob \<and> rate ob' = rate (recordDrainAttempt now ob)"
  using assms
  by (auto simp: drainFront_def Let_def empty_drain_def split: option.splits if_splits
      dest: dropCorrupt_rate drainSend_rate)

lemma drainRateAllows_rate: "rate ob' = rate ob \<Longrightarrow> drainRateAllows oc now ob' = drainRateAllows oc now ob"
  by (auto simp: rate_def drainRateAllows_def)

lemma drainOne_rate:
  assumes "drainOne S c cb oc True ob = Some (r, ob')"
  shows "drAttempts r = 0 \<and> rate ob' = rate ob
    \<or> drAttempts r \<noteq> 0 \<and> drainRateAllows oc (fst (readClock cb ob)) ob
        \<and> rate ob' = rate (recordDrainAttempt (fst (readClock cb ob)) ob)"
proof (cases "configured cb")
  case True
  obtain now ob1 where clk: "readClock cb ob = (now, ob1)" by fastforce
  obtain st rc ob2 where p: "onQueue (peek S c) ob1 = Some ((st, rc), ob2)"
    using assms True clk by (auto simp: drainOne_def bind_eq_Some_conv)
  have r: "rate ob2 = rate ob" using pair_rate(2) [OF clk] onQueue_rate [OF p] by simp
  show ?thesis
  proof (cases "ok st")
    case False
    then show ?thesis using assms True clk p r
      by (auto simp: drainOne_def empty_drain_def Let_def split: if_splits dest: dropCorrupt_rate)
  next
    case ok: True
    then have "drainFront S c cb oc True now rc ob2 = Some (r, ob')"
      using assms True clk p by (simp add: drainOne_def)
    from drainFront_rate [OF this] show ?thesis
      using r recordDrainAttempt_rate [OF r] drainRateAllows_rate [OF r] clk by auto
  qed
qed (use assms in \<open>auto simp: drainOne_def empty_drain_def Let_def\<close>)

lemma enqueueRecord_rate: "enqueueRecord S c oc p n ob = Some (r, ob') \<Longrightarrow> rate ob' = rate ob"
  by (auto simp: enqueueRecord_def bind_eq_Some_conv Let_def split: option.splits dest: onQueue_rate)

lemma queueForRetry_rate:
  assumes "queueForRetry S c cb oc p h ob = Some (r, ob')"
  shows "rate ob' = rate ob"
proof -
  obtain qs ob1 where q: "onQueue (queueStats S c) ob = Some (qs, ob1)"
    using assms by (auto simp: queueForRetry_def bind_eq_Some_conv)
  obtain r1 ob2 where e: "enqueueRecord S c oc p 0 ob1 = Some (r1, ob2)"
    using assms q by (auto simp: queueForRetry_def bind_eq_Some_conv)
  have "rate ob' = rate ob2"
    using assms q e
    by (auto simp: queueForRetry_def Let_def split: if_splits prod.splits dest!: pair_rate(2,3))
  then show ?thesis using onQueue_rate [OF q] enqueueRecord_rate [OF e] by simp
qed

lemma submitLive_rate: "submitLive S c cb oc p ob = Some (r, ob') \<Longrightarrow> rate ob' = rate ob"
  by (auto simp: submitLive_def Let_def split: prod.splits send_decision.splits
      dest!: queueForRetry_rate pair_rate(1))

lemma submit_rate:
  assumes "submit S c cb oc p ob = Some (r, ob')"
  shows "rate ob' = rate ob"
  using assms
  by (auto simp: submit_def bind_eq_Some_conv Let_def split: if_splits
      dest!: onQueue_rate enqueueRecord_rate submitLive_rate)

text \<open>A fixed window of a second: \<open>ts\<close> are the times of the attempts so far, in order; the attempts
  since \<open>start\<close> are counted by \<open>n\<close>, and those before it that are less than a second older are no
  more than the limit.\<close>

definition within :: "nat \<Rightarrow> nat list \<Rightarrow> nat" where
  "within a ts = length (filter (\<lambda>t. a \<le> t \<and> t < a + 1000) ts)"

definition windowOk :: "nat \<Rightarrow> bool \<times> u64 \<times> u16 \<Rightarrow> nat list \<Rightarrow> bool" where
  "windowOk limit w ts \<longleftrightarrow>
     (case w of (has, start, n) \<Rightarrow>
        (if \<not> has then ts = []
         else length (filter (\<lambda>t. unat start \<le> t) ts) = unat n \<and> unat n \<le> limit
            \<and> length (filter (\<lambda>t. t < unat start \<and> unat start < t + 1000) ts) \<le> limit
            \<and> (\<forall>t\<in>set ts. t < unat start + 1000) \<and> ts \<noteq> [] \<and> unat start \<le> last ts))"

lemma filter_le_length:
  "(\<And>x. x \<in> set xs \<Longrightarrow> P x \<Longrightarrow> Q x) \<Longrightarrow> length (filter P xs) \<le> length (filter Q xs)"
  by (induction xs) (auto simp: le_Suc_eq)

lemma filter_or_length:
  "(\<And>x. x \<in> set xs \<Longrightarrow> P x \<Longrightarrow> Q x \<or> R x) \<Longrightarrow>
     length (filter P xs) \<le> length (filter Q xs) + length (filter R xs)"
  by (induction xs) (auto simp: le_Suc_eq)

lemma maxDrainAttempts_pos: "unat (maxDrainAttemptsPerSecond oc) > 0"
  by (simp add: maxDrainAttemptsPerSecond_def unat_gt_0)

lemma window_restart:
  assumes w: "windowOk limit (rate ob) ts" and past: "\<And>t. t \<in> set ts \<Longrightarrow> t \<le> unat now"
    and limit: "limit > 0"
    and old: "\<not> hasDrainWindow ob \<or> now - drainWindowStartMs ob \<ge> 1000"
  shows "windowOk limit (rate (recordDrainAttempt now ob)) (ts @ [unat now])"
proof -
  have r: "rate (recordDrainAttempt now ob) = (True, now, 1)"
    using old by (auto simp: recordDrainAttempt_def rate_def Let_def)
  have gap: "t + 1000 \<le> unat now \<or> unat (drainWindowStartMs ob) \<le> t" "t < unat now"
    if t: "t \<in> set ts" "hasDrainWindow ob" for t
  proof -
    have s: "unat (drainWindowStartMs ob) \<le> last ts" "t < unat (drainWindowStartMs ob) + 1000" "ts \<noteq> []"
      using w t by (auto simp: windowOk_def rate_def)
    then have le: "drainWindowStartMs ob \<le> now"
      using past [of "last ts"] by (simp add: word_le_nat_alt)
    have "1000 \<le> unat (now - drainWindowStartMs ob)"
      using old t(2) by (simp add: word_le_nat_alt)
    then have "unat (drainWindowStartMs ob) + 1000 \<le> unat now" using le by (simp add: unat_sub word_le_nat_alt)
    then show "t + 1000 \<le> unat now \<or> unat (drainWindowStartMs ob) \<le> t" "t < unat now"
      using s(2) by linarith+
  qed
  have none: "ts = [] \<or> hasDrainWindow ob" using w by (auto simp: windowOk_def rate_def)
  have "length (filter (\<lambda>t. t < unat now \<and> unat now < t + 1000) ts)
      \<le> length (filter (\<lambda>t. unat (drainWindowStartMs ob) \<le> t) ts)"
    using gap none by (intro filter_le_length) fastforce
  also have "ts \<noteq> [] \<Longrightarrow> \<dots> \<le> limit"
    using none w by (auto simp: windowOk_def rate_def)
  finally have prev: "length (filter (\<lambda>t. t < unat now \<and> unat now < t + 1000) ts) \<le> limit"
    by (cases "ts = []") auto
  have "filter (\<lambda>t. unat now \<le> t) ts = []"
    using gap(2) none by (fastforce simp: filter_empty_conv)
  then show ?thesis
    using prev limit past by (auto simp: windowOk_def r dest!: past)
qed

lemma window_count:
  assumes w: "windowOk limit (rate ob) ts" and past: "\<And>t. t \<in> set ts \<Longrightarrow> t \<le> unat now"
    and has: "hasDrainWindow ob" "now - drainWindowStartMs ob < 1000"
    and room: "unat (drainAttemptsInWindow ob) < limit" and limit: "limit < 2 ^ 16"
  shows "windowOk limit (rate (recordDrainAttempt now ob)) (ts @ [unat now])"
proof -
  define s where "s = unat (drainWindowStartMs ob)"
  have le: "drainWindowStartMs ob \<le> now"
    using w has(1) past [of "last ts"] by (auto simp: windowOk_def rate_def word_le_nat_alt)
  have now: "s \<le> unat now" "unat now < s + 1000"
    using has(2) le by (auto simp: s_def word_le_nat_alt word_less_nat_alt unat_sub)
  have "drainAttemptsInWindow ob \<noteq> 0xffff" using room limit by auto
  moreover from this have "unat (drainAttemptsInWindow ob + 1) = unat (drainAttemptsInWindow ob) + 1"
    using room limit by (simp add: unat_word_ariths)
  ultimately have r: "\<exists>n. rate (recordDrainAttempt now ob) = (True, drainWindowStartMs ob, n)
      \<and> unat n = unat (drainAttemptsInWindow ob) + 1"
    using has by (auto simp: recordDrainAttempt_def rate_def Let_def not_le)
  show ?thesis
    using r w has room now by (auto simp: windowOk_def rate_def s_def [symmetric])
qed

lemma attempt_window:
  assumes "windowOk (unat (maxDrainAttemptsPerSecond oc)) (rate ob) ts"
    and "\<And>t. t \<in> set ts \<Longrightarrow> t \<le> unat now" and "drainRateAllows oc now ob"
  shows "windowOk (unat (maxDrainAttemptsPerSecond oc)) (rate (recordDrainAttempt now ob)) (ts @ [unat now])"
proof (cases "\<not> hasDrainWindow ob \<or> now - drainWindowStartMs ob \<ge> 1000")
  case True
  then show ?thesis using window_restart [OF assms(1,2) maxDrainAttempts_pos] by blast
next
  case False
  then have "drainAttemptsInWindow ob < maxDrainAttemptsPerSecond oc"
    using assms(3) by (simp add: drainRateAllows_def)
  then show ?thesis
    using window_count [OF assms(1,2)] False unsigned_less [where ?'a = nat, of "maxDrainAttemptsPerSecond oc"]
    by (simp add: word_less_nat_alt [of "drainAttemptsInWindow ob"] not_le)
qed

lemma window_within:
  assumes "windowOk limit w (ts @ [t])" and a: "a \<le> t" "t < a + 1000"
  shows "within a (ts @ [t]) \<le> 2 * limit"
proof -
  obtain has start n where w: "w = (has, start, n)" by (cases w)
  have h: has using assms(1) by (cases has) (simp_all add: windowOk_def w)
  have s: "unat start \<le> t" using assms(1) h by (simp add: windowOk_def w)
  have "within a (ts @ [t]) \<le> length (filter (\<lambda>x. unat start \<le> x) (ts @ [t]))
      + length (filter (\<lambda>x. x < unat start \<and> unat start < x + 1000) (ts @ [t]))"
    unfolding within_def using a s by (intro filter_or_length) auto
  also have "\<dots> \<le> limit + limit"
    using assms(1) h unfolding windowOk_def w by (intro add_mono) auto
  finally show ?thesis by simp
qed

section \<open>Runs of an outbox\<close>

text \<open>A run: drains, with the clock reading each started from and its result, and submits.\<close>

inductive outboxRun ::
  "'s store_ops \<Rightarrow> queue_config \<Rightarrow> 'e callbacks \<Rightarrow> outbox_config \<Rightarrow> ('s, 'e) outbox
     \<Rightarrow> (u64 \<times> drain_result) list \<Rightarrow> ('s, 'e) outbox \<Rightarrow> bool"
  for S :: "'s store_ops" and c and cb :: "'e callbacks" and oc and ob0 where
  run_start: "outboxRun S c cb oc ob0 [] ob0"
| run_drain: "outboxRun S c cb oc ob0 tr ob \<Longrightarrow> drain S c cb oc ob = Some (r, ob') \<Longrightarrow>
    outboxRun S c cb oc ob0 (tr @ [(fst (readClock cb ob), r)]) ob'"
| run_submit: "outboxRun S c cb oc ob0 tr ob \<Longrightarrow> submit S c cb oc p ob = Some (r, ob') \<Longrightarrow>
    outboxRun S c cb oc ob0 tr ob'"

text \<open>The times at which a drain called the send callback.\<close>

definition attemptTimes :: "(u64 \<times> drain_result) list \<Rightarrow> nat list" where
  "attemptTimes tr = map (\<lambda>(t, r). unat t) (filter (\<lambda>(t, r). drAttempts r \<noteq> 0) tr)"

definition monotone :: "(u64 \<times> drain_result) list \<Rightarrow> bool" where
  "monotone tr \<longleftrightarrow> sorted (map fst tr)"

lemma monotone_snoc: "monotone (tr @ [(t, r)]) \<longleftrightarrow> monotone tr \<and> (\<forall>(t', r')\<in>set tr. t' \<le> t)"
  by (auto simp: monotone_def sorted_append)

lemma attemptTimes_past:
  assumes "\<forall>(t', r)\<in>set tr. t' \<le> now" and "t \<in> set (attemptTimes tr)"
  shows "t \<le> unat now"
  using assms by (auto simp: attemptTimes_def word_le_nat_alt)

lemma run_window:
  assumes "outboxRun S c cb oc (newOutbox q e) tr ob" and "monotone tr"
  shows "windowOk (unat (maxDrainAttemptsPerSecond oc)) (rate ob) (attemptTimes tr)
    \<and> (\<forall>a. within a (attemptTimes tr) \<le> 2 * unat (maxDrainAttemptsPerSecond oc))"
  using assms
proof (induction rule: outboxRun.induct)
  case run_start
  then show ?case by (simp add: newOutbox_def rate_def windowOk_def attemptTimes_def within_def)
next
  case (run_drain tr ob r ob')
  define t where "t = fst (readClock cb ob)"
  let ?L = "unat (maxDrainAttemptsPerSecond oc)"
  have m: "monotone tr" "\<forall>(t', r)\<in>set tr. t' \<le> t"
    using run_drain.prems by (simp_all add: monotone_snoc t_def)
  note IH = run_drain.IH [OF m(1)]
  note past = attemptTimes_past [OF m(2)]
  have "drAttempts r = 0 \<and> rate ob' = rate ob
    \<or> drAttempts r \<noteq> 0 \<and> drainRateAllows oc t ob \<and> rate ob' = rate (recordDrainAttempt t ob)"
    using drainOne_rate run_drain.hyps(2) by (simp add: drain_def t_def)
  then show ?case
  proof
    assume r: "drAttempts r = 0 \<and> rate ob' = rate ob"
    then have "attemptTimes (tr @ [(t, r)]) = attemptTimes tr" by (simp add: attemptTimes_def)
    then show ?thesis using IH r by (simp add: t_def)
  next
    assume r: "drAttempts r \<noteq> 0 \<and> drainRateAllows oc t ob \<and> rate ob' = rate (recordDrainAttempt t ob)"
    then have ts: "attemptTimes (tr @ [(t, r)]) = attemptTimes tr @ [unat t]" by (simp add: attemptTimes_def)
    have w: "windowOk ?L (rate ob') (attemptTimes tr @ [unat t])"
      using attempt_window [OF conjunct1 [OF IH] past] r by simp
    have "within a (attemptTimes tr @ [unat t]) \<le> 2 * ?L" for a
    proof (cases "a \<le> unat t \<and> unat t < a + 1000")
      case True
      then show ?thesis using window_within [OF w] by blast
    next
      case False
      then have "within a (attemptTimes tr @ [unat t]) = within a (attemptTimes tr)"
        by (auto simp: within_def)
      then show ?thesis using IH by simp
    qed
    then show ?thesis using w ts by (simp add: t_def)
  qed
next
  case (run_submit tr ob p r ob')
  then show ?case by (simp add: submit_rate [of S c cb oc p ob r ob'])
qed

end
