(* ===== verification/Outbox_Correct.thy ===== *)
theory Outbox_Correct
  imports Outbox_Timing
begin

text \<open>
  The outbox over a store that holds a FIFO (\<open>fifo_store\<close>): what one \<open>drain\<close> and one \<open>submit\<close> do
  to the queue, and runs of an outbox whose send callback keeps a log.
\<close>

section \<open>A callback that keeps a log\<close>

text \<open>The callbacks \<open>cb\<close>, with a log of the payloads the send callback was called with and what it
  decided.\<close>

type_synonym send_log = "(bytes \<times> send_decision) list"

definition logSend ::
  "bytes \<Rightarrow> ('e \<Rightarrow> send_result \<times> 'e) \<Rightarrow> 'e \<times> send_log \<Rightarrow> send_result \<times> 'e \<times> send_log" where
  "logSend payload f el = (let (r, e) = f (fst el) in (r, e, snd el @ [(payload, srDecision r)]))"

definition passLog :: "('e \<Rightarrow> 'a \<times> 'e) \<Rightarrow> 'e \<times> send_log \<Rightarrow> 'a \<times> 'e \<times> send_log" where
  "passLog f el = (let (r, e) = f (fst el) in (r, e, snd el))"

definition recording :: "'e callbacks \<Rightarrow> ('e \<times> send_log) callbacks" where
  "recording cb =
     \<lparr>cbSend = map_option (\<lambda>f p n. logSend p (f p n)) (cbSend cb),
      cbRawSend = map_option (\<lambda>f p n. logSend (spanToString p) (f p n)) (cbRawSend cb),
      cbClock = map_option passLog (cbClock cb),
      cbRand = map_option (\<lambda>f range. passLog (f range)) (cbRand cb)\<rparr>"

definition sendLog :: "('s, 'e \<times> send_log) outbox \<Rightarrow> send_log" where
  "sendLog ob = snd (obEnv ob)"

text \<open>The payloads the callback has disposed of, in order.\<close>

definition disposed :: "send_log \<Rightarrow> bytes list" where
  "disposed log = map fst (filter (\<lambda>(p, d). d = DecideSent \<or> d = DecideDrop) log)"

lemma disposed_snoc:
  "disposed (log @ [(p, d)]) = disposed log @ (if d = DecideSent \<or> d = DecideDrop then [p] else [])"
  by (auto simp: disposed_def)

lemma sendLog_frame [simp]:
  "sendLog (obEmit oc ev ob) = sendLog ob" "sendLog (obDiagnostic oc sev st op ob) = sendLog ob"
  "sendLog (obRequestEvent oc k sev st op a m n ob) = sendLog ob"
  "sendLog (setFrontCooldown t ob) = sendLog ob" "sendLog (clearFrontCooldown ob) = sendLog ob"
  "sendLog (ob\<lparr>frontAttempts := fa\<rparr>) = sendLog ob" "sendLog (ob\<lparr>corruptDrops := d\<rparr>) = sendLog ob"
  "sendLog (ob\<lparr>obQueue := q\<rparr>) = sendLog ob" "sendLog (recordDrainAttempt now ob) = sendLog ob"
  by (simp_all add: sendLog_def obEmit_def obDiagnostic_def obRequestEvent_def setFrontCooldown_def
      clearFrontCooldown_def recordDrainAttempt_def Let_def)

lemma readClock_log: "readClock (recording cb) ob = (t, ob') \<Longrightarrow> sendLog ob' = sendLog ob"
  by (auto simp: readClock_def recording_def onEnv_def passLog_def sendLog_def split: option.splits prod.splits)

lemma retryDelay_log: "computeRetryDelay (recording cb) oc e h ob = (d, ob') \<Longrightarrow> sendLog ob' = sendLog ob"
  by (auto simp: computeRetryDelay_def recording_def onEnv_def passLog_def sendLog_def Let_def
      split: option.splits prod.splits if_splits)

lemma configured_recording [simp]: "configured (recording cb) = configured cb"
  by (auto simp: configured_def recording_def)

lemma dispatch_log:
  assumes "dispatchSend (recording cb) p n ob = (r, ob')" and "configured cb"
  shows "sendLog ob' = sendLog ob @ [(p, srDecision r)]"
  using assms by (auto simp: dispatchSend_def recording_def onEnv_def logSend_def sendLog_def configured_def
      split: option.splits prod.splits)

section \<open>The queue of an outbox\<close>

lemma obQueue_frame [simp]:
  "obQueue (obEmit oc ev ob) = obQueue ob" "obQueue (obDiagnostic oc sev st op ob) = obQueue ob"
  "obQueue (obRequestEvent oc k sev st op a m n ob) = obQueue ob"
  "obQueue (setFrontCooldown t ob) = obQueue ob" "obQueue (clearFrontCooldown ob) = obQueue ob"
  "obQueue (recordDrainAttempt now ob) = obQueue ob"
  by (simp_all add: obEmit_def obDiagnostic_def obRequestEvent_def setFrontCooldown_def
      clearFrontCooldown_def recordDrainAttempt_def Let_def)

lemma env_queue:
  "dispatchSend cb p n ob = (r, ob') \<Longrightarrow> obQueue ob' = obQueue ob"
  "readClock cb ob = (t, ob') \<Longrightarrow> obQueue ob' = obQueue ob"
  "computeRetryDelay cb oc e h ob = (d, ob') \<Longrightarrow> obQueue ob' = obQueue ob"
  by (auto simp: dispatchSend_def readClock_def computeRetryDelay_def onEnv_def Let_def
      split: option.splits prod.splits if_splits)

lemma onQueue_Some:
  "onQueue f ob = Some (r, ob') \<longleftrightarrow> (\<exists>q. f (obQueue ob) = Some (r, q) \<and> ob' = ob\<lparr>obQueue := q\<rparr>)"
  by (auto simp: onQueue_def)

lemma onQueue_log: "onQueue f ob = Some (r, ob') \<Longrightarrow> sendLog ob' = sendLog ob"
  by (auto simp: onQueue_def)

lemma removeDrained_log:
  "removeDrained S c oc sent rc r ob = Some (r', ob') \<Longrightarrow> sendLog ob' = sendLog ob"
  by (auto simp: removeDrained_def bind_eq_Some_conv Let_def split: if_splits dest: onQueue_log)

lemma dropCorrupt_log:
  "dropCorruptFrontRecord S c oc st n ob = Some (r, ob') \<Longrightarrow> sendLog ob' = sendLog ob"
  by (auto simp: dropCorruptFrontRecord_def bind_eq_Some_conv Let_def split: if_splits
      dest: onQueue_log)

section \<open>One drain\<close>

text \<open>What a drain may do to a queue that holds \<open>xs\<close>: \<open>ys\<close> is the queue afterwards, \<open>log\<close> the
  calls of the send callback.  It keeps the queue, or the front record has left it because the
  callback disposed of its payload, or because it does not decode and the limit on such drops is
  not reached.\<close>

definition drainEffect ::
  "outbox_config \<Rightarrow> ('s, 'e) outbox \<Rightarrow> abs_queue \<Rightarrow> drain_result \<Rightarrow> send_log \<Rightarrow> abs_queue \<Rightarrow> bool" where
  "drainEffect oc ob xs r log ys \<longleftrightarrow>
     (if drSent r \<noteq> 0 \<or> drDropped r \<noteq> 0
      then xs \<noteq> [] \<and> ys = tl xs \<and> drCorruptDropped r = 0
         \<and> (\<exists>d. decodeEnvelope (snd (hd xs)) = Some d
              \<and> log = [(envPayload d, if drSent r \<noteq> 0 then DecideSent else DecideDrop)])
      else if drCorruptDropped r \<noteq> 0
      then xs \<noteq> [] \<and> ys = tl xs \<and> decodeEnvelope (snd (hd xs)) = None
         \<and> canDropCorruptFrontRecord oc ob \<and> log = []
      else ys = xs \<and> (\<forall>(p, d)\<in>set log. d = DecideRetry \<or> d = DecideOther))"

lemma fromQueue:
  "f (obQueue ob) = Some (r, q) \<Longrightarrow> onQueue f ob = Some (r, ob\<lparr>obQueue := q\<rparr>)"
  by (simp add: onQueue_def)

context fifo_store
begin

lemma peek_usable:
  assumes h: "holds xs (quStore q)" and p: "peek S c q = Some ((st, d), q')"
  shows "holds xs (quStore q') \<and> (ok st \<longrightarrow> xs \<noteq> [] \<and> d = snd (hd xs) \<and> usable (quStore q') = usable (quStore q))
    \<and> (\<not> ok st \<longrightarrow> \<not> isCorruptRecordStatus (code st))"
  using h
proof (cases rule: withFront_cases [where c = c and onF = "\<lambda>st. (st, [])"
    and body = "\<lambda>q. onStore (st_readRecord S (ixHead (quIndex q))) q"])
  case (front q1 st0 q0)
  then have z: "hd xs = xs ! 0" by (simp add: hd_conv_nth)
  obtain s' where r: "st_readRecord S (fst (hd xs)) (quStore q1) = Some ((success, snd (hd xs)), s')"
      "holds xs s'" "usable s' = usable (quStore q1)"
    using read_law [OF front(4), of 0] front(3) z by auto
  then show ?thesis
    using front p release_holds [of xs "q1\<lparr>quStore := s'\<rparr>"]
    by (auto simp: peek_def onStore_def)
qed (use p in \<open>auto simp: peek_def queueEmpty_def isCorruptRecordStatus_def failure_code_def ok_def\<close>)

lemma statsResult_holds:
  assumes h: "holds xs (quStore q)"
  shows "\<exists>r q'. statsResult S c q = Some (r, q') \<and> holds xs (quStore q')
    \<and> (ok (srStatus r) \<longrightarrow> unat (statCount (srStats r)) = length xs)"
proof -
  obtain st q0 where a: "acquireLock S c q = Some (st, q0)" "holds xs (quStore q0)"
    using acquire_holds [OF h] by blast
  obtain ix where ix: "loadLatestIndex S c q0 = Some (success, q0\<lparr>quIndex := ix\<rparr>)"
    "unat (ixCount ix) = length xs" using load_holds [OF a(2)] by metis
  show ?thesis
    using a ix release_holds [of xs "q0\<lparr>quIndex := ix\<rparr>"]
    by (cases "ok st") (simp_all add: statsResult_def withLock_def)
qed

lemma queueStats_holds:
  assumes h: "holds xs (quStore q)"
  shows "\<exists>r q'. queueStats S c q = Some (r, q') \<and> holds xs (quStore q')"
  using statsResult_holds [OF h, of c] by (auto simp: queueStats_def)

lemma removeDrained_holds:
  assumes h: "holds xs (quStore (obQueue ob))" and u: "usable (quStore (obQueue ob))"
    and r: "\<not> drQueueError r" "drSent r = 0" "drDropped r = 0" "drCorruptDropped r = 0"
  shows "\<exists>r' ob'. removeDrained S c oc sent rc r ob = Some (r', ob')
    \<and> (\<not> drQueueError r' \<longrightarrow> xs \<noteq> [] \<and> holds (tl xs) (quStore (obQueue ob'))
        \<and> drSent r' = (if sent then 1 else 0) \<and> drDropped r' = (if sent then 0 else 1)
        \<and> drCorruptDropped r' = 0 \<and> frontAttempts ob' = 0 \<and> \<not> hasFrontCooldown ob')"
proof -
  obtain st q' where "pop S c (obQueue ob) = Some (st, q')" "ok st \<longrightarrow> xs \<noteq> [] \<and> holds (tl xs) (quStore q')"
    using pop_holds [OF h u, of c] by blast
  then show ?thesis using r
    by (auto simp: removeDrained_def fromQueue Let_def clearFrontCooldown_def obRequestEvent_def obEmit_def)
qed

lemma dropCorrupt_holds:
  assumes h: "holds xs (quStore (obQueue ob))" and u: "usable (quStore (obQueue ob))"
  shows "\<exists>r ob'. dropCorruptFrontRecord S c oc st n ob = Some (r, ob')
    \<and> (\<not> drQueueError r \<longrightarrow> xs \<noteq> [] \<and> holds (tl xs) (quStore (obQueue ob'))
        \<and> canDropCorruptFrontRecord oc ob \<and> drSent r = 0 \<and> drDropped r = 0 \<and> drCorruptDropped r = 1)"
proof -
  obtain st' q' where "pop S c (obQueue ob) = Some (st', q')" "ok st' \<longrightarrow> xs \<noteq> [] \<and> holds (tl xs) (quStore q')"
    using pop_holds [OF h u, of c] by blast
  then show ?thesis
    by (auto simp: dropCorruptFrontRecord_def fromQueue Let_def empty_drain_def)
qed

end

text \<open>The effect of a drain as a postcondition.\<close>

definition drained ::
  "(abs_queue \<Rightarrow> 's \<Rightarrow> bool) \<Rightarrow> outbox_config \<Rightarrow> ('s, 'e \<times> send_log) outbox \<Rightarrow> abs_queue
     \<Rightarrow> (drain_result \<times> ('s, 'e \<times> send_log) outbox) option \<Rightarrow> bool" where
  "drained holds oc ob xs result \<longleftrightarrow>
     (case result of
        None \<Rightarrow> False
      | Some (r, ob') \<Rightarrow>
          (\<exists>log. sendLog ob' = sendLog ob @ log
             \<and> (drQueueError r \<or> (\<exists>ys. drainEffect oc ob xs r log ys \<and> holds ys (quStore (obQueue ob'))))))"

lemma drainedI:
  "result = Some (r, ob') \<Longrightarrow> sendLog ob' = sendLog ob @ log \<Longrightarrow>
   (\<not> drQueueError r \<Longrightarrow> drainEffect oc ob xs r log ys \<and> holds ys (quStore (obQueue ob'))) \<Longrightarrow>
   drained holds oc ob xs result"
  unfolding drained_def by auto

lemma drained_keep:
  "sendLog ob' = sendLog ob @ log \<Longrightarrow> \<forall>(p, d)\<in>set log. d = DecideRetry \<or> d = DecideOther \<Longrightarrow>
   drSent r = 0 \<Longrightarrow> drDropped r = 0 \<Longrightarrow> drCorruptDropped r = 0 \<Longrightarrow>
   holds xs (quStore (obQueue ob')) \<Longrightarrow> drained holds oc ob xs (Some (r, ob'))"
  unfolding drained_def drainEffect_def by auto

lemma drained_same:
  "sendLog ob1 = sendLog ob \<Longrightarrow> corruptDrops ob1 = corruptDrops ob \<Longrightarrow>
     drained holds oc ob1 xs result = drained holds oc ob xs result"
  by (simp add: drained_def drainEffect_def canDropCorruptFrontRecord_def split: option.splits)

lemma retry_queue:
  "computeRetryDelay cb oc e h ob = (d, ob') \<Longrightarrow> obQueue ob' = obQueue ob"
  by (rule env_queue)

context fifo_store
begin

lemma drainSend_holds:
  assumes h: "holds xs (quStore (obQueue ob))" and u: "usable (quStore (obQueue ob))"
    and d: "decodeEnvelope (snd (hd xs)) = Some d" and cb: "configured cb"
  shows "drained holds oc ob xs (drainSend S c (recording cb) oc now rc (envPayload d) ob)"
proof -
  define ob1 where "ob1 = obRequestEvent oc Diagnostic Debug success ''drain_send_start''
      (frontAttempts (recordDrainAttempt now ob)) 0 0 (recordDrainAttempt now ob)"
  obtain sr ob2 where dsp: "dispatchSend (recording cb) (envPayload d) (frontAttempts ob1) ob1 = (sr, ob2)"
    by fastforce
  have q: "obQueue ob2 = obQueue ob" using env_queue(1) [OF dsp] by (simp add: ob1_def)
  have l: "sendLog ob2 = sendLog ob @ [(envPayload d, srDecision sr)]"
    using dispatch_log [OF dsp cb] by (simp add: ob1_def)
  note unf = drainSend_def Let_def ob1_def [symmetric] dsp prod.case
  have rm: "drained holds oc ob xs (removeDrained S c oc sent rc (empty_drain\<lparr>drAttempts := 1\<rparr>) ob2)"
    if "srDecision sr = (if sent then DecideSent else DecideDrop)" for sent
  proof -
    obtain r' ob' where r: "removeDrained S c oc sent rc (empty_drain\<lparr>drAttempts := 1\<rparr>) ob2 = Some (r', ob')"
      "\<not> drQueueError r' \<longrightarrow> xs \<noteq> [] \<and> holds (tl xs) (quStore (obQueue ob'))
        \<and> drSent r' = (if sent then 1 else 0) \<and> drDropped r' = (if sent then 0 else 1)
        \<and> drCorruptDropped r' = 0"
    proof -
      have "holds xs (quStore (obQueue ob2))" "usable (quStore (obQueue ob2))"
        "\<not> drQueueError (empty_drain\<lparr>drAttempts := 1\<rparr>)" "drSent (empty_drain\<lparr>drAttempts := 1\<rparr>) = 0"
        "drDropped (empty_drain\<lparr>drAttempts := 1\<rparr>) = 0" "drCorruptDropped (empty_drain\<lparr>drAttempts := 1\<rparr>) = 0"
        using h u q by (simp_all add: empty_drain_def)
      from removeDrained_holds [OF this, of c oc sent rc] that show thesis by blast
    qed
    show ?thesis
      using r removeDrained_log [OF r(1)] l that d
      by (intro drainedI [OF r(1), where ys = "tl xs"]) (auto simp: drainEffect_def)
  qed
  show ?thesis
  proof (cases "srDecision sr")
    case DecideSent
    then show ?thesis using rm [of True] by (simp add: unf)
  next
    case DecideDrop
    then show ?thesis using rm [of False] by (simp add: unf)
  next
    case DecideOther
    then show ?thesis using q l h
      by (simp add: unf)
        (rule drained_keep [where log = "[(envPayload d, DecideOther)]"], simp_all add: empty_drain_def)
  next
    case DecideRetry
    define ob3 where "ob3 = (if frontAttempts ob2 < 0xff then ob2\<lparr>frontAttempts := frontAttempts ob2 + 1\<rparr> else ob2)"
    obtain dl ob4 where cd: "computeRetryDelay (recording cb) oc (frontAttempts ob3 - 1) (srRetryAfterMs sr) ob3 = (dl, ob4)"
      by fastforce
    have q4: "obQueue ob4 = obQueue ob" "sendLog ob4 = sendLog ob2"
      using env_queue(3) [OF cd] retryDelay_log [OF cd] q by (simp_all add: ob3_def)
    show ?thesis
      using DecideRetry q4 l h
      by (simp add: unf ob3_def [symmetric] cd)
        (rule drained_keep [where log = "[(envPayload d, DecideRetry)]"], simp_all add: empty_drain_def)
  qed
qed

lemma drainFront_holds:
  assumes h: "holds xs (quStore (obQueue ob))" and u: "usable (quStore (obQueue ob))"
    and rc: "rc = snd (hd xs)" and cb: "configured cb"
  shows "drained holds oc ob xs (drainFront S c (recording cb) oc b now rc ob)"
proof (cases "decodeEnvelope rc")
  case None
  obtain r ob' where r: "dropCorruptFrontRecord S c oc
      (failure DecodeFailed ''stored outbox envelope could not be decoded'') (word_of_nat (length rc)) ob = Some (r, ob')"
    "\<not> drQueueError r \<longrightarrow> xs \<noteq> [] \<and> holds (tl xs) (quStore (obQueue ob'))
        \<and> canDropCorruptFrontRecord oc ob \<and> drSent r = 0 \<and> drDropped r = 0 \<and> drCorruptDropped r = 1"
    using dropCorrupt_holds [OF h u] by blast
  have e: "drainFront S c (recording cb) oc b now rc ob = Some (r, ob')"
    using None r(1) by (simp add: drainFront_def)
  show ?thesis
    using None r rc dropCorrupt_log [OF r(1)]
    by (intro drainedI [OF e, where ys = "tl xs" and log = "[]"]) (auto simp: drainEffect_def)
next
  case (Some d)
  then show ?thesis
    using drainSend_holds [OF h u _ cb, of d] rc h
    by (auto simp: drainFront_def empty_drain_def intro!: drained_keep [where log = "[]"])
qed

lemma drain_holds:
  assumes h: "holds xs (quStore (obQueue ob))" and u: "usable (quStore (obQueue ob))"
  shows "drained holds oc ob xs (drain S c (recording cb) oc ob)"
proof (cases "configured cb")
  case cb: True
  obtain now ob1 where clk: "readClock (recording cb) ob = (now, ob1)" by fastforce
  have q1: "obQueue ob1 = obQueue ob" "sendLog ob1 = sendLog ob" "corruptDrops ob1 = corruptDrops ob"
    using env_queue(2) [OF clk] readClock_log [OF clk] clk
    by (auto simp: readClock_def onEnv_def split: option.splits prod.splits)
  obtain st rc q where p: "peek S c (obQueue ob1) = Some ((st, rc), q)"
    using peek_holds [of xs "obQueue ob1" c] h q1 by auto
  note pk = peek_usable [OF _ p, of xs]
  define ob2 where "ob2 = ob1\<lparr>obQueue := q\<rparr>"
  have op: "onQueue (peek S c) ob1 = Some ((st, rc), ob2)" using p by (simp add: fromQueue ob2_def)
  have s2: "sendLog ob2 = sendLog ob" "corruptDrops ob2 = corruptDrops ob" using q1 by (simp_all add: ob2_def)
  show ?thesis
  proof (cases "ok st")
    case True
    then have "drained holds oc ob2 xs (drainFront S c (recording cb) oc True now rc ob2)"
      using pk h u q1 cb by (intro drainFront_holds) (auto simp: ob2_def)
    then show ?thesis
      using True cb clk op drained_same [OF s2] by (simp add: drain_def drainOne_def)
  next
    case False
    then have "\<not> isCorruptFrontRecordStatus (code st)"
      using pk h q1 by (simp add: isCorruptRecordStatus_def isCorruptFrontRecordStatus_def)
    then have "\<exists>r ob'. drain S c (recording cb) oc ob = Some (r, ob') \<and> sendLog ob' = sendLog ob2
        \<and> obQueue ob' = obQueue ob2 \<and> drSent r = 0 \<and> drDropped r = 0 \<and> drCorruptDropped r = 0"
      using False cb clk op by (simp add: drain_def drainOne_def empty_drain_def)
    then show ?thesis
      using s2 pk h q1 by (auto simp: drainEffect_def ob2_def intro: drainedI [where log = "[]" and ys = xs])
  qed
next
  case False
  then show ?thesis
    using h by (auto simp: drain_def drainOne_def empty_drain_def intro!: drained_keep [where log = "[]"])
qed

end

section \<open>One submit\<close>

text \<open>What an accepted submit of \<open>p\<close> does to a queue that holds \<open>xs\<close>: \<open>ys\<close> is the queue
  afterwards, \<open>log\<close> the calls of the send callback.  The payload is queued, behind what is queued
  already, or the queue was empty and the callback has disposed of it.\<close>

definition submitEffect ::
  "bytes \<Rightarrow> abs_queue \<Rightarrow> submit_status \<Rightarrow> send_log \<Rightarrow> abs_queue \<Rightarrow> bool" where
  "submitEffect p xs st log ys \<longleftrightarrow>
     (if st = SubmitQueued
      then (\<exists>t rec. encodeEnvelope 0 p = Some rec \<and> ys = xs @ [(t, rec)])
         \<and> (log = [] \<or> xs = [] \<and> log = [(p, DecideRetry)])
      else st \<in> {SubmitSent, SubmitDropped} \<and> xs = [] \<and> ys = []
         \<and> log = [(p, if st = SubmitSent then DecideSent else DecideDrop)])"

definition accepted :: "submit_status \<Rightarrow> bool" where
  "accepted st \<longleftrightarrow> st \<in> {SubmitQueued, SubmitSent, SubmitDropped}"

definition submitted ::
  "(abs_queue \<Rightarrow> 's \<Rightarrow> bool) \<Rightarrow> bytes \<Rightarrow> ('s, 'e \<times> send_log) outbox \<Rightarrow> abs_queue
     \<Rightarrow> (submit_result \<times> ('s, 'e \<times> send_log) outbox) option \<Rightarrow> bool" where
  "submitted holds p ob xs result \<longleftrightarrow>
     (case result of
        None \<Rightarrow> False
      | Some (r, ob') \<Rightarrow>
          accepted (suStatus r) \<longrightarrow>
            (\<exists>log ys. sendLog ob' = sendLog ob @ log \<and> submitEffect p xs (suStatus r) log ys
               \<and> holds ys (quStore (obQueue ob'))))"

lemma submitted_refused: "\<not> accepted (suStatus r) \<Longrightarrow> submitted holds p ob xs (Some (r, ob'))"
  by (simp add: submitted_def)

lemma submitted_live:
  assumes "suStatus r = SubmitSent \<and> d = DecideSent \<or> suStatus r = SubmitDropped \<and> d = DecideDrop"
    and "sendLog ob' = sendLog ob @ [(p, d)]" and "holds [] (quStore (obQueue ob'))"
  shows "submitted holds p ob [] (Some (r, ob'))"
  using assms by (auto simp: submitted_def submitEffect_def)

text \<open>The states a payload is submitted in: the queue can be read, and it has room for the
  envelope when it comes to that.\<close>

definition submitAllowed ::
  "'s store_ops \<Rightarrow> (queue_config \<Rightarrow> call \<Rightarrow> 's queue \<Rightarrow> bool) \<Rightarrow> queue_config \<Rightarrow> bytes
     \<Rightarrow> ('s, 'e) outbox \<Rightarrow> bool" where
  "submitAllowed S allowed c p ob \<longleftrightarrow>
     (case (encodeEnvelope 0 p, statsResult S c (obQueue ob)) of
        (Some rec, Some (qs, q)) \<Rightarrow>
          ok (srStatus qs)
          \<and> (if statCount (srStats qs) > 0 then allowed c (CallEnqueue rec) q
             else (case queueStats S c q of
                     Some (_, q) \<Rightarrow> allowed c (CallEnqueue rec) q
                   | None \<Rightarrow> True))
      | (None, Some (qs, q)) \<Rightarrow> ok (srStatus qs)
      | _ \<Rightarrow> True)"

context fifo_store
begin

lemma enqueueRecord_holds:
  assumes h: "holds xs (quStore (obQueue ob))" and pol: "fullQueuePolicy c = RejectNewest"
    and a: "\<And>rec. encodeEnvelope n p = Some rec \<Longrightarrow> allowed c (CallEnqueue rec) (obQueue ob)"
  shows "\<exists>r ob'. enqueueRecord S c oc p n ob = Some (r, ob') \<and> sendLog ob' = sendLog ob
    \<and> (accepted (suStatus r) \<longrightarrow> suStatus r = SubmitQueued
         \<and> (\<exists>t rec. encodeEnvelope n p = Some rec \<and> holds (xs @ [(t, rec)]) (quStore (obQueue ob'))))"
proof (cases "encodeEnvelope n p")
  case None
  then show ?thesis by (simp add: enqueueRecord_def accepted_def Let_def)
next
  case (Some rec)
  obtain st q where "enqueue S c (DataSpan rec) (obQueue ob) = Some (st, q)"
    "ok st \<longrightarrow> (\<exists>t. (xs \<noteq> [] \<longrightarrow> t = fst (last xs) + 1) \<and> holds (xs @ [(t, rec)]) (quStore q))"
  proof -
    have f: "\<And>st q0. acquireLock S c (obQueue ob) = Some (st, q0) \<Longrightarrow> fits (length rec) (quStore q0)"
      using a [OF Some] by (simp add: allowed_def)
    show thesis using enqueue_holds [OF h pol, of rec] f that by blast
  qed
  then show ?thesis using Some
    by (auto simp: enqueueRecord_def fromQueue accepted_def)
qed

lemma queueForRetry_holds:
  assumes h: "holds [] (quStore (obQueue ob))" and pol: "fullQueuePolicy c = RejectNewest"
    and a: "\<And>rec r q. encodeEnvelope 0 p = Some rec \<Longrightarrow> queueStats S c (obQueue ob) = Some (r, q) \<Longrightarrow>
      allowed c (CallEnqueue rec) q"
  shows "\<exists>r ob'. queueForRetry S c (recording cb) oc p hint ob = Some (r, ob') \<and> sendLog ob' = sendLog ob
    \<and> (accepted (suStatus r) \<longrightarrow> suStatus r = SubmitQueued
         \<and> (\<exists>t rec. encodeEnvelope 0 p = Some rec \<and> holds [(t, rec)] (quStore (obQueue ob'))))"
proof -
  obtain qs q where q: "queueStats S c (obQueue ob) = Some (qs, q)" "holds [] (quStore q)"
    using queueStats_holds [OF h] by blast
  define ob1 where "ob1 = ob\<lparr>obQueue := q\<rparr>"
  obtain r ob2 where e: "enqueueRecord S c oc p 0 ob1 = Some (r, ob2)" "sendLog ob2 = sendLog ob1"
    "accepted (suStatus r) \<longrightarrow> suStatus r = SubmitQueued
       \<and> (\<exists>t rec. encodeEnvelope 0 p = Some rec \<and> holds ([] @ [(t, rec)]) (quStore (obQueue ob2)))"
    using enqueueRecord_holds [of "[]" ob1 c 0 p oc] q pol a [OF _ q(1)] by (auto simp: ob1_def)
  obtain d ob3 where cd: "computeRetryDelay (recording cb) oc 0 hint (ob2\<lparr>frontAttempts := 1\<rparr>) = (d, ob3)"
    by fastforce
  obtain t ob4 where clk: "readClock (recording cb) ob3 = (t, ob4)" by fastforce
  have f: "sendLog ob4 = sendLog ob2" "obQueue ob4 = obQueue ob2"
    using retryDelay_log [OF cd] readClock_log [OF clk] env_queue(3) [OF cd] env_queue(2) [OF clk]
    by simp_all
  have o1: "onQueue (queueStats S c) ob = Some (qs, ob1)" using q by (simp add: fromQueue ob1_def)
  have s: "sendLog ob1 = sendLog ob" by (simp add: ob1_def)
  have "queueForRetry S c (recording cb) oc p hint ob
      = Some (r, if suStatus r = SubmitQueued \<and> statCount qs = 0
                 then obRequestEvent oc RequestRetried Info success ''submit'' 1 d 1
                        (setFrontCooldown (t + ucast d) ob4)
                 else ob2)"
    using o1 e(1) cd clk by (simp add: queueForRetry_def Let_def)
  then show ?thesis using e f s by auto
qed

lemma submitLive_holds:
  assumes h: "holds [] (quStore (obQueue ob))" and pol: "fullQueuePolicy c = RejectNewest"
    and cb: "configured cb"
    and a: "\<And>rec r q. encodeEnvelope 0 p = Some rec \<Longrightarrow> queueStats S c (obQueue ob) = Some (r, q) \<Longrightarrow>
      allowed c (CallEnqueue rec) q"
  shows "submitted holds p ob [] (submitLive S c (recording cb) oc p ob)"
proof -
  obtain sr ob1 where dsp: "dispatchSend (recording cb) p 0 ob = (sr, ob1)" by fastforce
  have q: "obQueue ob1 = obQueue ob" "sendLog ob1 = sendLog ob @ [(p, srDecision sr)]"
    using env_queue(1) [OF dsp] dispatch_log [OF dsp cb] by simp_all
  show ?thesis
  proof (cases "srDecision sr")
    case DecideRetry
    obtain r ob' where "queueForRetry S c (recording cb) oc p (srRetryAfterMs sr) ob1 = Some (r, ob')"
      "sendLog ob' = sendLog ob1"
      "accepted (suStatus r) \<longrightarrow> suStatus r = SubmitQueued
         \<and> (\<exists>t rec. encodeEnvelope 0 p = Some rec \<and> holds [(t, rec)] (quStore (obQueue ob')))"
      using queueForRetry_holds [of ob1 c p cb oc "srRetryAfterMs sr"] h pol a q by auto
    then show ?thesis using q DecideRetry dsp
      by (auto simp: submitLive_def submitted_def submitEffect_def)
  next
    case DecideOther
    then show ?thesis using dsp by (simp add: submitLive_def Let_def submitted_refused accepted_def)
  next
    case DecideSent
    then show ?thesis using dsp q h
      by (auto simp: submitLive_def intro!: submitted_live)
  next
    case DecideDrop
    then show ?thesis using dsp q h
      by (simp add: submitLive_def Let_def) (rule submitted_live [where d = DecideDrop], simp_all)
  qed
qed

lemma submit_holds:
  assumes h: "holds xs (quStore (obQueue ob))" and pol: "fullQueuePolicy c = RejectNewest"
    and a: "submitAllowed S allowed c p ob"
  shows "submitted holds p ob xs (submit S c (recording cb) oc (DataSpan p) ob)"
proof (cases "configured cb")
  case cb: True
  obtain qs q where q: "statsResult S c (obQueue ob) = Some (qs, q)" "holds xs (quStore q)"
      "ok (srStatus qs) \<longrightarrow> unat (statCount (srStats qs)) = length xs"
    using statsResult_holds [OF h] by blast
  define ob1 where "ob1 = ob\<lparr>obQueue := q\<rparr>"
  have o1: "onQueue (statsResult S c) ob = Some (qs, ob1)" using q by (simp add: fromQueue ob1_def)
  have okq: "ok (srStatus qs)" using a q(1) by (auto simp: submitAllowed_def split: option.splits)
  have n: "statCount (srStats qs) > 0 \<longleftrightarrow> xs \<noteq> []"
    using q(3) okq by (metis length_greater_0_conv unat_gt_0 word_neq_0_conv)
  have s: "sendLog ob1 = sendLog ob" by (simp add: ob1_def)
  have sub: "submit S c (recording cb) oc (DataSpan p) ob =
      (if xs \<noteq> [] then enqueueRecord S c oc p 0 ob1 else submitLive S c (recording cb) oc p ob1)"
    using cb o1 okq n by (simp add: submit_def)
  show ?thesis
  proof (cases "xs = []")
    case True
    have "submitted holds p ob1 [] (submitLive S c (recording cb) oc p ob1)"
      using q(2) True cb pol a q(1) okq n
      by (intro submitLive_holds) (auto simp: ob1_def submitAllowed_def split: option.splits)
    then show ?thesis using True sub s by (auto simp: submitted_def split: option.splits)
  next
    case False
    obtain r ob' where "enqueueRecord S c oc p 0 ob1 = Some (r, ob')" "sendLog ob' = sendLog ob1"
      "accepted (suStatus r) \<longrightarrow> suStatus r = SubmitQueued
         \<and> (\<exists>t rec. encodeEnvelope 0 p = Some rec \<and> holds (xs @ [(t, rec)]) (quStore (obQueue ob')))"
      using enqueueRecord_holds [of xs ob1 c 0 p oc] q pol a False n
      by (auto simp: ob1_def submitAllowed_def split: option.splits)
    then show ?thesis using False sub s by (auto simp: submitted_def submitEffect_def)
  qed
qed (simp add: submit_def Let_def submitted_refused accepted_def)

end

section \<open>Runs\<close>

text \<open>Runs of an outbox with a recording callback: payloads are submitted and accepted, drains end
  without a queue error.  \<open>acc\<close> are the accepted payloads, in order.  \<open>allowed\<close> restricts the
  states a call is made in, as for the queue.\<close>

inductive delivering ::
  "'s store_ops \<Rightarrow> (queue_config \<Rightarrow> call \<Rightarrow> 's queue \<Rightarrow> bool) \<Rightarrow> queue_config \<Rightarrow> 'e callbacks
     \<Rightarrow> outbox_config \<Rightarrow> ('s, 'e \<times> send_log) outbox \<Rightarrow> bytes list \<Rightarrow> ('s, 'e \<times> send_log) outbox \<Rightarrow> bool"
  for S :: "'s store_ops" and allowed c and cb :: "'e callbacks" and oc ob0 where
  deliver_start: "delivering S allowed c cb oc ob0 [] ob0"
| deliver_submit: "delivering S allowed c cb oc ob0 acc ob \<Longrightarrow> submitAllowed S allowed c p ob \<Longrightarrow>
    submit S c (recording cb) oc (DataSpan p) ob = Some (r, ob') \<Longrightarrow> accepted (suStatus r) \<Longrightarrow>
    delivering S allowed c cb oc ob0 (acc @ [p]) ob'"
| deliver_drain: "delivering S allowed c cb oc ob0 acc ob \<Longrightarrow> allowed c CallPop (obQueue ob) \<Longrightarrow>
    drain S c (recording cb) oc ob = Some (r, ob') \<Longrightarrow> \<not> drQueueError r \<Longrightarrow>
    delivering S allowed c cb oc ob0 acc ob'"

text \<open>The payloads of the envelopes in a queue; a queue of an outbox holds only envelopes.\<close>

definition allEnvelopes :: "abs_queue \<Rightarrow> bool" where
  "allEnvelopes xs \<longleftrightarrow> (\<forall>x\<in>set xs. decodeEnvelope (snd x) \<noteq> None)"

definition queuedPayloads :: "abs_queue \<Rightarrow> bytes list" where
  "queuedPayloads xs = map (\<lambda>x. envPayload (the (decodeEnvelope (snd x)))) xs"

lemma drainEffect_order:
  assumes "drainEffect oc ob xs r log ys" and "allEnvelopes xs"
  shows "allEnvelopes ys \<and> disposed log @ queuedPayloads ys = queuedPayloads xs"
proof -
  have none: "disposed log = []" if "\<forall>(p, d)\<in>set log. d = DecideRetry \<or> d = DecideOther"
    using that by (induction log) (auto simp: disposed_def)
  have hd: "decodeEnvelope (snd (hd xs)) \<noteq> None" if "xs \<noteq> []"
    using assms(2) that by (simp add: allEnvelopes_def)
  have tl: "allEnvelopes (tl xs)" using assms(2) by (cases xs) (simp_all add: allEnvelopes_def)
  consider "ys = xs" "disposed log = []"
    | d where "xs \<noteq> []" "ys = tl xs" "decodeEnvelope (snd (hd xs)) = Some d" "disposed log = [envPayload d]"
    using assms(1) hd none unfolding drainEffect_def
    by (auto simp: disposed_def split: if_splits)
  then show ?thesis
  proof cases
    case 1
    then show ?thesis using assms(2) by simp
  next
    case 2
    then have "queuedPayloads xs = envPayload d # queuedPayloads (tl xs)"
      by (cases xs) (simp_all add: queuedPayloads_def)
    then show ?thesis using 2 tl by simp
  qed
qed

lemma submitEffect_order:
  assumes "submitEffect p xs st log ys" and "allEnvelopes xs"
  shows "allEnvelopes ys \<and> disposed log @ queuedPayloads ys = queuedPayloads xs @ [p]"
  using assms
  by (auto simp: submitEffect_def allEnvelopes_def queuedPayloads_def disposed_def decodeEnvelope_encode
      split: if_splits)

lemma disposed_append: "disposed (log @ log') = disposed log @ disposed log'"
  by (simp add: disposed_def)

context fifo_store
begin

lemma delivering_order:
  assumes "delivering S allowed c cb oc ob0 acc ob" and "fullQueuePolicy c = RejectNewest"
    and "holds xs (quStore (obQueue ob0))" and "allEnvelopes xs" and "sendLog ob0 = []"
  shows "\<exists>ys. holds ys (quStore (obQueue ob)) \<and> allEnvelopes ys
    \<and> disposed (sendLog ob) @ queuedPayloads ys = queuedPayloads xs @ acc"
  using assms
proof (induction rule: delivering.induct)
  case deliver_start
  then show ?case by (auto simp: disposed_def)
next
  case (deliver_submit acc ob p r ob')
  then obtain ys where ys: "holds ys (quStore (obQueue ob))" "allEnvelopes ys"
    "disposed (sendLog ob) @ queuedPayloads ys = queuedPayloads xs @ acc" by blast
  have "submitted holds p ob ys (Some (r, ob'))"
    using submit_holds [OF ys(1) deliver_submit.prems(1) deliver_submit.hyps(2), of cb oc]
      deliver_submit.hyps(3) by simp
  then obtain log zs where z: "sendLog ob' = sendLog ob @ log" "submitEffect p ys (suStatus r) log zs"
    "holds zs (quStore (obQueue ob'))"
    using deliver_submit.hyps(4) by (auto simp: submitted_def)
  have o: "allEnvelopes zs" "disposed log @ queuedPayloads zs = queuedPayloads ys @ [p]"
    using submitEffect_order [OF z(2) ys(2)] by simp_all
  have "disposed (sendLog ob') @ queuedPayloads zs = (disposed (sendLog ob) @ queuedPayloads ys) @ [p]"
    using z(1) o(2) by (simp add: disposed_append)
  then show ?case using ys(3) o(1) z(3) by auto
next
  case (deliver_drain acc ob r ob')
  then obtain ys where ys: "holds ys (quStore (obQueue ob))" "allEnvelopes ys"
    "disposed (sendLog ob) @ queuedPayloads ys = queuedPayloads xs @ acc" by blast
  have "drained holds oc ob ys (Some (r, ob'))"
    using drain_holds [OF ys(1), of oc c cb] deliver_drain.hyps(2,3) by (simp add: allowed_def)
  then obtain log zs where z: "sendLog ob' = sendLog ob @ log" "drainEffect oc ob ys r log zs"
    "holds zs (quStore (obQueue ob'))"
    using deliver_drain.hyps(4) by (auto simp: drained_def)
  show ?case
    using drainEffect_order [OF z(2) ys(2)] z(1,3) ys(3)
    by (intro exI [of _ zs]) (simp add: disposed_append)
qed

end

end
