(* ===== verification/Queue_Progress.thy ===== *)
theory Queue_Progress
  imports Queue_Theorems
begin

text \<open>
  The lock file of the queue on the POSIX file system: when it is free it is granted, while its
  owner lives nobody else gets it; and what follows for the queue: on a healthy directory whose
  lock is free every operation succeeds.
\<close>

section \<open>A free lock is granted\<close>

lemma lockMounted_upd [simp]:
  "pwLockMounted (putFile name d w) = pwLockMounted w"
  "pwLockMounted (dropFile name w) = pwLockMounted w"
  by (simp_all add: putFile_def dropFile_def)

lemma acquire_free:
  assumes h: "posixHealthy w" and m: "pwLockMounted w" and f: "posixView w name = None"
  shows "\<exists>w'. fs_tryAcquireLockFile posixFs name d w = (success, w') \<and> posixHealthy w'
    \<and> pwLockMounted w' \<and> posixView w' = (posixView w)(name \<mapsto> d)"
  using assms
  by (simp add: posixTryAcquireLockFile_def posixAcquire.simps [of 0] openExclusive_def
      writeLockContents_def posix_op_defs)

lemma release_own:
  assumes h: "posixHealthy w" and m: "pwLockMounted w" and f: "posixView w name = Some d"
  shows "\<exists>st w'. fs_releaseLockFile posixFs name d w = (st, w') \<and> posixHealthy w'
    \<and> pwLockMounted w' \<and> posixView w' = (posixView w)(name := None)"
  using assms by (simp add: posixReleaseLockFile_def posixRelease_def posix_op_defs)

section \<open>A held lock is not granted\<close>

text \<open>The process with this id is alive: \<open>kill(pid, 0)\<close> does not report \<open>ESRCH\<close>.\<close>

definition alive :: "posix_world \<Rightarrow> int \<Rightarrow> bool" where
  "alive w pid \<longleftrightarrow> pwKill w pid \<noteq> KillError ESRCH"

definition lockedBy :: "posix_world \<Rightarrow> string \<Rightarrow> int \<Rightarrow> bool" where
  "lockedBy w name pid \<longleftrightarrow>
     (\<exists>d. posixView w name = Some d \<and> lockPid d = pid) \<and> alive w pid"

lemma readFile_locked:
  assumes "posixReadFile name w = ((st, d), w')" and "ok st"
  shows "posixView w name = Some d"
  using assms by (auto simp: posix_op_defs split: posix_splits)

lemma kept_stale:
  assumes "lockedBy w name pid" and "removeStalePosixLock name w = (b, w')"
  shows "\<not> b \<and> posixView w' = posixView w \<and> pwKill w' = pwKill w"
proof -
  obtain st d w1 where r: "posixReadFile name w = ((st, d), w1)" by (metis surj_pair)
  have v: "posixView w1 = posixView w" "pwKill w1 = pwKill w"
    using r by (auto simp: posix_op_defs split: posix_splits)
  show ?thesis
  proof (cases "ok st")
    case True
    then have "lockPid d = pid" "alive w1 pid"
      using readFile_locked [OF r] assms(1) v by (auto simp: lockedBy_def alive_def)
    then show ?thesis
      using assms(2) r v True
      by (auto simp: removeStalePosixLock_def Let_def alive_def split: if_splits kill_outcome.splits)
  qed (use assms(2) r v in \<open>auto simp: removeStalePosixLock_def\<close>)
qed

lemma acquire_locked:
  assumes l: "lockedBy w name pid" and a: "fs_tryAcquireLockFile posixFs name d w = (st, w')"
  shows "\<not> ok st \<and> posixView w' = posixView w \<and> pwKill w' = pwKill w"
proof (cases "pwLockMounted w")
  case True
  obtain e w1 where o: "openExclusive name w = (e, w1)" by fastforce
  have o1: "e \<noteq> None" "posixView w1 = posixView w" "pwKill w1 = pwKill w"
    using o l by (auto simp: openExclusive_def lockedBy_def posix_op_defs split: posix_splits)
  obtain b w2 where r: "removeStalePosixLock name w1 = (b, w2)" by fastforce
  have l1: "lockedBy w1 name pid" using l o1 by (simp add: lockedBy_def alive_def)
  note k = kept_stale [OF l1 r]
  show ?thesis
    using a True o r o1 k
    by (auto simp: posixFs_def posixTryAcquireLockFile_def posixAcquire.simps [of 0] Let_def split: if_splits)
next
  case False
  then show ?thesis
    using a by (auto simp: posixFs_def posixTryAcquireLockFile_def lockBackendMissing_def)
qed

lemma lockedBy_same:
  "posixView w' = posixView w \<Longrightarrow> pwKill w' = pwKill w \<Longrightarrow> lockedBy w' name pid = lockedBy w name pid"
  by (simp add: lockedBy_def alive_def)

lemma lockAttempts_locked:
  "lockAttempts (appendLogOps posixFs cfg) c n lastStatus q = Some (st, q') \<Longrightarrow>
   mounted (quStore q) \<Longrightarrow> lockedBy (world (quStore q)) kLockFileName pid \<Longrightarrow> \<not> ok lastStatus \<Longrightarrow>
   \<not> ok st \<and> posixView (world (quStore q')) = posixView (world (quStore q))"
proof (induction n arbitrary: q lastStatus)
  case 0
  then show ?case by (auto simp: queueDiagnostic_def)
next
  case (Suc n)
  obtain st1 w1 where a: "fs_tryAcquireLockFile posixFs kLockFileName (quLockContents q) (world (quStore q)) = (st1, w1)"
    by fastforce
  note k = acquire_locked [OF Suc.prems(3) a]
  define q1 where "q1 = q\<lparr>quStore := (quStore q)\<lparr>world := w1\<rparr>\<rparr>"
  have o: "onStore (st_tryAcquireLockFile (appendLogOps posixFs cfg) kLockFileName (quLockContents q)) q
      = Some (st1, q1)"
    using Suc.prems(2) a
    by (simp add: onStore_def appendLogOps_def tryAcquireLockFile_def onWorld_def q1_def)
  show ?case
  proof (cases "code st1 = LockTimeout")
    case True
    then have "lockAttempts (appendLogOps posixFs cfg) c n st1 q1 = Some (st, q')"
      using Suc.prems(1) o k by simp
    from Suc.IH [OF this] show ?thesis
      using Suc.prems(2,3) k lockedBy_same [of w1 "world (quStore q)"] by (simp add: q1_def)
  next
    case False
    then show ?thesis using Suc.prems(1) o k by (auto simp: queueDiagnostic_def q1_def)
  qed
qed

text \<open>Every operation of another queue object is refused and leaves the files alone.\<close>

lemma withLock_locked:
  assumes "withLock (appendLogOps posixFs cfg) c onF body q = Some (r, q')"
    and m: "mounted (quStore q)" and l: "lockedBy (world (quStore q)) kLockFileName pid"
    and n: "\<not> quLockHeld q"
  shows "\<exists>st. r = onF st \<and> \<not> ok st \<and> posixView (world (quStore q')) = posixView (world (quStore q))"
proof -
  obtain st q0 where a: "acquireLock (appendLogOps posixFs cfg) c q = Some (st, q0)"
    using assms(1) by (auto simp: withLock_def bind_eq_Some_conv)
  have "\<not> ok st \<and> posixView (world (quStore q0)) = posixView (world (quStore q))"
    using lockAttempts_locked [of cfg c kLockAttempts _ "ensureLockContents q" st q0 pid] a m l n
    by (auto simp: acquireLock_def ensureLockContents_def split: if_splits)
  then show ?thesis using assms(1) a by (intro exI [of _ st]) (simp add: withLock_def)
qed

section \<open>A queue nobody interferes with\<close>

lemma sameLog_slotFree: "sameLog v v' \<Longrightarrow> slotFree v' = slotFree v"
  by (simp add: slotFree_def idealTarget_def sameLog_slot sameLogD(2) electedEpoch_def sameLog_elected)

text \<open>The store holds \<open>xs\<close>, no error is pending, the limits are not reached, and the lock is free.
  With \<open>lock = Some d\<close> the queue holds its lock.\<close>

definition quiet ::
  "append_log_config \<Rightarrow> abs_queue \<Rightarrow> bytes option \<Rightarrow> posix_world store \<Rightarrow> bool" where
  "quiet cfg xs lock s \<longleftrightarrow>
     logHolds posixView posixReadable cfg xs s \<and> configOk cfg \<and> posixHealthy (world s)
     \<and> withinLimits (posixView (world s)) s
     \<and> pwLockMounted (world s) \<and> posixView (world s) kLockFileName = lock"

definition calm :: "append_log_config \<Rightarrow> abs_queue \<Rightarrow> posix_world store queue \<Rightarrow> bool" where
  "calm cfg xs q \<longleftrightarrow> quiet cfg xs None (quStore q) \<and> \<not> quLockHeld q"

definition holding :: "append_log_config \<Rightarrow> abs_queue \<Rightarrow> posix_world store queue \<Rightarrow> bool" where
  "holding cfg xs q \<longleftrightarrow> quiet cfg xs (Some (quLockContents q)) (quStore q) \<and> quLockHeld q"

lemma quiet_lock:
  assumes q: "quiet cfg xs lock s" and h: "posixHealthy w" "pwLockMounted w"
    and v: "posixView w = (posixView (world s))(kLockFileName := lock')"
  shows "quiet cfg xs lock' (s\<lparr>world := w\<rparr>)"
proof -
  have sm: "sameLog (posixView (world s)) (posixView w)"
    using v by (intro sameLog_lock) simp
  have "logHolds posixView posixReadable cfg xs (s\<lparr>world := w\<rparr>)"
    using q h v by (intro posix.logHolds_lock) (simp_all add: quiet_def)
  moreover have "withinLimits (posixView w) (s\<lparr>world := w\<rparr>)"
    using q sameLog_countersOk [OF sm, where s = s and w = w] sameLog_slotFree [OF sm]
    by (simp add: quiet_def withinLimits_def rangeRoom_def)
  ultimately show ?thesis using q h v by (simp add: quiet_def)
qed

lemma acquire_calm:
  assumes "calm cfg xs q"
  shows "\<exists>q'. acquireLock (appendLogOps posixFs cfg) c q = Some (success, q') \<and> holding cfg xs q'
    \<and> (\<exists>w. quStore q' = (quStore q)\<lparr>world := w\<rparr>)"
proof -
  let ?S = "appendLogOps posixFs cfg"
  define q0 where "q0 = ensureLockContents q"
  have q0: "quStore q0 = quStore q" "quIndex q0 = quIndex q" "\<not> quLockHeld q"
    using assms by (simp_all add: q0_def ensureLockContents_def calm_def)
  have q: "quiet cfg xs None (quStore q)" using assms by (simp add: calm_def)
  obtain w' where w: "fs_tryAcquireLockFile posixFs kLockFileName (quLockContents q0) (world (quStore q)) = (success, w')"
      "posixHealthy w'" "pwLockMounted w'"
      "posixView w' = (posixView (world (quStore q)))(kLockFileName \<mapsto> quLockContents q0)"
    using acquire_free [of "world (quStore q)" kLockFileName "quLockContents q0"] q
    by (auto simp: quiet_def)
  have m: "mounted (quStore q)" using q by (auto simp: quiet_def logHolds_def elim: storeHoldsE)
  have "acquireLock ?S c q = Some (success, q0\<lparr>quStore := (quStore q)\<lparr>world := w'\<rparr>, quLockHeld := True\<rparr>)"
    using q0(1,3) w(1) m
    by (simp add: acquireLock_def q0_def [symmetric] kLockAttempts_def eval_nat_numeral onStore_def
        appendLogOps_def tryAcquireLockFile_def onWorld_def)
  then show ?thesis using quiet_lock [OF q w(2-4)] by (auto simp: holding_def)
qed

lemma release_holding:
  assumes "holding cfg xs q"
  shows "calm cfg xs (releaseLock (appendLogOps posixFs cfg) q)"
proof -
  have q: "quiet cfg xs (Some (quLockContents q)) (quStore q)" "quLockHeld q"
    using assms by (simp_all add: holding_def)
  obtain st w' where w: "fs_releaseLockFile posixFs kLockFileName (quLockContents q) (world (quStore q)) = (st, w')"
      "posixHealthy w'" "pwLockMounted w'"
      "posixView w' = (posixView (world (quStore q)))(kLockFileName := None)"
    using release_own [of "world (quStore q)" kLockFileName "quLockContents q"] q(1)
    by (auto simp: quiet_def)
  then show ?thesis using quiet_lock [OF q(1) w(2-4)] q(2)
    by (simp add: calm_def releaseLock_def appendLogOps_def releaseLockFile_def onWorld_def posix.present)
qed

text \<open>An operation on the front of a calm, non-empty queue runs its body with the lock held.\<close>

lemma withFront_calm:
  assumes c: "calm cfg xs q" and ne: "xs \<noteq> []"
  obtains q1 where "holding cfg xs q1" "ixHead (quIndex q1) = fst (hd xs)"
    "withFront (appendLogOps posixFs cfg) c onF body q
       = do { (r, q2) \<leftarrow> body q1; Some (r, releaseLock (appendLogOps posixFs cfg) q2) }"
proof -
  obtain q0 where a: "acquireLock (appendLogOps posixFs cfg) c q = Some (success, q0)" "holding cfg xs q0"
    using acquire_calm [OF c] by blast
  have "logHolds posixView posixReadable cfg xs (quStore q0)"
    using a(2) by (simp add: holding_def quiet_def)
  then obtain ix where ix: "loadLatestIndex (appendLogOps posixFs cfg) c q0 = Some (success, q0\<lparr>quIndex := ix\<rparr>)"
    "ixCount ix = 0 \<longleftrightarrow> xs = []" "xs \<noteq> [] \<Longrightarrow> ixHead ix = fst (hd xs)"
    by (rule posix_queue.load_holds) blast
  have "holding cfg xs (q0\<lparr>quIndex := ix\<rparr>)" using a(2) by (simp add: holding_def)
  then show thesis using a ix ne by (intro that) (simp_all add: withFront_def withLock_def)
qed

lemma readAt_world: "posixHealthy w \<Longrightarrow> fs_readAt posixFs name off n w = (r, w') \<Longrightarrow> w' = w"
  by (auto simp: posix_op_defs split: posix_splits)

lemma readRecord_world:
  assumes "readRecord posixFs cfg t s = Some (r, s')" and "mounted s" and "posixHealthy (world s)"
  shows "world s' = world s"
  using assms
  by (auto simp: readRecord_def onWorld_def storeDiagnostic_def Let_def split: if_splits prod.splits
      dest: readAt_world)

text \<open>Peeking succeeds and leaves the queue calm.\<close>

lemma peek_calm:
  assumes c: "calm cfg xs q" and ne: "xs \<noteq> []"
  shows "\<exists>q'. peek (appendLogOps posixFs cfg) c q = Some ((success, snd (hd xs)), q') \<and> calm cfg xs q'"
proof -
  let ?S = "appendLogOps posixFs cfg"
  obtain q1 where q1: "holding cfg xs q1" "ixHead (quIndex q1) = fst (hd xs)"
    "peek ?S c q = do { (r, q2) \<leftarrow> onStore (st_readRecord ?S (ixHead (quIndex q1))) q1; Some (r, releaseLock ?S q2) }"
    unfolding peek_def by (rule withFront_calm [OF c ne])
  have s: "storeHolds cfg (posixView (world (quStore q1))) xs (quStore q1)" "contiguous xs"
    "posixReadable (world (quStore q1))" using q1(1) by (auto simp: holding_def quiet_def logHolds_def)
  have i: "0 < length xs" using ne by simp
  have z: "hd xs = xs ! 0" using ne by (simp add: hd_conv_nth)
  obtain w where w: "readRecord posixFs cfg (fst (hd xs)) (quStore q1)
      = Some ((success, snd (hd xs)), (quStore q1)\<lparr>world := w\<rparr>)"
    using posix.readRecord_holds [OF s(1,2) i s(3)] z by auto
  have "world (quStore q1) = w"
    using readRecord_world [OF w] q1(1) s(1) by (auto simp: holding_def quiet_def elim: storeHoldsE)
  then have "q1\<lparr>quStore := (quStore q1)\<lparr>world := w\<rparr>\<rparr> = q1" by auto
  then have "holding cfg xs (q1\<lparr>quStore := (quStore q1)\<lparr>world := w\<rparr>\<rparr>)"
    using q1(1) by simp
  from release_holding [OF this] show ?thesis
    using q1 w by (simp add: onStore_def appendLogOps_def)
qed

text \<open>Removing the front succeeds, and so does appending a record that fits.\<close>

lemma pop_calm:
  assumes c: "calm cfg xs q" and ne: "xs \<noteq> []"
  shows "\<exists>q'. pop (appendLogOps posixFs cfg) c q = Some (success, q')
    \<and> logHolds posixView posixReadable cfg (tl xs) (quStore q')"
proof -
  let ?S = "appendLogOps posixFs cfg"
  obtain q1 where q1: "holding cfg xs q1" "ixHead (quIndex q1) = fst (hd xs)"
    "pop ?S c q = do { (r, q2) \<leftarrow> popFront ?S c ''pop'' q1; Some (r, releaseLock ?S q2) }"
    unfolding pop_def by (rule withFront_calm [OF c ne])
  have s: "storeHolds cfg (posixView (world (quStore q1))) xs (quStore q1)" "contiguous xs"
    "posixHealthy (world (quStore q1))" "configOk cfg"
    "withinLimits (posixView (world (quStore q1))) (quStore q1)"
    using q1(1) by (auto simp: holding_def quiet_def logHolds_def)
  obtain s' where p: "commitPop posixFs cfg (fst (hd xs)) (quStore q1) = Some (success, s')"
      "posixHealthy (world s')" "storeHolds cfg (posixView (world s')) (tl xs) s'"
    using posix.commitPop_healthy [OF s(1,3,4,5) ne] by blast
  have h: "logHolds posixView posixReadable cfg (tl xs) s'"
    using p(2,3) contiguous_tl [OF s(2)] by (simp add: logHolds_def)
  show ?thesis
    using q1 p(1) posix_queue.release_holds [of cfg "tl xs" "advanceHead (q1\<lparr>quStore := s'\<rparr>)"] h
    by (simp add: popFront_def onStore_def appendLogOps_def advanceHead_def)
qed

lemma enqueue_calm:
  assumes c: "calm cfg xs q" and pol: "fullQueuePolicy c = RejectNewest"
    and sz: "length p \<le> recordSizeBytes c" and t: "nextTail xs (quStore q) \<noteq> 0xffffffff"
    and a: "posix_queue.allowed cfg c (CallEnqueue p) q"
  shows "\<exists>q'. enqueue (appendLogOps posixFs cfg) c (DataSpan p) q = Some (success, q')
    \<and> logHolds posixView posixReadable cfg (xs @ [(nextTail xs (quStore q), p)]) (quStore q')"
proof -
  let ?S = "appendLogOps posixFs cfg" and ?t = "nextTail xs (quStore q)"
  obtain q0 w where a0: "acquireLock ?S c q = Some (success, q0)" "holding cfg xs q0"
      "quStore q0 = (quStore q)\<lparr>world := w\<rparr>" using acquire_calm [OF c] by blast
  have s: "storeHolds cfg (posixView (world (quStore q0))) xs (quStore q0)" "contiguous xs"
    "posixHealthy (world (quStore q0))" "configOk cfg"
    "withinLimits (posixView (world (quStore q0))) (quStore q0)"
    using a0(2) by (auto simp: holding_def quiet_def logHolds_def)
  have f: "recordSizeError cfg (length p) = None" "admits posixFs cfg (length p) (quStore q0)"
    using a a0(1) by (simp_all add: posix_queue.allowed_def logFits_def)
  have nt: "nextTail xs (quStore q0) = ?t" using a0(3) by (simp add: nextTail_def)
  obtain ix where ix: "st_readIndex ?S (quStore q0) = Some ((success, ix), quStore q0)" "ixTail ix = ?t"
    using readIndex_holds [OF s(1), of posixFs] nt by (auto simp: appendLogOps_def)
  have ld: "loadLatestIndex ?S c q0 = Some (success, q0\<lparr>quIndex := ix\<rparr>)"
    using ix(1) by (simp add: loadLatestIndex_def onStore_def)
  have nx: "\<forall>x \<in> set xs. fst x < ?t" by (rule contiguous_next [OF s(2)]) (simp add: nextTail_def)
  obtain s' where e: "commitEnqueue posixFs cfg ?t p (quStore q0) = Some (success, s')"
      "posixHealthy (world s')" "storeHolds cfg (posixView (world s')) (xs @ [(?t, p)]) s'"
    using posix.commitEnqueue_healthy [OF s(1,3,4,5) f(1) t nx f(2)] by blast
  have h: "logHolds posixView posixReadable cfg (xs @ [(?t, p)]) s'"
    using e(2,3) contiguous_snoc [OF s(2), of ?t p] t by (simp add: logHolds_def nextTail_def)
  have r: "reclaimBeforeEviction ?S c p q1 = Some (success, q1)" for q1
    by (simp add: reclaimBeforeEviction_def pol split: option.splits)
  have cm: "st_commitEnqueue ?S ?t p (quStore q0) = Some (success, s')"
    using e(1) by (simp add: appendLogOps_def)
  define q2 where "q2 = advanceTail (q0\<lparr>quIndex := ix, quStore := s'\<rparr>)"
  have "enqueue ?S c (DataSpan p) q = Some (success, releaseLock ?S q2)"
    using a0(1) ld ix(2) r sz cm
    by (simp add: enqueue_def withLock_def enqueueLocked_def onStore_def
        commitEvicting.simps [of ?S c] q2_def)
  then show ?thesis
    using posix_queue.release_holds [of cfg "xs @ [(?t, p)]" q2] h by (simp add: q2_def advanceTail_def)
qed

lemma statsResult_calm:
  assumes c: "calm cfg xs q"
  shows "\<exists>r q'. statsResult (appendLogOps posixFs cfg) c q = Some (r, q') \<and> srStatus r = success
    \<and> unat (statCount (srStats r)) = length xs \<and> calm cfg xs q'"
proof -
  let ?S = "appendLogOps posixFs cfg"
  obtain q0 where a: "acquireLock ?S c q = Some (success, q0)" "holding cfg xs q0"
    using acquire_calm [OF c] by blast
  have "logHolds posixView posixReadable cfg xs (quStore q0)"
    using a(2) by (simp add: holding_def quiet_def)
  then obtain ix where ix: "loadLatestIndex ?S c q0 = Some (success, q0\<lparr>quIndex := ix\<rparr>)"
    "unat (ixCount ix) = length xs" by (rule posix_queue.load_holds) blast
  have "holding cfg xs (q0\<lparr>quIndex := ix\<rparr>)" using a(2) by (simp add: holding_def)
  from release_holding [OF this] show ?thesis
    using a(1) ix by (simp add: statsResult_def withLock_def)
qed

text \<open>Without a byte budget every record of an allowed size may be enqueued.\<close>

lemma allowed_calm:
  assumes c: "calm cfg xs q" and sz: "recordSizeError cfg (length p) = None"
    and room: "\<And>s. admits posixFs cfg (length p) s"
  shows "posix_queue.allowed cfg c (CallEnqueue p) q"
  using acquire_calm [OF c, of c] sz room
  by (auto simp: posix_queue.allowed_def logFits_def logUsable_def holding_def quiet_def withinLimits_def)

section \<open>A calm sample\<close>

text \<open>The sample store in a directory without a lock file.\<close>

definition unlocked :: "posix_world store \<Rightarrow> posix_world store" where
  "unlocked s = s\<lparr>world := (world s)\<lparr>pwLockMounted := True,
     pwFiles := filter (\<lambda>(name, d). name \<noteq> kLockFileName) (pwFiles (world s))\<rparr>\<rparr>"

definition sampleOwner :: bytes where
  "sampleOwner = makeLockContents (printNat 42) [] (chars ''1'') (chars ''7'')"

definition calmQueue :: "posix_world store queue" where
  "calmQueue = newQueue sampleOwner (unlocked oneRecord)"

lemma map_of_filter_ne: "map_of (filter (\<lambda>(n, d). n \<noteq> k) xs) = (map_of xs)(k := None)"
  by (induction xs) auto

lemma unlocked_view:
  "posixView (world (unlocked s)) = (posixView (world s))(kLockFileName := None)"
  by (simp add: unlocked_def posixView_def map_of_filter_ne del: map_of_files)

lemma unlocked_quiet:
  assumes "storeHolds cfg (posixView (world s)) xs s" and "contiguous xs" and "configOk cfg"
    and "posixHealthy (world s)" and "withinLimits (posixView (world s)) s"
  shows "quiet cfg xs None (unlocked s)"
proof -
  define w where "w = world (unlocked s)"
  have u: "unlocked s = s\<lparr>world := w\<rparr>" by (simp add: w_def unlocked_def)
  have v: "posixView w = (posixView (world s))(kLockFileName := None)"
    unfolding w_def by (rule unlocked_view)
  have sm: "sameLog (posixView (world s)) (posixView w)"
    using v by (intro sameLog_lock) simp
  have w: "posixHealthy w" "pwLockMounted w"
    using assms(4) by (simp_all add: w_def unlocked_def posixHealthy_def)
  have "withinLimits (posixView w) (s\<lparr>world := w\<rparr>)"
    using assms(5) sameLog_countersOk [OF sm, where s = s and w = w] sameLog_slotFree [OF sm]
    by (simp add: withinLimits_def rangeRoom_def)
  then show ?thesis
    using w v sameLog_storeHolds [OF sm assms(1), of w] assms(2,3)
    by (simp add: quiet_def logHolds_def u)
qed

lemma calmQueue_calm: "calm sampleConfig sampleQueue calmQueue"
  using unlocked_quiet [OF oneRecord_ok(3) _ sampleConfig_ok(1) oneRecord_ok(2) oneRecord_limits]
  by (simp add: calm_def calmQueue_def newQueue_def contiguous_def)

section \<open>Properties of the lock\<close>


text \<open>A second queue object on the sample directory, whose lock process 42 holds.\<close>

definition busyQueue :: "posix_world store queue" where
  "busyQueue = newQueue (chars ''other'')
     (oneRecord\<lparr>world := putFile kLockFileName sampleOwner (world oneRecord)\<lparr>pwKill := (\<lambda>_. KillOk)\<rparr>\<rparr>)"


text \<open>C22. On a directory where no error is pending, the limits of the format are not reached and the
  lock is free, the queue serves: an enqueue of a record within its limits succeeds and appends it,
  and when the queue is not empty a peek succeeds and returns the front record, a pop succeeds and
  removes it.\<close>

theorem queue_serves:
  assumes "calm cfg xs q" and "fullQueuePolicy c = RejectNewest"
    and "length p \<le> recordSizeBytes c" and "nextTail xs (quStore q) \<noteq> 0xffffffff"
    and "posix_queue.allowed cfg c (CallEnqueue p) q"
  shows "(\<exists>q'. enqueue (appendLogOps posixFs cfg) c (DataSpan p) q = Some (success, q')
           \<and> logHolds posixView posixReadable cfg (xs @ [(nextTail xs (quStore q), p)]) (quStore q'))
    \<and> (xs \<noteq> [] \<longrightarrow>
         (\<exists>q'. peek (appendLogOps posixFs cfg) c q = Some ((success, snd (hd xs)), q') \<and> calm cfg xs q')
         \<and> (\<exists>q'. pop (appendLogOps posixFs cfg) c q = Some (success, q')
              \<and> logHolds posixView posixReadable cfg (tl xs) (quStore q')))"
  using enqueue_calm [OF assms] peek_calm [OF assms(1)] pop_calm [OF assms(1)] by blast

theorem queue_serves_witness:
  "(\<exists>q'. enqueue (appendLogOps posixFs sampleConfig) sampleQueueConfig (DataSpan [3]) calmQueue = Some (success, q')
      \<and> logHolds posixView posixReadable sampleConfig [(0, [1, 2]), (1, [3])] (quStore q'))
   \<and> (\<exists>q'. peek (appendLogOps posixFs sampleConfig) sampleQueueConfig calmQueue = Some ((success, [1, 2]), q'))
   \<and> (\<exists>q'. pop (appendLogOps posixFs sampleConfig) sampleQueueConfig calmQueue = Some (success, q')
         \<and> logHolds posixView posixReadable sampleConfig [] (quStore q'))"
proof -
  have t: "nextTail sampleQueue (quStore calmQueue) = 1" by (simp add: nextTail_def)
  have a: "posix_queue.allowed sampleConfig sampleQueueConfig (CallEnqueue [3]) calmQueue"
    by (rule allowed_calm [OF calmQueue_calm]) (simp_all add: sampleConfig_ok)
  have "length [3 :: u8] \<le> recordSizeBytes sampleQueueConfig" "fullQueuePolicy sampleQueueConfig = RejectNewest"
    by (simp_all add: sampleQueueConfig_def default_queue_config_def)
  from queue_serves [OF calmQueue_calm this(2,1) _ a] show ?thesis by (auto simp: t)
qed

end
