(* ===== verification/Outbox_Theorems.thy ===== *)
theory Outbox_Theorems
  imports Outbox_Correct Queue_Progress
begin

text \<open>
  What the outbox promises its user, on the append log in a POSIX directory: payloads leave in the
  order they were submitted, none is lost before the send callback has disposed of it, and the
  number of send attempts per second is bounded.
\<close>

section \<open>A sample outbox\<close>

text \<open>The formatted sample store after one record was enqueued.\<close>

definition storeWith :: "bytes \<Rightarrow> posix_world store" where
  "storeWith rec = snd (the (commitEnqueue posixFs sampleConfig 0 rec freshStore))"

lemma storeWith_ok:
  assumes "length rec \<le> 1000"
  shows "storeHolds sampleConfig (posixView (world (storeWith rec))) [(0, rec)] (storeWith rec)"
    "posixHealthy (world (storeWith rec))" "withinLimits (posixView (world (storeWith rec))) (storeWith rec)"
proof -
  have sz: "recordSizeError sampleConfig (length rec) = None"
    using assms by (simp add: sampleConfig_ok)
  have "\<exists>s'. commitEnqueue posixFs sampleConfig 0 rec freshStore = Some (success, s')
      \<and> posixHealthy (world s') \<and> storeHolds sampleConfig (posixView (world s')) ([] @ [(0, rec)]) s'"
    using freshStore_ok sampleConfig_ok sz by (intro posix.commitEnqueue_healthy) simp_all
  then have e: "commitEnqueue posixFs sampleConfig 0 rec freshStore = Some (success, storeWith rec)"
    "posixHealthy (world (storeWith rec))"
    "storeHolds sampleConfig (posixView (world (storeWith rec))) [(0, rec)] (storeWith rec)"
    by (auto simp: storeWith_def)
  then show "storeHolds sampleConfig (posixView (world (storeWith rec))) [(0, rec)] (storeWith rec)"
    "posixHealthy (world (storeWith rec))" by simp_all
  show "withinLimits (posixView (world (storeWith rec))) (storeWith rec)"
    by (rule posix.first_enqueue_limits [OF posix.first_enqueue_manifest [OF freshStore_ok(2,1)
          sampleConfig_ok(1) freshStore_ok(4,5) sz _ sampleConfig_ok(3) e(1)]]) simp_all
qed

definition queueWith :: "bytes \<Rightarrow> posix_world store queue" where
  "queueWith rec = newQueue sampleOwner (unlocked (storeWith rec))"

lemma queueWith_calm: "length rec \<le> 1000 \<Longrightarrow> calm sampleConfig [(0, rec)] (queueWith rec)"
  using unlocked_quiet [OF storeWith_ok(1) _ sampleConfig_ok(1) storeWith_ok(2,3)]
  by (simp add: calm_def queueWith_def newQueue_def contiguous_def)

lemma calm_usable:
  assumes "calm cfg xs q"
  shows "logHolds posixView posixReadable cfg xs (quStore q)" "logUsable posixView cfg (quStore q)"
  using assms by (simp_all add: calm_def quiet_def logUsable_def withinLimits_def)

definition sampleEnvelope :: bytes where
  "sampleEnvelope = the (encodeEnvelope 0 [7])"

abbreviation sampleEnvelopes :: abs_queue where "sampleEnvelopes \<equiv> [(0, sampleEnvelope)]"

lemma sampleEnvelope_ok:
  "encodeEnvelope 0 [7] = Some sampleEnvelope" "length sampleEnvelope = 15"
  "decodeEnvelope sampleEnvelope = Some \<lparr>envAttempts = 0, envPayload = [7]\<rparr>"
proof -
  show e: "encodeEnvelope 0 [7] = Some sampleEnvelope"
    by (simp add: sampleEnvelope_def encodeEnvelope_body)
  then have "sampleEnvelope = envelopeBody 0 [7] @ le4 (envCrc32 (envelopeBody 0 [7]))"
    by (simp add: encodeEnvelope_body)
  from arg_cong [OF this, of length] show "length sampleEnvelope = 15" by simp
  from decodeEnvelope_encode [OF e]
  show "decodeEnvelope sampleEnvelope = Some \<lparr>envAttempts = 0, envPayload = [7]\<rparr>" .
qed

text \<open>A send callback that accepts everything, and a clock that stands still.\<close>

definition sampleCallbacks :: "unit callbacks" where
  "sampleCallbacks = \<lparr>cbSend = Some (\<lambda>payload n e. (\<lparr>srDecision = DecideSent, srRetryAfterMs = 0\<rparr>, e)),
     cbRawSend = None, cbClock = Some (\<lambda>e. (5000, e)), cbRand = None\<rparr>"

definition sampleOutbox :: "(posix_world store, unit \<times> send_log) outbox" where
  "sampleOutbox = newOutbox (queueWith sampleEnvelope) ((), [])"

lemma sampleOutbox_ok:
  "calm sampleConfig sampleEnvelopes (obQueue sampleOutbox)"
  "logHolds posixView posixReadable sampleConfig sampleEnvelopes (quStore (obQueue sampleOutbox))"
  "logUsable posixView sampleConfig (quStore (obQueue sampleOutbox))"
  "sendLog sampleOutbox = []" "allEnvelopes sampleEnvelopes"
  "fullQueuePolicy sampleQueueConfig = RejectNewest"
proof -
  show c: "calm sampleConfig sampleEnvelopes (obQueue sampleOutbox)"
    using queueWith_calm [of sampleEnvelope] by (simp add: sampleOutbox_def newOutbox_def sampleEnvelope_ok)
  then show "logHolds posixView posixReadable sampleConfig sampleEnvelopes (quStore (obQueue sampleOutbox))"
    "logUsable posixView sampleConfig (quStore (obQueue sampleOutbox))"
    by (rule calm_usable)+
qed (simp_all add: sampleOutbox_def newOutbox_def sendLog_def allEnvelopes_def sampleEnvelope_ok
    sampleQueueConfig_def default_queue_config_def)

section \<open>A drain delivers\<close>

lemma dispatch_env:
  "obEnv ob' = obEnv ob \<Longrightarrow> fst (dispatchSend cb p n ob') = fst (dispatchSend cb p n ob)"
  by (simp add: dispatchSend_def onEnv_def split: option.splits prod.splits)

lemma obEnv_frame [simp]:
  "obEnv (obEmit oc ev ob) = obEnv ob" "obEnv (obRequestEvent oc k sev st op a m n ob) = obEnv ob"
  "obEnv (recordDrainAttempt now ob) = obEnv ob"
  by (simp_all add: obEmit_def obRequestEvent_def recordDrainAttempt_def Let_def)

lemma frontAttempts_frame [simp]:
  "frontAttempts (obEmit oc ev ob) = frontAttempts ob"
  "frontAttempts (obRequestEvent oc k sev st op a m n ob) = frontAttempts ob"
  "frontAttempts (recordDrainAttempt now ob) = frontAttempts ob"
  by (simp_all add: obEmit_def obRequestEvent_def recordDrainAttempt_def Let_def)

lemma drain_calm:
  assumes c: "calm cfg xs (obQueue ob)" and ne: "xs \<noteq> []"
    and d: "decodeEnvelope (snd (hd xs)) = Some d" and cb: "configured cb"
    and clk: "readClock cb ob = (now, ob1)"
    and due: "\<not> frontIsCoolingDown now ob" "drainRateAllows oc now ob"
    and sent: "srDecision (fst (dispatchSend cb (envPayload d) (frontAttempts ob) ob1)) = DecideSent"
  shows "\<exists>r ob'. drain (appendLogOps posixFs cfg) c cb oc ob = Some (r, ob') \<and> drSent r = 1
    \<and> \<not> drQueueError r \<and> drRemovedQueuedBytes r = word_of_nat (length (snd (hd xs)))
    \<and> logHolds posixView posixReadable cfg (tl xs) (quStore (obQueue ob'))"
proof -
  let ?S = "appendLogOps posixFs cfg"
  have k: "obQueue ob1 = obQueue ob" "frontIsCoolingDown now ob1 = frontIsCoolingDown now ob"
    "drainRateAllows oc now ob1 = drainRateAllows oc now ob" "frontAttempts ob1 = frontAttempts ob"
    using clk by (auto simp: readClock_def onEnv_def frontIsCoolingDown_def drainRateAllows_def
        split: option.splits prod.splits)
  obtain q where p: "peek ?S c (obQueue ob) = Some ((success, snd (hd xs)), q)" "calm cfg xs q"
    using peek_calm [OF c ne] by blast
  obtain q' where pp: "pop ?S c q = Some (success, q')"
      "logHolds posixView posixReadable cfg (tl xs) (quStore q')"
    using pop_calm [OF p(2) ne] by blast
  define ob2 where "ob2 = ob1\<lparr>obQueue := q\<rparr>"
  have o2: "onQueue (peek ?S c) ob1 = Some ((success, snd (hd xs)), ob2)"
    using p(1) k(1) by (simp add: fromQueue ob2_def)
  define ob3 where "ob3 = obRequestEvent oc Diagnostic Debug success ''drain_send_start''
      (frontAttempts (recordDrainAttempt now ob2)) 0 0 (recordDrainAttempt now ob2)"
  obtain sr ob4 where dsp: "dispatchSend cb (envPayload d) (frontAttempts ob3) ob3 = (sr, ob4)" by fastforce
  have "fst (dispatchSend cb (envPayload d) (frontAttempts ob3) ob3)
      = fst (dispatchSend cb (envPayload d) (frontAttempts ob) ob1)"
    using k(4) dispatch_env [of ob3 ob1 cb "envPayload d"] by (simp add: ob3_def ob2_def)
  then have sr: "srDecision sr = DecideSent" using sent dsp by simp
  have q4: "obQueue ob4 = q" using env_queue(1) [OF dsp] by (simp add: ob3_def ob2_def)
  obtain ob5 where rm: "removeDrained ?S c oc True (snd (hd xs)) (empty_drain\<lparr>drAttempts := 1\<rparr>) ob4
      = Some (empty_drain\<lparr>drAttempts := 1, drSent := 1,
                drRemovedQueuedBytes := word_of_nat (length (snd (hd xs)))\<rparr>, ob5)"
    "obQueue ob5 = q'"
    using pp(1) q4 by (simp add: removeDrained_def fromQueue Let_def empty_drain_def)
  have "frontIsCoolingDown now ob2 = frontIsCoolingDown now ob1"
    "drainRateAllows oc now ob2 = drainRateAllows oc now ob1"
    by (simp_all add: ob2_def frontIsCoolingDown_def drainRateAllows_def)
  then have k2: "\<not> frontIsCoolingDown now ob2" "drainRateAllows oc now ob2"
    using k due by simp_all
  have ds: "drainSend ?S c cb oc now (snd (hd xs)) (envPayload d) ob2
      = removeDrained ?S c oc True (snd (hd xs)) (empty_drain\<lparr>drAttempts := 1\<rparr>) ob4"
    unfolding drainSend_def Let_def ob3_def [symmetric] dsp prod.case sr by simp
  have "drain ?S c cb oc ob = Some (empty_drain\<lparr>drAttempts := 1, drSent := 1,
                drRemovedQueuedBytes := word_of_nat (length (snd (hd xs)))\<rparr>, ob5)"
    using cb clk o2 d k2 ds rm(1) by (simp add: drain_def drainOne_def drainFront_def)
  then show ?thesis using rm(2) pp(2) by (simp add: empty_drain_def)
qed

section \<open>Properties\<close>



text \<open>C8. One drain, whatever goes wrong in it: it returns, it calls the send callback at most once,
  with the payload of the front record, and unless it reports a queue error the front record has
  left the queue only when the callback disposed of that payload, or when the record is not an
  envelope and the limit on corrupt drops is not reached; otherwise the queue is unchanged.\<close>

theorem drain_keeps_until_disposed:
  assumes "logHolds posixView posixReadable cfg xs (quStore (obQueue ob))"
    and "logUsable posixView cfg (quStore (obQueue ob))"
  shows "\<exists>r ob' log. drain (appendLogOps posixFs cfg) c (recording cb) oc ob = Some (r, ob')
    \<and> sendLog ob' = sendLog ob @ log
    \<and> (\<not> drQueueError r \<longrightarrow> (\<exists>ys. drainEffect oc ob xs r log ys
         \<and> logHolds posixView posixReadable cfg ys (quStore (obQueue ob'))))"
  using posix_queue.drain_holds [OF assms, of oc c cb] by (auto simp: drained_def split: option.splits)

theorem drain_keeps_until_disposed_witness:
  "\<exists>r ob' log. drain (appendLogOps posixFs sampleConfig) sampleQueueConfig (recording sampleCallbacks)
      default_outbox_config sampleOutbox = Some (r, ob')
    \<and> sendLog ob' = sendLog sampleOutbox @ log
    \<and> (\<not> drQueueError r \<longrightarrow> (\<exists>ys. drainEffect default_outbox_config sampleOutbox sampleEnvelopes r log ys
         \<and> logHolds posixView posixReadable sampleConfig ys (quStore (obQueue ob'))))"
  by (rule drain_keeps_until_disposed [OF sampleOutbox_ok(2,3)])

text \<open>C23. A drain makes progress: on a directory where no error is pending and the lock is free, when
  the front record is due and the rate allows an attempt, and the callback accepts its payload, the
  drain reports one payload sent and the record's bytes removed, and the record is gone.\<close>

theorem drain_delivers:
  assumes "calm cfg xs (obQueue ob)" and "xs \<noteq> []"
    and "decodeEnvelope (snd (hd xs)) = Some d" and "configured cb"
    and "readClock cb ob = (now, ob1)"
    and "\<not> frontIsCoolingDown now ob" and "drainRateAllows oc now ob"
    and "srDecision (fst (dispatchSend cb (envPayload d) (frontAttempts ob) ob1)) = DecideSent"
  shows "\<exists>r ob'. drain (appendLogOps posixFs cfg) c cb oc ob = Some (r, ob') \<and> drSent r = 1
    \<and> \<not> drQueueError r \<and> drRemovedQueuedBytes r = word_of_nat (length (snd (hd xs)))
    \<and> logHolds posixView posixReadable cfg (tl xs) (quStore (obQueue ob'))"
  by (rule drain_calm [OF assms])

theorem drain_delivers_witness:
  "\<exists>r ob'. drain (appendLogOps posixFs sampleConfig) sampleQueueConfig (recording sampleCallbacks)
      default_outbox_config sampleOutbox = Some (r, ob') \<and> drSent r = 1 \<and> drRemovedQueuedBytes r = 15
    \<and> logHolds posixView posixReadable sampleConfig [] (quStore (obQueue ob'))"
  using drain_delivers [OF sampleOutbox_ok(1), of _ "recording sampleCallbacks" 5000 sampleOutbox
      default_outbox_config sampleQueueConfig]
  by (auto simp: sampleEnvelope_ok configured_def sampleCallbacks_def recording_def readClock_def
      onEnv_def passLog_def logSend_def dispatchSend_def frontIsCoolingDown_def drainRateAllows_def
      sampleOutbox_def newOutbox_def)



text \<open>C25. The rate of send attempts is bounded: in any run of drains and submits of a new outbox whose
  clock does not go back, no interval of a second contains more than twice
  \<open>maxDrainAttemptsPerSecond\<close> attempts of drains to send, for every store and every callback.  (The
  limit holds for the fixed windows the code counts in; an interval meets at most two of them.)\<close>

theorem drain_rate_limited:
  assumes "outboxRun S c cb oc (newOutbox q e) tr ob" and "monotone tr"
  shows "within a (attemptTimes tr) \<le> 2 * unat (maxDrainAttemptsPerSecond oc)"
  using run_window [OF assms] by blast

theorem drain_rate_limited_witness:
  "\<exists>r ob. drain (appendLogOps posixFs sampleConfig) sampleQueueConfig (recording sampleCallbacks)
       default_outbox_config sampleOutbox = Some (r, ob)
     \<and> within 4900 (attemptTimes [(5000, r)]) \<le> 10"
proof -
  obtain r ob where d: "drain (appendLogOps posixFs sampleConfig) sampleQueueConfig
      (recording sampleCallbacks) default_outbox_config sampleOutbox = Some (r, ob)"
    using posix_queue.drain_holds [OF sampleOutbox_ok(2,3), of default_outbox_config sampleQueueConfig
        sampleCallbacks] by (auto simp: drained_def split: option.splits)
  have "outboxRun (appendLogOps posixFs sampleConfig) sampleQueueConfig (recording sampleCallbacks)
      default_outbox_config sampleOutbox ([] @ [(fst (readClock (recording sampleCallbacks) sampleOutbox), r)]) ob"
    using d by (rule run_drain [OF run_start])
  then have "outboxRun (appendLogOps posixFs sampleConfig) sampleQueueConfig (recording sampleCallbacks)
      default_outbox_config (newOutbox (queueWith sampleEnvelope) ((), [])) [(5000, r)] ob"
    by (simp add: sampleOutbox_def readClock_def recording_def sampleCallbacks_def onEnv_def passLog_def
        newOutbox_def)
  from drain_rate_limited [OF this, of 4900] d show ?thesis
    by (simp add: monotone_def maxDrainAttemptsPerSecond_def default_outbox_config_def)
qed

end
