(* ===== verification/Http_Theorems.thy ===== *)
theory Http_Theorems
  imports Http_Outbox Outbox_Theorems
begin

text \<open>
  What the HTTP outbox adds to the outbox: requests come out of the store as they went in and are
  posted to the right address, answers are classified, requests that cannot be understood never
  reach the network, and an outage of the network loses nothing.
\<close>

section \<open>The decisions in a log\<close>

text \<open>Every decision a drain logs is one the send callback returned for that payload.\<close>

lemma dispatch_decision:
  assumes "cbSend cb = Some f" and "cbRawSend cb = None"
    and "dispatchSend (recording cb) p n ob = (r, ob')"
  shows "sendLog ob' = sendLog ob @ [(p, srDecision r)] \<and> (\<exists>e. srDecision r = srDecision (fst (f p n e)))"
proof -
  obtain r' e' where f: "f p n (fst (obEnv ob)) = (r', e')" by fastforce
  then have "r = r'" "sendLog ob' = sendLog ob @ [(p, srDecision r')]"
    using assms by (auto simp: dispatchSend_def recording_def onEnv_def logSend_def sendLog_def)
  then show ?thesis using f by (metis fst_conv)
qed

lemma drainSend_log:
  assumes cb: "cbSend cb = Some f" "cbRawSend cb = None"
    and run: "drainSend S c (recording cb) oc now rc p ob = Some (r, ob')"
  shows "\<exists>d n e. sendLog ob' = sendLog ob @ [(p, d)] \<and> d = srDecision (fst (f p n e))"
proof -
  define ob1 where "ob1 = obRequestEvent oc Diagnostic Debug success ''drain_send_start''
      (frontAttempts (recordDrainAttempt now ob)) 0 0 (recordDrainAttempt now ob)"
  obtain sr ob2 where dsp: "dispatchSend (recording cb) p (frontAttempts ob1) ob1 = (sr, ob2)" by fastforce
  have l: "sendLog ob2 = sendLog ob @ [(p, srDecision sr)]"
      "\<exists>e. srDecision sr = srDecision (fst (f p (frontAttempts ob1) e))"
    using dispatch_decision [OF cb dsp] by (auto simp: ob1_def)
  have "sendLog ob' = sendLog ob2"
    using run dsp unfolding drainSend_def Let_def ob1_def [symmetric]
    by (auto split: send_decision.splits prod.splits if_splits dest!: removeDrained_log retryDelay_log)
  then show ?thesis using l by metis
qed

lemma drain_log:
  assumes cb: "cbSend cb = Some f" "cbRawSend cb = None"
    and run: "drain S c (recording cb) oc ob = Some (r, ob')"
  shows "\<exists>log. sendLog ob' = sendLog ob @ log \<and> (\<forall>(p, d)\<in>set log. \<exists>n e. d = srDecision (fst (f p n e)))"
proof (cases "configured cb")
  case True
  obtain now ob1 where clk: "readClock (recording cb) ob = (now, ob1)" by fastforce
  obtain st rc ob2 where p: "onQueue (peek S c) ob1 = Some ((st, rc), ob2)"
    using run True clk by (auto simp: drain_def drainOne_def bind_eq_Some_conv)
  have l: "sendLog ob2 = sendLog ob" using readClock_log [OF clk] onQueue_log [OF p] by simp
  consider "sendLog ob' = sendLog ob2"
    | payload where "drainSend S c (recording cb) oc now rc payload ob2 = Some (r, ob')"
    using run True clk p
    by (auto simp: drain_def drainOne_def drainFront_def split: if_splits option.splits dest: dropCorrupt_log)
  then show ?thesis
  proof cases
    case 1
    then show ?thesis using l by auto
  next
    case 2
    obtain d n e where x: "sendLog ob' = sendLog ob2 @ [(payload, d)]" "d = srDecision (fst (f payload n e))"
      using drainSend_log [OF cb 2] by blast
    have "\<exists>n e. d = srDecision (fst (f payload n e))" using x(2) by blast
    then show ?thesis using l x(1) by (intro exI [of _ "[(payload, d)]"]) simp
  qed
next
  case False
  then show ?thesis using run by (auto simp: drain_def drainOne_def Let_def)
qed

section \<open>Addresses\<close>

text \<open>A base address and a path, neither empty, are joined by exactly one slash: a slash at the end
  of the base or at the start of the path is not doubled, and one is put in when there is none.\<close>

theorem url_one_slash:
  assumes "hcBaseUrl hc = Some base" and "base \<noteq> []" and "path \<noteq> []"
  shows "buildUrl hc path =
    (if last base = slash then butlast base else base) @ [slash] @ (if hd path = slash then tl path else path)"
proof -
  obtain b0 b where b: "base = b0 @ [b]" using assms(2) by (cases base rule: rev_cases) auto
  obtain p ps where p: "path = p # ps" using assms(3) by (cases path) auto
  show ?thesis using assms by (simp add: buildUrl_def b p)
qed

theorem url_one_slash_witness:
  "buildUrl (default_http_config\<lparr>hcBaseUrl := Some [104, 47]\<rparr>) [47, 120] = [104, 47, 120]"
  using url_one_slash [of "default_http_config\<lparr>hcBaseUrl := Some [104, 47]\<rparr>" "[104, 47]" "[47, 120]"]
  by (simp add: slash_def)

section \<open>Requests\<close>

lemma postRequest_plain:
  assumes "hcClassify hc = None" "hcOnResponse hc = None" "hcOnDrop hc = None"
  shows "let (response, u) = tr (cString (buildUrl hc (reqPath request))) (hcHeaders hc) body (heUser env);
             (r, env') = postRequest tr hc request body n env
         in heUser env' = u \<and> srDecision r = defaultClassifyResponse response
          \<and> srRetryAfterMs r = respRetryAfterMs response"
  using assms
  by (simp add: postRequest_def onUser_def httpDiagnostic_def notifyResponse_def notifyDrop_def
      classifyResponse_def Let_def split: prod.splits)

text \<open>C28. A request that was encoded and stored, by this version or by the older one, comes out as it
  went in: the transport is called once, with the address of its path, the configured headers and
  its body (the expanded one for a compact record), and the outcome is what the classification
  makes of the answer.\<close>

theorem stored_request_posted:
  assumes "encodeRequestEnvelope request = Some e
      \<or> encodableRequest request \<and> reqEncoding request = EncodingRaw
          \<and> e = requestBytesV1 (reqPath request) (reqBody request)"
    and "reqEncoding request = EncodingCompact \<Longrightarrow> hcExpandBody hc = Some (\<lambda>path body u. ((True, expand path body), u))"
    and "hcClassify hc = None" and "hcOnResponse hc = None" and "hcOnDrop hc = None"
  shows "let body = (if reqEncoding request = EncodingCompact
                     then expand (cString (reqPath request)) (reqBody request) else reqBody request);
             (response, u) = tr (cString (buildUrl hc (reqPath request))) (hcHeaders hc) body (heUser env);
             (r, env') = sendStoredRequest tr hc e n env
         in heUser env' = u \<and> srDecision r = defaultClassifyResponse response
          \<and> srRetryAfterMs r = respRetryAfterMs response"
proof -
  have m: "reqMethod request = MethodPost"
    using assms(1) by (auto simp: encodeRequestEnvelope_bytes encodableRequest_def split: if_splits)
  have d: "decodeRequestEnvelope e = Some request"
    using assms(1)
  proof
    assume a: "encodableRequest request \<and> reqEncoding request = EncodingRaw
          \<and> e = requestBytesV1 (reqPath request) (reqBody request)"
    then have "length (reqPath request) \<le> 0xffff" "length (reqBody request) \<le> 0xffffffff"
      by (simp_all add: encodableRequest_def)
    from decodeRequestEnvelope_V1 [OF this] a m show ?thesis by simp
  qed (rule decodeRequestEnvelope_encode)
  define body where "body = (if reqEncoding request = EncodingCompact
                     then expand (cString (reqPath request)) (reqBody request) else reqBody request)"
  have x: "expandHttpBody hc request n env = (Some body, env)"
    using assms(2) by (simp add: expandHttpBody_def body_def onUser_def)
  have "sendStoredRequest tr hc e n env = postRequest tr hc request body n env"
    by (simp add: sendStoredRequest_def d m x)
  then show ?thesis
    using postRequest_plain [OF assms(3-5), of tr request body env n]
    by (simp add: body_def [symmetric])
qed

text \<open>A transport that answers 200 and remembers what it was asked.\<close>

definition echoTransport :: "(bytes \<times> bytes) list transport" where
  "echoTransport url hs body u =
     (\<lparr>respStatus = 200, respError = TransportNone, respBody = [], respRetryAfterMs = 0\<rparr>, u @ [(url, body)])"

theorem stored_request_posted_witness:
  "\<exists>e. encodeRequestEnvelope (default_request\<lparr>reqPath := [47, 97], reqBody := [1, 2]\<rparr>) = Some e
    \<and> (let (r, env) = sendStoredRequest echoTransport
             (default_http_config\<lparr>hcBaseUrl := Some [104]\<rparr>) e 0 \<lparr>heUser = [], heEmitted = []\<rparr>
       in heUser env = [([104, 47, 97], [1, 2])] \<and> srDecision r = DecideSent)"
proof -
  let ?r = "default_request\<lparr>reqPath := [47, 97], reqBody := [1, 2]\<rparr>"
  let ?hc = "default_http_config\<lparr>hcBaseUrl := Some [104]\<rparr> :: (bytes \<times> bytes) list http_config"
  obtain e where e: "encodeRequestEnvelope ?r = Some e"
    by (simp add: encodeRequestEnvelope_bytes encodableRequest_def default_request_def encodingIsSupported_def)
  have "reqEncoding ?r \<noteq> EncodingCompact"
    by (simp add: default_request_def EncodingRaw_def EncodingCompact_def)
  then have "let (response, u) = echoTransport (cString (buildUrl ?hc [47, 97])) [] [1, 2] [];
             (r, env') = sendStoredRequest echoTransport ?hc e 0 \<lparr>heUser = [], heEmitted = []\<rparr>
         in heUser env' = u \<and> srDecision r = defaultClassifyResponse response"
    using stored_request_posted [of ?r e ?hc undefined echoTransport "\<lparr>heUser = [], heEmitted = []\<rparr>" 0] e
    by (auto simp: default_http_config_def default_request_def Let_def split: prod.splits)
  then show ?thesis using e
    by (auto simp: echoTransport_def buildUrl_def default_http_config_def slash_def cString_def
        defaultClassifyResponse_def isSuccessfulStatus_def Let_def split: prod.splits)
qed

text \<open>A stored payload that is not a request, or a compact record that cannot be expanded, never
  reaches the network: the send callback decides to drop it and behaves the same whatever the
  transport is.\<close>

theorem bad_request_not_posted:
  assumes "decodeRequestEnvelope payload = None
    \<or> (\<exists>r. decodeRequestEnvelope payload = Some r \<and> reqEncoding r = EncodingCompact \<and> hcExpandBody hc = None)
    \<or> (\<exists>r f. decodeRequestEnvelope payload = Some r \<and> reqEncoding r = EncodingCompact
         \<and> hcExpandBody hc = Some f \<and> \<not> fst (fst (f (cString (reqPath r)) (reqBody r) (heUser env))))"
  shows "srDecision (fst (sendStoredRequest tr hc payload n env)) = DecideDrop
    \<and> sendStoredRequest tr hc payload n env = sendStoredRequest tr' hc payload n env"
  using assms
  by (auto simp: sendStoredRequest_def expandHttpBody_def dropped_def onUser_def Let_def
      split: prod.splits)

theorem bad_request_not_posted_witness:
  "srDecision (fst (sendStoredRequest echoTransport default_http_config [1, 2, 3] 0 \<lparr>heUser = [], heEmitted = []\<rparr>))
     = DecideDrop"
proof -
  have "decodeRequestEnvelope [1, 2, 3] = None"
    by (simp add: decodeRequestEnvelope_def readLittleEndian32_def)
  with bad_request_not_posted [of "[1, 2, 3]" default_http_config _ echoTransport 0 echoTransport]
  show ?thesis by blast
qed

section \<open>Outages\<close>

text \<open>A payload the HTTP outbox can always post: a request whose body needs no expansion.\<close>

definition postable :: "bytes \<Rightarrow> bool" where
  "postable p \<longleftrightarrow> (\<exists>r. decodeRequestEnvelope p = Some r \<and> reqEncoding r = EncodingRaw)"

text \<open>A transport that has no connection: whatever it is asked to post, it reports an error.\<close>

locale offline_transport =
  fixes post :: "'u transport"
  assumes offline: "respError (fst (post url hs body u)) \<noteq> TransportNone"
begin

lemma offline_retries:
  assumes p: "postable p" and hc: "hcClassify hc = None"
  shows "srDecision (fst (sendStoredRequest post hc p n env)) = DecideRetry"
proof -
  obtain r where r: "decodeRequestEnvelope p = Some r" "reqEncoding r = EncodingRaw"
    using p by (auto simp: postable_def)
  then have m: "reqMethod r = MethodPost"
    using decodeRequestEnvelope_SomeD [OF r(1)] by (simp add: encodableRequest_def)
  have x: "expandHttpBody hc r n env = (Some (reqBody r), env)"
    using r(2) by (simp add: expandHttpBody_def EncodingRaw_def EncodingCompact_def)
  have "sendStoredRequest post hc p n env = postRequest post hc r (reqBody r) n env"
    using r m x by (simp add: sendStoredRequest_def)
  moreover have "srDecision (fst (postRequest post hc r body n e)) = DecideRetry" for body e
  proof -
    have ne: "respError resp \<noteq> TransportNone" if "post url hs bd u = (resp, u')" for url hs bd u resp u'
      using offline [of url hs bd u] that by simp
    show ?thesis
      using hc
      by (auto simp: postRequest_def onUser_def classifyResponse_def defaultClassifyResponse_def Let_def
          split: prod.splits dest: ne)
  qed
  ultimately show ?thesis by simp
qed

end

text \<open>\<open>CallbackTransport\<close> without a callback is such a transport.\<close>

interpretation no_callback: offline_transport "callbackPost None"
  by unfold_locales (simp add: callbackPost_def)

context offline_transport
begin

lemma outage_keeps:
  assumes h: "logHolds posixView posixReadable cfg xs (quStore (obQueue ob))"
    and u: "logUsable posixView cfg (quStore (obQueue ob))"
    and e: "allEnvelopes xs" and p: "\<And>q. q \<in> set (queuedPayloads xs) \<Longrightarrow> postable q"
    and hc: "hcClassify hc = None"
  shows "\<exists>r ob'. drain (appendLogOps posixFs cfg) c (recording (httpCallbacks post hc clk)) oc ob = Some (r, ob')
    \<and> (\<not> drQueueError r \<longrightarrow> drSent r = 0 \<and> drDropped r = 0 \<and> drCorruptDropped r = 0
         \<and> logHolds posixView posixReadable cfg xs (quStore (obQueue ob')))"
proof -
  obtain r ob' log where d: "drain (appendLogOps posixFs cfg) c (recording (httpCallbacks post hc clk)) oc ob = Some (r, ob')"
    "sendLog ob' = sendLog ob @ log"
    "drQueueError r \<or> (\<exists>ys. drainEffect oc ob xs r log ys
       \<and> logHolds posixView posixReadable cfg ys (quStore (obQueue ob')))"
    using posix_queue.drain_holds [OF h u, of oc c "httpCallbacks post hc clk"]
    by (auto simp: drained_def split: option.splits)
  have s: "\<exists>n e. dc = srDecision (fst (sendStoredRequest post hc q n e))" if "(q, dc) \<in> set log" for q dc
    using drain_log [OF _ _ d(1), of "sendStoredRequest post hc"] d(2) that
    by (auto simp: httpCallbacks_def)
  have hd: "\<exists>d. decodeEnvelope (snd (hd xs)) = Some d \<and> postable (envPayload d)" if ne: "xs \<noteq> []"
  proof -
    have "hd xs \<in> set xs" using ne by simp
    then obtain d where dd: "decodeEnvelope (snd (hd xs)) = Some d" using e by (auto simp: allEnvelopes_def)
    moreover have "envPayload d \<in> set (queuedPayloads xs)"
      using dd ne by (cases xs) (simp_all add: queuedPayloads_def)
    ultimately show ?thesis using p by blast
  qed
  have "drSent r = 0 \<and> drDropped r = 0 \<and> drCorruptDropped r = 0 \<and> ys = xs"
    if ef: "drainEffect oc ob xs r log ys" for ys
  proof -
    have "\<not> (drSent r \<noteq> 0 \<or> drDropped r \<noteq> 0)"
    proof
      assume a: "drSent r \<noteq> 0 \<or> drDropped r \<noteq> 0"
      then obtain d where l: "decodeEnvelope (snd (hd xs)) = Some d" "xs \<noteq> []"
          "log = [(envPayload d, if drSent r \<noteq> 0 then DecideSent else DecideDrop)]"
        using ef by (auto simp: drainEffect_def)
      then have "postable (envPayload d)" using hd by force
      then show False
        using offline_retries [OF _ hc, of "envPayload d"] s [of "envPayload d"] l(3)
        by (force split: if_splits)
    qed
    moreover from this have "drCorruptDropped r = 0" using ef hd by (force simp: drainEffect_def)
    ultimately show ?thesis using ef by (simp add: drainEffect_def)
  qed
  then show ?thesis using d(1,3) by blast
qed

end

end
