(* ===== verification/Http_Transports.thy ===== *)
theory Http_Transports
  imports Http_Outbox
begin

text \<open>
  The two transports that come with the library: \<open>http/posix_curl_transport.cpp\<close> over libcurl and
  \<open>http/esp32_arduino_transport.cpp\<close> over the HTTP client of the ESP32 core.

  The libraries are parameters.  \<open>curl_lib\<close> has the calls of libcurl on one transfer: the options set
  on a handle are collected in a \<open>curl_request\<close>, and \<open>cu_perform\<close> gives the result code, the status
  code and the chunks it passed to the write callback.  \<open>esp_lib\<close> has the calls on the Wi-Fi status,
  the TLS client, the HTTP client and the certificate file; the error numbers of the HTTP client are
  constants of the library.  A header is a pair of C strings either of which may be null.
\<close>

section \<open>Configuration and events\<close>

record transport_config =
  tcTimeoutMs :: u32
  tcUserAgent :: "bytes option"
  tcFollowRedirects :: bool
  tcAllowInsecureTls :: bool
  tcEvents :: event_options

definition default_transport_config :: transport_config where
  "default_transport_config =
     \<lparr>tcTimeoutMs = 15000, tcUserAgent = Some (chars ''pqueue-http/1.0''), tcFollowRedirects = True,
      tcAllowInsecureTls = False, tcEvents = \<lparr>sinkSet = False\<rparr>\<rparr>"

type_synonym c_header = "bytes option \<times> bytes option"

definition transportEvent ::
  "transport_config \<Rightarrow> string \<Rightarrow> severity \<Rightarrow> status \<Rightarrow> string \<Rightarrow> bytes option \<Rightarrow> nat \<Rightarrow> nat \<Rightarrow> int
     \<Rightarrow> event list \<Rightarrow> event list" where
  "transportEvent cfg component sev st operation url headerCount bodySize httpStatus =
     emitEvent (tcEvents cfg)
       (default_event\<lparr>evKind := Diagnostic, evSeverity := sev, evStatus := st, evComponent := component,
          evOperation := operation, evMethod := ''POST'',
          evPath := (case url of None \<Rightarrow> [] | Some u \<Rightarrow> bytesToString (cString u)),
          evBodyBytes := word_of_nat bodySize, evHeaderCount := word_of_nat headerCount,
          evTimeoutMs := tcTimeoutMs cfg, evHttpStatus := httpStatus\<rparr>)"

definition transportFailed :: "transport_error \<Rightarrow> response" where
  "transportFailed e = \<lparr>respStatus = kNoStatusCode, respError = e, respBody = [], respRetryAfterMs = 0\<rparr>"

section \<open>libcurl\<close>

datatype curl_code =
    CurleOk | CurleOperationTimedout | CurleCouldntResolveHost | CurleCouldntResolveProxy
  | CurleSslConnectError | CurlePeerFailedVerification | CurleSslEngineNotfound
  | CurleSslEngineSetfailed | CurleSslCertproblem | CurleSslCipher | CurleSslCacertBadfile
  | CurleSslShutdownFailed | CurleSslCrlBadfile | CurleSslIssuerError
  | CurleCouldntConnect | CurleSendError | CurleRecvError | CurleGotNothing
  | CurleOther int

fun mapCurlError :: "curl_code \<Rightarrow> transport_error" where
  "mapCurlError CurleOk = TransportNone"
| "mapCurlError CurleOperationTimedout = TransportTimeout"
| "mapCurlError CurleCouldntResolveHost = TransportDns"
| "mapCurlError CurleCouldntResolveProxy = TransportDns"
| "mapCurlError CurleSslConnectError = TransportTls"
| "mapCurlError CurlePeerFailedVerification = TransportTls"
| "mapCurlError CurleSslEngineNotfound = TransportTls"
| "mapCurlError CurleSslEngineSetfailed = TransportTls"
| "mapCurlError CurleSslCertproblem = TransportTls"
| "mapCurlError CurleSslCipher = TransportTls"
| "mapCurlError CurleSslCacertBadfile = TransportTls"
| "mapCurlError CurleSslShutdownFailed = TransportTls"
| "mapCurlError CurleSslCrlBadfile = TransportTls"
| "mapCurlError CurleSslIssuerError = TransportTls"
| "mapCurlError CurleCouldntConnect = TransportNetwork"
| "mapCurlError CurleSendError = TransportNetwork"
| "mapCurlError CurleRecvError = TransportNetwork"
| "mapCurlError CurleGotNothing = TransportNetwork"
| "mapCurlError (CurleOther n) = TransportUnknown"

text \<open>The options of a handle when the transfer starts.\<close>

record curl_request =
  crUrl :: bytes
  crPostFields :: bytes
  crTimeoutMs :: u32
  crFollowLocation :: bool
  crVerifyPeer :: bool
  crVerifyHost :: nat
  crUserAgent :: "bytes option"
  crCaInfo :: "bytes option"
  crHeaders :: "bytes list option"

record 'l curl_lib =
  cu_globalInit :: "'l \<Rightarrow> 'l"
  cu_init :: "'l \<Rightarrow> bool \<times> 'l"
  cu_slistAppend :: "bytes list \<Rightarrow> bytes \<Rightarrow> 'l \<Rightarrow> bool \<times> 'l"
  cu_slistFree :: "bytes list \<Rightarrow> 'l \<Rightarrow> 'l"
  cu_perform :: "curl_request \<Rightarrow> 'l \<Rightarrow> (curl_code \<times> int \<times> bytes list) \<times> 'l"
  cu_cleanup :: "'l \<Rightarrow> 'l"
  cu_strerror :: "curl_code \<Rightarrow> string"
  cu_value :: "curl_code \<Rightarrow> int"

record curl_config =
  ccCommon :: transport_config
  ccCaBundlePath :: bytes

text \<open>The library, whether the process has initialised it, and the events emitted.\<close>

record 'l curl_env =
  ceLib :: 'l
  ceInitialised :: bool
  ceEmitted :: "event list"

definition onLib :: "('l \<Rightarrow> 'a \<times> 'l) \<Rightarrow> 'l curl_env \<Rightarrow> 'a \<times> 'l curl_env" where
  "onLib f e = (let (r, l) = f (ceLib e) in (r, e\<lparr>ceLib := l\<rparr>))"

definition atLib :: "('l \<Rightarrow> 'l) \<Rightarrow> 'l curl_env \<Rightarrow> 'l curl_env" where
  "atLib f e = e\<lparr>ceLib := f (ceLib e)\<rparr>"

definition ensureCurlGlobalInit :: "'l curl_lib \<Rightarrow> 'l curl_env \<Rightarrow> 'l curl_env" where
  "ensureCurlGlobalInit L e =
     (if ceInitialised e then e else (atLib (cu_globalInit L) e)\<lparr>ceInitialised := True\<rparr>)"

definition curlEvent ::
  "curl_config \<Rightarrow> severity \<Rightarrow> status \<Rightarrow> string \<Rightarrow> bytes option \<Rightarrow> nat \<Rightarrow> nat \<Rightarrow> int \<Rightarrow> 'l curl_env \<Rightarrow> 'l curl_env" where
  "curlEvent cfg sev st operation url headerCount bodySize httpStatus e =
     e\<lparr>ceEmitted := transportEvent (ccCommon cfg) ''PosixCurlTransport'' sev st operation url
          headerCount bodySize httpStatus (ceEmitted e)\<rparr>"

definition appendResponseBody :: "bytes \<Rightarrow> bytes \<Rightarrow> bytes" where
  "appendResponseBody responseBody chunk = responseBody @ chunk"

text \<open>The null list is \<open>None\<close>; it is what the loop starts with and what a failed append returns.\<close>

fun buildCurlHeaders ::
  "'l curl_lib \<Rightarrow> c_header list \<Rightarrow> bytes list option \<Rightarrow> 'l curl_env \<Rightarrow> bytes list option \<times> 'l curl_env" where
  "buildCurlHeaders L [] lst e = (lst, e)"
| "buildCurlHeaders L ((Some name, Some val) # hs) lst e =
     (let header = cString name @ chars '': '' @ cString val;
          sofar = (case lst of None \<Rightarrow> [] | Some xs \<Rightarrow> xs);
          (appended, e) = onLib (cu_slistAppend L sofar header) e
      in if \<not> appended then (None, atLib (cu_slistFree L sofar) e)
         else buildCurlHeaders L hs (Some (sofar @ [header])) e)"
| "buildCurlHeaders L ((_, _) # hs) lst e = buildCurlHeaders L hs lst e"

definition freeHeaders :: "'l curl_lib \<Rightarrow> bytes list option \<Rightarrow> 'l curl_env \<Rightarrow> 'l curl_env" where
  "freeHeaders L lst e = atLib (cu_slistFree L (case lst of None \<Rightarrow> [] | Some xs \<Rightarrow> xs)) e"

definition curlRequest :: "curl_config \<Rightarrow> bytes \<Rightarrow> bytes list option \<Rightarrow> bytes \<Rightarrow> curl_request" where
  "curlRequest cfg url curlHeaders body =
     \<lparr>crUrl = cString url, crPostFields = body, crTimeoutMs = tcTimeoutMs (ccCommon cfg),
      crFollowLocation = tcFollowRedirects (ccCommon cfg),
      crVerifyPeer = (\<not> tcAllowInsecureTls (ccCommon cfg)),
      crVerifyHost = (if tcAllowInsecureTls (ccCommon cfg) then 0 else 2),
      crUserAgent = map_option cString (tcUserAgent (ccCommon cfg)),
      crCaInfo = (if ccCaBundlePath cfg = [] then None else Some (cString (ccCaBundlePath cfg))),
      crHeaders = curlHeaders\<rparr>"

text \<open>The transfer, from the first option to the cleanup.\<close>

definition curlTransfer ::
  "'l curl_lib \<Rightarrow> curl_config \<Rightarrow> bytes \<Rightarrow> nat \<Rightarrow> bytes list option \<Rightarrow> bytes \<Rightarrow> 'l curl_env
     \<Rightarrow> response \<times> 'l curl_env" where
  "curlTransfer L cfg url headerCount curlHeaders body e =
     (let e = curlEvent cfg Debug success
                (if tcAllowInsecureTls (ccCommon cfg) then ''curl_perform_start_insecure_tls''
                 else ''curl_perform_start_verify_tls'') (Some url) headerCount (length body) 0 e;
          ((result, statusCode, chunks), e) = onLib (cu_perform L (curlRequest cfg url curlHeaders body)) e;
          responseBody = foldl appendResponseBody [] chunks;
          e = curlEvent cfg (if result = CurleOk then Debug else Info)
                (if result = CurleOk then success
                 else failure_code SendFailed (cu_strerror L result) (cu_value L result))
                ''curl_perform_complete'' (Some url) headerCount (length body) statusCode e;
          e = (if result = CurleOk
               then e\<lparr>ceEmitted := emitEvent (tcEvents (ccCommon cfg))
                      (default_event\<lparr>evKind := Diagnostic, evSeverity := Debug, evStatus := success,
                         evComponent := ''PosixCurlTransport'', evOperation := ''response_body_received'',
                         evMethod := ''POST'', evPath := bytesToString (cString url), evHttpStatus := statusCode,
                         evBodyBytes := word_of_nat (length responseBody)\<rparr>) (ceEmitted e)\<rparr>
               else e);
          e = freeHeaders L curlHeaders e;
          e = atLib (cu_cleanup L) e
      in (\<lparr>respStatus = statusCode, respError = mapCurlError result, respBody = responseBody,
           respRetryAfterMs = 0\<rparr>, e))"

text \<open>\<open>PosixCurlTransport::post\<close>.\<close>

definition curlPost ::
  "'l curl_lib \<Rightarrow> curl_config \<Rightarrow> bytes option \<Rightarrow> c_header list \<Rightarrow> bytes \<Rightarrow> 'l curl_env
     \<Rightarrow> response \<times> 'l curl_env" where
  "curlPost L cfg url headers body e =
     (let headerCount = length headers; bodySize = length body in
      case url of
        None \<Rightarrow>
          (transportFailed TransportUnknown,
           curlEvent cfg Error (failure InvalidArgument ''curl POST URL was null'') ''post_invalid_url''
             None headerCount bodySize 0 e)
      | Some u \<Rightarrow>
          let e = curlEvent cfg Debug success
                    (if ccCaBundlePath cfg = [] then ''post_start_no_ca_bundle''
                     else ''post_start_with_ca_bundle'') url headerCount bodySize 0 e;
              e = ensureCurlGlobalInit L e;
              (created, e) = onLib (cu_init L) e
          in if \<not> created
             then (transportFailed TransportUnknown,
                   curlEvent cfg Error (failure BackendUnavailable ''curl_easy_init failed'')
                     ''curl_easy_init'' url headerCount bodySize 0 e)
             else
               let (curlHeaders, e) = buildCurlHeaders L headers None e in
               if headerCount > 0 \<and> curlHeaders = None
               then (transportFailed TransportUnknown,
                     atLib (cu_cleanup L)
                       (curlEvent cfg Error (failure InvalidArgument ''failed to build curl headers'')
                          ''build_headers'' url headerCount bodySize 0 e))
               else curlTransfer L cfg u headerCount curlHeaders body e)"

text \<open>As the transport of an HTTP outbox, whose headers and URL are not null.\<close>

definition curlTransport :: "'l curl_lib \<Rightarrow> curl_config \<Rightarrow> 'l curl_env transport" where
  "curlTransport L cfg url headers body e =
     curlPost L cfg (Some url) (map (\<lambda>(name, val). (Some name, Some val)) headers) body e"

section \<open>The HTTP client of the ESP32\<close>

record ('h, 'l) esp_lib =
  el_wifiConnected :: "'l \<Rightarrow> bool \<times> 'l"
  el_open :: "bytes \<Rightarrow> 'l \<Rightarrow> 'h option \<times> 'l"
  el_available :: "'h \<Rightarrow> 'l \<Rightarrow> bool \<times> 'l"
  el_read :: "'h \<Rightarrow> 'l \<Rightarrow> u8 \<times> 'l"
  el_closeFile :: "'h \<Rightarrow> 'l \<Rightarrow> 'l"
  el_setInsecure :: "'l \<Rightarrow> 'l"
  el_setCACert :: "bytes \<Rightarrow> 'l \<Rightarrow> 'l"
  el_stop :: "'l \<Rightarrow> 'l"
  el_begin :: "bytes \<Rightarrow> 'l \<Rightarrow> bool \<times> 'l"
  el_setTimeout :: "u16 \<Rightarrow> 'l \<Rightarrow> 'l"
  el_setReuse :: "bool \<Rightarrow> 'l \<Rightarrow> 'l"
  el_setUserAgent :: "bytes \<Rightarrow> 'l \<Rightarrow> 'l"
  el_setFollowRedirects :: "bool \<Rightarrow> 'l \<Rightarrow> 'l"
  el_addHeader :: "bytes \<Rightarrow> bytes \<Rightarrow> 'l \<Rightarrow> 'l"
  el_POST :: "bytes \<Rightarrow> 'l \<Rightarrow> int \<times> 'l"
  el_getString :: "'l \<Rightarrow> bytes \<times> 'l"
  el_end :: "'l \<Rightarrow> 'l"
  el_ERROR_READ_TIMEOUT :: int
  el_ERROR_CONNECTION_REFUSED :: int
  el_ERROR_CONNECTION_LOST :: int
  el_ERROR_NOT_CONNECTED :: int

record 'l esp_config =
  ecCommon :: transport_config
  ecCaCertPath :: "bytes option"
  ecCaCertFileSystem :: bool
  ecNetworkReady :: "(u32 \<Rightarrow> 'l \<Rightarrow> bool \<times> 'l) option"

text \<open>The transport object, with the library its members belong to.\<close>

record 'l esp_transport =
  esLib :: 'l
  esCaCertStorage :: bytes
  esClientConfigured :: bool
  esEmitted :: "event list"

definition newEspTransport :: "'l \<Rightarrow> 'l esp_transport" where
  "newEspTransport l = \<lparr>esLib = l, esCaCertStorage = [], esClientConfigured = False, esEmitted = []\<rparr>"

definition onEsp :: "('l \<Rightarrow> 'a \<times> 'l) \<Rightarrow> 'l esp_transport \<Rightarrow> 'a \<times> 'l esp_transport" where
  "onEsp f t = (let (r, l) = f (esLib t) in (r, t\<lparr>esLib := l\<rparr>))"

definition atEsp :: "('l \<Rightarrow> 'l) \<Rightarrow> 'l esp_transport \<Rightarrow> 'l esp_transport" where
  "atEsp f t = t\<lparr>esLib := f (esLib t)\<rparr>"

definition espEvent ::
  "'l esp_config \<Rightarrow> severity \<Rightarrow> status \<Rightarrow> string \<Rightarrow> bytes option \<Rightarrow> nat \<Rightarrow> nat \<Rightarrow> int \<Rightarrow> 'l esp_transport \<Rightarrow> 'l esp_transport" where
  "espEvent cfg sev st operation url headerCount bodySize httpStatus t =
     t\<lparr>esEmitted := transportEvent (ecCommon cfg) ''Esp32ArduinoTransport'' sev st operation url
          headerCount bodySize httpStatus (esEmitted t)\<rparr>"

text \<open>The reading loop ends when the file has nothing more available.\<close>

partial_function (option) readAvailable ::
  "('h, 'l) esp_lib \<Rightarrow> 'h \<Rightarrow> bytes \<Rightarrow> 'l \<Rightarrow> (bytes \<times> 'l) option" where
  "readAvailable L h contents l =
     (let (available, l) = el_available L h l in
      if \<not> available then Some (contents, l)
      else let (b, l) = el_read L h l in readAvailable L h (contents @ [b]) l)"

declare readAvailable.simps [code]

definition readFileToString ::
  "('h, 'l) esp_lib \<Rightarrow> bool \<Rightarrow> bytes option \<Rightarrow> 'l \<Rightarrow> (bytes \<times> 'l) option" where
  "readFileToString L fileSystem path l =
     (case path of
        None \<Rightarrow> Some ([], l)
      | Some p \<Rightarrow>
          if \<not> fileSystem \<or> cString p = [] then Some ([], l)
          else case el_open L (cString p) l of
            (None, l) \<Rightarrow> Some ([], l)
          | (Some h, l) \<Rightarrow> do {
              (contents, l) \<leftarrow> readAvailable L h [] l;
              Some (contents, el_closeFile L h l)
            })"

definition isNetworkReady :: "('h, 'l) esp_lib \<Rightarrow> 'l esp_config \<Rightarrow> 'l esp_transport \<Rightarrow> bool \<times> 'l esp_transport" where
  "isNetworkReady L cfg t =
     (case ecNetworkReady cfg of
        Some ready \<Rightarrow> onEsp (ready (tcTimeoutMs (ecCommon cfg))) t
      | None \<Rightarrow> onEsp (el_wifiConnected L) t)"

definition mapHttpClientError :: "('h, 'l) esp_lib \<Rightarrow> int \<Rightarrow> transport_error" where
  "mapHttpClientError L n =
     (if n = el_ERROR_READ_TIMEOUT L then TransportTimeout
      else if n = el_ERROR_CONNECTION_REFUSED L \<or> n = el_ERROR_CONNECTION_LOST L
              \<or> n = el_ERROR_NOT_CONNECTED L then TransportNetwork
      else TransportUnknown)"

definition configureTlsClient ::
  "('h, 'l) esp_lib \<Rightarrow> 'l esp_config \<Rightarrow> 'l esp_transport \<Rightarrow> (bool \<times> 'l esp_transport) option" where
  "configureTlsClient L cfg t =
     (if tcAllowInsecureTls (ecCommon cfg) then Some (True, atEsp (el_setInsecure L) t)
      else do {
        (cert, l) \<leftarrow> readFileToString L (ecCaCertFileSystem cfg) (ecCaCertPath cfg) (esLib t);
        let t = t\<lparr>esLib := l, esCaCertStorage := cert\<rparr>;
        if cert = [] then Some (False, t)
        else Some (True, atEsp (el_setCACert L (cString cert)) t)
      })"

fun addHeaders :: "('h, 'l) esp_lib \<Rightarrow> c_header list \<Rightarrow> 'l \<Rightarrow> 'l" where
  "addHeaders L [] l = l"
| "addHeaders L ((Some name, Some val) # hs) l =
     addHeaders L hs (el_addHeader L (cString name) (cString val) l)"
| "addHeaders L ((_, _) # hs) l = addHeaders L hs l"

text \<open>The settings of a request; \<open>std::uint16_t\<close> cuts the timeout.\<close>

definition espPrepare :: "('h, 'l) esp_lib \<Rightarrow> transport_config \<Rightarrow> c_header list \<Rightarrow> 'l \<Rightarrow> 'l" where
  "espPrepare L common headers l =
     (let l = el_setReuse L True (el_setTimeout L (ucast (tcTimeoutMs common)) l);
          l = (case tcUserAgent common of None \<Rightarrow> l | Some a \<Rightarrow> el_setUserAgent L (cString a) l)
      in addHeaders L headers (el_setFollowRedirects L (tcFollowRedirects common) l))"

text \<open>The response to the code of \<open>POST\<close>.\<close>

definition espAnswer :: "('h, 'l) esp_lib \<Rightarrow> int \<Rightarrow> 'l \<Rightarrow> response \<times> 'l" where
  "espAnswer L n l =
     (if n > 0
      then let (contents, l) = el_getString L l
           in (\<lparr>respStatus = n, respError = TransportNone, respBody = cString contents, respRetryAfterMs = 0\<rparr>, l)
      else (transportFailed (mapHttpClientError L n), l))"

text \<open>The request on a client that is configured.\<close>

definition espRequest ::
  "('h, 'l) esp_lib \<Rightarrow> 'l esp_config \<Rightarrow> bytes \<Rightarrow> c_header list \<Rightarrow> bytes \<Rightarrow> 'l esp_transport
     \<Rightarrow> response \<times> 'l esp_transport" where
  "espRequest L cfg url headers body t =
     (let headerCount = length headers; bodySize = length body; common = ecCommon cfg;
          (begun, t) = onEsp (el_begin L (cString url)) t
      in if \<not> begun
         then (transportFailed TransportNetwork,
               espEvent cfg Error (failure SendFailed ''HTTPClient begin failed'') ''http_begin''
                 (Some url) headerCount bodySize 0 (atEsp (el_stop L) t))
         else
           let t = espEvent cfg Debug success
                     (if tcAllowInsecureTls common then ''http_post_start_insecure_tls''
                      else ''http_post_start_verify_tls'') (Some url) headerCount bodySize 0
                     (atEsp (espPrepare L common headers) t);
               (n, t) = onEsp (el_POST L body) t;
               (resp, t) = onEsp (espAnswer L n) t;
               t = espEvent cfg Debug
                     (if n > 0 then success
                      else failure_code SendFailed ''HTTPClient POST returned an error'' n)
                     ''http_post_complete'' (Some url) headerCount bodySize (respStatus resp) t;
               t = atEsp (el_end L) t;
               t = (if respError resp \<noteq> TransportNone then atEsp (el_stop L) t else t)
           in (resp, t))"

text \<open>\<open>Esp32ArduinoTransport::post\<close>, from the check of \<open>clientConfigured_\<close> on, and from its start.\<close>

definition espSend ::
  "('h, 'l) esp_lib \<Rightarrow> 'l esp_config \<Rightarrow> bytes \<Rightarrow> c_header list \<Rightarrow> bytes \<Rightarrow> 'l esp_transport
     \<Rightarrow> (response \<times> 'l esp_transport) option" where
  "espSend L cfg url headers body t =
     (if esClientConfigured t then Some (espRequest L cfg url headers body t)
      else do {
        (configured, t) \<leftarrow> configureTlsClient L cfg t;
        if \<not> configured
        then Some (transportFailed TransportTls,
               espEvent cfg Error (failure SendFailed ''failed to configure TLS client'')
                 ''configure_tls'' (Some url) (length headers) (length body) 0 t)
        else Some (espRequest L cfg url headers body (t\<lparr>esClientConfigured := True\<rparr>))
      })"

definition espPost ::
  "('h, 'l) esp_lib \<Rightarrow> 'l esp_config \<Rightarrow> bytes option \<Rightarrow> c_header list \<Rightarrow> bytes \<Rightarrow> 'l esp_transport
     \<Rightarrow> (response \<times> 'l esp_transport) option" where
  "espPost L cfg url headers body t =
     (let headerCount = length headers; bodySize = length body in
      case url of
        None \<Rightarrow>
          Some (transportFailed TransportUnknown,
            espEvent cfg Error (failure InvalidArgument ''HTTP POST URL was null'') ''post_invalid_url''
              None headerCount bodySize 0 t)
      | Some u \<Rightarrow>
          let t = espEvent cfg Debug success
                    (if ecCaCertPath cfg = None then ''post_start_no_ca_cert_path''
                     else ''post_start_with_ca_cert_path'') url headerCount bodySize 0 t;
              (ready, t) = isNetworkReady L cfg t
          in if \<not> ready
             then Some (transportFailed TransportNetwork,
                    espEvent cfg Info (failure BackendUnavailable ''network was not ready before HTTP POST'')
                      ''network_not_ready'' url headerCount bodySize 0 t)
             else espSend L cfg u headers body t)"

end
