(* ===== verification/Transport_Theorems.thy ===== *)
theory Transport_Theorems
  imports Http_Theorems Http_Transports
begin

text \<open>
  What the two transports promise: libcurl reports an error whenever the transfer did not complete,
  so an outage loses no stored request; and the ESP32 transport posts only on a TLS client it has
  configured.
\<close>

section \<open>libcurl\<close>

lemma mapCurlError_None: "mapCurlError c = TransportNone \<longleftrightarrow> c = CurleOk"
  by (cases c) simp_all

lemma curlTransfer_error:
  assumes "\<And>r l. fst (fst (cu_perform L r l)) \<noteq> CurleOk"
  shows "respError (fst (curlTransfer L cfg url n hs body e)) \<noteq> TransportNone"
proof -
  have ne: "c \<noteq> CurleOk" if "cu_perform L r l = ((c, n, xs), l')" for r l c n xs l'
    using assms [of r l] that by simp
  then show ?thesis
    by (auto simp: curlTransfer_def onLib_def Let_def mapCurlError_None split: prod.split dest: ne)
qed

lemma curlPost_error:
  assumes "\<And>r l. fst (fst (cu_perform L r l)) \<noteq> CurleOk"
  shows "respError (fst (curlPost L cfg url hs body e)) \<noteq> TransportNone"
  using curlTransfer_error [OF assms]
  by (simp add: curlPost_def Let_def transportFailed_def split: option.split prod.split)

text \<open>A library without a network is an offline transport for the outbox.\<close>

lemma curl_offline:
  assumes "\<And>r l. fst (fst (cu_perform L r l)) \<noteq> CurleOk"
  shows "offline_transport (curlTransport L cfg)"
  by unfold_locales (simp add: curlTransport_def curlPost_error [OF assms])


text \<open>A machine without a network, and a stored request in its envelope.\<close>

definition deadCurl :: "unit curl_lib" where
  "deadCurl =
     \<lparr>cu_globalInit = (\<lambda>l. l), cu_init = (\<lambda>l. (True, l)), cu_slistAppend = (\<lambda>xs x l. (True, l)),
      cu_slistFree = (\<lambda>xs l. l), cu_perform = (\<lambda>r l. ((CurleCouldntConnect, 0, []), l)),
      cu_cleanup = (\<lambda>l. l), cu_strerror = (\<lambda>c. ''no route''), cu_value = (\<lambda>c. 7)\<rparr>"

definition sampleCurlConfig :: curl_config where
  "sampleCurlConfig = \<lparr>ccCommon = default_transport_config, ccCaBundlePath = []\<rparr>"

definition sampleRequest :: bytes where
  "sampleRequest = requestBytes EncodingRaw [47] [1]"

definition sampleRequestRecord :: bytes where
  "sampleRequestRecord = the (encodeEnvelope 0 sampleRequest)"

definition sampleHttpOutbox :: "(posix_world store, unit curl_env http_env \<times> send_log) outbox" where
  "sampleHttpOutbox = newOutbox (queueWith sampleRequestRecord)
     (\<lparr>heUser = \<lparr>ceLib = (), ceInitialised = False, ceEmitted = []\<rparr>, heEmitted = []\<rparr>, [])"


section \<open>The ESP32\<close>

text \<open>Every call of the library other than the configuration of the client and \<open>POST\<close> keeps \<open>I\<close>.\<close>

definition espKeeps :: "('h, 'l) esp_lib \<Rightarrow> 'l esp_config \<Rightarrow> ('l \<Rightarrow> bool) \<Rightarrow> bool" where
  "espKeeps L cfg I \<longleftrightarrow>
     (\<forall>l. I l \<longrightarrow>
        I (snd (el_wifiConnected L l)) \<and> (\<forall>f n. ecNetworkReady cfg = Some f \<longrightarrow> I (snd (f n l)))
      \<and> (\<forall>p. I (snd (el_open L p l)))
      \<and> (\<forall>h. I (snd (el_available L h l)) \<and> I (snd (el_read L h l)) \<and> I (el_closeFile L h l))
      \<and> I (el_stop L l) \<and> (\<forall>u. I (snd (el_begin L u l)))
      \<and> (\<forall>n. I (el_setTimeout L n l)) \<and> (\<forall>b. I (el_setReuse L b l)) \<and> (\<forall>a. I (el_setUserAgent L a l))
      \<and> (\<forall>b. I (el_setFollowRedirects L b l)) \<and> (\<forall>n v. I (el_addHeader L n v l))
      \<and> I (snd (el_getString L l)) \<and> I (el_end L l))"

lemma espKeeps_conj: "espKeeps L cfg B \<Longrightarrow> espKeeps L cfg Q \<Longrightarrow> espKeeps L cfg (\<lambda>l. B l \<and> Q l)"
  by (simp add: espKeeps_def)

lemma espKeepsD:
  assumes "espKeeps L cfg I" and "I l"
  shows "I (snd (el_wifiConnected L l))"
    "I (snd (el_open L p l))" "I (snd (el_available L h l))" "I (snd (el_read L h l))"
    "I (el_closeFile L h l)" "I (el_stop L l)" "I (snd (el_begin L u l))" "I (el_setTimeout L m l)"
    "I (el_setReuse L b l)" "I (el_setUserAgent L a l)" "I (el_setFollowRedirects L b l)"
    "I (el_addHeader L x y l)" "I (snd (el_getString L l))" "I (el_end L l)"
  using assms by (simp_all add: espKeeps_def)

lemma espEvent_lib [simp]:
  "esLib (espEvent cfg sev st op u h b n t) = esLib t"
  "esClientConfigured (espEvent cfg sev st op u h b n t) = esClientConfigured t"
  by (simp_all add: espEvent_def)

lemma onEsp_keeps:
  "onEsp f t = (r, t') \<Longrightarrow> (\<And>l. I l \<Longrightarrow> I (snd (f l))) \<Longrightarrow> I (esLib t) \<Longrightarrow> I (esLib t')"
  by (auto simp: onEsp_def split: prod.splits) (metis snd_conv)

lemma atEsp_keeps: "(\<And>l. I l \<Longrightarrow> I (f l)) \<Longrightarrow> I (esLib t) \<Longrightarrow> I (esLib (atEsp f t))"
  by (simp add: atEsp_def)

lemma addHeaders_keeps: "espKeeps L cfg I \<Longrightarrow> I l \<Longrightarrow> I (addHeaders L hs l)"
  by (induction L hs l rule: addHeaders.induct) (simp_all add: espKeepsD)

lemma espPrepare_keeps:
  assumes "espKeeps L cfg I" and "I l"
  shows "I (espPrepare L common hs l)"
  using assms(2) espKeepsD [OF assms(1)] addHeaders_keeps [OF assms(1)]
  by (simp add: espPrepare_def Let_def split: option.split)

lemma espAnswer_keeps:
  assumes "espKeeps L cfg I" and "I l"
  shows "I (snd (espAnswer L n l))"
  using assms(2) espKeepsD(13) [OF assms]
  by (cases "el_getString L l") (simp add: espAnswer_def)

lemma espRequest_keeps:
  assumes k: "espKeeps L cfg I" and p: "\<And>b l. I l \<Longrightarrow> I (snd (el_POST L b l))" and i: "I (esLib t)"
  shows "I (esLib (snd (espRequest L cfg u hs body t)))"
proof -
  note e = espKeepsD [OF k]
  obtain begun t1 where t1: "onEsp (el_begin L (cString u)) t = (begun, t1)" by fastforce
  have i1: "I (esLib t1)" by (rule onEsp_keeps [OF t1 e(7) i])
  define t2 where "t2 = espEvent cfg Debug success
    (if tcAllowInsecureTls (ecCommon cfg) then ''http_post_start_insecure_tls''
     else ''http_post_start_verify_tls'') (Some u) (length hs) (length body) 0
    (atEsp (espPrepare L (ecCommon cfg) hs) t1)"
  have i2: "I (esLib t2)"
    unfolding t2_def espEvent_lib by (rule atEsp_keeps [where I = I, OF espPrepare_keeps [OF k] i1])
  obtain n t3 where t3: "onEsp (el_POST L body) t2 = (n, t3)" by fastforce
  have i3: "I (esLib t3)" by (rule onEsp_keeps [OF t3 p i2])
  obtain r t4 where t4: "onEsp (espAnswer L n) t3 = (r, t4)" by fastforce
  have i4: "I (esLib t4)" by (rule onEsp_keeps [OF t4 espAnswer_keeps [OF k] i3])
  show ?thesis
    by (simp add: espRequest_def Let_def t1 t2_def [symmetric] t3 t4 atEsp_keeps [where I = I] e i1 i4)
qed

lemma readAvailable_keeps:
  assumes k: "espKeeps L cfg I"
  shows "readAvailable L h c l = Some y \<Longrightarrow> I l \<Longrightarrow> I (snd y)"
proof -
  have "L' = L \<longrightarrow> I l \<longrightarrow> I (snd y)" if "readAvailable L' h c l = Some y" for L'
    using that
  proof (rule readAvailable.raw_induct [rotated, where P = "\<lambda>L' h c l y. L' = L \<longrightarrow> I l \<longrightarrow> I (snd y)"])
    fix rec :: "('a, 'b) esp_lib \<Rightarrow> 'a \<Rightarrow> bytes \<Rightarrow> 'b \<Rightarrow> (bytes \<times> 'b) option"
    fix L' h c l y
    assume rec: "\<And>L' h c l y. rec L' h c l = Some y \<Longrightarrow> L' = L \<longrightarrow> I l \<longrightarrow> I (snd y)"
      and y: "(let (available, l) = el_available L' h l in
        if \<not> available then Some (c, l)
        else let (b, l) = el_read L' h l in rec L' h (c @ [b]) l) = Some y"
    obtain a l1 where a: "el_available L h l = (a, l1)" by fastforce
    obtain b l2 where b: "el_read L h l1 = (b, l2)" by fastforce
    show "L' = L \<longrightarrow> I l \<longrightarrow> I (snd y)"
      using espKeepsD(3) [OF k, of l h] espKeepsD(4) [OF k, of l1 h] a b y rec [of L h "c @ [b]" l2 y]
      by (auto split: if_splits)
  qed
  then show "readAvailable L h c l = Some y \<Longrightarrow> I l \<Longrightarrow> I (snd y)" by blast
qed

lemma readFile_keeps:
  assumes "espKeeps L cfg I" and "I l" and "readFileToString L fs p l = Some (c, l')"
  shows "I l'"
proof -
  have o: "I l1" if "el_open L q l = (r, l1)" for q r l1
    using espKeepsD(2) [OF assms(1,2), of q] that by simp
  have "I (el_closeFile L h l2)" if "readAvailable L h [] l1 = Some (c, l2)" "I l1" for h l1 l2
    using readAvailable_keeps [OF assms(1) that(1)] that(2) espKeepsD(5) [OF assms(1)] by simp
  then show ?thesis
    using assms(2,3) o
    by (auto simp: readFileToString_def split: option.splits if_splits prod.splits bind_splits)
qed

text \<open>A run of the transport: one call of \<open>post\<close> after another.\<close>

fun espPosts ::
  "('h, 'l) esp_lib \<Rightarrow> 'l esp_config \<Rightarrow> (bytes option \<times> c_header list \<times> bytes) list \<Rightarrow> 'l esp_transport
     \<Rightarrow> (response list \<times> 'l esp_transport) option" where
  "espPosts L cfg [] t = Some ([], t)"
| "espPosts L cfg ((url, headers, body) # reqs) t =
     do {
       (r, t) \<leftarrow> espPost L cfg url headers body t;
       (rs, t) \<leftarrow> espPosts L cfg reqs t;
       Some (r # rs, t)
     }"

text \<open>What the library promises: \<open>B\<close> says that every \<open>POST\<close> so far was on a configured client, and \<open>Q\<close>
  that the client is configured, by \<open>setInsecure\<close> only where the configuration allows it.\<close>

definition espGuards ::
  "('h, 'l) esp_lib \<Rightarrow> 'l esp_config \<Rightarrow> ('l \<Rightarrow> bool) \<Rightarrow> ('l \<Rightarrow> bool) \<Rightarrow> bool" where
  "espGuards L cfg B Q \<longleftrightarrow>
     espKeeps L cfg B \<and> espKeeps L cfg Q
   \<and> (\<forall>l. B l \<longrightarrow> B (el_setInsecure L l) \<and> (\<forall>c. B (el_setCACert L c l)))
   \<and> (\<forall>l. if tcAllowInsecureTls (ecCommon cfg) then Q (el_setInsecure L l) else \<forall>c. Q (el_setCACert L c l))
   \<and> (\<forall>b l. B l \<longrightarrow> Q l \<longrightarrow> B (snd (el_POST L b l)) \<and> Q (snd (el_POST L b l)))"

definition espGuarded :: "('l \<Rightarrow> bool) \<Rightarrow> ('l \<Rightarrow> bool) \<Rightarrow> 'l esp_transport \<Rightarrow> bool" where
  "espGuarded B Q t \<longleftrightarrow> B (esLib t) \<and> (esClientConfigured t \<longrightarrow> Q (esLib t))"

lemma configureTlsClient_guarded:
  assumes g: "espGuards L cfg B Q" and b: "B (esLib t)" and c: "configureTlsClient L cfg t = Some (r, t')"
  shows "B (esLib t')" "r \<Longrightarrow> Q (esLib t')" "esClientConfigured t' = esClientConfigured t"
proof -
  have "B l'" if "readFileToString L fs p (esLib t) = Some (x, l')" for fs p x l'
    using readFile_keeps [where I = B and cfg = cfg, OF _ b that] g by (simp add: espGuards_def)
  then show "B (esLib t')" "r \<Longrightarrow> Q (esLib t')" "esClientConfigured t' = esClientConfigured t"
    using g b c
    by (auto simp: configureTlsClient_def espGuards_def atEsp_def Let_def split: if_splits bind_splits)
qed

lemma isNetworkReady_guarded:
  assumes "espGuards L cfg B Q" and "espGuarded B Q t"
  shows "espGuarded B Q (snd (isNetworkReady L cfg t))"
  using assms
  by (auto simp: isNetworkReady_def espGuarded_def espGuards_def espKeeps_def onEsp_def
      split: option.split prod.split) (metis snd_conv)+

lemma espSend_guarded:
  assumes g: "espGuards L cfg B Q" and t: "espGuarded B Q t"
    and p: "espSend L cfg url headers body t = Some (r, t')"
  shows "espGuarded B Q t'"
proof -
  have k: "espKeeps L cfg (\<lambda>l. B l \<and> Q l)" "\<And>b l. B l \<and> Q l \<Longrightarrow> B (snd (el_POST L b l)) \<and> Q (snd (el_POST L b l))"
    using g espKeeps_conj by (auto simp: espGuards_def)
  have req: "espGuarded B Q t1" if "espRequest L cfg url headers body s = (x, t1)" "B (esLib s)" "Q (esLib s)" for s x t1
    using espRequest_keeps [OF k, of s url headers body] that by (simp add: espGuarded_def)
  have b: "B (esLib t)" "esClientConfigured t \<Longrightarrow> Q (esLib t)" using t by (simp_all add: espGuarded_def)
  show ?thesis
  proof (cases "esClientConfigured t")
    case True
    then show ?thesis using p b req by (simp add: espSend_def)
  next
    case False
    then obtain d s where c: "configureTlsClient L cfg t = Some (d, s)"
      using p by (auto simp: espSend_def split: bind_splits)
    note cg = configureTlsClient_guarded [OF g b(1) c]
    show ?thesis
      using p False c cg req [of "s\<lparr>esClientConfigured := True\<rparr>"]
      by (auto simp: espSend_def espGuarded_def split: if_splits)
  qed
qed

lemma espPost_guarded:
  assumes g: "espGuards L cfg B Q" and t: "espGuarded B Q t"
    and p: "espPost L cfg url headers body t = Some (r, t')"
  shows "espGuarded B Q t'"
proof (cases url)
  case None
  then show ?thesis using t p by (auto simp: espPost_def espGuarded_def)
next
  case (Some u)
  define e where "e = espEvent cfg Debug success
    (if ecCaCertPath cfg = None then ''post_start_no_ca_cert_path'' else ''post_start_with_ca_cert_path'')
    url (length headers) (length body) 0 t"
  obtain ready s where r: "isNetworkReady L cfg e = (ready, s)" by fastforce
  have s: "espGuarded B Q s"
    using isNetworkReady_guarded [OF g, of e] t r by (simp add: e_def espGuarded_def)
  show ?thesis
  proof (cases ready)
    case True
    then have "espSend L cfg u headers body s = Some (r, t')"
      using p Some r by (simp add: espPost_def Let_def e_def)
    then show ?thesis by (rule espSend_guarded [OF g s])
  next
    case False
    then show ?thesis using p Some r s by (auto simp: espPost_def Let_def e_def espGuarded_def)
  qed
qed

lemma readFileToString_ends:
  "(\<And>h l. readAvailable L h [] l \<noteq> None) \<Longrightarrow> readFileToString L fs p l \<noteq> None"
  by (auto simp: readFileToString_def split: option.split prod.split) (metis bind.bind_lunit split_conv)

lemma configureTlsClient_ends:
  assumes "\<And>h l. readAvailable L h [] l \<noteq> None"
  shows "configureTlsClient L cfg t \<noteq> None"
  using readFileToString_ends [OF assms, of "ecCaCertFileSystem cfg" "ecCaCertPath cfg" "esLib t"]
  by (auto simp: configureTlsClient_def Let_def)

lemma espSend_ends: "(\<And>h l. readAvailable L h [] l \<noteq> None) \<Longrightarrow> espSend L cfg u headers body t \<noteq> None"
  using configureTlsClient_ends [of L cfg t] by (auto simp: espSend_def)

lemma espPost_ends:
  assumes "\<And>h l. readAvailable L h [] l \<noteq> None"
  shows "espPost L cfg url headers body t \<noteq> None"
  using espSend_ends [OF assms]
  by (simp add: espPost_def Let_def split: option.split prod.split del: not_None_eq)

lemma espPosts_guarded:
  assumes "\<And>h l. readAvailable L h [] l \<noteq> None" and "espGuards L cfg B Q" and "espGuarded B Q t"
  shows "\<exists>rs t'. espPosts L cfg reqs t = Some (rs, t') \<and> length rs = length reqs \<and> espGuarded B Q t'"
  using assms(3)
proof (induction reqs arbitrary: t)
  case (Cons q reqs)
  obtain url hs body where q: "q = (url, hs, body)" by (metis prod_cases3)
  obtain r s where p: "espPost L cfg url hs body t = Some (r, s)"
    using espPost_ends [OF assms(1)] by fastforce
  show ?case using Cons.IH [OF espPost_guarded [OF assms(2) Cons.prems p]] p q by auto
qed simp


text \<open>A device with a certificate file: its state has the certificate the client trusts, what is left
  to read of the file, and for every \<open>POST\<close> whether there was a certificate.\<close>

record traced_client =
  tcTrusted :: "bytes option"
  tcLeft :: bytes
  tcPosts :: "bool list"

definition tracedEsp :: "(unit, traced_client) esp_lib" where
  "tracedEsp =
     \<lparr>el_wifiConnected = (\<lambda>l. (True, l)), el_open = (\<lambda>p l. (Some (), l\<lparr>tcLeft := [67, 65]\<rparr>)),
      el_available = (\<lambda>h l. (tcLeft l \<noteq> [], l)), el_read = (\<lambda>h l. (hd (tcLeft l), l\<lparr>tcLeft := tl (tcLeft l)\<rparr>)),
      el_closeFile = (\<lambda>h l. l), el_setInsecure = (\<lambda>l. l), el_setCACert = (\<lambda>c l. l\<lparr>tcTrusted := Some c\<rparr>),
      el_stop = (\<lambda>l. l), el_begin = (\<lambda>u l. (True, l)), el_setTimeout = (\<lambda>n l. l), el_setReuse = (\<lambda>b l. l),
      el_setUserAgent = (\<lambda>a l. l), el_setFollowRedirects = (\<lambda>b l. l), el_addHeader = (\<lambda>n v l. l),
      el_POST = (\<lambda>b l. (200, l\<lparr>tcPosts := tcPosts l @ [tcTrusted l \<noteq> None]\<rparr>)),
      el_getString = (\<lambda>l. ([], l)), el_end = (\<lambda>l. l), el_ERROR_READ_TIMEOUT = - 11,
      el_ERROR_CONNECTION_REFUSED = - 1, el_ERROR_CONNECTION_LOST = - 5, el_ERROR_NOT_CONNECTED = - 4\<rparr>"

definition sampleEspConfig :: "traced_client esp_config" where
  "sampleEspConfig = \<lparr>ecCommon = default_transport_config, ecCaCertPath = Some (chars ''/ca.pem''),
     ecCaCertFileSystem = True, ecNetworkReady = None\<rparr>"

lemma tracedEsp_reads: "\<exists>y. readAvailable tracedEsp h c l = Some y"
  by (induction "length (tcLeft l)" arbitrary: c l)
    (subst readAvailable.simps, force simp: tracedEsp_def Let_def)+


end
