(* ===== verification/Compaction_Steps.thy ===== *)
theory Compaction_Steps
  imports Store_Correct "HOL-Library.Multiset"
begin

text \<open>
  The phases of \<open>compactRange\<close> (\<open>append_log_store/compaction.cpp\<close>) one by one: collecting the
  live records of a range gives their payloads in queue order, packing distributes them over new
  generations without exceeding a segment, building and writing the segments puts exactly their
  ENQUEUE events on disk, and the new ranges list the new segments in place of the old ones.
\<close>

section \<open>Records of a log fit its segments\<close>

text \<open>An index entry comes from an ENQUEUE or REWRITE event of the log.\<close>

definition stores :: "located \<Rightarrow> segment_record \<Rightarrow> bool" where
  "stores e r \<longleftrightarrow> (\<exists>q p. (snd (snd e) = LogEnqueue q p \<or> snd (snd e) = LogRewrite q p)
     \<and> r = recordAt (fst e) (fst (snd e)) q p)"

lemma rewriteFirst_mem:
  "r \<in> set (rewriteFirst new rs) \<Longrightarrow> r \<in> set rs \<or> r = new"
  by (induction rs) (auto split: if_splits)

lemma indexEvent_mem: "r \<in> set (indexEvent g off ev rs) \<Longrightarrow> r \<in> set rs \<or> stores (g, off, ev) r"
  by (cases ev) (auto simp: stores_def insertBySequence_set dest: rewriteFirst_mem list.set_sel(2)
      split: if_splits)

lemma indexLog_mem: "r \<in> set (indexLog evs rs) \<Longrightarrow> r \<in> set rs \<or> (\<exists>e \<in> set evs. stores e r)"
proof (induction evs arbitrary: rs)
  case (Cons e evs)
  then show ?case by (cases e) (fastforce dest: indexEvent_mem)
qed simp

lemma locate_mem: "e \<in> set (locate g off evs) \<Longrightarrow> snd (snd e) \<in> set evs"
  by (induction evs arbitrary: off) auto

lemma eventSize_le: "ev \<in> set evs \<Longrightarrow> eventSize ev \<le> length (encodeEvents evs)"
  by (induction evs) auto

lemma live_fits:
  assumes inv: "storeInv cfg v segs s" and r: "r \<in> set (records s)"
  shows "unat (srPayloadBytes r) \<le> maxRecordBytes cfg \<and> 44 + unat (srPayloadBytes r) \<le> maxReplayBytes"
proof -
  have "r \<in> set (indexLog (locSegs segs) [])" using inv r by (simp add: storeInv_def)
  then obtain e where e: "e \<in> set (locSegs segs)" "stores e r" by (auto dest: indexLog_mem)
  then obtain sg where sg: "sg \<in> set segs" "snd (snd e) \<in> set (segEvents sg)"
    by (auto simp: locSegs_def dest: locate_mem)
  have f: "segFits cfg sg" using inv sg by (simp add: storeInv_def logOnDisk_def)
  obtain q p where p: "snd (snd e) = LogEnqueue q p \<or> snd (snd e) = LogRewrite q p"
      "srPayloadBytes r = word_of_nat (length p)"
    using e(2) by (auto simp: stores_def recordAt_def)
  have "eventFits cfg (snd (snd e))" "eventSize (snd (snd e)) \<le> length (encodeEvents (segEvents sg))"
    using f sg(2) by (auto simp: segFits_def eventSize_le)
  then have l: "length p \<le> maxRecordBytes cfg" "44 + length p \<le> maxReplayBytes"
    using p(1) f by (auto simp: segFits_def length_segBytes)
  moreover from this have "unat (srPayloadBytes r) = length p"
    using p(2) by (simp add: unat_word_u32)
  ultimately show ?thesis by simp
qed

text \<open>The payload of an index entry, as the file holds it.\<close>

definition cutRecord :: "bytes \<Rightarrow> segment_record \<Rightarrow> live_record" where
  "cutRecord buf r = \<lparr>lrSequence = srSequence r,
     lrPayload = take (unat (srPayloadBytes r)) (drop (unat (srPayloadOffset r)) buf)\<rparr>"

definition liveOf :: "(string \<Rightarrow> bytes option) \<Rightarrow> segment_record \<Rightarrow> live_record" where
  "liveOf v r = cutRecord (the (v (segmentName (srGeneration r)))) r"

lemma liveOf_sequence [simp]: "lrSequence (liveOf v r) = srSequence r"
  by (simp add: liveOf_def cutRecord_def)

lemma liveOf_denotes: "denotes v r x \<Longrightarrow> lrPayload (liveOf v r) = snd x \<and> srSequence r = fst x"
  by (auto simp: denotes_def holdsPayload_def liveOf_def cutRecord_def)

text \<open>The file of an index entry, and the place of its payload in it.\<close>

definition placed :: "(string \<Rightarrow> bytes option) \<Rightarrow> segment_record \<Rightarrow> bool" where
  "placed v r \<longleftrightarrow> (\<exists>c. v (segmentName (srGeneration r)) = Some c \<and> length c \<le> maxReplayBytes
     \<and> unat (srPayloadOffset r) + unat (srPayloadBytes r) \<le> length c)"

lemma live_placed:
  assumes inv: "storeInv cfg v segs s" and r: "r \<in> set (records s)"
  shows "placed v r"
proof -
  have "\<exists>x. denotes v r x"
    using storeInv_denotes [OF inv] r unfolding list_all2_conv_all_nth in_set_conv_nth by metis
  then obtain x where d: "denotes v r x" ..
  obtain sg where sg: "sg \<in> set segs" "srGeneration r = segGen sg"
    using storeInv_gens [OF inv r] by auto
  have "v (segmentName (segGen sg)) = Some (segBytes sg)"
  proof -
    have "segsOnDisk v segs []" using inv by (simp add: storeInv_def logOnDisk_def)
    then show ?thesis using sg(1) by (induction segs) auto
  qed
  moreover have "length (segBytes sg) \<le> maxReplayBytes"
    using inv sg by (simp add: storeInv_def logOnDisk_def segFits_def)
  ultimately show ?thesis
    using d sg by (auto simp: placed_def denotes_def holdsPayload_def)
qed

section \<open>Collecting\<close>

lemma cutRecords_live:
  assumes "length buf \<le> maxReplayBytes"
    and "\<forall>r \<in> set rs. unat (srPayloadOffset r) + unat (srPayloadBytes r) \<le> length buf"
  shows "cutRecords buf rs = Some (success, map (cutRecord buf) rs)"
  using assms(2)
proof (induction rs)
  case (Cons r rs)
  then have le: "unat (srPayloadOffset r) + unat (srPayloadBytes r) \<le> length buf" by simp
  have "unat (srPayloadOffset r + srPayloadBytes r) = unat (srPayloadOffset r) + unat (srPayloadBytes r)"
    using le assms(1) by (simp add: unat_word_ariths)
  then show ?case using Cons le by (simp add: cutRecord_def)
qed simp

context readable_file_system
begin

lemma collectGens_live:
  assumes "readable (world s)" and "view (world s) = v"
    and "\<forall>r \<in> set rs. placed v r" and "set gens \<subseteq> srGeneration ` set rs"
  shows "\<exists>w. collectGens F rs gens s
      = Some ((success, concat (map (\<lambda>g. map (liveOf v) (filter (\<lambda>r. srGeneration r = g) rs)) gens)),
          s\<lparr>world := w\<rparr>)
    \<and> view w = v \<and> readable w"
  using assms(1,2,4)
proof (induction gens arbitrary: s)
  case Nil
  then show ?case by (intro exI [of _ "world s"]) simp
next
  case (Cons g gens)
  obtain r0 where r0: "r0 \<in> set rs" "srGeneration r0 = g" using Cons.prems(3) by auto
  obtain c where c: "v (segmentName g) = Some c" "length c \<le> maxReplayBytes"
    using assms(3) r0 by (auto simp: placed_def)
  obtain st buf w where rd: "fs_readFile F (segmentName g) (world s) = ((st, buf), w)"
    by (metis prod.collapse)
  have w: "ok st" "readable w" "view w = v" "buf = c"
    using readable_read [OF Cons.prems(1) rd] read_view [OF rd] Cons.prems(2) c by auto
  let ?here = "filter (\<lambda>r. srGeneration r = g) rs"
  have cut: "cutRecords buf ?here = Some (success, map (cutRecord buf) ?here)"
    using assms(3) c w by (intro cutRecords_live) (auto simp: placed_def)
  have live: "map (cutRecord buf) ?here = map (liveOf v) ?here"
    using c w by (simp add: liveOf_def)
  obtain w' where "collectGens F rs gens (s\<lparr>world := w\<rparr>)
      = Some ((success, concat (map (\<lambda>g. map (liveOf v) (filter (\<lambda>r. srGeneration r = g) rs)) gens)),
          s\<lparr>world := w'\<rparr>)" "view w' = v" "readable w'"
    using Cons.IH [of "s\<lparr>world := w\<rparr>"] Cons.prems(3) w by auto
  then show ?case using rd w cut live by (auto simp: onWorld_def)
qed

end

text \<open>Grouping by generation and sorting by sequence number restores the order of the queue.\<close>

lemma mset_by_gens:
  assumes "distinct gens" and "srGeneration ` set rs \<subseteq> set gens"
  shows "mset (concat (map (\<lambda>g. map f (filter (\<lambda>r. srGeneration r = g) rs)) gens)) = mset (map f rs)"
  using assms
proof (induction gens arbitrary: rs)
  case (Cons g gens)
  let ?rest = "filter (\<lambda>r. srGeneration r \<noteq> g) rs"
  have "map (\<lambda>h. map f (filter (\<lambda>r. srGeneration r = h) rs)) gens
      = map (\<lambda>h. map f (filter (\<lambda>r. srGeneration r = h) ?rest)) gens"
    using Cons.prems(1) by (auto simp: conj_commute intro!: arg_cong [of _ _ "map f"] filter_cong)
  moreover have "mset (concat (map (\<lambda>h. map f (filter (\<lambda>r. srGeneration r = h) ?rest)) gens))
      = mset (map f ?rest)"
    using Cons.prems by (intro Cons.IH) auto
  moreover have "mset rs = filter_mset (\<lambda>r. srGeneration r = g) (mset rs)
      + filter_mset (\<lambda>r. srGeneration r \<noteq> g) (mset rs)"
    by (rule multiset_partition)
  then have "mset (map f rs) = mset (map f (filter (\<lambda>r. srGeneration r = g) rs)) + mset (map f ?rest)"
    by (simp flip: image_mset_union)
  ultimately show ?case by (simp only: list.map concat.simps mset_append)
qed simp

lemma sort_key_sorted_mset:
  assumes "mset ys = mset xs" and "sorted_wrt (<) (map k xs)"
  shows "sort_key k ys = xs"
proof -
  have s: "sorted (map k xs)" using assms(2) strict_sorted_iff by blast
  have d: "distinct (map k xs)" using assms(2) strict_sorted_iff by blast
  have "filter (\<lambda>x. k z = k x) ys = filter (\<lambda>x. k z = k x) xs" for z
  proof -
    have m: "mset (filter (\<lambda>x. k z = k x) ys) = mset (filter (\<lambda>x. k z = k x) xs)"
      using assms(1) by (simp add: mset_filter)
    have "length (filter (\<lambda>x. k z = k x) xs) \<le> 1"
    proof -
      have "distinct (map k (filter (\<lambda>x. k z = k x) xs))" using d by (rule distinct_map_filter)
      then show ?thesis
        by (cases "filter (\<lambda>x. k z = k x) xs" rule: remdups_adj.cases)
          (auto dest!: Cons_eq_filterD filter_eq_ConsD)
    qed
    then consider "filter (\<lambda>x. k z = k x) xs = []" | a where "filter (\<lambda>x. k z = k x) xs = [a]"
      by (cases "filter (\<lambda>x. k z = k x) xs") auto
    then show ?thesis
    proof cases
      case 1
      then show ?thesis using m by (simp del: mset_filter)
    next
      case 2
      then have "mset (filter (\<lambda>x. k z = k x) ys) = {#a#}" using m by (simp del: mset_filter)
      then show ?thesis using 2 by (simp del: mset_filter)
    qed
  qed
  then show ?thesis using s assms(1) by (intro properties_for_sort_key) auto
qed

context readable_file_system
begin

lemma collectLiveRecords_live:
  assumes inv: "storeInv cfg (view (world s)) segs s" and r: "readable (world s)"
    and srt: "seqSorted (records s)"
  shows "\<exists>w. collectLiveRecords F rg s = Some ((success, map (liveOf (view (world s)))
      (filter (\<lambda>r. inRange (startGen rg) (endGen rg) (srGeneration r)) (records s))), s\<lparr>world := w\<rparr>)
    \<and> view w = view (world s) \<and> readable w"
proof -
  let ?v = "view (world s)"
  define rs where "rs = filter (\<lambda>r. inRange (startGen rg) (endGen rg) (srGeneration r)) (records s)"
  define gens where "gens = sort (remdups (map srGeneration rs))"
  have p: "\<forall>r \<in> set rs. placed ?v r" using live_placed [OF inv] by (simp add: rs_def)
  have g: "set gens = srGeneration ` set rs" "distinct gens" by (simp_all add: gens_def)
  obtain w where w: "collectGens F rs gens s
      = Some ((success, concat (map (\<lambda>g. map (liveOf ?v) (filter (\<lambda>r. srGeneration r = g) rs)) gens)),
          s\<lparr>world := w\<rparr>)" "view w = ?v" "readable w"
    using collectGens_live [OF r refl p, of gens] g(1) by (auto simp: comp_def)
  have "sorted_wrt (<) (map srSequence rs)"
    using srt by (simp add: seqSorted_def rs_def sorted_wrt_map sorted_wrt_filter)
  then have "sorted_wrt (<) (map lrSequence (map (liveOf ?v) rs))" by (simp add: comp_def)
  then have "sort_key lrSequence (concat (map (\<lambda>g. map (liveOf ?v)
      (filter (\<lambda>r. srGeneration r = g) rs)) gens)) = map (liveOf ?v) rs"
    using mset_by_gens [OF g(2), of rs "liveOf ?v"] g(1) by (intro sort_key_sorted_mset) simp_all
  then show ?thesis
    using w by (intro exI [of _ w])
      (simp add: collectLiveRecords_def rs_def [symmetric] gens_def [symmetric])
qed

end

section \<open>Packing\<close>

text \<open>The bytes of a segment with the records \<open>lrs\<close>.\<close>

definition packedSize :: "live_record list \<Rightarrow> nat" where
  "packedSize lrs = 20 + (\<Sum>lr \<leftarrow> lrs. 24 + length (lrPayload lr))"

lemma packedSize_simps [simp]:
  "packedSize [] = 20" "packedSize (xs @ [lr]) = packedSize xs + (24 + length (lrPayload lr))"
  by (simp_all add: packedSize_def)

abbreviation recBytes :: "live_record \<Rightarrow> u32" where
  "recBytes lr \<equiv> kEnqueueOverheadBytes + word_of_nat (length (lrPayload lr))"

lemma unat_recBytes: "44 + length (lrPayload lr) \<le> maxReplayBytes \<Longrightarrow>
  unat (recBytes lr) = 24 + length (lrPayload lr)"
  by (simp add: kEnqueueOverheadBytes_def kEnqueueHeaderBytes_def kEventTrailerBytes_def
      unat_word_ariths unat_word_u32)

lemma packOutput_records: "concat (map snd (packOutput cfg g sb cur lrs)) = cur @ lrs"
  by (induction cfg g sb cur lrs rule: packOutput.induct) (auto simp: Let_def)

lemma packOutput_not_Nil [simp]: "packOutput cfg g sb cur lrs \<noteq> []"
  by (induction cfg g sb cur lrs rule: packOutput.induct) (auto simp: Let_def)

lemma packOutput_gens:
  "map fst (packOutput cfg g sb cur lrs)
   = map (\<lambda>i. g + word_of_nat i) [0..<length (packOutput cfg g sb cur lrs)]"
proof (induction cfg g sb cur lrs rule: packOutput.induct)
  case (2 cfg g sb cur lr lrs)
  have shift: "map (\<lambda>i. g + 1 + word_of_nat i) [0..<n] = map (\<lambda>i. g + word_of_nat i) [Suc 0..<Suc n]" for n
    by (simp add: map_Suc_upt [symmetric] add.assoc del: upt_Suc)
  show ?case
  proof (cases "cur \<noteq> [] \<and> sb + recBytes lr > maxSegmentBytes cfg")
    case True
    define n where "n = length (packOutput cfg (g + 1) (kSegmentHeaderBytes + recBytes lr) [lr] lrs)"
    have "map fst (packOutput cfg (g + 1) (kSegmentHeaderBytes + recBytes lr) [lr] lrs)
        = map (\<lambda>i. g + word_of_nat i) [Suc 0..<Suc n]"
      using 2(1) [OF refl True] unfolding shift [symmetric] n_def .
    moreover have "g # map (\<lambda>i. g + word_of_nat i) [Suc 0..<Suc n]
        = map (\<lambda>i. g + word_of_nat i) [0..<Suc n]"
      by (simp add: upt_conv_Cons del: upt_Suc)
    ultimately show ?thesis using True by (simp add: n_def del: upt_Suc)
  next
    case False
    then show ?thesis using 2(2) [OF refl False] by auto
  qed
qed simp

lemma packOutput_nonempty:
  "cur \<noteq> [] \<or> lrs \<noteq> [] \<Longrightarrow> x \<in> set (packOutput cfg g sb cur lrs) \<Longrightarrow> snd x \<noteq> []"
  by (induction cfg g sb cur lrs rule: packOutput.induct) (auto simp: Let_def split: if_splits)

lemma packOutput_fits:
  assumes "\<forall>lr \<in> set lrs. 44 + length (lrPayload lr) \<le> maxReplayBytes"
    and "unat (maxSegmentBytes cfg) \<le> maxReplayBytes"
    and "unat sb = packedSize cur" and "packedSize cur \<le> maxReplayBytes"
    and "x \<in> set (packOutput cfg g sb cur lrs)"
  shows "packedSize (snd x) \<le> maxReplayBytes"
  using assms
proof (induction cfg g sb cur lrs rule: packOutput.induct)
  case (2 cfg g sb cur lr lrs)
  have lr: "44 + length (lrPayload lr) \<le> maxReplayBytes" using 2(3) by simp
  note u = unat_recBytes [OF lr]
  show ?case
  proof (cases "cur \<noteq> [] \<and> sb + recBytes lr > maxSegmentBytes cfg")
    case True
    have "unat (kSegmentHeaderBytes + recBytes lr) = packedSize [lr]"
      using u lr by (simp add: packedSize_def kSegmentHeaderBytes_def unat_word_ariths)
    moreover have "packedSize [lr] \<le> maxReplayBytes" using lr by (simp add: packedSize_def)
    ultimately show ?thesis using 2(1) [OF refl True] 2(3-7) True by auto
  next
    case False
    have s: "unat (sb + recBytes lr) = packedSize (cur @ [lr])"
      using u lr 2(5,6) by (simp add: unat_word_ariths)
    have "packedSize (cur @ [lr]) \<le> maxReplayBytes"
    proof (cases "cur = []")
      case True
      then show ?thesis using lr by (simp add: packedSize_def)
    next
      case cur: False
      then have "unat (sb + recBytes lr) \<le> unat (maxSegmentBytes cfg)"
        using False by (simp add: word_le_nat_alt not_less)
      then show ?thesis using s 2(4) by simp
    qed
    then show ?thesis using 2(2) [OF refl False] 2(3,4,7) s False by auto
  qed
qed simp

text \<open>The preflight predicts at least as many segments as the packing makes.\<close>

lemma hypoOutputSegs_count:
  assumes "cur = [] \<Longrightarrow> sb = kSegmentHeaderBytes"
  shows "\<exists>k. hypoOutputSegs cfg segs sb (map (\<lambda>lr. word_of_nat (length (lrPayload lr))) lrs)
        = segs + word_of_nat k
     \<and> (\<forall>g. length (packOutput cfg g sb cur lrs) \<le> Suc k) \<and> k \<le> length lrs"
  using assms
proof (induction lrs arbitrary: segs sb cur)
  case Nil
  show ?case by (intro exI [of _ 0]) simp
next
  case (Cons lr lrs)
  show ?case
  proof (cases "sb + recBytes lr > maxSegmentBytes cfg")
    case full: True
    obtain k where k: "hypoOutputSegs cfg (segs + 1) (kSegmentHeaderBytes + recBytes lr)
         (map (\<lambda>lr. word_of_nat (length (lrPayload lr))) lrs) = segs + 1 + word_of_nat k"
      "\<forall>g. length (packOutput cfg g (kSegmentHeaderBytes + recBytes lr) [lr] lrs) \<le> Suc k"
      "k \<le> length lrs"
      using Cons.IH [of "[lr]" "kSegmentHeaderBytes + recBytes lr" "segs + 1"] by auto
    show ?thesis
    proof (intro exI [of _ "Suc k"] conjI allI)
      fix g
      show "length (packOutput cfg g sb cur (lr # lrs)) \<le> Suc (Suc k)"
        using k(2) full Cons.prems by (cases "cur = []") (auto simp: Let_def intro: le_SucI)
    qed (use k full in \<open>simp_all add: Let_def\<close>)
  next
    case False
    then show ?thesis
      using Cons.IH [of "cur @ [lr]" "sb + recBytes lr" segs] by (auto simp: Let_def intro: le_SucI)
  qed
qed

section \<open>Building and writing\<close>

abbreviation enqueueEvents :: "live_record list \<Rightarrow> log_event list" where
  "enqueueEvents \<equiv> map (\<lambda>lr. LogEnqueue (lrSequence lr) (lrPayload lr))"

definition outSegment :: "u32 \<times> live_record list \<Rightarrow> segment" where
  "outSegment x = (fst x, lrSequence (hd (snd x)), enqueueEvents (snd x))"

lemma outSegment_sel [simp]:
  "segGen (outSegment x) = fst x" "segEvents (outSegment x) = enqueueEvents (snd x)"
  by (simp_all add: outSegment_def)

lemma length_outSegment: "length (segBytes (outSegment x)) = packedSize (snd x)"
proof -
  have "length (encodeEvents (enqueueEvents lrs)) = (\<Sum>lr \<leftarrow> lrs. 24 + length (lrPayload lr))" for lrs
  proof (induction lrs)
    case (Cons lr lrs)
    then show ?case
      using length_encodeEvent [of "LogEnqueue (lrSequence lr) (lrPayload lr)"] by simp
  qed simp
  then show ?thesis by (simp add: length_segBytes packedSize_def)
qed

definition isEnqueue :: "log_event \<Rightarrow> bool" where
  "isEnqueue ev \<longleftrightarrow> (\<exists>q p. ev = LogEnqueue q p)"

text \<open>ENQUEUE events only append to the index and to the queue.\<close>

lemma indexLog_enqueues:
  "\<forall>e \<in> set evs. isEnqueue (snd (snd e)) \<Longrightarrow> indexLog evs rs = rs @ indexLog evs []"
proof (induction evs arbitrary: rs)
  case (Cons e evs)
  then obtain g off q p where e: "e = (g, off, LogEnqueue q p)"
    by (cases e) (auto simp: isEnqueue_def)
  have all: "\<forall>e \<in> set evs. isEnqueue (snd (snd e))" using Cons.prems by simp
  show ?case
    using Cons.IH [OF all, of "rs @ [recordAt g off q p]"] Cons.IH [OF all, of "[recordAt g off q p]"]
    by (simp add: e)
qed simp

lemma orderedLog_enqueues:
  "\<forall>e \<in> set evs. isEnqueue (snd (snd e)) \<Longrightarrow> seqSorted (indexLog evs rs) \<Longrightarrow> orderedLog evs rs"
proof (induction evs arbitrary: rs)
  case (Cons e evs)
  then obtain g off q p where e: "e = (g, off, LogEnqueue q p)"
    by (cases e) (auto simp: isEnqueue_def)
  have o: "orderedLog evs (rs @ [recordAt g off q p])" using Cons e by simp
  from orderedLog_start [OF o] have "seqSorted rs" by simp
  then show ?case using o by (simp add: e)
qed simp

lemma locate_enqueues: "e \<in> set (locate g off (enqueueEvents lrs)) \<Longrightarrow> isEnqueue (snd (snd e))"
  using locate_mem [of e g off "enqueueEvents lrs"] by (auto simp: isEnqueue_def)

lemma locate_sequences: "map srSequence (indexLog (locate g off (enqueueEvents lrs)) []) = map lrSequence lrs"
proof (induction lrs arbitrary: off)
  case (Cons lr lrs)
  show ?case
    using Cons indexLog_enqueues [of "locate g (off + word_of_nat (24 + length (lrPayload lr))) (enqueueEvents lrs)"
        "[recordAt g off (lrSequence lr) (lrPayload lr)]"] locate_enqueues by fastforce
qed simp

lemma absEvents_enqueues: "absEvents (enqueueEvents lrs) xs = xs @ map (\<lambda>lr. (lrSequence lr, lrPayload lr)) lrs"
  by (induction lrs arbitrary: xs) auto

lemma buildSegment_events:
  "buildSegment g off lrs = (encodeEvents (enqueueEvents lrs), indexLog (locate g off (enqueueEvents lrs)) [])"
proof (induction lrs arbitrary: off)
  case (Cons lr lrs)
  have off: "off + (kEnqueueOverheadBytes + word_of_nat (length (lrPayload lr)))
      = off + word_of_nat (24 + length (lrPayload lr))"
    by (simp add: kEnqueueOverheadBytes_def kEnqueueHeaderBytes_def kEventTrailerBytes_def)
  have "indexLog (locate g (off + word_of_nat (24 + length (lrPayload lr))) (enqueueEvents lrs)) [r]
      = r # indexLog (locate g (off + word_of_nat (24 + length (lrPayload lr))) (enqueueEvents lrs)) []" for r
    using locate_enqueues by (subst indexLog_enqueues) auto
  then show ?case by (simp add: Cons off Let_def recordAt_def)
qed simp

text \<open>The index and the queue of freshly written segments.\<close>

lemma outSegments_index:
  "indexLog (locSegs (map outSegment out)) []
   = concat (map (\<lambda>x. indexLog (locate (fst x) kSegmentHeaderBytes (enqueueEvents (snd x))) []) out)"
proof (induction out)
  case (Cons x out)
  have "\<forall>e \<in> set (locSegs (map outSegment out)). isEnqueue (snd (snd e))"
    by (auto simp: locSegs_def dest: locate_enqueues)
  note app = indexLog_enqueues [OF this, of "indexLog (locate (fst x) kSegmentHeaderBytes (enqueueEvents (snd x))) []"]
  show ?case
    by (simp only: list.map locSegs_simps outSegment_sel indexLog_simps app concat.simps Cons.IH)
qed simp

lemma outSegments_sequences:
  "map srSequence (indexLog (locSegs (map outSegment out)) []) = map lrSequence (concat (map snd out))"
  by (simp add: outSegments_index map_concat locate_sequences comp_def)

lemma outSegments_events: "logEvents (map outSegment out) = enqueueEvents (concat (map snd out))"
  by (simp add: logEvents_def map_concat comp_def)

lemma outSegments_ordered:
  "sorted_wrt (<) (map lrSequence (concat (map snd out))) \<Longrightarrow> orderedLog (locSegs (map outSegment out)) []"
  using outSegments_sequences [of out]
  by (intro orderedLog_enqueues) (auto simp: locSegs_def [of "map outSegment out"] seqSorted_def
      dest: locate_enqueues)

text \<open>Files other than those of the generations \<open>D\<close> are as before.\<close>

definition changesOnly ::
  "u32 set \<Rightarrow> (string \<Rightarrow> bytes option) \<Rightarrow> (string \<Rightarrow> bytes option) \<Rightarrow> bool" where
  "changesOnly D v v' \<longleftrightarrow> (\<forall>name. name \<notin> segmentName ` D \<longrightarrow> v' name = v name)"

lemma changesOnly_refl [simp]: "changesOnly D v v"
  by (simp add: changesOnly_def)

lemma changesOnly_trans: "changesOnly D v v' \<Longrightarrow> changesOnly D v' v'' \<Longrightarrow> changesOnly D v v''"
  by (simp add: changesOnly_def)

lemma changesOnly_mono: "changesOnly D v v' \<Longrightarrow> D \<subseteq> D' \<Longrightarrow> changesOnly D' v v'"
  by (auto simp: changesOnly_def)

lemma changesOnly_upd: "g \<in> D \<Longrightarrow> changesOnly D v (v(segmentName g := x))"
  by (auto simp: changesOnly_def)

lemma changesOnly_slot: "changesOnly D v v' \<Longrightarrow> v' (slotName sl) = v (slotName sl)"
  using isSegmentName_slot [of sl] unfolding changesOnly_def
  by (metis imageE isSegmentName_segmentName option.distinct(1))

lemma changesOnly_segment: "changesOnly D v v' \<Longrightarrow> g \<notin> D \<Longrightarrow> v' (segmentName g) = v (segmentName g)"
  unfolding changesOnly_def by (metis imageE isSegmentName_segmentName option.inject)

lemma changesOnly_elected: "changesOnly D v v' \<Longrightarrow> electedManifest v' = electedManifest v"
  by (simp add: electedManifest_def slotManifest_def changesOnly_slot)

lemma changesOnly_cacheWins: "changesOnly D v v' \<Longrightarrow> cacheWins v' s = cacheWins v s"
  by (simp add: cacheWins_def slotManifest_def changesOnly_slot changesOnly_elected electedEpoch_def)

lemma changesOnly_segs:
  "changesOnly D v v' \<Longrightarrow> D \<inter> segGen ` set segs = {} \<Longrightarrow> segsOnDisk v' segs t = segsOnDisk v segs t"
  by (intro segsOnDisk_cong changesOnly_segment) blast+

lemma logOnDisk_changesOnly:
  assumes l: "logOnDisk cfg v segs t" and c: "changesOnly D v v'"
    and d: "D \<inter> segGen ` set segs = {}" "0xffffffff \<notin> D" and e: "electedManifest v \<noteq> None"
  shows "logOnDisk cfg v' segs t"
proof -
  have "canonicalNames v'"
    unfolding canonicalNames_def
  proof (intro allI impI, elim conjE)
    fix name g assume "v' name \<noteq> None" and g: "isSegmentName name = Some g"
    show "name = segmentName g"
    proof (cases "name \<in> segmentName ` D")
      case True
      then show ?thesis using g by auto
    next
      case False
      then have "v name \<noteq> None" using c \<open>v' name \<noteq> None\<close> by (simp add: changesOnly_def)
      then show ?thesis using l g by (auto simp: logOnDisk_def canonicalNames_def)
    qed
  qed
  then show ?thesis
    using l e d changesOnly_segment [OF c d(2)]
    by (auto simp: logOnDisk_def changesOnly_elected [OF c] changesOnly_segs [OF c d(1)])
qed

context readable_file_system
begin

lemma writeOutputs_cases:
  assumes "distinct (map fst out)" and "readable (world s)"
    and "writeOutputs F out s = ((st, rs), s')"
  shows "\<exists>w t sb. s' = s\<lparr>world := w, totalOnDiskBytes := t, sealedSegmentBytes := sb\<rparr> \<and> readable w
    \<and> changesOnly (fst ` set out) (view (world s)) (view w)
    \<and> (ok st \<longrightarrow> segsOnDisk (view w) (map outSegment out) []
         \<and> rs = concat (map (\<lambda>x. indexLog (locate (fst x) kSegmentHeaderBytes (enqueueEvents (snd x))) []) out))"
  using assms
proof (induction out arbitrary: s rs)
  case Nil
  then show ?case
    by (intro exI [of _ "world s"] exI [of _ "totalOnDiskBytes s"] exI [of _ "sealedSegmentBytes s"]) auto
next
  case (Cons x out)
  obtain g lrs where x: "x = (g, lrs)" by fastforce
  let ?data = "segBytes (outSegment x)"
  obtain st1 s1 where w: "writeSegmentFileTracked F (segmentName g) ?data MustBeNew s = (st1, s1)"
    by fastforce
  have data: "serializeSegmentHeader g (lrSequence (hd lrs)) @ encodeEvents (enqueueEvents lrs) = ?data"
    by (simp add: x outSegment_def segBytes_def)
  have r1: "readable (world s1)" by (rule writeTracked_readable [OF w Cons.prems(2)])
  show ?case
  proof (cases "ok st1")
    case False
    obtain w1 where w1: "partialWrite (view (world s)) (segmentName g) ?data (view w1)" "s1 = s\<lparr>world := w1\<rparr>"
      using writeTracked_fail [OF w False] by blast
    have "st = st1" "s' = s1"
      using Cons.prems(3) w False by (auto simp: x buildSegment_events data)
    then show ?thesis
      using False w1 r1
      by (intro exI [of _ w1] exI [of _ "totalOnDiskBytes s"] exI [of _ "sealedSegmentBytes s"])
        (auto simp: partialWrite_def x intro!: changesOnly_upd)
  next
    case True
    obtain w1 t1 sb1 where w1: "view w1 = (view (world s))(segmentName g := Some ?data)"
        "s1 = s\<lparr>world := w1, totalOnDiskBytes := t1, sealedSegmentBytes := sb1\<rparr>"
      using writeTracked_ok [OF w True] by blast
    obtain rs2 where rest: "writeOutputs F out s1 = ((st, rs2), s')"
        "rs = indexLog (locate g kSegmentHeaderBytes (enqueueEvents lrs)) [] @ rs2"
      using Cons.prems(3) w True by (auto simp: x buildSegment_events data split: prod.splits)
    obtain w2 t2 sb2 where ih: "s' = s1\<lparr>world := w2, totalOnDiskBytes := t2, sealedSegmentBytes := sb2\<rparr>"
        "readable w2" "changesOnly (fst ` set out) (view (world s1)) (view w2)"
        "ok st \<longrightarrow> segsOnDisk (view w2) (map outSegment out) []
          \<and> rs2 = concat (map (\<lambda>x. indexLog (locate (fst x) kSegmentHeaderBytes (enqueueEvents (snd x))) []) out)"
      using Cons.IH [OF _ r1 rest(1)] Cons.prems(1) by auto
    have g: "g \<notin> fst ` set out" using Cons.prems(1) by (simp add: x)
    have here: "view w2 (segmentName g) = Some ?data"
      using changesOnly_segment [OF ih(3) g] w1 by simp
    have "changesOnly (fst ` set (x # out)) (view (world s)) (view (world s1))"
      using w1 by (auto simp: x intro!: changesOnly_upd)
    moreover have "changesOnly (fst ` set (x # out)) (view (world s1)) (view w2)"
      by (rule changesOnly_mono [OF ih(3)]) auto
    ultimately have "changesOnly (fst ` set (x # out)) (view (world s)) (view w2)"
      by (rule changesOnly_trans)
    then show ?thesis
      using ih here w1(2) rest(2)
      by (intro exI [of _ w2] exI [of _ t2] exI [of _ sb2]) (auto simp: x)
  qed
qed

end

section \<open>The new ranges\<close>

lemma rangeGens_mem: "g \<in> set (rangeGens r) \<longleftrightarrow> inRange (startGen r) (endGen r) g"
proof
  assume "g \<in> set (rangeGens r)"
  then obtain n where n: "g = word_of_nat n" "unat (startGen r) \<le> n" "n \<le> unat (endGen r)"
    by (auto simp: rangeGens_def)
  then have "unat g = n" using u32_bound [of "endGen r"] by (simp add: unat_word_u32)
  then show "inRange (startGen r) (endGen r) g" using n by (simp add: inRange_def word_le_nat_alt)
next
  assume "inRange (startGen r) (endGen r) g"
  then have "unat g \<in> set [unat (startGen r)..<Suc (unat (endGen r))]"
    by (auto simp: inRange_def word_le_nat_alt)
  then have "(word_of_nat (unat g) :: u32) \<in> set (rangeGens r)"
    unfolding rangeGens_def by (simp only: set_map image_eqI)
  then show "g \<in> set (rangeGens r)" by simp
qed

lemma rangeGens_split:
  assumes "a \<le> b" and "b < e"
  shows "rangeGens \<lparr>startGen = a, endGen = e\<rparr>
    = rangeGens \<lparr>startGen = a, endGen = b\<rparr> @ rangeGens \<lparr>startGen = b + 1, endGen = e\<rparr>"
proof -
  have "b \<noteq> 0xffffffff" using assms(2) by (metis leD u32_le_max)
  then have b: "unat (b + 1) = Suc (unat b)" by (rule unat_Suc_u32)
  have "[unat a..<Suc (unat e)] = [unat a..<Suc (unat b)] @ [Suc (unat b)..<Suc (unat e)]"
    using assms upt_add_eq_append [of "unat a" "Suc (unat b)" "unat e - unat b"]
    by (simp add: word_le_nat_alt word_less_nat_alt)
  then show ?thesis by (simp add: rangeGens_def b)
qed

text \<open>Splicing at the front: the right remainder of the first range comes after the output.\<close>

definition frontSplice ::
  "manifest_range \<Rightarrow> u32 \<Rightarrow> manifest_range list \<Rightarrow> manifest_range list \<Rightarrow> manifest_range list" where
  "frontSplice r0 b rs output =
     output @ (if b < endGen r0 then [\<lparr>startGen = b + 1, endGen = endGen r0\<rparr>] else []) @ rs"

lemma spliceRanges_front:
  "spliceRanges (r0 # rs) 0 False (endGen input < endGen r0) input output
   = frontSplice r0 (endGen input) rs output"
  by (simp add: spliceRanges_def frontSplice_def)

lemma frontSplice_gens:
  assumes "startGen r0 \<le> b" and "b \<le> endGen r0"
  shows "rangeGens \<lparr>startGen = startGen r0, endGen = b\<rparr> @ concat (map rangeGens (frontSplice r0 b rs []))
      = concat (map rangeGens (r0 # rs))"
    and "concat (map rangeGens (frontSplice r0 b rs output))
      = concat (map rangeGens output) @ concat (map rangeGens (frontSplice r0 b rs []))"
proof -
  show "rangeGens \<lparr>startGen = startGen r0, endGen = b\<rparr> @ concat (map rangeGens (frontSplice r0 b rs []))
      = concat (map rangeGens (r0 # rs))"
  proof (cases "b < endGen r0")
    case True
    then show ?thesis
      using rangeGens_split [OF assms(1) True] by (simp add: frontSplice_def rangeGens_def)
  next
    case False
    then have "b = endGen r0" using assms(2) by simp
    then show ?thesis by (simp add: frontSplice_def rangeGens_def)
  qed
qed (simp add: frontSplice_def)

lemma frontSplice_wf:
  assumes "\<forall>r \<in> set (r0 # rs). wf_range r" and "\<forall>r \<in> set output. wf_range r"
  shows "\<forall>r \<in> set (frontSplice r0 b rs output). wf_range r"
proof -
  have "wf_range \<lparr>startGen = b + 1, endGen = endGen r0\<rparr>" if "b < endGen r0"
  proof -
    have "b \<noteq> 0xffffffff" using that by (metis leD u32_le_max)
    then have "unat (b + 1) = Suc (unat b)" by (rule unat_Suc_u32)
    then show ?thesis using that
      by (auto simp: wf_range_def word_le_nat_alt word_less_nat_alt u32_eq_unat)
  qed
  then show ?thesis using assms by (auto simp: frontSplice_def)
qed

lemma frontSplice_loadable:
  "loadable (r0 # rs) \<Longrightarrow> loadable output \<Longrightarrow> loadable (frontSplice r0 b rs output)"
  by (auto simp: loadable_def frontSplice_def)

lemma frontSplice_length:
  "length (frontSplice r0 b rs output) \<le> length output + length rs + (if b < endGen r0 then 1 else 0)"
  by (simp add: frontSplice_def)

text \<open>Merging adjacent ranges at the front changes neither the generations nor the form.\<close>

lemma mergeLeft_front [simp]: "mergeLeft 0 rs = rs"
  by (simp add: mergeLeft_def)

lemma mergeRight_front:
  assumes "\<forall>r \<in> set rs. wf_range r" and "loadable rs"
  shows "concat (map rangeGens (mergeRight 0 rs)) = concat (map rangeGens rs)"
    and "\<forall>r \<in> set (mergeRight 0 rs). wf_range r" and "loadable (mergeRight 0 rs)"
    and "length (mergeRight 0 rs) \<le> length rs"
proof -
  have "concat (map rangeGens (mergeRight 0 rs)) = concat (map rangeGens rs)
    \<and> (\<forall>r \<in> set (mergeRight 0 rs). wf_range r) \<and> loadable (mergeRight 0 rs)
    \<and> length (mergeRight 0 rs) \<le> length rs"
  proof (cases "\<exists>a b cs. rs = a # b # cs \<and> endGen a + 1 = startGen b")
    case True
    then obtain a b cs where rs: "rs = a # b # cs" "endGen a + 1 = startGen b" by blast
    have w: "startGen a \<le> endGen a" "startGen b \<le> endGen b" "startGen a \<noteq> 0" "endGen a \<noteq> 0xffffffff"
      using assms by (auto simp: rs wf_range_def loadable_def)
    have u: "unat (startGen b) = Suc (unat (endGen a))"
      using unat_Suc_u32 [OF w(4)] rs(2) by simp
    then have lt: "endGen a < endGen b" using w(2) by (simp add: word_le_nat_alt word_less_nat_alt)
    have "rangeGens (a\<lparr>endGen := endGen b\<rparr>) = rangeGens a @ rangeGens b"
      using rangeGens_split [OF w(1) lt] rs(2) by (simp add: rangeGens_def)
    moreover have "wf_range (a\<lparr>endGen := endGen b\<rparr>)" using w lt by (simp add: wf_range_def)
    ultimately show ?thesis using assms rs by (auto simp: mergeRight_def loadable_def)
  next
    case False
    then have "mergeRight 0 rs = rs" by (cases rs; cases "tl rs") (auto simp: mergeRight_def)
    then show ?thesis using assms by simp
  qed
  then show "concat (map rangeGens (mergeRight 0 rs)) = concat (map rangeGens rs)"
    and "\<forall>r \<in> set (mergeRight 0 rs). wf_range r" and "loadable (mergeRight 0 rs)"
    and "length (mergeRight 0 rs) \<le> length rs" by simp_all
qed

lemma rangeGens_upt:
  assumes "unat g + n < 4294967296" and "0 < n"
  shows "rangeGens \<lparr>startGen = g, endGen = g + word_of_nat (n - 1)\<rparr> = map (\<lambda>i. g + word_of_nat i) [0..<n]"
proof -
  have e: "unat (g + word_of_nat (n - 1)) = unat g + (n - 1)"
  proof -
    have "unat (word_of_nat (n - 1) :: u32) = n - 1" using assms by (intro unat_word_u32) simp
    then show ?thesis using assms by (simp add: unat_word_ariths del: of_nat_diff)
  qed
  have "[unat g..<unat g + n] = map (\<lambda>i. i + unat g) [0..<n]" by (simp add: map_add_upt add.commute)
  moreover have "rangeGens \<lparr>startGen = g, endGen = g + word_of_nat (n - 1)\<rparr>
      = map word_of_nat [unat g..<unat g + n]"
    using assms(2) unfolding rangeGens_def manifest_range.select_convs e by simp
  ultimately show ?thesis by (simp add: comp_def add.commute)
qed

section \<open>The new index\<close>

lemma find_unique: "x \<in> set xs \<Longrightarrow> P x \<Longrightarrow> \<forall>y \<in> set xs. P y \<longrightarrow> y = x \<Longrightarrow> find P xs = Some x"
proof (induction xs)
  case (Cons a xs)
  show ?case
  proof (cases "P a")
    case True
    then have "a = x" using Cons.prems(3) by (simp only: list.set insert_iff ball_simps)
    then show ?thesis using Cons.prems(2) by (simp only: find.simps if_True)
  next
    case False
    then have "x \<in> set xs" using Cons.prems(1,2) by (simp only: list.set insert_iff) blast
    moreover have "\<forall>y \<in> set xs. P y \<longrightarrow> y = x"
      using Cons.prems(3) by (simp only: list.set insert_iff ball_simps) blast
    ultimately have "find P xs = Some x" using Cons.prems(2) by (intro Cons.IH)
    then show ?thesis using False by (simp only: find.simps if_False)
  qed
qed simp

definition replaceRecord ::
  "compaction_range \<Rightarrow> segment_record list \<Rightarrow> segment_record \<Rightarrow> segment_record" where
  "replaceRecord rg reps r =
     (if \<not> inRange (startGen rg) (endGen rg) (srGeneration r) then r
      else case find (\<lambda>rep. srSequence rep = srSequence r) reps of None \<Rightarrow> r | Some rep \<Rightarrow> rep)"

lemma replaceRecords_map: "replaceRecords rg reps rs = map (replaceRecord rg reps) rs"
  unfolding replaceRecords_def replaceRecord_def [abs_def] ..

lemma replaceRecord_moves: "moves (set (rangeGens rg)) (replaceRecord rg reps)"
proof -
  have "srSequence (replaceRecord rg reps r) = srSequence r" for r
  proof (cases "find (\<lambda>rep. srSequence rep = srSequence r) reps")
    case (Some rep)
    then have "srSequence rep = srSequence r" unfolding find_Some_iff by blast
    then show ?thesis using Some by (simp add: replaceRecord_def)
  qed (simp add: replaceRecord_def)
  then show ?thesis by (simp add: moves_def replaceRecord_def rangeGens_mem)
qed

lemma replaceRecord_reps:
  assumes "map srSequence reps = map srSequence rs" and "seqSorted reps"
    and "\<forall>r \<in> set rs. inRange (startGen rg) (endGen rg) (srGeneration r)"
  shows "map (replaceRecord rg reps) rs = reps"
proof (rule nth_equalityI)
  show l: "length (map (replaceRecord rg reps) rs) = length reps"
    using arg_cong [OF assms(1), of length] by simp
  fix i assume "i < length (map (replaceRecord rg reps) rs)"
  then have i: "i < length rs" "i < length reps" using l by simp_all
  have q: "srSequence (rs ! i) = srSequence (reps ! i)"
    using arg_cong [OF assms(1), of "\<lambda>xs. xs ! i"] i by simp
  have "find (\<lambda>rep. srSequence rep = srSequence (rs ! i)) reps = Some (reps ! i)"
    using i seqSorted_inj [OF assms(2)] by (intro find_unique) (auto simp: q)
  then show "map (replaceRecord rg reps) rs ! i = reps ! i"
    using assms(3) i by (simp add: replaceRecord_def)
qed

lemma denotes_unique: "denotes v r x \<Longrightarrow> denotes v r y \<Longrightarrow> x = y"
  by (cases x; cases y) (auto simp: denotes_def holdsPayload_def)

lemma denotesAll_unique: "denotesAll v rs xs \<Longrightarrow> denotesAll v rs ys \<Longrightarrow> xs = ys"
  by (induction rs arbitrary: xs ys) (auto simp: list_all2_Cons1 dest: denotes_unique)

text \<open>The compacted log describes the same queue.\<close>

lemma compacted_queue:
  assumes old: "denotesAll v rs xs" and m: "moves G \<rho>"
    and disk: "segsOnDisk v (out @ kept) []" "\<forall>sg \<in> set (out @ kept). segFits cfg sg"
    and idx: "indexLog (locSegs (out @ kept)) [] = map \<rho> rs"
    and reps: "indexLog (locSegs out) [] = map \<rho> (filter (\<lambda>r. srGeneration r \<in> G) rs)"
    and evs: "logEvents out = enqueueEvents (map (liveOf v) (filter (\<lambda>r. srGeneration r \<in> G) rs))"
  shows "logQueue (out @ kept) = xs"
proof -
  let ?L = "filter (\<lambda>r. srGeneration r \<in> G) rs"
  have den: "denotesAll v (indexLog (locSegs sgs) []) (absEvents (logEvents sgs) [])"
    if "segsOnDisk v sgs []" "\<forall>sg \<in> set sgs. segFits cfg sg" for sgs
    using denotesAll_replaySegs [OF that, of emptyScan "[]"] by (simp add: replaySegs_index emptyScan_def)
  have "denotesAll v (map \<rho> ?L) (map (\<lambda>r. (srSequence r, lrPayload (liveOf v r))) ?L)"
  proof -
    have "denotesAll v (indexLog (locSegs out) []) (absEvents (logEvents out) [])"
      using disk by (intro den) (auto simp: segsOnDisk_append)
    then show ?thesis unfolding reps evs absEvents_enqueues by (simp add: comp_def)
  qed
  then have new: "denotes v (\<rho> r) (srSequence r, lrPayload (liveOf v r))" if "r \<in> set ?L" for r
    using that by (auto simp: list_all2_map1 list_all2_map2 list_all2_same)
  have "denotes v (\<rho> r) x" if "r \<in> set rs" "denotes v r x" for r x
    using new [of r] that m liveOf_denotes [OF that(2)]
    by (cases "srGeneration r \<in> G"; cases x) (auto simp: moves_def)
  then have "denotesAll v (map \<rho> rs) xs"
    using old by (auto simp: list_all2_conv_all_nth)
  then show ?thesis
    unfolding logQueue_def by (rule denotesAll_unique [OF den [OF disk, unfolded idx]])
qed

end
