(* ===== verification/Compaction_Correct.thy ===== *)
theory Compaction_Correct
  imports Compaction_Steps Store_Progress
begin

text \<open>
  Compacting the oldest segments of the log keeps the queue: \<open>compactRange\<close> on a range that starts
  at the front of the first manifest range returns, and whatever errors it meets, the directory
  holds the same queue; if it reports success (or that there was nothing to do), so does the store,
  whose index points to the new segments.
\<close>

section \<open>Publishing a compaction\<close>

lemma storeInv_changesOnly:
  assumes inv: "storeInv cfg v segs s" and ne: "segs \<noteq> []" and c: "changesOnly D v v'"
    and d: "D \<inter> segGen ` set segs = {}" "0xffffffff \<notin> D"
  shows "storeInv cfg v' segs (s\<lparr>world := w, totalOnDiskBytes := t, sealedSegmentBytes := sb\<rparr>)"
proof -
  have e: "electedManifest v \<noteq> None" by (rule storeInv_started [OF inv ne])
  have l: "logOnDisk cfg v' segs []"
    using inv by (intro logOnDisk_changesOnly [OF _ c d e]) (simp add: storeInv_def)
  have "cacheWins v' (s\<lparr>world := w, totalOnDiskBytes := t, sealedSegmentBytes := sb\<rparr>)"
    using inv changesOnly_cacheWins [OF c, of s] by (simp add: storeInv_def cacheWins_def)
  then show ?thesis
    using inv l unfolding storeInv_def changesOnly_elected [OF c] by simp
qed

lemma compactedManifest_matches:
  assumes "\<forall>r \<in> set newRanges. wf_range r" and "loadable newRanges" and "length newRanges \<le> 1024"
    and "concat (map rangeGens newRanges) = map segGen (butlast segs)"
    and "segs \<noteq> []" and "length segs \<le> 1025" and "segGen (last segs) \<noteq> 0" and "newNext \<noteq> 0"
    and m: "m = default_manifest\<lparr>ranges := newRanges, tailGeneration := segGen (last segs),
      nextGeneration := newNext\<rparr>"
  shows "wf_manifest m" and "manifestMatches (Some (m\<lparr>epoch := e\<rparr>)) segs"
    and "manifestGens m = map segGen segs"
proof -
  show wf: "wf_manifest m" using assms by (simp add: wf_manifest_def)
  have "map segGen segs = map segGen (butlast segs @ [last segs])" using assms(5) by simp
  then show gens: "manifestGens m = map segGen segs"
    using assms(4,7) by (simp add: manifestGens_def m)
  have "totalGenerations m = word_of_nat (length segs)"
    using totalGenerations_length [of m] wf by (simp add: gens wf_manifest_def)
  moreover have "(word_of_nat (length segs) :: u64) \<le> ucast kManifestMaxTotalGenerations"
    using assms(6) unfolding word_le_nat_alt
    by (simp add: kManifestMaxTotalGenerations_def kManifestMaxRanges_def unat_of_nat)
  moreover have "totalGenerations (m\<lparr>epoch := e\<rparr>) = totalGenerations m"
    by (simp add: totalGenerations_def)
  ultimately show "manifestMatches (Some (m\<lparr>epoch := e\<rparr>)) segs"
    using assms(2,8) gens by (simp add: manifestMatches_def m)
qed

context readable_file_system
begin

lemma cleanupGens_cases:
  "\<exists>w t sb. cleanupGens F gens s = s\<lparr>world := w, totalOnDiskBytes := t, sealedSegmentBytes := sb\<rparr>
    \<and> changesOnly (set gens) (view (world s)) (view w) \<and> (readable (world s) \<longrightarrow> readable w)"
proof (induction gens arbitrary: s)
  case Nil
  show ?case
    by (intro exI [of _ "world s"] exI [of _ "totalOnDiskBytes s"] exI [of _ "sealedSegmentBytes s"]) simp
next
  case (Cons g gens)
  obtain st w where rm: "fs_removeFile F (segmentName g) (world s) = (st, w)" by fastforce
  have v: "changesOnly (set (g # gens)) (view (world s)) (view w)"
    using remove_ok [OF rm] remove_fail [OF rm] by (cases "ok st") (auto intro!: changesOnly_upd)
  define s1 where "s1 = (let s1 = s\<lparr>world := w\<rparr> in
    if ok st then s1\<lparr>totalOnDiskBytes := totalOnDiskBytes s1 - sealedBytesOf s g,
        sealedSegmentBytes := (sealedSegmentBytes s1)(g := None)\<rparr> else s1)"
  have s1: "\<exists>t sb. s1 = s\<lparr>world := w, totalOnDiskBytes := t, sealedSegmentBytes := sb\<rparr>"
    by (cases s) (auto simp: s1_def Let_def)
  have run: "cleanupGens F (g # gens) s = cleanupGens F gens s1"
    by (simp add: onWorld_def rm s1_def Let_def)
  obtain w2 t sb where ih: "cleanupGens F gens s1 = s1\<lparr>world := w2, totalOnDiskBytes := t, sealedSegmentBytes := sb\<rparr>"
      "changesOnly (set gens) (view (world s1)) (view w2)" "readable (world s1) \<longrightarrow> readable w2"
    using Cons.IH [of s1] by blast
  have "changesOnly (set (g # gens)) (view w) (view w2)"
    using ih(2) s1 by (auto intro: changesOnly_mono)
  then have "changesOnly (set (g # gens)) (view (world s)) (view w2)" by (rule changesOnly_trans [OF v])
  moreover have "readable (world s) \<longrightarrow> readable w2" using ih(3) s1 readable_remove [OF _ rm] by auto
  ultimately show ?case
    using ih(1) s1 unfolding run by (intro exI [of _ w2] exI [of _ t] exI [of _ sb]) auto
qed

lemma publishCompacted_cases:
  assumes inv: "storeInv cfg (view (world s)) (old @ kept) s" and r: "readable (world s)"
    and ne: "kept \<noteq> []" and input: "map segGen old = rangeGens input" "endGen input \<noteq> 0xffffffff"
    and out: "segsOnDisk (view (world s)) out []" "\<forall>sg \<in> set out. segFits cfg sg"
      "distinct (map segGen out)" "segGen ` set out \<inter> segGen ` set (old @ kept) = {}"
      "\<forall>sg \<in> set out. segGen sg < newNext" "nextGen s \<le> newNext"
    and rng: "\<forall>r \<in> set newRanges. wf_range r" "loadable newRanges" "length newRanges \<le> 1024"
      "concat (map rangeGens newRanges) = map segGen (out @ butlast kept)"
    and n: "length (out @ kept) \<le> 1025" and ep: "electedEpoch (view (world s)) \<noteq> 0xffffffff"
  shows "\<exists>st s'. publishCompacted F input newRanges newNext s = Some (st, s')
    \<and> (ok st \<longrightarrow> st = success \<and> readable (world s') \<and> records s' = records s
         \<and> storeInv cfg (view (world s')) (out @ kept) (s'\<lparr>records := indexLog (locSegs (out @ kept)) []\<rparr>))
    \<and> (\<not> ok st \<longrightarrow> logOnDisk cfg (view (world s')) (old @ kept) []
         \<or> logOnDisk cfg (view (world s')) (out @ kept) [])"
proof -
  let ?v = "view (world s)" and ?new = "out @ kept"
  have l: "logOnDisk cfg ?v (old @ kept) []" and cw: "cacheWins ?v s" and mt: "mounted s"
    and ag: "activeGeneration s = segGen (last ?new)"
    and ab: "unat (activeSegmentBytes s) = length (segBytes (last ?new))"
    and lt: "\<forall>sg \<in> set (old @ kept). segGen sg < nextGen s" and ng: "nextGen s \<noteq> 0"
    using inv ne by (auto simp: storeInv_def)
  define m where "m = default_manifest\<lparr>ranges := newRanges, tailGeneration := segGen (last ?new),
      nextGeneration := newNext\<rparr>"
  have t0: "segGen (last ?new) \<noteq> 0" using log_gen_nonzero [OF l, of "last kept"] ne by simp
  have nn: "newNext \<noteq> 0" using ng out(6) by (auto simp: word_le_nat_alt u32_eq_unat)
  have rg: "concat (map rangeGens newRanges) = map segGen (butlast ?new)"
    using rng(4) ne by (simp add: butlast_append)
  have ne': "?new \<noteq> []" using ne by simp
  note mm = compactedManifest_matches [OF rng(1-3) rg ne' n t0 nn m_def]
  have olds: "set (rangeGens input) = segGen ` set old" using arg_cong [OF input(1), of set] by simp
  have dis: "distinct (map segGen (old @ kept))" using l by (simp add: logOnDisk_def)
  have dis': "distinct (map segGen ?new)" using dis out(3,4) by auto
  have sep: "set (rangeGens input) \<inter> segGen ` set ?new = {}" using dis out(4) olds by auto
  have e: "electedManifest ?v \<noteq> None" using storeInv_started [OF inv] ne by simp
  have new: "logOnDisk cfg v2 ?new []"
    if o: "onlySlotsChange ?v v2" "electedManifest v2 = Some (m\<lparr>epoch := ep\<rparr>)" for v2 ep
  proof -
    have "segsOnDisk v2 ?new []"
      using l out(1) by (simp add: segsOnDisk_slots [OF o(1)] segsOnDisk_append logOnDisk_def)
    moreover have "\<forall>sg \<in> set ?new. segFits cfg sg" using l out(2) by (auto simp: logOnDisk_def)
    moreover have "length (segBytes (last ?new) @ []) \<le> maxReplayBytes"
      using l ne by (simp add: logOnDisk_def)
    moreover have "canonicalNames v2" "v2 (segmentName 0xffffffff) = None"
      using l canonicalNames_slots [OF o(1)] onlySlots_segment [OF o(1)] by (auto simp: logOnDisk_def)
    ultimately show ?thesis using mm(2) dis' o(2) by (simp add: logOnDisk_def)
  qed
  obtain st2 s2 where p: "publishManifest F m s = Some (st2, s2)"
    using publishManifest_returns [of m F s] rng(2) by (auto simp: m_def)
  have r2: "readable (world s2)" by (rule publishManifest_readable [OF p r])
  have run0: "publishCompacted F input newRanges newNext s
      = (if \<not> ok st2 then Some (st2, s2)
         else do { s \<leftarrow> cleanupInputSegments F input s2; s \<leftarrow> eraseAffected input s; Some (success, s) })"
    using p by (simp add: publishCompacted_def ag m_def)
  from publish_cases [OF p probeExact_readable [OF r] cw ep mm(1)] show ?thesis
  proof cases
    case (1 e)
    obtain w2 b2 sl ep mb where s2: "s2 = s\<lparr>world := w2, totalOnDiskBytes := b2,
        manifestRanges := ranges m, activeGenerations := manifestGens m,
        nextGen := nextGeneration m, cachedWrittenSlot := Some sl, cachedWrittenEpoch := ep,
        manifestSlotBytes := mb\<rparr>"
      using 1(2) unfolding published_def by blast
    have o2: "onlySlotsChange ?v (view w2)" and e2: "electedManifest (view w2) = Some (m\<lparr>epoch := e\<rparr>)"
      using 1(4,6) by (simp_all add: s2)
    have l2: "logOnDisk cfg (view w2) ?new []" by (rule new [OF o2 e2])
    obtain w3 t3 sb3 where cl: "cleanupGens F (rangeGens input) s2
        = s2\<lparr>world := w3, totalOnDiskBytes := t3, sealedSegmentBytes := sb3\<rparr>"
        "changesOnly (set (rangeGens input)) (view (world s2)) (view w3)" "readable w3"
      using cleanupGens_cases [of "rangeGens input" s2] r2 by blast
    have c3: "changesOnly (set (rangeGens input)) (view w2) (view w3)" using cl(2) by (simp add: s2)
    have gl: "genLoop (startGen input) (endGen input) [] = Some (rangeGens input)"
      using genLoop_ends [OF input(2)] by (simp add: rangeGens_def)
    define s3 where "s3 = s2\<lparr>world := w3, totalOnDiskBytes := t3, sealedSegmentBytes := sb3,
      activeTailAffectedGenerations := activeTailAffectedGenerations s2 - set (rangeGens input)\<rparr>"
    have run: "publishCompacted F input newRanges newNext s = Some (success, s3)"
      using 1(1) cl(1) gl by (simp add: run0 cleanupInputSegments_def eraseAffected_def present s3_def)
    have max: "0xffffffff \<notin> set (rangeGens input)"
    proof
      assume "0xffffffff \<in> set (rangeGens input)"
      then obtain sg where sg: "sg \<in> set old" "segGen sg = 0xffffffff" unfolding olds by force
      have "segGen sg < nextGen s" using sg(1) lt by simp
      then show False using u32_le_max [of "nextGen s"] by (simp only: sg(2) leD)
    qed
    have l3: "logOnDisk cfg (view w3) ?new []"
      using e2 by (intro logOnDisk_changesOnly [OF l2 c3 sep max]) simp
    have "cacheWins (view w3) (s3\<lparr>records := indexLog (locSegs ?new) []\<rparr>)"
      using 1(7) changesOnly_cacheWins [OF c3, of s2] by (simp add: cacheWins_def s3_def s2)
    then have "storeInv cfg (view (world s3)) ?new (s3\<lparr>records := indexLog (locSegs ?new) []\<rparr>)"
      using l3 mt ag ab ne ne' nn lt out(5,6) mm(3) changesOnly_elected [OF c3] e2
      by (auto simp: storeInv_def s3_def s2 m_def dest: order.strict_trans2)
    then show ?thesis using cl(3) by (intro exI [of _ success] exI [of _ s3]) (simp add: run s3_def s2)
  next
    case (2 w2)
    have run: "publishCompacted F input newRanges newNext s = Some (st2, s2)" using 2(1) by (simp add: run0)
    from 2(3) consider "electedManifest (view w2) = electedManifest ?v"
      | ep where "electedManifest (view w2) = Some (m\<lparr>epoch := ep\<rparr>)" by blast
    then have "logOnDisk cfg (view w2) (old @ kept) [] \<or> logOnDisk cfg (view w2) ?new []"
    proof cases
      case 1
      then show ?thesis
        using l e by (intro disjI1 logOnDisk_slots [OF l 2(4)]) (auto simp: logOnDisk_def)
    next
      case (2 ep)
      then show ?thesis using \<open>onlySlotsChange ?v (view w2)\<close> new by blast
    qed
    then show ?thesis using 2(1,2) by (intro exI [of _ st2] exI [of _ s2]) (simp add: run)
  qed
qed

end

section \<open>The oldest segments as the input\<close>

text \<open>A range at the front of the first manifest range covers the oldest segments of the log.\<close>

definition frontInput ::
  "manifest_range \<Rightarrow> manifest_range list \<Rightarrow> compaction_range \<Rightarrow> segment list \<Rightarrow> segment list \<Rightarrow> bool" where
  "frontInput r0 rs input old kept \<longleftrightarrow>
     startGen input = startGen r0 \<and> startGen input \<le> endGen input \<and> endGen input \<le> endGen r0
     \<and> endGen input \<noteq> 0xffffffff \<and> kept \<noteq> [] \<and> map segGen old = rangeGens input
     \<and> map segGen (butlast kept) = concat (map rangeGens (frontSplice r0 (endGen input) rs []))
     \<and> (\<forall>r \<in> set (r0 # rs). wf_range r) \<and> loadable (r0 # rs) \<and> length (r0 # rs) \<le> 1024"

lemma frontInputD:
  "frontInput r0 rs input old kept \<Longrightarrow>
    kept \<noteq> [] \<and> map segGen old = rangeGens input \<and> endGen input \<noteq> 0xffffffff"
  by (simp add: frontInput_def)

lemma front_segments:
  assumes inv: "storeInv cfg v segs s" and mr: "manifestRanges s = r0 # rs"
    and a: "startGen input = startGen r0" and ab: "startGen input \<le> endGen input"
    and be: "endGen input \<le> endGen r0"
  obtains old kept where "segs = old @ kept" "frontInput r0 rs input old kept"
proof -
  have l: "logOnDisk cfg v segs []" using inv by (simp add: storeInv_def)
  have "segs \<noteq> []"
    using inv mr by (auto simp: storeInv_def logOnDisk_def manifestMatches_def manifestGens_def
        rangeGens_not_Nil wf_manifest_def dest: electedManifest_wf split: option.splits)
  then obtain md where md: "electedManifest v = Some md" "wf_manifest md" "loadable (ranges md)"
      "concat (map rangeGens (ranges md)) = map segGen (butlast segs)"
    using log_manifest [OF l] by metis
  have rg: "ranges md = r0 # rs" using inv mr md(1) by (simp add: storeInv_def)
  let ?rest = "concat (map rangeGens (frontSplice r0 (endGen input) rs []))"
  have inp: "rangeGens \<lparr>startGen = startGen r0, endGen = endGen input\<rparr> = rangeGens input"
    using a by (simp add: rangeGens_def)
  have split: "map segGen (butlast segs) = rangeGens input @ ?rest"
    using frontSplice_gens(1) [of r0 "endGen input" rs] a ab be md(4) by (simp add: rg inp)
  define n where "n = length (rangeGens input)"
  have n: "n \<le> length (butlast segs)" using arg_cong [OF split, of length] by (simp add: n_def)
  have "map segGen (take n (butlast segs)) = rangeGens input"
    using arg_cong [OF split, of "take n"] by (simp add: n_def take_map)
  moreover have "map segGen (drop n (butlast segs)) = ?rest"
    using arg_cong [OF split, of "drop n"] by (simp add: n_def drop_map)
  moreover have "segs = take n (butlast segs) @ (drop n (butlast segs) @ [last segs])"
    using \<open>segs \<noteq> []\<close> by (simp flip: append_assoc)
  moreover have "endGen input \<noteq> 0xffffffff"
  proof -
    have "endGen r0 \<noteq> 0xffffffff" using md(3) rg by (simp add: loadable_def)
    then show ?thesis using be by (metis dual_order.antisym u32_le_max)
  qed
  ultimately show thesis
    using md(2,3) rg a ab be by (intro that [of "take n (butlast segs)" "drop n (butlast segs) @ [last segs]"])
      (auto simp: wf_manifest_def frontInput_def)
qed

text \<open>The ranges after the splice and the merge, without output and with one range of it.\<close>

lemma dead_ranges:
  assumes "frontInput r0 rs input old kept"
  shows "\<forall>r \<in> set (frontSplice r0 (endGen input) rs []). wf_range r"
    and "loadable (frontSplice r0 (endGen input) rs [])"
    and "length (frontSplice r0 (endGen input) rs []) \<le> 1024"
    and "concat (map rangeGens (frontSplice r0 (endGen input) rs [])) = map segGen ([] @ butlast kept)"
proof -
  note f = assms [unfolded frontInput_def]
  show "\<forall>r \<in> set (frontSplice r0 (endGen input) rs []). wf_range r"
    using f by (intro frontSplice_wf) auto
  show "loadable (frontSplice r0 (endGen input) rs [])"
    using f by (intro frontSplice_loadable) (auto simp: loadable_def)
  show "length (frontSplice r0 (endGen input) rs []) \<le> 1024"
    using frontSplice_length [of r0 "endGen input" rs "[]"] f by (simp split: if_splits)
  show "concat (map rangeGens (frontSplice r0 (endGen input) rs [])) = map segGen ([] @ butlast kept)"
    using f by simp
qed

abbreviation packedRanges ::
  "manifest_range \<Rightarrow> manifest_range list \<Rightarrow> compaction_range \<Rightarrow> compaction_range \<Rightarrow> manifest_range list" where
  "packedRanges r0 rs input output \<equiv> mergeRight 0 (frontSplice r0 (endGen input) rs [output])"

lemma packed_ranges:
  assumes "frontInput r0 rs input old kept" and "wf_range output" and "endGen output \<noteq> 0xffffffff"
    and "endGen input < endGen r0 \<Longrightarrow> length rs + 2 \<le> 1024"
    and "map segGen out = rangeGens output"
  shows "\<forall>r \<in> set (packedRanges r0 rs input output). wf_range r"
    and "loadable (packedRanges r0 rs input output)"
    and "length (packedRanges r0 rs input output) \<le> 1024"
    and "concat (map rangeGens (packedRanges r0 rs input output)) = map segGen (out @ butlast kept)"
proof -
  note f = assms(1) [unfolded frontInput_def]
  have "\<forall>r \<in> set (frontSplice r0 (endGen input) rs [output]). wf_range r"
    using f assms(2) by (intro frontSplice_wf) auto
  moreover have "loadable (frontSplice r0 (endGen input) rs [output])"
    using f assms(3) by (intro frontSplice_loadable) (auto simp: loadable_def)
  ultimately have m: "concat (map rangeGens (packedRanges r0 rs input output))
      = concat (map rangeGens (frontSplice r0 (endGen input) rs [output]))"
    "\<forall>r \<in> set (packedRanges r0 rs input output). wf_range r" "loadable (packedRanges r0 rs input output)"
    "length (packedRanges r0 rs input output) \<le> length (frontSplice r0 (endGen input) rs [output])"
    by (rule mergeRight_front)+
  show "\<forall>r \<in> set (packedRanges r0 rs input output). wf_range r"
    "loadable (packedRanges r0 rs input output)" by (fact m)+
  show "length (packedRanges r0 rs input output) \<le> 1024"
    using m(4) assms(4) f frontSplice_length [of r0 "endGen input" rs "[output]"] by (auto split: if_splits)
  have "startGen r0 \<le> endGen input" "endGen input \<le> endGen r0" using f by metis+
  then show "concat (map rangeGens (packedRanges r0 rs input output)) = map segGen (out @ butlast kept)"
    using frontSplice_gens(2) [of r0 "endGen input" rs "[output]"] f assms(5) by (simp add: m(1))
qed

lemma liveOf_changesOnly:
  assumes inv: "storeInv cfg v segs s" and c: "changesOnly D v v'" and d: "D \<inter> segGen ` set segs = {}"
    and rs: "set rs \<subseteq> set (records s)"
  shows "map (liveOf v') rs = map (liveOf v) rs"
proof (rule map_cong [OF refl])
  fix r assume "r \<in> set rs"
  then have "srGeneration r \<in> segGen ` set segs" using storeInv_gens [OF inv] rs by blast
  then have "srGeneration r \<notin> D" using d by blast
  then show "liveOf v' r = liveOf v r" using changesOnly_segment [OF c] by (simp add: liveOf_def)
qed

text \<open>The packed output segments: their generations, their size and their events.\<close>

lemma packed_gens:
  assumes os: "os = packOutput cfg ng sb cur lrs" and n: "unat ng + length os < 4294967296"
  shows "fst (hd os) = ng" and "map fst os = rangeGens \<lparr>startGen = ng, endGen = fst (last os)\<rparr>"
    and "ng \<le> fst (last os)" and "fst (last os) \<noteq> 0xffffffff" and "distinct (map fst os)"
    and "\<forall>g \<in> fst ` set os. ng \<le> g \<and> g < fst (last os) + 1"
proof -
  have ne: "os \<noteq> []" by (simp add: os)
  then have k: "0 < length os" by simp
  have g: "map fst os = map (\<lambda>i. ng + word_of_nat i) [0..<length os]"
    unfolding os by (rule packOutput_gens)
  have lst: "fst (last os) = ng + word_of_nat (length os - 1)"
    using arg_cong [OF g, of last] ne by (simp add: last_map)
  show "fst (hd os) = ng" using arg_cong [OF g, of hd] ne by (simp add: hd_map hd_upt)
  show rg: "map fst os = rangeGens \<lparr>startGen = ng, endGen = fst (last os)\<rparr>"
    unfolding g lst by (rule rangeGens_upt [OF n k, symmetric])
  have u: "unat (fst (last os)) = unat ng + (length os - 1)"
  proof -
    have "unat (word_of_nat (length os - 1) :: u32) = length os - 1" using n k by (intro unat_word_u32) simp
    then show ?thesis using n k by (simp add: lst unat_word_ariths del: of_nat_diff)
  qed
  show le: "ng \<le> fst (last os)" using u by (simp add: word_le_nat_alt)
  show mx: "fst (last os) \<noteq> 0xffffffff" using u n k by (auto simp: u32_eq_unat)
  show "distinct (map fst os)"
    using u32_bound [of "fst (last os)"]
    unfolding rg rangeGens_def by (auto simp: distinct_map inj_on_def word_of_nat_eq_iff take_bit_nat_eq_self)
  show "\<forall>g \<in> fst ` set os. ng \<le> g \<and> g < fst (last os) + 1"
  proof
    fix g assume "g \<in> fst ` set os"
    then have "g \<in> set (map fst os)" by simp
    then have "inRange ng (fst (last os)) g" unfolding rg rangeGens_mem by simp
    then show "ng \<le> g \<and> g < fst (last os) + 1"
      using unat_Suc_u32 [OF mx] by (simp add: inRange_def word_le_nat_alt word_less_nat_alt)
  qed
qed

lemma packed_fits:
  assumes "\<forall>lr \<in> set lrs. length (lrPayload lr) \<le> maxRecordBytes cfg
      \<and> 44 + length (lrPayload lr) \<le> maxReplayBytes"
    and "configOk cfg" and "x \<in> set (packOutput cfg ng kSegmentHeaderBytes [] lrs)"
  shows "segFits cfg (outSegment x)"
proof -
  have "packedSize (snd x) \<le> maxReplayBytes"
    using assms by (intro packOutput_fits [OF _ _ _ _ assms(3)]) (auto simp: configOk_def kSegmentHeaderBytes_def)
  moreover have "set (snd x) \<subseteq> set lrs"
    using arg_cong [OF packOutput_records [of cfg ng kSegmentHeaderBytes "[]" lrs], of set] assms(3) by auto
  ultimately show ?thesis using assms(1) by (auto simp: segFits_def length_outSegment)
qed

text \<open>The room a publication and a whole compaction need in the counters of the format: the outputs take
  at most as many generations as the inputs, of which a manifest names at most 1025.\<close>

definition publishRoom :: "(string \<Rightarrow> bytes option) \<Rightarrow> 'w store \<Rightarrow> bool" where
  "publishRoom v s \<longleftrightarrow> unat (nextGen s) + 1100 < 4294967296
     \<and> electedEpoch v \<noteq> 0xffffffff \<and> length (activeGenerations s) \<le> 1025"

definition compactionRoom :: "(string \<Rightarrow> bytes option) \<Rightarrow> 'w store \<Rightarrow> bool" where
  "compactionRoom v s \<longleftrightarrow> unat (nextGen s) + 1101 < 4294967296 \<and> electedEpoch v < 0xfffffffe
     \<and> length (activeGenerations s) < 1025 \<and> length (records s) < 4294967295"

lemma compactionRoom_publish: "compactionRoom v s \<Longrightarrow> publishRoom v s"
  by (auto simp: compactionRoom_def publishRoom_def)

context readable_file_system
begin

lemma compacted_publish:
  assumes inv: "storeInv cfg (view (world s)) (old @ kept) s" and o: "orderedLog (locSegs (old @ kept)) []"
    and r: "readable (world s)" and ne: "kept \<noteq> []"
    and input: "map segGen old = rangeGens input" "endGen input \<noteq> 0xffffffff"
    and live: "live = filter (\<lambda>r. inRange (startGen input) (endGen input) (srGeneration r)) (records s)"
    and out: "segsOnDisk (view (world s)) out []" "\<forall>sg \<in> set out. segFits cfg sg"
      "distinct (map segGen out)" "segGen ` set out \<inter> segGen ` set (old @ kept) = {}"
      "\<forall>sg \<in> set out. segGen sg < newNext" "nextGen s \<le> newNext"
    and evs: "logEvents out = enqueueEvents (map (liveOf (view (world s))) live)"
    and idx: "map srSequence (indexLog (locSegs out) []) = map srSequence live"
      "orderedLog (locSegs out) []"
    and rng: "\<forall>r \<in> set newRanges. wf_range r" "loadable newRanges" "length newRanges \<le> 1024"
      "concat (map rangeGens newRanges) = map segGen (out @ butlast kept)"
    and n: "length (out @ kept) \<le> 1025" and ep: "electedEpoch (view (world s)) \<noteq> 0xffffffff"
  shows "\<exists>st s'. publishCompacted F input newRanges newNext s = Some (st, s')
    \<and> (ok st \<longrightarrow> st = success \<and> readable (world s') \<and> records s' = records s
         \<and> storeHolds cfg (view (world s')) (logQueue (old @ kept))
             (s'\<lparr>records := replaceRecords input (indexLog (locSegs out) []) (records s)\<rparr>))
    \<and> (\<not> ok st \<longrightarrow> diskHolds cfg (view (world s')) (logQueue (old @ kept)))"
proof -
  let ?v = "view (world s)" and ?G = "set (rangeGens input)"
  let ?reps = "indexLog (locSegs out) []"
  let ?\<rho> = "replaceRecord input ?reps"
  have rec: "records s = indexLog (locSegs old @ locSegs kept) []"
    using inv by (simp add: storeInv_def)
  have l: "logOnDisk cfg ?v (old @ kept) []" using inv by (simp add: storeInv_def)
  have olds: "?G = segGen ` set old" using arg_cong [OF input(1), of set] by simp
  have live': "live = filter (\<lambda>r. srGeneration r \<in> ?G) (records s)" by (simp add: live rangeGens_mem)
  have g: "fst ` set (locSegs old) \<subseteq> ?G" "fst ` set (locSegs kept) \<inter> ?G = {}"
  proof -
    have "segGen ` set old \<inter> segGen ` set kept = {}" using l by (simp add: logOnDisk_def)
    then show "fst ` set (locSegs old) \<subseteq> ?G" "fst ` set (locSegs kept) \<inter> ?G = {}"
      using locSegs_gens [of old] locSegs_gens [of kept] unfolding olds by blast+
  qed
  have reps: "map ?\<rho> live = ?reps"
    using orderedLog_end [OF idx(2)]
    by (intro replaceRecord_reps [OF idx(1)]) (auto simp: live)
  note ci = compaction_index [OF replaceRecord_moves o [unfolded locSegs_simps] g rec
      reps [unfolded live', symmetric] idx(2)]
  have new: "indexLog (locSegs (out @ kept)) [] = map ?\<rho> (records s)"
    "orderedLog (locSegs (out @ kept)) []"
    using ci by simp_all
  have "segsOnDisk ?v (out @ kept) []" "\<forall>sg \<in> set (out @ kept). segFits cfg sg"
    using l out(1,2) by (auto simp: logOnDisk_def segsOnDisk_append)
  then have q: "logQueue (out @ kept) = logQueue (old @ kept)"
    using compacted_queue [OF storeInv_queue [OF inv] replaceRecord_moves _ _ new(1)
        reps [unfolded live', symmetric] evs [unfolded live']] by blast
  obtain st s' where p: "publishCompacted F input newRanges newNext s = Some (st, s')"
      "ok st \<longrightarrow> st = success \<and> readable (world s') \<and> records s' = records s
         \<and> storeInv cfg (view (world s')) (out @ kept) (s'\<lparr>records := indexLog (locSegs (out @ kept)) []\<rparr>)"
      "\<not> ok st \<longrightarrow> logOnDisk cfg (view (world s')) (old @ kept) []
         \<or> logOnDisk cfg (view (world s')) (out @ kept) []"
    using publishCompacted_cases [OF inv r ne input out rng n ep] by blast
  have "storeHolds cfg (view (world s')) (logQueue (old @ kept))
      (s'\<lparr>records := replaceRecords input ?reps (records s)\<rparr>)" if "ok st"
    using p(2) that new by (intro storeHolds_intro [of _ _ "out @ kept"])
      (simp_all only: q replaceRecords_map simp_thms)
  moreover have "diskHolds cfg (view (world s')) (logQueue (old @ kept))" if "\<not> ok st"
    using p(3) that diskHolds_intro [OF _ o refl] diskHolds_intro [OF _ new(2) q] by blast
  ultimately show ?thesis using p by blast
qed

lemma packed_publish:
  assumes inv: "storeInv cfg (view (world s)) (old @ kept) s" and o: "orderedLog (locSegs (old @ kept)) []"
    and r: "readable (world s)" and c: "configOk cfg" and ne: "kept \<noteq> []"
    and input: "map segGen old = rangeGens input" "endGen input \<noteq> 0xffffffff"
    and live: "live = filter (\<lambda>r. inRange (startGen input) (endGen input) (srGeneration r)) (records s)"
    and lrs: "lrs = map (liveOf (view (world s))) live"
    and os: "os = packOutput cfg (nextGen s) kSegmentHeaderBytes [] lrs"
    and k: "unat (nextGen s) + length os < 4294967296" "length os \<le> length old"
    and disk: "segsOnDisk (view (world s)) (map outSegment os) []"
    and rng: "\<forall>r \<in> set newRanges. wf_range r" "loadable newRanges" "length newRanges \<le> 1024"
      "concat (map rangeGens newRanges) = map segGen (map outSegment os @ butlast kept)"
    and n: "length (old @ kept) \<le> 1025" and ep: "electedEpoch (view (world s)) \<noteq> 0xffffffff"
  shows "\<exists>st s'. publishCompacted F input newRanges (fst (last os) + 1) s = Some (st, s')
    \<and> (ok st \<longrightarrow> st = success \<and> readable (world s') \<and> records s' = records s
         \<and> storeHolds cfg (view (world s')) (logQueue (old @ kept))
             (s'\<lparr>records := replaceRecords input (indexLog (locSegs (map outSegment os)) []) (records s)\<rparr>))
    \<and> (\<not> ok st \<longrightarrow> diskHolds cfg (view (world s')) (logQueue (old @ kept)))"
proof -
  let ?out = "map outSegment os" and ?last = "fst (last os)"
  note pg = packed_gens [OF os k(1)]
  have fits: "\<forall>lr \<in> set lrs. length (lrPayload lr) \<le> maxRecordBytes cfg
      \<and> 44 + length (lrPayload lr) \<le> maxReplayBytes"
    using live_fits [OF inv] by (force simp: lrs live liveOf_def cutRecord_def)
  have "concat (map snd os) = lrs" by (simp add: os packOutput_records)
  then have seqs: "map lrSequence (concat (map snd os)) = map srSequence live"
    and evs: "logEvents ?out = enqueueEvents (map (liveOf (view (world s))) live)"
    by (simp_all add: lrs comp_def outSegments_events)
  have "sorted_wrt (<) (map srSequence live)"
    using orderedLog_end [OF o] inv
    by (simp add: live storeInv_def seqSorted_def sorted_wrt_map sorted_wrt_filter)
  then have ord: "orderedLog (locSegs ?out) []" by (intro outSegments_ordered) (simp only: seqs)
  have sqs: "map srSequence (indexLog (locSegs ?out) []) = map srSequence live"
    unfolding outSegments_sequences by (rule seqs)
  have ng: "nextGen s \<le> ?last + 1" using pg(3) unat_Suc_u32 [OF pg(4)] by (simp add: word_le_nat_alt)
  have "\<forall>g \<in> segGen ` set (old @ kept). g < nextGen s" using inv by (simp add: storeInv_def)
  then have "fst ` set os \<inter> segGen ` set (old @ kept) = {}" using pg(6) leD by blast
  then have "segGen ` set ?out \<inter> segGen ` set (old @ kept) = {}" by (simp add: image_image)
  moreover have "\<forall>sg \<in> set ?out. segFits cfg sg" using packed_fits [OF fits c] by (simp add: os)
  moreover have "distinct (map segGen ?out)" "\<forall>sg \<in> set ?out. segGen sg < ?last + 1"
    using pg(5,6) by (simp_all add: comp_def)
  moreover have "length (?out @ kept) \<le> 1025" using k(2) n by simp
  ultimately show ?thesis
    using compacted_publish [OF inv o r ne input live disk _ _ _ _ ng evs sqs ord rng _ ep] by blast
qed

lemma compactCollected_dead:
  assumes inv: "storeInv cfg (view (world s)) (old @ kept) s" and o: "orderedLog (locSegs (old @ kept)) []"
    and r: "readable (world s)" and mr: "manifestRanges s = r0 # rs"
    and f: "frontInput r0 rs input old kept"
    and live: "[] = filter (\<lambda>r. inRange (startGen input) (endGen input) (srGeneration r)) (records s)"
    and room: "publishRoom (view (world s)) s"
  shows "\<exists>res s'. compactCollected F cfg 0 False (endGen input < endGen r0) input [] ic s = Some (res, s')
    \<and> (ok (fst res) \<longrightarrow> readable (world s') \<and> storeHolds cfg (view (world s')) (logQueue (old @ kept)) s')
    \<and> (\<not> ok (fst res) \<longrightarrow> diskHolds cfg (view (world s')) (logQueue (old @ kept)))"
proof -
  let ?rng = "frontSplice r0 (endGen input) rs []"
  note f' = frontInputD [OF f]
  have same: "replaceRecords input [] (records s) = records s"
    unfolding replaceRecords_def by (intro map_idI) simp
  have upd: "s'\<lparr>records := records s\<rparr> = s'" if "records s' = records s" for s'
    using that by (cases s') simp
  have n: "length (old @ kept) \<le> 1025" and ep: "electedEpoch (view (world s)) \<noteq> 0xffffffff"
    using room inv by (auto simp: publishRoom_def storeInv_def)
  obtain st s' where p: "publishCompacted F input ?rng (nextGen s) s = Some (st, s')"
      "ok st \<longrightarrow> st = success \<and> readable (world s') \<and> records s' = records s
         \<and> storeHolds cfg (view (world s')) (logQueue (old @ kept))
             (s'\<lparr>records := replaceRecords input (indexLog (locSegs []) []) (records s)\<rparr>)"
      "\<not> ok st \<longrightarrow> diskHolds cfg (view (world s')) (logQueue (old @ kept))"
    using compacted_publish [OF inv o r _ _ _ live, of "[]" "nextGen s" ?rng, OF conjunct1 [OF f']
        conjunct1 [OF conjunct2 [OF f']] conjunct2 [OF conjunct2 [OF f']]
        _ _ _ _ _ _ _ _ _ dead_ranges [OF f] _ ep] n
    by auto
  have "ok st \<Longrightarrow> readable (world s') \<and> storeHolds cfg (view (world s')) (logQueue (old @ kept)) s'"
    using p(2) unfolding locSegs_simps indexLog_simps same by (metis upd)
  moreover have "compactCollected F cfg 0 False (endGen input < endGen r0) input [] ic s = Some ((st, ic, 0), s')"
    by (simp add: compactCollected_def mr spliceRanges_front p(1))
  ultimately show ?thesis using p(3) by (intro exI [of _ "(st, ic, 0)"] exI [of _ s']) simp
qed

lemma compactCollected_live:
  assumes inv: "storeInv cfg (view (world s)) (old @ kept) s" and o: "orderedLog (locSegs (old @ kept)) []"
    and r: "readable (world s)" and c: "configOk cfg" and mr: "manifestRanges s = r0 # rs"
    and f: "frontInput r0 rs input old kept"
    and live: "live = filter (\<lambda>r. inRange (startGen input) (endGen input) (srGeneration r)) (records s)"
    and lrs: "lrs = map (liveOf (view (world s))) live" "lrs \<noteq> []"
    and cap: "endGen input < endGen r0 \<Longrightarrow> length rs + 2 \<le> 1024"
    and cnt: "length (packOutput cfg (nextGen s) kSegmentHeaderBytes [] lrs) \<le> length old"
    and room: "publishRoom (view (world s)) s"
  shows "\<exists>res s'. compactCollected F cfg 0 False (endGen input < endGen r0) input lrs ic s = Some (res, s')
    \<and> (ok (fst res) \<longrightarrow> readable (world s') \<and> storeHolds cfg (view (world s')) (logQueue (old @ kept)) s')
    \<and> (\<not> ok (fst res) \<longrightarrow> diskHolds cfg (view (world s')) (logQueue (old @ kept)))"
proof -
  let ?v = "view (world s)"
  note f' = frontInputD [OF f]
  have n: "length (old @ kept) \<le> 1025" and ep: "electedEpoch ?v \<noteq> 0xffffffff"
    using room inv by (auto simp: publishRoom_def storeInv_def)
  define os where "os = packOutput cfg (nextGen s) kSegmentHeaderBytes [] lrs"
  let ?last = "fst (last os)" and ?D = "fst ` set os"
  let ?rng = "packedRanges r0 rs input \<lparr>startGen = nextGen s, endGen = ?last\<rparr>"
  have k: "length os \<le> length old" "unat (nextGen s) + length os < 4294967296"
    using cnt n room by (auto simp: os_def publishRoom_def)
  note pg = packed_gens [OF os_def k(2)]
  have lt: "\<forall>g \<in> segGen ` set (old @ kept). g < nextGen s" and ng: "nextGen s \<noteq> 0"
    using inv by (simp_all add: storeInv_def)
  have D: "?D \<inter> segGen ` set (old @ kept) = {}" using lt pg(6) leD by blast
  have max: "0xffffffff \<notin> ?D" using pg(6) u32_le_max by (metis leD)
  obtain st reps s1 where w: "writeOutputs F os s = ((st, reps), s1)" by (metis surj_pair)
  obtain w1 t1 sb1 where s1: "s1 = s\<lparr>world := w1, totalOnDiskBytes := t1, sealedSegmentBytes := sb1\<rparr>"
      "readable w1" "changesOnly ?D ?v (view w1)"
      "ok st \<longrightarrow> segsOnDisk (view w1) (map outSegment os) [] \<and> reps = indexLog (locSegs (map outSegment os)) []"
    using writeOutputs_cases [OF pg(5) r w] unfolding outSegments_index by blast
  have inv1: "storeInv cfg (view (world s1)) (old @ kept) s1"
    unfolding s1(1) using storeInv_changesOnly [OF inv _ s1(3) D max] f' by simp
  show ?thesis
  proof (cases "ok st")
    case False
    have "logOnDisk cfg (view (world s1)) (old @ kept) []" using inv1 by (simp only: storeInv_def)
    then have "diskHolds cfg (view (world s1)) (logQueue (old @ kept))" by (rule diskHolds_intro [OF _ o refl])
    then show ?thesis using False w lrs(2)
      by (intro exI [of _ "(st, ic, word_of_nat (length os))"] exI [of _ s1])
        (simp add: compactCollected_def os_def [symmetric])
  next
    case True
    have rng: "\<forall>r \<in> set ?rng. wf_range r" "loadable ?rng" "length ?rng \<le> 1024"
      "concat (map rangeGens ?rng) = map segGen (map outSegment os @ butlast kept)"
      using pg(2,3,4) ng cap
      by (intro packed_ranges [OF f, where out = "map outSegment os"]; simp add: wf_range_def comp_def)+
    have lrs1: "lrs = map (liveOf (view (world s1))) live"
      using liveOf_changesOnly [OF inv s1(3) D, of live] by (simp add: lrs(1) live s1(1))
    obtain st2 s2 where p: "publishCompacted F input ?rng (?last + 1) s1 = Some (st2, s2)"
        "ok st2 \<longrightarrow> st2 = success \<and> readable (world s2) \<and> records s2 = records s1
          \<and> storeHolds cfg (view (world s2)) (logQueue (old @ kept))
              (s2\<lparr>records := replaceRecords input reps (records s1)\<rparr>)"
        "\<not> ok st2 \<longrightarrow> diskHolds cfg (view (world s2)) (logQueue (old @ kept))"
    proof -
      have "readable (world s1)" "nextGen s1 = nextGen s" "segsOnDisk (view (world s1)) (map outSegment os) []"
        "electedEpoch (view (world s1)) \<noteq> 0xffffffff"
        "live = filter (\<lambda>r. inRange (startGen input) (endGen input) (srGeneration r)) (records s1)"
        using s1(1,2,4) True ep changesOnly_elected [OF s1(3)] live by (simp_all add: electedEpoch_def)
      moreover have "reps = indexLog (locSegs (map outSegment os)) []" using s1(4) True by simp
      ultimately show thesis
        using packed_publish [OF inv1 o _ c _ _ _ _ lrs1, of input os ?rng] f' os_def k rng n that
        by metis
    qed
    have "compactCollected F cfg 0 False (endGen input < endGen r0) input lrs ic s =
        Some ((if ok st2 then success else st2, ic, word_of_nat (length os)),
          if ok st2 then s2\<lparr>records := replaceRecords input reps (records s2)\<rparr> else s2)"
      using lrs(2) True w p(1) s1(1) mr
      by (simp add: compactCollected_def os_def [symmetric] spliceRanges_front pg(1))
    then show ?thesis using p(2,3)
      by (intro exI [of _ "(if ok st2 then success else st2, ic, word_of_nat (length os))"]
          exI [of _ "if ok st2 then s2\<lparr>records := replaceRecords input reps (records s2)\<rparr> else s2"])
        (simp split: if_split)
  qed
qed

lemma compactCollected_front:
  assumes inv: "storeInv cfg (view (world s)) segs s" and o: "orderedLog (locSegs segs) []"
    and r: "readable (world s)" and c: "configOk cfg" and mr: "manifestRanges s = r0 # rs"
    and a: "startGen input = startGen r0" and ab: "startGen input \<le> endGen input"
    and be: "endGen input \<le> endGen r0"
    and lrs: "lrs = map (liveOf (view (world s)))
      (filter (\<lambda>r. inRange (startGen input) (endGen input) (srGeneration r)) (records s))"
    and cap: "lrs \<noteq> [] \<Longrightarrow> endGen input < endGen r0 \<Longrightarrow> length rs + 2 \<le> 1024"
    and cnt: "lrs \<noteq> [] \<Longrightarrow> length (packOutput cfg (nextGen s) kSegmentHeaderBytes [] lrs)
      \<le> length (rangeGens input)"
    and room: "publishRoom (view (world s)) s"
  shows "\<exists>res s'. compactCollected F cfg 0 False (endGen input < endGen r0) input lrs ic s = Some (res, s')
    \<and> (ok (fst res) \<longrightarrow> readable (world s') \<and> storeHolds cfg (view (world s')) (logQueue segs) s')
    \<and> (\<not> ok (fst res) \<longrightarrow> diskHolds cfg (view (world s')) (logQueue segs))"
proof -
  obtain old kept where sg: "segs = old @ kept" and f: "frontInput r0 rs input old kept"
    using front_segments [OF inv mr a ab be] by metis
  have len: "length (rangeGens input) = length old"
    using f [unfolded frontInput_def] by (metis length_map)
  show ?thesis
  proof (cases "lrs = []")
    case True
    then have "[] = filter (\<lambda>r. inRange (startGen input) (endGen input) (srGeneration r)) (records s)"
      using lrs by simp
    then show ?thesis
      using compactCollected_dead [OF inv [unfolded sg] o [unfolded sg] r mr f _ room] by (simp add: sg True)
  next
    case False
    then show ?thesis
      using compactCollected_live [OF inv [unfolded sg] o [unfolded sg] r c mr f refl lrs] cap cnt room len
      by (simp add: sg)
  qed
qed

end

section \<open>The plan\<close>

lemma findParent_front:
  assumes "manifestRanges s = r0 # rs" and "startGen input = startGen r0"
    and "startGen input \<le> endGen input" and "endGen input \<le> endGen r0"
  shows "findParentRangeIdx s (startGen input) (endGen input) = 0"
  using assms by (simp add: findParentRangeIdx_def)

lemma planCompaction_front:
  assumes mr: "manifestRanges s = r0 # rs" and a: "startGen rg = startGen r0"
    and ab: "startGen rg \<le> endGen rg" and be: "endGen rg \<le> endGen r0"
    and plan: "planCompaction rg fb s = Some plan"
  shows "startGen (plInput plan) = startGen r0 \<and> startGen (plInput plan) \<le> endGen (plInput plan)
    \<and> endGen (plInput plan) \<le> endGen r0 \<and> plWouldRotate plan = wouldRotate (plInput plan) s
    \<and> (endGen (plInput plan) < endGen r0 \<longrightarrow> rangeHasLive s (startGen (plInput plan)) (endGen (plInput plan))
         \<longrightarrow> length rs + 2 \<le> 1024)"
proof -
  have i: "findParentRangeIdx s (startGen rg) (endGen rg) = 0" by (rule findParent_front [OF mr a ab be])
  obtain input l r where g: "gateRange rg fb r0 s = Some (input, l, r)"
    using plan by (auto simp: planCompaction_def i mr split: option.splits)
  have in': "(input = \<lparr>startGen = startGen r0, endGen = endGen r0\<rparr> \<or> input = rg \<and>
      (endGen rg < endGen r0 \<longrightarrow> rangeHasLive s (startGen rg) (endGen rg) \<longrightarrow> length rs + 2 \<le> 1024)) \<and> \<not> l"
    using g by (auto simp: gateRange_def Let_def a mr kManifestMaxRanges_def split: if_splits fallback.splits)
  have "plan = \<lparr>plInput = input, plHasLeft = l, plHasRight = r, plWouldRotate = wouldRotate input s\<rparr>"
    using plan in' by (simp add: planCompaction_def i mr g Let_def)
  moreover have "startGen r0 \<le> endGen r0" using ab be a by simp
  ultimately show ?thesis using in' a ab be by auto
qed

lemma preflight_front:
  assumes b: "planEnd plan s = b" "b \<noteq> 0xffffffff" and a: "startGen (plInput plan) = a" "a \<le> b"
    and n: "length (records s) < 4294967295"
    and live: "live = filter (\<lambda>r. inRange a b (srGeneration r)) (records s)"
    and pay: "\<forall>r \<in> set live. length (lrPayload (f r)) = unat (srPayloadBytes r)"
  shows "\<exists>go. preflight cfg plan s = Some (go, map srPayloadBytes live)
    \<and> (go \<and> live \<noteq> [] \<longrightarrow> (\<forall>g. length (packOutput cfg g kSegmentHeaderBytes [] (map f live))
         \<le> length (rangeGens \<lparr>startGen = a, endGen = b\<rparr>)))"
proof -
  let ?pays = "map srPayloadBytes live"
  have p: "hypoPayloads a b s = ?pays" by (simp add: hypoPayloads_def live)
  obtain inb where inb: "hypoInputBytes a b s = Some inb"
    using genLoop_ends [OF b(2)] by (simp add: hypoInputBytes_def)
  have pays: "?pays = map (\<lambda>lr. word_of_nat (length (lrPayload lr))) (map f live)" using pay by simp
  obtain k where k: "hypoOutputSegs cfg 1 kSegmentHeaderBytes ?pays = 1 + word_of_nat k"
      "\<forall>g. length (packOutput cfg g kSegmentHeaderBytes [] (map f live)) \<le> Suc k" "k \<le> length live"
    using hypoOutputSegs_count [of "[]" kSegmentHeaderBytes cfg 1 "map f live"] unfolding pays [symmetric] by auto
  have "length live \<le> length (records s)" by (simp add: live)
  then have u: "unat (hypoOutputSegs cfg 1 kSegmentHeaderBytes ?pays) = Suc k"
    using k(1,3) n by (simp add: unat_word_ariths unat_word_u32)
  have "unat (b - a + 1) = Suc (unat b - unat a)"
  proof -
    have "unat (b - a) = unat b - unat a" using a(2) by (simp add: unat_sub)
    then show ?thesis using b(2) u32_bound [of b] by (simp add: unat_word_ariths u32_eq_unat)
  qed
  then have rg: "unat (b - a + 1) = length (rangeGens \<lparr>startGen = a, endGen = b\<rparr>)"
    using a(2) by (simp add: rangeGens_def word_le_nat_alt Suc_diff_le)
  have "preflight cfg plan s = Some (\<not> (?pays \<noteq> [] \<and>
      (hypoOutputSegs cfg 1 kSegmentHeaderBytes ?pays > b - a + 1
       \<or> hypoOutputSegs cfg 1 kSegmentHeaderBytes ?pays = b - a + 1
         \<and> \<not> hypoLiveBytes (hypoOutputSegs cfg 1 kSegmentHeaderBytes ?pays) ?pays < inb)), ?pays)"
    by (simp add: preflight_def Let_def a(1) b(1) p inb)
  moreover have "length (packOutput cfg g kSegmentHeaderBytes [] (map f live))
      \<le> length (rangeGens \<lparr>startGen = a, endGen = b\<rparr>)"
    if "\<not> hypoOutputSegs cfg 1 kSegmentHeaderBytes ?pays > b - a + 1" for g
    using that k(2) [rule_format, of g] u rg by (simp add: word_less_nat_alt)
  ultimately show ?thesis by auto
qed

lemma live_payload:
  assumes "storeInv cfg v segs s" and "r \<in> set (records s)"
  shows "length (lrPayload (liveOf v r)) = unat (srPayloadBytes r)"
  using live_placed [OF assms] by (auto simp: placed_def liveOf_def cutRecord_def)

text \<open>Only the last range touches the tail, so a range at the front that does is the only one.\<close>

lemma only_range:
  assumes inv: "storeInv cfg v segs s" and mr: "manifestRanges s = r0 # rs"
    and ab: "startGen r0 \<le> e" "e \<le> endGen r0" and e: "e = endGen (last (r0 # rs))"
  shows "rs = [] \<and> endGen r0 = e"
proof (cases "rs = []")
  case False
  have l: "logOnDisk cfg v segs []" using inv by (simp add: storeInv_def)
  have "segs \<noteq> []"
    using inv mr by (auto simp: storeInv_def logOnDisk_def manifestMatches_def manifestGens_def
        rangeGens_not_Nil wf_manifest_def dest: electedManifest_wf split: option.splits)
  then obtain md where md: "electedManifest v = Some md" "wf_manifest md"
      "concat (map rangeGens (ranges md)) = map segGen (butlast segs)"
    using log_manifest [OF l] by metis
  have rg: "ranges md = r0 # rs" using inv mr md(1) by (simp add: storeInv_def)
  have "distinct (map segGen (butlast segs))"
    using l by (simp add: logOnDisk_def map_butlast distinct_butlast)
  then have d: "set (rangeGens r0) \<inter> set (concat (map rangeGens rs)) = {}"
    unfolding md(3) [symmetric] rg by simp
  have "last rs \<in> set rs" using False by simp
  then have "wf_range (last rs)" using md(2) rg by (simp add: wf_manifest_def)
  then have "e \<in> set (rangeGens (last rs))"
    using e False by (simp add: rangeGens_mem inRange_def wf_range_def)
  then have "e \<in> set (concat (map rangeGens rs))" using False by auto
  moreover have "e \<in> set (rangeGens r0)" using ab by (simp add: rangeGens_mem inRange_def)
  ultimately show ?thesis using d by blast
qed (use e in simp)

lemma ranges_segs: "storeInv cfg v segs s \<Longrightarrow> manifestRanges s \<noteq> [] \<Longrightarrow> segs \<noteq> []"
  by (auto simp: storeInv_def logOnDisk_def manifestMatches_def manifestGens_def
      rangeGens_not_Nil wf_manifest_def dest: electedManifest_wf split: option.splits)

lemma segsOnDisk_mem:
  "segsOnDisk v segs [] \<Longrightarrow> sg \<in> set segs \<Longrightarrow> v (segmentName (segGen sg)) = Some (segBytes sg)"
  by (induction segs) auto

lemma u32_Suc_ne_max: "(x :: u32) < 0xfffffffe \<Longrightarrow> x + 1 \<noteq> 0xffffffff"
  by (auto simp: eq_diff_eq [symmetric])

lemma plan_end:
  assumes inv: "storeInv cfg v segs s" and mr: "manifestRanges s = r0 # rs"
    and be: "endGen (plInput plan) \<le> endGen r0" and rot: "plWouldRotate plan = wouldRotate (plInput plan) s"
  shows "planEnd plan s \<noteq> 0xffffffff" and "endGen (plInput plan) \<le> planEnd plan s"
    and "\<not> plWouldRotate plan \<Longrightarrow> planEnd plan s = endGen (plInput plan)"
    and "plWouldRotate plan \<Longrightarrow> planEnd plan s = activeGeneration s"
proof -
  have "endGen r0 \<noteq> 0xffffffff" using storeInv_loadable(1) [OF inv] by (simp add: mr loadable_def)
  then have m: "endGen (plInput plan) \<noteq> 0xffffffff" using be by (metis dual_order.antisym u32_le_max)
  have "segs \<noteq> []" by (rule ranges_segs [OF inv]) (simp add: mr)
  then have "activeGeneration s < nextGen s" using inv by (auto simp: storeInv_def)
  then have a: "activeGeneration s \<noteq> 0xffffffff" by (metis leD u32_le_max)
  have w: "endGen (plInput plan) + 1 = activeGeneration s" if "plWouldRotate plan"
    using that by (simp add: rot wouldRotate_def)
  show "planEnd plan s \<noteq> 0xffffffff" using m a by (simp add: planEnd_def)
  show "endGen (plInput plan) \<le> planEnd plan s"
    using w unat_Suc_u32 [OF m] by (auto simp: planEnd_def word_le_nat_alt)
  show "\<not> plWouldRotate plan \<Longrightarrow> planEnd plan s = endGen (plInput plan)"
    "plWouldRotate plan \<Longrightarrow> planEnd plan s = activeGeneration s" by (simp_all add: planEnd_def)
qed

lemma compactionRoom_active:
  assumes "storeInv cfg v segs s" and "segs \<noteq> []"
  shows "activeGeneration s = segGen (last segs)" and "activeGeneration s < nextGen s"
  using assms by (auto simp: storeInv_def)

context readable_file_system
begin

text \<open>From the collection on, with the store as it is after a rotation.\<close>

lemma collect_front:
  assumes inv: "storeInv cfg (view (world s)) segs s" and o: "orderedLog (locSegs segs) []"
    and r: "readable (world s)" and c: "configOk cfg" and mr: "manifestRanges s = r0 # rs"
    and a: "startGen input = startGen r0" and ab: "startGen input \<le> endGen input"
    and be: "endGen input \<le> endGen r0"
    and live: "live = filter (\<lambda>r. inRange (startGen input) (endGen input) (srGeneration r)) (records s)"
    and cap: "live \<noteq> [] \<Longrightarrow> endGen input < endGen r0 \<Longrightarrow> length rs + 2 \<le> 1024"
    and cnt: "live \<noteq> [] \<Longrightarrow> \<forall>g. length (packOutput cfg g kSegmentHeaderBytes []
      (map (liveOf (view (world s))) live)) \<le> length (rangeGens input)"
    and room: "publishRoom (view (world s)) s"
  shows "\<exists>res s'. do {
        ((st, lrs), s) \<leftarrow> collectLiveRecords F input s;
        if \<not> ok st then Some ((st, ic, 0), s)
        else compactCollected F cfg 0 False (endGen input < endGen r0) input lrs ic s
      } = Some (res, s')
    \<and> (ok (fst res) \<longrightarrow> readable (world s') \<and> storeHolds cfg (view (world s')) (logQueue segs) s')
    \<and> (\<not> ok (fst res) \<longrightarrow> diskHolds cfg (view (world s')) (logQueue segs))"
proof -
  let ?lrs = "map (liveOf (view (world s))) live"
  have "records s = indexLog (locSegs segs) []" using inv by (simp only: storeInv_def)
  then have "seqSorted (records s)" using orderedLog_end [OF o] by simp
  then obtain w where w: "collectLiveRecords F input s = Some ((success, ?lrs), s\<lparr>world := w\<rparr>)"
      "view w = view (world s)" "readable w"
    using collectLiveRecords_live [OF inv r] live by blast
  have inv': "storeInv cfg (view (world (s\<lparr>world := w\<rparr>))) segs (s\<lparr>world := w\<rparr>)"
    using inv w(2) by (simp add: storeInv_def cacheWins_def)
  show ?thesis
    unfolding w(1) using compactCollected_front [OF inv' o _ c _ a ab be, of rs ?lrs ic] w mr live cap cnt room
    by (simp add: publishRoom_def)
qed

text \<open>The rotation before a compaction that takes the tail with it.\<close>

lemma rotate_front:
  assumes inv: "storeInv cfg (view (world s)) segs s" and o: "orderedLog (locSegs segs) []"
    and r: "readable (world s)" and c: "configOk cfg" and mr: "manifestRanges s = r0 # rs"
    and ab: "startGen r0 \<le> e" "e \<le> endGen r0"
    and rot: "wouldRotate \<lparr>startGen = startGen r0, endGen = e\<rparr> s"
    and room: "compactionRoom (view (world s)) s"
  shows "\<exists>st s1. rotateSegment F s = Some (st, s1)
    \<and> (\<not> ok st \<longrightarrow> diskHolds cfg (view (world s1)) (logQueue segs))
    \<and> (ok st \<longrightarrow> (\<exists>segs'. readable (world s1) \<and> storeInv cfg (view (world s1)) segs' s1
         \<and> orderedLog (locSegs segs') [] \<and> logQueue segs' = logQueue segs \<and> records s1 = records s
         \<and> manifestRanges s1 = [r0\<lparr>endGen := activeGeneration s\<rparr>]
         \<and> publishRoom (view (world s1)) s1
         \<and> (\<forall>x \<in> set (records s). liveOf (view (world s1)) x = liveOf (view (world s)) x)))"
proof -
  let ?v = "view (world s)"
  have l: "logOnDisk cfg ?v segs []" using inv by (simp add: storeInv_def)
  have ne: "segs \<noteq> []" by (rule ranges_segs [OF inv]) (simp add: mr)
  have e: "e = endGen (last (r0 # rs))" "endGen (last (r0 # rs)) + 1 = activeGeneration s"
    using rot by (simp_all add: wouldRotate_def mr)
  have one: "rs = []" "endGen r0 = e" using only_range [OF inv mr ab e(1)] by simp_all
  have act: "activeGeneration s = segGen (last segs)" using inv ne by (simp add: storeInv_def)
  have "rotateSegment F s \<noteq> None" by (rule rotateSegment_returns [OF storeInv_loadable(2) [OF inv]])
  then obtain st s1 where run: "rotateSegment F s = Some (st, s1)" by auto
  have n: "length segs < 1025" "nextGen s \<noteq> 0xffffffff" "electedEpoch ?v \<noteq> 0xffffffff"
    using room inv by (auto simp: compactionRoom_def storeInv_def)
  show ?thesis
  proof (cases rule: rotateSegment_cases [OF inv r ne n run])
    case (1 ss)
    let ?segs = "segs @ [(nextGen s, ss, [])]"
    have loc: "locSegs ?segs = locSegs segs" by simp
    have "segGen (last segs) \<noteq> 0" by (rule log_gen_nonzero [OF l]) (simp add: ne)
    then have mr1: "manifestRanges s1 = [r0\<lparr>endGen := activeGeneration s\<rparr>]"
      using 1(5) e(2) one(1) by (simp add: rangesWithTail_def mr act)
    have "length (activeGenerations s1) = Suc (length segs)" using 1(3) by (simp add: storeInv_def)
    then have room1: "publishRoom (view (world s1)) s1"
      using room n(1) 1(6,7) unat_Suc_u32 [OF n(2)] u32_Suc_ne_max [of "electedEpoch ?v"]
      by (simp add: publishRoom_def compactionRoom_def)
    have "segsOnDisk (view (world s1)) ?segs []" "segsOnDisk ?v segs []"
      using 1(3) inv by (simp_all add: storeInv_def logOnDisk_def)
    from this [THEN segsOnDisk_mem] have files: "sg \<in> set segs \<Longrightarrow>
        view (world s1) (segmentName (segGen sg)) = ?v (segmentName (segGen sg))" for sg
      by simp
    have "liveOf (view (world s1)) x = liveOf ?v x" if that_rec: "x \<in> set (records s)" for x
    proof -
      obtain sg where sg: "sg \<in> set segs" "srGeneration x = segGen sg"
        using storeInv_gens [OF inv, of x] that_rec by auto
      then show ?thesis using files [of sg] by (simp add: liveOf_def)
    qed
    then show ?thesis
      using run 1(1-4) mr1 room1 o locSegs_queue [OF loc]
      by (intro exI [of _ st] exI [of _ s1]) (auto simp only: loc intro!: exI [of _ ?segs])
  next
    case (2 segs')
    have "diskHolds cfg (view (world s1)) (logQueue segs)" by (rule diskHolds_same [OF 2(2,3) o])
    then show ?thesis using run 2(1) by (intro exI [of _ st] exI [of _ s1]) simp
  qed
qed

text \<open>The two ways through \<open>compactRange\<close> after a preflight that says go.\<close>

lemma compactRange_tail:
  assumes inv: "storeInv cfg (view (world s)) segs s" and o: "orderedLog (locSegs segs) []"
    and r: "readable (world s)" and c: "configOk cfg" and mr: "manifestRanges s = r0 # rs"
    and room: "compactionRoom (view (world s)) s"
    and plan: "planCompaction rg fb s = Some plan" "plInput plan = input" "plWouldRotate plan" "wouldRotate input s"
    and pl: "startGen input = startGen r0" "startGen input \<le> endGen input" "endGen input \<le> endGen r0"
    and b: "endGen input \<le> activeGeneration s"
    and live: "live = filter (\<lambda>r. inRange (startGen input) (activeGeneration s) (srGeneration r)) (records s)"
    and pf: "preflight cfg plan s = Some (True, map srPayloadBytes live)" "live \<noteq> []"
      "\<forall>g. length (packOutput cfg g kSegmentHeaderBytes [] (map (liveOf (view (world s))) live))
         \<le> length (rangeGens \<lparr>startGen = startGen input, endGen = activeGeneration s\<rparr>)"
  shows "\<exists>res s'. compactRange F cfg rg fb s = Some (res, s')
    \<and> (ok (fst res) \<longrightarrow> readable (world s') \<and> storeHolds cfg (view (world s')) (logQueue segs) s')
    \<and> (\<not> ok (fst res) \<longrightarrow> diskHolds cfg (view (world s')) (logQueue segs))"
proof -
  define r1 where "r1 = r0\<lparr>endGen := activeGeneration s\<rparr>"
  define input1 where "input1 = input\<lparr>endGen := activeGeneration s\<rparr>"
  have "input = \<lparr>startGen = startGen r0, endGen = endGen input\<rparr>" by (simp add: pl(1))
  then have rot: "wouldRotate \<lparr>startGen = startGen r0, endGen = endGen input\<rparr> s" using plan(4) by metis
  obtain st s1 where rf: "rotateSegment F s = Some (st, s1)"
      "\<not> ok st \<longrightarrow> diskHolds cfg (view (world s1)) (logQueue segs)"
      "ok st \<longrightarrow> (\<exists>segs'. readable (world s1) \<and> storeInv cfg (view (world s1)) segs' s1
         \<and> orderedLog (locSegs segs') [] \<and> logQueue segs' = logQueue segs \<and> records s1 = records s
         \<and> manifestRanges s1 = [r1] \<and> publishRoom (view (world s1)) s1
         \<and> (\<forall>x \<in> set (records s). liveOf (view (world s1)) x = liveOf (view (world s)) x))"
    using rotate_front [OF inv o r c mr pl(2) [unfolded pl(1)] pl(3) rot room] unfolding r1_def by blast
  show ?thesis
  proof (cases "ok st")
    case False
    then show ?thesis using rf(1,2) by (simp add: compactRange_def plan pf(1,2))
  next
    case ok: True
    obtain segs' where s1: "readable (world s1)" "storeInv cfg (view (world s1)) segs' s1"
        "orderedLog (locSegs segs') []" "logQueue segs' = logQueue segs" "records s1 = records s"
        "manifestRanges s1 = [r1]" "publishRoom (view (world s1)) s1"
        "\<forall>x \<in> set (records s). liveOf (view (world s1)) x = liveOf (view (world s)) x"
      using rf(3) ok by blast
    have i1: "startGen input1 = startGen r1" "startGen input1 \<le> endGen input1" "endGen input1 \<le> endGen r1"
      using pl b by (simp_all add: r1_def input1_def)
    have idx: "findParentRangeIdx s1 (startGen input) (endGen input) = 0"
      using pl b by (intro findParent_front [OF s1(6)]) (simp_all add: r1_def)
    have live1: "live = filter (\<lambda>r. inRange (startGen input1) (endGen input1) (srGeneration r)) (records s1)"
      by (simp add: live input1_def s1(5))
    have "map (liveOf (view (world s1))) live = map (liveOf (view (world s))) live"
      using s1(8) by (simp add: live)
    moreover have "rangeGens input1 = rangeGens \<lparr>startGen = startGen input, endGen = activeGeneration s\<rparr>"
      by (simp add: input1_def rangeGens_def)
    ultimately have cnt: "\<forall>g. length (packOutput cfg g kSegmentHeaderBytes []
        (map (liveOf (view (world s1))) live)) \<le> length (rangeGens input1)"
      using pf(3) by metis
    have "compactRange F cfg rg fb s = do {
        ((st, lrs), s) \<leftarrow> collectLiveRecords F input1 s1;
        if \<not> ok st then Some ((st, endGen input1 - startGen input1 + 1, 0), s)
        else compactCollected F cfg 0 False (endGen input1 < endGen r1) input1 lrs
          (endGen input1 - startGen input1 + 1) s }"
    proof -
      have inp: "input\<lparr>endGen := endGen r1\<rparr> = input1" and left: "(startGen r1 < startGen input1) = False"
        using pl(1) by (simp_all add: r1_def input1_def)
      show ?thesis using ok rf(1) plan(3) pf(2)
        by (simp add: compactRange_def plan(1,2) pf(1) Let_def s1(6) idx inp) (unfold idx inp left, rule refl)
    qed
    then show ?thesis
      using collect_front [OF s1(2,3,1) c s1(6) i1 live1 _ cnt s1(7)]
      by (simp add: s1(4) r1_def input1_def)
  qed
qed

lemma compactRange_plain:
  assumes inv: "storeInv cfg (view (world s)) segs s" and o: "orderedLog (locSegs segs) []"
    and r: "readable (world s)" and c: "configOk cfg" and mr: "manifestRanges s = r0 # rs"
    and room: "compactionRoom (view (world s)) s"
    and plan: "planCompaction rg fb s = Some plan" "plInput plan = input"
    and pl: "startGen input = startGen r0" "startGen input \<le> endGen input" "endGen input \<le> endGen r0"
    and live: "live = filter (\<lambda>r. inRange (startGen input) (endGen input) (srGeneration r)) (records s)"
    and cap: "live \<noteq> [] \<Longrightarrow> endGen input < endGen r0 \<Longrightarrow> length rs + 2 \<le> 1024"
    and pf: "preflight cfg plan s = Some (True, pays)" "\<not> (plWouldRotate plan \<and> pays \<noteq> [])"
      "live \<noteq> [] \<Longrightarrow> \<forall>g. length (packOutput cfg g kSegmentHeaderBytes []
         (map (liveOf (view (world s))) live)) \<le> length (rangeGens input)"
  shows "\<exists>res s'. compactRange F cfg rg fb s = Some (res, s')
    \<and> (ok (fst res) \<longrightarrow> readable (world s') \<and> storeHolds cfg (view (world s')) (logQueue segs) s')
    \<and> (\<not> ok (fst res) \<longrightarrow> diskHolds cfg (view (world s')) (logQueue segs))"
proof -
  have idx: "findParentRangeIdx s (startGen input) (endGen input) = 0" by (rule findParent_front [OF mr pl])
  have "compactRange F cfg rg fb s = do {
      ((st, lrs), s) \<leftarrow> collectLiveRecords F input s;
      if \<not> ok st then Some ((st, endGen input - startGen input + 1, 0), s)
      else compactCollected F cfg 0 False (endGen input < endGen r0) input lrs
        (endGen input - startGen input + 1) s }"
  proof -
    have left: "(startGen r0 < startGen input) = False" using pl(1) by simp
    show ?thesis
    proof (cases "pays = []")
      case True
      then show ?thesis
        by (simp add: compactRange_def plan pf(1) Let_def mr idx) (unfold idx left, rule refl)
    next
      case False
      then have "\<not> plWouldRotate plan" using pf(2) by simp
      then show ?thesis
        by (simp add: compactRange_def plan pf(1) Let_def mr idx) (unfold idx left, rule refl)
    qed
  qed
  then show ?thesis
    using collect_front [OF inv o r c mr pl live cap pf(3) compactionRoom_publish [OF room]] by simp
qed

lemma compactRange_front:
  assumes inv: "storeInv cfg (view (world s)) segs s" and o: "orderedLog (locSegs segs) []"
    and r: "readable (world s)" and c: "configOk cfg" and mr: "manifestRanges s = r0 # rs"
    and a: "startGen rg = startGen r0" and ab: "startGen rg \<le> endGen rg" and be: "endGen rg \<le> endGen r0"
    and room: "compactionRoom (view (world s)) s"
  shows "\<exists>res s'. compactRange F cfg rg fb s = Some (res, s')
    \<and> (ok (fst res) \<longrightarrow> readable (world s') \<and> storeHolds cfg (view (world s')) (logQueue segs) s')
    \<and> (\<not> ok (fst res) \<longrightarrow> diskHolds cfg (view (world s')) (logQueue segs))"
proof -
  let ?v = "view (world s)"
  have same: "storeHolds cfg ?v (logQueue segs) s" by (rule storeHolds_intro [OF inv o refl])
  show ?thesis
  proof (cases "planCompaction rg fb s")
    case None
    then show ?thesis using same r by (simp add: compactRange_def)
  next
    case (Some plan)
    define input where "input = plInput plan"
    have pl: "startGen input = startGen r0" "startGen input \<le> endGen input" "endGen input \<le> endGen r0"
      "plWouldRotate plan = wouldRotate input s"
      "endGen input < endGen r0 \<Longrightarrow> rangeHasLive s (startGen input) (endGen input) \<Longrightarrow> length rs + 2 \<le> 1024"
      using planCompaction_front [OF mr a ab be Some] unfolding input_def by blast+
    define b where "b = planEnd plan s"
    define live where "live = filter (\<lambda>r. inRange (startGen input) b (srGeneration r)) (records s)"
    have bs: "b \<noteq> 0xffffffff" "endGen input \<le> b" "\<not> plWouldRotate plan \<Longrightarrow> b = endGen input"
      "plWouldRotate plan \<Longrightarrow> b = activeGeneration s"
      using plan_end [OF inv mr pl(3,4) [unfolded input_def]] by (simp_all add: b_def input_def)
    have ab': "startGen input \<le> b" using pl(2) bs(2) by simp
    obtain go where pf: "preflight cfg plan s = Some (go, map srPayloadBytes live)"
        "go \<and> live \<noteq> [] \<longrightarrow> (\<forall>g. length (packOutput cfg g kSegmentHeaderBytes [] (map (liveOf ?v) live))
           \<le> length (rangeGens \<lparr>startGen = startGen input, endGen = b\<rparr>))"
    proof -
      have n: "length (records s) < 4294967295" using room by (simp add: compactionRoom_def)
      have pay: "\<forall>r \<in> set live. length (lrPayload (liveOf ?v r)) = unat (srPayloadBytes r)"
        using live_payload [OF inv] by (simp add: live_def)
      show thesis
        using preflight_front [OF b_def [symmetric] bs(1) input_def [symmetric, THEN arg_cong] ab' n live_def pay]
          that by blast
    qed
    show ?thesis
    proof (cases "go")
      case False
      then show ?thesis using same r by (simp add: compactRange_def Some pf(1))
    next
      case go: True
      show ?thesis
      proof (cases "plWouldRotate plan \<and> live \<noteq> []")
        case True
        then have bb: "b = activeGeneration s" using bs(4) by simp
        show ?thesis
          using compactRange_tail [OF inv o r c mr room Some input_def [symmetric] _ _ pl(1-3) bs(2) [unfolded bb]
              live_def [unfolded bb]] True pl(4) pf go bb by simp
      next
        case False
        have live': "filter (\<lambda>r. inRange (startGen input) (endGen input) (srGeneration r)) (records s)
            = (if plWouldRotate plan then [] else live)" (is "?live = _")
          using False bs(2,3) by (auto simp: live_def inRange_def filter_empty_conv)
        have cap: "length rs + 2 \<le> 1024" if "?live \<noteq> []" "endGen input < endGen r0"
          using that pl(5) by (auto simp: rangeHasLive_def filter_empty_conv)
        have cnt: "\<forall>g. length (packOutput cfg g kSegmentHeaderBytes [] (map (liveOf ?v) ?live))
            \<le> length (rangeGens input)" if "?live \<noteq> []"
          using that pf(2) go bs(3) unfolding live' by (auto simp: rangeGens_def split: if_splits)
        show ?thesis
          using False go pf(1)
          by (intro compactRange_plain [OF inv o r c mr room Some input_def [symmetric] pl(1-3) refl cap _ _ cnt]) auto
      qed
    qed
  qed
qed

end

end
