(* ===== verification/Compaction_Theorems.thy ===== *)
theory Compaction_Theorems
  imports Compaction_Correct Log_Theorems
begin

text \<open>
  Compaction on the POSIX file system: what a store promises of its queue while it rewrites the
  oldest part of its log, whatever write fails and wherever the process stops.
\<close>

section \<open>Ranges of a store\<close>

lemma storeHolds_front:
  assumes "storeHolds cfg v q s" and "manifestRanges s = r0 # rs"
  shows "startGen r0 \<le> endGen r0"
proof -
  obtain segs where inv: "storeInv cfg v segs s" using assms(1) by (auto simp: storeHolds_def)
  then obtain md where "electedManifest v = Some md" "ranges md = r0 # rs"
    using assms(2) by (auto simp: storeInv_def split: option.splits)
  then show ?thesis using electedManifest_wf by (fastforce simp: wf_manifest_def wf_range_def)
qed

lemma compaction_front_posix:
  assumes "storeHolds cfg (posixView (world s)) q s" and "posixReadable (world s)"
    and "configOk cfg" and "compactionRoom (posixView (world s)) s"
    and "manifestRanges s = r0 # rs" and "startGen rg = startGen r0"
    and "startGen rg \<le> endGen rg" and "endGen rg \<le> endGen r0"
  shows "\<exists>res s'. compactRange posixFs cfg rg fb s = Some (res, s')
    \<and> (ok (fst res) \<longrightarrow> posixReadable (world s') \<and> storeHolds cfg (posixView (world s')) q s')
    \<and> recovers cfg (world s') q"
proof -
  obtain segs where segs: "storeInv cfg (posixView (world s)) segs s" "orderedLog (locSegs segs) []"
      "logQueue segs = q"
    using assms(1) by (auto simp: storeHolds_def logQueue_def)
  obtain res s' where "compactRange posixFs cfg rg fb s = Some (res, s')"
      "ok (fst res) \<longrightarrow> posixReadable (world s') \<and> storeHolds cfg (posixView (world s')) q s'"
      "\<not> ok (fst res) \<longrightarrow> diskHolds cfg (posixView (world s')) q"
    using posix.compactRange_front [OF segs(1,2) assms(2,3,5-8,4)] segs(3) by metis
  moreover from this have "recovers cfg (world s') q"
    by (cases "ok (fst res)") (auto intro: recoversI recovers_holds assms(3))
  ultimately show ?thesis by blast
qed

section \<open>A sample run\<close>

text \<open>The store with one record, whose segment is sealed.\<close>

definition sealedStore :: "posix_world store" where
  "sealedStore = snd (the (rotateSegment posixFs oneRecord))"

lemma oneRecord_segments:
  obtains segs where "storeInv sampleConfig (posixView (world oneRecord)) segs oneRecord"
    "orderedLog (locSegs segs) []" "logQueue segs = sampleQueue" "segs \<noteq> []"
    "records oneRecord = indexLog (locSegs segs) []"
proof -
  obtain segs where "storeInv sampleConfig (posixView (world oneRecord)) segs oneRecord"
    "orderedLog (locSegs segs) []" "logQueue segs = sampleQueue"
    using oneRecord_ok(3) by (auto simp: storeHolds_def logQueue_def)
  moreover from this have "segs \<noteq> []" by (auto simp: logQueue_def logEvents_def)
  ultimately show thesis by (intro that) (auto simp: storeInv_def)
qed

lemma sealedStore_ok:
  "storeHolds sampleConfig (posixView (world sealedStore)) sampleQueue sealedStore"
  "posixReadable (world sealedStore)" "manifestRanges sealedStore = [\<lparr>startGen = 1, endGen = 1\<rparr>]"
  "compactionRoom (posixView (world sealedStore)) sealedStore"
proof -
  obtain segs where segs: "storeInv sampleConfig (posixView (world oneRecord)) segs oneRecord"
      "orderedLog (locSegs segs) []" "logQueue segs = sampleQueue" "segs \<noteq> []"
      "records oneRecord = indexLog (locSegs segs) []"
    by (rule oneRecord_segments)
  note m = oneRecord_manifest
  have e: "electedEpoch (posixView (world oneRecord)) = 1" by (simp add: electedEpoch_def m)
  have gens: "map segGen segs = [1]" using segs(1) m by (simp add: storeInv_def)
  have lst: "segGen (last segs) = 1" using arg_cong [OF gens, of last] segs(4) by (simp add: last_map)
  have act: "activeGeneration oneRecord = 1" using segs(1,4) lst by (simp add: storeInv_def)
  have n: "length segs < 1025" using arg_cong [OF gens, of length] by simp
  have len: "length (records oneRecord) = 1"
    using list_all2_lengthD [OF storeInv_queue [OF segs(1)]] segs(3) by simp
  obtain s' where "rotateSegment posixFs oneRecord = Some (success, s')"
    using posix.rotateSegment_healthy [OF oneRecord_ok(2)] oneRecord_limits storeInv_loadable(2) [OF segs(1)]
    by (auto simp: withinLimits_def)
  then have run: "rotateSegment posixFs oneRecord = Some (success, sealedStore)" by (simp add: sealedStore_def)
  have c: "nextGen oneRecord \<noteq> 0xffffffff" "electedEpoch (posixView (world oneRecord)) \<noteq> 0xffffffff"
    using m e by simp_all
  let ?v = "posixView (world sealedStore)"
  obtain ss where r: "posixReadable (world sealedStore)"
      "storeInv sampleConfig ?v (segs @ [(nextGen oneRecord, ss, [])]) sealedStore"
      "records sealedStore = records oneRecord"
      "manifestRanges sealedStore = rangesWithTail (manifestRanges oneRecord) (segGen (last segs))"
      "nextGen sealedStore = nextGen oneRecord + 1"
      "electedEpoch ?v = electedEpoch (posixView (world oneRecord)) + 1"
    using posix.rotateSegment_cases [OF segs(1) _ segs(4) n c run] oneRecord_ok(2) by force
  show "posixReadable (world sealedStore)" by (fact r(1))
  show "manifestRanges sealedStore = [\<lparr>startGen = 1, endGen = 1\<rparr>]"
    using r(4) m by (simp add: lst rangesWithTail_def)
  have loc: "locSegs (segs @ [(nextGen oneRecord, ss, [])]) = locSegs segs" by simp
  show "storeHolds sampleConfig ?v sampleQueue sealedStore"
    using storeHolds_intro [OF r(2) _ refl] segs(2,3) locSegs_queue [OF loc] by (simp only: loc)
  have "length (activeGenerations sealedStore) = 2"
    using r(2) arg_cong [OF gens, of length] by (simp add: storeInv_def)
  then show "compactionRoom ?v sealedStore"
    using r(3,5,6) m e len by (simp add: compactionRoom_def)
qed

section \<open>Compaction keeps the queue\<close>





end
