(* ===== verification/Mount_Hazards.thy ===== *)
theory Mount_Hazards
  imports Compaction_Theorems Queue_Progress
begin

text \<open>
  Two ways in which opening a queue goes wrong for its owner.

  The first is a store opened with another \<open>maxRecordBytes\<close> than the one its log was written with (a queue whose
  \<open>recordSizeBytes\<close> was lowered, or a tool that uses its default).  Raising the limit is harmless.
  Lowering it below a record of the active segment is not: \<open>scanSegments\<close> takes the record for
  corruption, and corruption in the active segment for a torn tail, so \<open>mount\<close> cuts the segment
  there and the record and everything behind it is gone.

  The second is a directory with a segment file and no manifest, which is what a crash between the
  two writes of the first enqueue leaves.  \<open>mount\<close> refuses it, and since the lock of a \<open>Queue\<close> is
  taken through the mounted store, so does every operation, \<open>format\<close> included.
\<close>

section \<open>The log under another limit\<close>

lemma eventFits_limit:
  "eventFits (cfg\<lparr>maxRecordBytes := n\<rparr>) ev \<Longrightarrow> n \<le> maxRecordBytes cfg \<Longrightarrow> eventFits cfg ev"
  by (cases ev) auto

lemma logOnDisk_limit:
  assumes "logOnDisk (cfg\<lparr>maxRecordBytes := n\<rparr>) v segs []" and "n \<le> maxRecordBytes cfg"
  shows "logOnDisk cfg v segs []"
  using assms eventFits_limit [OF _ assms(2)] unfolding logOnDisk_def segFits_def
  by (metis (no_types, lifting) tornTail_Nil)

lemma segsOnDisk_cut:
  "segsOnDisk v (segs @ [(g, ss, evs @ evs')]) [] \<longleftrightarrow> segsOnDisk v (segs @ [(g, ss, evs)]) (encodeEvents evs')"
  by (induction segs) (simp_all add: segBytes_def segGen_def)

text \<open>Under the lower limit the log ends before the first record beyond it.\<close>

lemma logOnDisk_cut:
  assumes log: "logOnDisk cfg v (segs @ [(g, ss, pre @ ev # post)]) []"
    and n: "n \<le> maxRecordBytes cfg"
    and fits: "\<forall>e \<in> set (logEvents segs @ pre). eventFits (cfg\<lparr>maxRecordBytes := n\<rparr>) e"
    and big: "\<not> eventFits (cfg\<lparr>maxRecordBytes := n\<rparr>) ev"
  shows "logOnDisk (cfg\<lparr>maxRecordBytes := n\<rparr>) v (segs @ [(g, ss, pre)]) (encodeEvents (ev # post))"
proof -
  let ?cfg = "cfg\<lparr>maxRecordBytes := n\<rparr>"
  have tail: "tornTail ?cfg (encodeEvents (ev # post))"
    using big unfolding tornTail_def oversizedTail_def by (intro disjI2 exI [of _ ev]) auto
  have disk: "segsOnDisk v (segs @ [(g, ss, pre)]) (encodeEvents (ev # post))"
    using log segsOnDisk_cut [of v segs g ss pre "ev # post"] by (simp add: logOnDisk_def)
  have len: "length (segBytes (g, ss, pre) @ encodeEvents (ev # post)) \<le> maxReplayBytes"
    using log by (simp add: logOnDisk_def segFits_def segBytes_def)
  have f: "\<forall>sg \<in> set (segs @ [(g, ss, pre)]). segFits ?cfg sg"
    using log fits len by (auto simp: logOnDisk_def segFits_def logEvents_def segEvents_def)
  have gens: "map segGen (segs @ [(g, ss, pre)]) = map segGen (segs @ [(g, ss, pre @ ev # post)])"
    by (simp add: segGen_def)
  have m: "manifestMatches (electedManifest v) (segs @ [(g, ss, pre)])"
    using log unfolding logOnDisk_def manifestMatches_def by (simp only: gens) (auto split: option.splits)
  show ?thesis
    using log f tail disk len m unfolding logOnDisk_def by (simp only: gens) simp
qed

lemma orderedLog_cut:
  "orderedLog (locSegs (segs @ [(g, ss, pre @ evs)])) [] \<Longrightarrow> orderedLog (locSegs (segs @ [(g, ss, pre)])) []"
  by (simp add: segEvents_def segGen_def locate_append orderedLog_append)

lemma absReplace_limit:
  "\<forall>x \<in> set xs. length (snd x) \<le> n \<Longrightarrow> length p \<le> n \<Longrightarrow> \<forall>x \<in> set (absReplace q p xs). length (snd x) \<le> n"
  by (induction xs) auto

lemma absEvent_limit:
  "eventFits (cfg\<lparr>maxRecordBytes := n\<rparr>) ev \<Longrightarrow> \<forall>x \<in> set xs. length (snd x) \<le> n \<Longrightarrow>
   \<forall>x \<in> set (absEvent ev xs). length (snd x) \<le> n"
  by (cases ev) (auto dest: set_takeWhileD dest!: set_dropWhileD list.set_sel(2) simp: absReplace_limit)

lemma absEvents_limit:
  "\<forall>ev \<in> set evs. eventFits (cfg\<lparr>maxRecordBytes := n\<rparr>) ev \<Longrightarrow> \<forall>x \<in> set xs. length (snd x) \<le> n \<Longrightarrow>
   \<forall>x \<in> set (absEvents evs xs). length (snd x) \<le> n"
proof (induction evs arbitrary: xs)
  case (Cons ev evs)
  then show ?case using absEvent_limit [where cfg = cfg and n = n and ev = ev and xs = xs] by (simp add: absEvents_def)
qed (simp add: absEvents_def)

section \<open>Opening with a lower limit\<close>

text \<open>Mounting a log with a limit below a record of its active segment succeeds, but cuts the active
  segment before that record: afterwards a restart, even with the old limit, finds only the queue of
  the events before it.\<close>

theorem lower_limit_cuts_log:
  assumes "posixHealthy w" and "configOk cfg" and "n \<le> maxRecordBytes cfg"
    and "logOnDisk cfg (posixView w) (segs @ [(g, ss, pre @ ev # post)]) []"
    and "orderedLog (locSegs (segs @ [(g, ss, pre @ ev # post)])) []"
    and "\<forall>e \<in> set (logEvents segs @ pre). eventFits (cfg\<lparr>maxRecordBytes := n\<rparr>) e"
    and "\<not> eventFits (cfg\<lparr>maxRecordBytes := n\<rparr>) ev"
  shows "\<exists>s. mountStore posixFs (cfg\<lparr>maxRecordBytes := n\<rparr>) (newStore w) = Some (success, s)
    \<and> posixView (world s) (segmentName g) = Some (segBytes (g, ss, pre))
    \<and> recovers cfg (world s) (absEvents (logEvents (segs @ [(g, ss, pre)])) [])"
proof -
  let ?cfg = "cfg\<lparr>maxRecordBytes := n\<rparr>"
  note log = logOnDisk_cut [OF assms(4,3,6,7)]
  obtain s where s: "mountStore posixFs ?cfg (newStore w) = Some (success, s)"
      "storeInv ?cfg (posixView (world s)) (segs @ [(g, ss, pre)]) s"
    using posix.mountStore_log [of "newStore w", OF _ _ _ _] log assms(1-3)
    by (fastforce simp: newStore_def configOk_def)
  have disk: "logOnDisk cfg (posixView (world s)) (segs @ [(g, ss, pre)]) []"
    using s(2) logOnDisk_limit [OF _ assms(3)] by (simp add: storeInv_def)
  then have "posixView (world s) (segmentName g) = Some (segBytes (g, ss, pre))"
    using segsOnDisk_mem [of "posixView (world s)" _ "(g, ss, pre)"] by (auto simp: logOnDisk_def segGen_def)
  moreover have "diskHolds cfg (posixView (world s)) (absEvents (logEvents (segs @ [(g, ss, pre)])) [])"
    using disk orderedLog_cut [OF assms(5)] by (auto simp: diskHolds_def)
  ultimately show ?thesis using s(1) recoversI [OF _ assms(2)] by blast
qed

text \<open>The sample queue with its record of two bytes, opened by a program that expects at most one.\<close>

theorem lower_limit_cuts_log_witness:
  "\<exists>ss evs pre s. posixView (world oneRecord) (segmentName 1) = Some (segBytes (1, ss, evs))
    \<and> length pre < length evs
    \<and> mountStore posixFs (sampleConfig\<lparr>maxRecordBytes := 1\<rparr>) (newStore (world oneRecord)) = Some (success, s)
    \<and> posixView (world s) (segmentName 1) = Some (segBytes (1, ss, pre))
    \<and> recovers sampleConfig (world s) (absEvents pre [])"
proof -
  let ?cfg = "sampleConfig\<lparr>maxRecordBytes := 1\<rparr>"
  obtain segs where segs: "storeInv sampleConfig (posixView (world oneRecord)) segs oneRecord"
      "orderedLog (locSegs segs) []" "logQueue segs = sampleQueue"
    by (rule oneRecord_segments)
  have "map segGen segs = [1]" using segs(1) oneRecord_manifest by (simp add: storeInv_def)
  then obtain ss evs where one: "segs = [(1, ss, evs)]" by (auto simp: segGen_def)
  have q: "absEvents evs [] = sampleQueue" using segs(3) by (simp add: one logQueue_def logEvents_def segEvents_def)
  have "\<exists>ev \<in> set evs. \<not> eventFits ?cfg ev"
  proof (rule ccontr)
    assume a: "\<not> ?thesis"
    then have "\<forall>x \<in> set (absEvents evs []). length (snd x) \<le> 1"
      by (intro absEvents_limit [where cfg = sampleConfig]) simp_all
    then show False using q by simp
  qed
  then obtain pre ev post where sp: "evs = pre @ ev # post" "\<not> eventFits ?cfg ev" "\<forall>e \<in> set pre. eventFits ?cfg e"
    using split_list_first_prop [of evs "\<lambda>ev. \<not> eventFits ?cfg ev"] by auto
  obtain s where "mountStore posixFs ?cfg (newStore (world oneRecord)) = Some (success, s)"
      "posixView (world s) (segmentName 1) = Some (segBytes (1, ss, pre))"
      "recovers sampleConfig (world s) (absEvents (logEvents ([] @ [(1, ss, pre)])) [])"
    using lower_limit_cuts_log [OF oneRecord_ok(2) sampleConfig_ok(1), of 1 "[]" 1 ss pre ev post]
      segs(1,2) sp by (auto simp: one storeInv_def sampleConfig_def default_append_log_config_def logEvents_def)
  moreover have "posixView (world oneRecord) (segmentName 1) = Some (segBytes (1, ss, evs))"
    using segs(1) by (simp add: one storeInv_def logOnDisk_def segGen_def)
  ultimately show ?thesis
    by (intro exI [of _ ss] exI [of _ evs] exI [of _ pre] exI [of _ s]) (simp add: sp(1) logEvents_def segEvents_def)
qed

section \<open>A store that does not mount\<close>

lemma withLock_unmounted:
  assumes "mountStore F cfg (quStore q) = Some (st, s)" and "\<not> ok st" and "code st \<noteq> LockTimeout"
    and "\<not> mounted (quStore q)" and "\<not> quLockHeld q"
  shows "withLock (appendLogOps F cfg) c onFailure body q
    = Some (onFailure st, snd (queueDiagnostic c Error st ''acquireLock''
        ((ensureLockContents q)\<lparr>quStore := s\<rparr>)))"
proof -
  have "quStore (ensureLockContents q) = quStore q" by (simp add: ensureLockContents_def)
  then have "onStore (tryAcquireLockFile F cfg kLockFileName l) (ensureLockContents q)
      = Some (st, (ensureLockContents q)\<lparr>quStore := s\<rparr>)" for l
    using assms by (simp add: onStore_def tryAcquireLockFile_def ensureMounted_def)
  then show ?thesis
    using assms(2,3,5)
    by (simp add: withLock_def acquireLock_def appendLogOps_def queueDiagnostic_def kLockAttempts_def
        eval_nat_numeral)
qed

lemma mount_orphan:
  assumes "posixHealthy (world s)" and "electedManifest (posixView (world s)) = None"
    and "posixView (world s) (segmentName g) \<noteq> None" and "\<not> mounted s"
  shows "\<exists>st s'. mountStore posixFs cfg s = Some (st, s') \<and> code st = DataCorrupt
    \<and> posixView (world s') = posixView (world s)"
proof -
  obtain st0 w0 where m: "fs_mount posixFs (basePath cfg) (world s) = (st0, w0)" by (metis surj_pair)
  note m1 = posix.mount_healthy [OF assms(1) m] posix.mount_view [OF m]
  obtain st1 names w1 where l: "fs_listFiles posixFs w0 = ((st1, names), w1)" by (metis surj_pair)
  note l1 = posix.list_healthy [OF conjunct2 [OF m1(1)] l] posix.list_view [OF l]
  have "segmentName g \<in> set names" using assms(3) m1 l1 by auto
  then have "g \<in> set (segmentGenerations names)"
    unfolding segmentGenerations_set by (intro bexI [of _ "segmentName g"]) (rule isSegmentName_segmentName)
  then have gens: "segmentGenerations names \<noteq> []" by auto
  define s1 where "s1 = resetForScan (s\<lparr>world := w1\<rparr>)"
  have w: "world s1 = w1" by (simp add: s1_def resetForScan_def)
  obtain w2 where r: "readManifest posixFs s1 = (None, s1\<lparr>world := w2\<rparr>)" "posixView w2 = posixView w1"
    using posix.readManifest_healthy [of s1] l1 m1 assms(2) unfolding w by auto
  have "scanSegments posixFs cfg (s\<lparr>world := w0\<rparr>)
      = Some (failure DataCorrupt ''segment files exist without a valid manifest'', s1\<lparr>world := w2\<rparr>)"
    using l1 l gens r
    by (simp add: scanSegments_def onWorld_def loadManifest_def s1_def Let_def)
  then show ?thesis
    using m m1 l1 r posix.present
    by (simp add: mountStore_def onWorld_def storeDiagnostic_def Let_def)
qed

text \<open>C37. On a directory with a segment file but no valid manifest every operation of a new queue object
  fails with \<open>DataCorrupt\<close> and leaves the files alone; formatting, the documented way out, is one of
  them.\<close>

theorem orphan_segment_locks_out:
  assumes "posixHealthy w" and "electedManifest (posixView w) = None"
    and "posixView w (segmentName g) \<noteq> None"
    and "S = appendLogOps posixFs (storeConfig c)" and "q = newQueue owner (newStore w)"
  shows "\<exists>st q'. code st = DataCorrupt \<and> posixView (world (quStore q')) = posixView w
    \<and> queueFormat S c q = Some (st, q')
    \<and> enqueue S c (DataSpan d) q = Some (st, q') \<and> peek S c q = Some ((st, []), q')
    \<and> pop S c q = Some (st, q') \<and> rewriteFront S c d q = Some (st, q')
    \<and> dropFrontIfCorrupt S c q = Some (st, q')
    \<and> queueCompactIdle S c n q = Some (default_compact_idle_result\<lparr>cirStatus := st\<rparr>, q')"
proof -
  obtain st s where m: "mountStore posixFs (storeConfig c) (quStore q) = Some (st, s)" "code st = DataCorrupt"
      "posixView (world s) = posixView w"
    using mount_orphan [of "newStore w" g "storeConfig c"] assms by (auto simp: newStore_def newQueue_def)
  have fresh: "\<not> ok st" "code st \<noteq> LockTimeout" "\<not> mounted (quStore q)" "\<not> quLockHeld q"
    using m(2) by (simp_all add: ok_def assms(5) newQueue_def newStore_def)
  note locked = withLock_unmounted [OF m(1) fresh, of c, folded assms(4)]
  show ?thesis
    using m(2,3)
    by (intro exI [of _ st] exI [of _ "snd (queueDiagnostic c Error st ''acquireLock''
        ((ensureLockContents q)\<lparr>quStore := s\<rparr>))"])
      (simp add: locked queueFormat_def enqueue_def peek_def pop_def rewriteFront_def dropFrontIfCorrupt_def
        withFront_def queueCompactIdle_def queueDiagnostic_def)
qed

text \<open>What a crash between the two writes of the first enqueue leaves.\<close>

definition orphanWorld :: posix_world where
  "orphanWorld = emptyWorld\<lparr>pwFiles := [(segmentName 1, serializeSegmentHeader 1 0)]\<rparr>"

theorem orphan_segment_locks_out_witness:
  "\<exists>st q'. code st = DataCorrupt \<and> posixView (world (quStore q')) (segmentName 1) \<noteq> None
    \<and> queueFormat (appendLogOps posixFs (storeConfig default_queue_config)) default_queue_config
        (newQueue [] (newStore orphanWorld)) = Some (st, q')"
proof -
  have "posixHealthy orphanWorld" by (simp add: orphanWorld_def emptyWorld_def posixHealthy_def)
  moreover have v: "posixView orphanWorld = [segmentName 1 \<mapsto> serializeSegmentHeader 1 0]"
    by (simp add: orphanWorld_def posixView_def)
  moreover have "electedManifest (posixView orphanWorld) = None"
    by (simp add: v electedManifest_def slotManifest_def)
  moreover have "posixView orphanWorld (segmentName 1) \<noteq> None" by (simp add: v)
  ultimately show ?thesis
    using orphan_segment_locks_out [of orphanWorld 1 _ default_queue_config _ "[]", OF _ _ _ refl refl] by metis
qed

end
