(* ===== verification/Diagnostics.thy ===== *)
theory Diagnostics
  imports Compaction_Theorems
begin

text \<open>
  The read-only report on a log directory (\<open>diagnostics.h\<close>, \<open>diagnostics.cpp\<close>): the two manifest
  slots, the winning manifest, and every segment file with whether the manifest refers to it.  It
  has its own copies of the name parser and of the election; the lemmas show that on a directory
  with a log it reports exactly the manifest the store would load and the segments it would replay.
\<close>

section \<open>The report\<close>

record slot_diagnostic =
  sdExists :: bool
  sdValid :: bool
  sdEpoch :: u32

record segment_diagnostic =
  sgGeneration :: u32
  sgSizeBytes :: u64
  sgReferenced :: bool
  sgIsTail :: bool

record store_diagnostic =
  dgBasePath :: string
  dgMountStatus :: status
  dgListStatus :: status
  dgFreeBytes :: u64
  dgSlotA :: slot_diagnostic
  dgSlotB :: slot_diagnostic
  dgHasWinner :: bool
  dgWinnerEpoch :: u32
  dgRanges :: "manifest_range list"
  dgTailGeneration :: u32
  dgNextGeneration :: u32
  dgSegments :: "segment_diagnostic list"
  dgDanglingSegments :: nat

definition default_slot_diagnostic :: slot_diagnostic where
  "default_slot_diagnostic = \<lparr>sdExists = False, sdValid = False, sdEpoch = 0\<rparr>"

definition default_store_diagnostic :: store_diagnostic where
  "default_store_diagnostic =
     \<lparr>dgBasePath = [], dgMountStatus = success, dgListStatus = success, dgFreeBytes = 0,
      dgSlotA = default_slot_diagnostic, dgSlotB = default_slot_diagnostic, dgHasWinner = False,
      dgWinnerEpoch = 0, dgRanges = [], dgTailGeneration = 0, dgNextGeneration = 0,
      dgSegments = [], dgDanglingSegments = 0\<rparr>"

section \<open>Making it\<close>

definition parseSegmentGen :: "string \<Rightarrow> u32 option" where
  "parseSegmentGen name =
     (let prefixLen = length ''seg-''; suffixLen = length ''.bin'' in
      if length name \<noteq> prefixLen + 8 + suffixLen then None
      else if take prefixLen name \<noteq> ''seg-'' then None
      else if drop (length name - suffixLen) name \<noteq> ''.bin'' then None
      else
        let hex = take 8 (drop prefixLen name) in
        if list_ex (\<lambda>c. hexDigitValue c = None) hex then None
        else map_option word_of_nat (hexValue 0 hex))"

definition readManifestSlot :: "'w fs_ops \<Rightarrow> string \<Rightarrow> 'w \<Rightarrow> manifest_data option \<times> 'w" where
  "readManifestSlot F name w =
     (let ((st, d), w) = fs_readFile F name w in (if \<not> ok st then None else parseManifest d, w))"

definition diagnoseSlot ::
  "'w fs_ops \<Rightarrow> string \<Rightarrow> 'w \<Rightarrow> (slot_diagnostic \<times> manifest_data option) \<times> 'w" where
  "diagnoseSlot F name w =
     (let ((st, sz), w) = fs_fileSize F name w;
          (md, w) = (if ok st then readManifestSlot F name w else (None, w))
      in ((\<lparr>sdExists = ok st, sdValid = (md \<noteq> None),
            sdEpoch = (case md of None \<Rightarrow> 0 | Some md \<Rightarrow> epoch md)\<rparr>, md), w))"

fun pickWinner :: "manifest_data option \<Rightarrow> manifest_data option \<Rightarrow> manifest_data option" where
  "pickWinner (Some a) (Some b) = Some (if epoch b > epoch a then b else a)"
| "pickWinner (Some a) None = Some a"
| "pickWinner None (Some b) = Some b"
| "pickWinner None None = None"

definition isReferenced :: "manifest_data option \<Rightarrow> u32 \<Rightarrow> bool" where
  "isReferenced winner gen =
     (case winner of
        None \<Rightarrow> False
      | Some md \<Rightarrow>
          (tailGeneration md \<noteq> 0 \<and> gen = tailGeneration md)
          \<or> list_ex (\<lambda>r. gen \<ge> startGen r \<and> gen \<le> endGen r) (ranges md))"

text \<open>The loop over the files: the segments in the order of the listing and the dangling ones.\<close>

fun diagnoseFiles ::
  "'w fs_ops \<Rightarrow> manifest_data option \<Rightarrow> string list \<Rightarrow> 'w \<Rightarrow> (segment_diagnostic list \<times> nat) \<times> 'w" where
  "diagnoseFiles F winner [] w = (([], 0), w)"
| "diagnoseFiles F winner (name # names) w =
     (case parseSegmentGen name of
        None \<Rightarrow> diagnoseFiles F winner names w
      | Some gen \<Rightarrow>
          let ((st, sz), w) = fs_fileSize F name w;
              seg = \<lparr>sgGeneration = gen, sgSizeBytes = sz, sgReferenced = isReferenced winner gen,
                     sgIsTail = (case winner of None \<Rightarrow> False | Some md \<Rightarrow> gen = tailGeneration md)\<rparr>;
              ((segs, n), w) = diagnoseFiles F winner names w
          in ((seg # segs, (if sgReferenced seg then n else n + 1)), w))"

definition diagnoseAppendLogStore ::
  "'w fs_ops \<Rightarrow> append_log_config \<Rightarrow> 'w \<Rightarrow> store_diagnostic \<times> 'w" where
  "diagnoseAppendLogStore F cfg w =
     (let out = default_store_diagnostic\<lparr>dgBasePath := basePath cfg\<rparr> in
      if \<not> fs_present F
      then (out\<lparr>dgMountStatus := failure BackendUnavailable ''file system backend unavailable''\<rparr>, w)
      else
        let (st, w) = fs_mount F (basePath cfg) w; out = out\<lparr>dgMountStatus := st\<rparr> in
        if \<not> ok st then (out, w)
        else
          let out = out\<lparr>dgFreeBytes := fs_freeBytes F w\<rparr>;
              ((slotA, mdA), w) = diagnoseSlot F (slotName SlotA) w;
              ((slotB, mdB), w) = diagnoseSlot F (slotName SlotB) w;
              winner = pickWinner mdA mdB;
              out = out\<lparr>dgSlotA := slotA, dgSlotB := slotB\<rparr>;
              out = (case winner of
                       None \<Rightarrow> out
                     | Some md \<Rightarrow> out\<lparr>dgHasWinner := True, dgWinnerEpoch := epoch md, dgRanges := ranges md,
                         dgTailGeneration := tailGeneration md, dgNextGeneration := nextGeneration md\<rparr>);
              ((lst, files), w) = fs_listFiles F w;
              ((segs, dangling), w) = diagnoseFiles F winner files w
          in (out\<lparr>dgListStatus := lst, dgSegments := sort_key sgGeneration segs,
                 dgDanglingSegments := dangling\<rparr>, w))"

section \<open>What it says of the files\<close>

text \<open>What the report says of a segment file, and of all of them.\<close>

definition reportFile ::
  "(string \<Rightarrow> bytes option) \<Rightarrow> manifest_data option \<Rightarrow> string \<times> u32 \<Rightarrow> segment_diagnostic" where
  "reportFile v winner = (\<lambda>(name, g). \<lparr>sgGeneration = g,
     sgSizeBytes = word_of_nat (length (the (v name))), sgReferenced = isReferenced winner g,
     sgIsTail = (case winner of None \<Rightarrow> False | Some md \<Rightarrow> g = tailGeneration md)\<rparr>)"

definition reportFiles ::
  "(string \<Rightarrow> bytes option) \<Rightarrow> manifest_data option \<Rightarrow> string list \<Rightarrow> segment_diagnostic list" where
  "reportFiles v winner names =
     concat (map (\<lambda>n. case isSegmentName n of None \<Rightarrow> [] | Some g \<Rightarrow> [reportFile v winner (n, g)]) names)"

section \<open>The copies agree with the store's own functions\<close>

lemma reportFiles_mem:
  "x \<in> set (reportFiles v winner names) \<longleftrightarrow>
    (\<exists>n \<in> set names. \<exists>g. isSegmentName n = Some g \<and> x = reportFile v winner (n, g))"
proof (induction names)
  case (Cons n names)
  then show ?case by (cases "isSegmentName n") (simp_all add: reportFiles_def)
qed (simp add: reportFiles_def)

lemma hexValue_None: "list_ex (\<lambda>c. hexDigitValue c = None) cs \<Longrightarrow> hexValue acc cs = None"
  by (induction cs arbitrary: acc) (auto split: option.splits)

lemma parseSegmentGen_name: "parseSegmentGen = isSegmentName"
  by (intro ext) (auto simp: parseSegmentGen_def isSegmentName_def kSegmentPrefix_def kSegmentSuffix_def
      Let_def hexValue_None)

lemma pickWinner_election: "pickWinner = chooseWinningSlot"
proof (intro ext)
  show "pickWinner a b = chooseWinningSlot a b" for a b by (cases a; cases b) simp_all
qed

lemma isReferenced_gens: "isReferenced (Some md) g \<longleftrightarrow> g \<in> set (manifestGens md)"
  by (auto simp: isReferenced_def manifestGens_def rangeGens_mem inRange_def list_ex_iff)

context file_system
begin

lemma diagnoseSlot_healthy:
  assumes "healthy w"
  shows "\<exists>sd w'. diagnoseSlot F (slotName sl) w = ((sd, slotManifest (view w) sl), w')
    \<and> view w' = view w \<and> healthy w' \<and> sdExists sd = (view w (slotName sl) \<noteq> None)
    \<and> sdValid sd = (slotManifest (view w) sl \<noteq> None)"
proof -
  obtain st sz w1 where s: "fs_fileSize F (slotName sl) w = ((st, sz), w1)" by (metis surj_pair)
  note s1 = size_view [OF s] size_healthy [OF assms s]
  have e: "ok st \<longleftrightarrow> view w (slotName sl) \<noteq> None" using s1 by auto
  obtain st2 d w2 where r: "fs_readFile F (slotName sl) w1 = ((st2, d), w2)" by (metis surj_pair)
  note r1 = read_view [OF r] read_healthy [OF _ r]
  show ?thesis
  proof (cases "ok st")
    case True
    then have "ok st2" "view w (slotName sl) = Some d" using r1 s1 e by auto
    then show ?thesis
      using True s r s1 r1 by (simp add: diagnoseSlot_def readManifestSlot_def slotManifest_def)
  next
    case False
    then show ?thesis using s s1 e by (simp add: diagnoseSlot_def slotManifest_def)
  qed
qed

lemma diagnoseFiles_healthy:
  assumes "healthy w" and "set names \<subseteq> dom (view w)"
  shows "\<exists>w'. diagnoseFiles F winner names w
      = ((reportFiles (view w) winner names,
          length (filter (\<lambda>x. \<not> sgReferenced x) (reportFiles (view w) winner names))), w')
    \<and> view w' = view w \<and> healthy w'"
  using assms
proof (induction names arbitrary: w)
  case Nil
  then show ?case by (simp add: reportFiles_def)
next
  case (Cons n names)
  show ?case
  proof (cases "isSegmentName n")
    case None
    then show ?thesis using Cons by (simp add: parseSegmentGen_name reportFiles_def)
  next
    case (Some g)
    obtain st sz w1 where s: "fs_fileSize F n w = ((st, sz), w1)" by (metis surj_pair)
    have w1: "healthy w1" "view w1 = view w" "sz = word_of_nat (length (the (view w n)))"
      using size_healthy [OF Cons.prems(1) s] size_view [OF s] Cons.prems(2) by auto
    obtain w2 where w2: "diagnoseFiles F winner names w1
        = ((reportFiles (view w) winner names,
            length (filter (\<lambda>x. \<not> sgReferenced x) (reportFiles (view w) winner names))), w2)"
        "view w2 = view w" "healthy w2"
      using Cons.IH [OF w1(1)] Cons.prems(2) w1(2) by auto
    then show ?thesis
      using s w1(3) Some by (simp add: parseSegmentGen_name reportFiles_def reportFile_def Let_def)
  qed
qed

lemma diagnose_healthy:
  assumes "healthy w"
  shows "\<exists>d names w'. diagnoseAppendLogStore F cfg w = (d, w') \<and> view w' = view w
    \<and> ok (dgMountStatus d) \<and> ok (dgListStatus d)
    \<and> dgHasWinner d = (electedManifest (view w) \<noteq> None)
    \<and> (\<forall>md. electedManifest (view w) = Some md \<longrightarrow> dgWinnerEpoch d = epoch md \<and> dgRanges d = ranges md
         \<and> dgTailGeneration d = tailGeneration md \<and> dgNextGeneration d = nextGeneration md)
    \<and> set names = dom (view w)
    \<and> dgSegments d = sort_key sgGeneration (reportFiles (view w) (electedManifest (view w)) names)
    \<and> dgDanglingSegments d = length (filter (\<lambda>x. \<not> sgReferenced x) (dgSegments d)) \<and> healthy w'"
proof -
  obtain st w0 where m: "fs_mount F (basePath cfg) w = (st, w0)" by (metis surj_pair)
  have w0: "ok st" "healthy w0" "view w0 = view w" using mount_healthy [OF assms m] mount_view [OF m] by auto
  obtain a w1 where a: "diagnoseSlot F (slotName SlotA) w0 = ((a, slotManifest (view w) SlotA), w1)"
      "view w1 = view w" "healthy w1"
    using diagnoseSlot_healthy [OF w0(2), of SlotA] w0(3) by auto
  obtain b w2 where b: "diagnoseSlot F (slotName SlotB) w1 = ((b, slotManifest (view w) SlotB), w2)"
      "view w2 = view w" "healthy w2"
    using diagnoseSlot_healthy [OF a(3), of SlotB] a(2) by auto
  obtain lst files w3 where l: "fs_listFiles F w2 = ((lst, files), w3)" by (metis surj_pair)
  have w3: "ok lst" "healthy w3" "view w3 = view w" "set files = dom (view w)"
    using list_healthy [OF b(3) l] list_view [OF l] b(2) by auto
  let ?win = "electedManifest (view w)"
  obtain w4 where f: "diagnoseFiles F ?win files w3 = ((reportFiles (view w) ?win files,
        length (filter (\<lambda>x. \<not> sgReferenced x) (reportFiles (view w) ?win files))), w4)" "view w4 = view w" "healthy w4"
    using diagnoseFiles_healthy [OF w3(2), of files ?win] w3(3,4) by auto
  have win: "pickWinner (slotManifest (view w) SlotA) (slotManifest (view w) SlotB) = ?win"
    by (simp add: pickWinner_election electedManifest_def)
  have "mset (filter P (sort_key k xs)) = mset (filter P xs)" for P k and xs :: "segment_diagnostic list"
    by simp
  then have n: "length (filter P (sort_key k xs)) = length (filter P xs)"
    for P k and xs :: "segment_diagnostic list" by (metis size_mset)
  show ?thesis
  proof (cases ?win)
    case None
    then show ?thesis
      using m w0 a b l w3 f win present
      by (intro exI [of _ "fst (diagnoseAppendLogStore F cfg w)"] exI [of _ files] exI [of _ w4])
        (simp add: diagnoseAppendLogStore_def default_store_diagnostic_def Let_def n)
  next
    case (Some md)
    then show ?thesis
      using m w0 a b l w3 f win present
      by (intro exI [of _ "fst (diagnoseAppendLogStore F cfg w)"] exI [of _ files] exI [of _ w4])
        (simp add: diagnoseAppendLogStore_def default_store_diagnostic_def Let_def n)
  qed
qed

end

section \<open>The report of a log\<close>

text \<open>What the report should say of a segment of the log.\<close>

definition segmentReport :: "(string \<Rightarrow> bytes option) \<Rightarrow> u32 \<Rightarrow> u32 \<Rightarrow> segment_diagnostic" where
  "segmentReport v tail g =
     \<lparr>sgGeneration = g, sgSizeBytes = word_of_nat (length (the (v (segmentName g)))),
      sgReferenced = True, sgIsTail = (g = tail)\<rparr>"

lemma reportFiles_referenced:
  assumes log: "logOnDisk cfg v segs t" and g: "set (manifestGens md) = segGen ` set segs" and n: "set names = dom v"
  shows "{x \<in> set (reportFiles v (Some md) names). sgReferenced x}
    = segmentReport v (tailGeneration md) ` segGen ` set segs" (is "?L = ?R")
proof (intro set_eqI iffI)
  fix x assume "x \<in> ?L"
  then obtain f h where x: "f \<in> set names" "isSegmentName f = Some h" "x = reportFile v (Some md) (f, h)" "sgReferenced x"
    by (auto simp: reportFiles_mem)
  have "h \<in> segGen ` set segs" using x(3,4) by (simp add: reportFile_def isReferenced_gens g)
  moreover have "f = segmentName h" using log x(1,2) n by (auto simp: logOnDisk_def canonicalNames_def)
  ultimately show "x \<in> ?R" using x(3) by (auto simp: reportFile_def segmentReport_def isReferenced_gens g)
next
  fix x assume "x \<in> ?R"
  then obtain h where h: "h \<in> segGen ` set segs" "x = segmentReport v (tailGeneration md) h" by blast
  have "v (segmentName h) \<noteq> None"
    using log segsOnDisk_present [of v segs t h] h(1) by (auto simp: logOnDisk_def)
  then have "segmentName h \<in> set names" using n by auto
  moreover have "x = reportFile v (Some md) (segmentName h, h)"
    using h by (simp add: reportFile_def segmentReport_def isReferenced_gens g)
  ultimately have "x \<in> set (reportFiles v (Some md) names)"
    unfolding reportFiles_mem using isSegmentName_segmentName by blast
  then show "x \<in> ?L" using h(2) by (simp add: segmentReport_def)
qed

text \<open>C34. On a directory with a log and without pending errors the report names the manifest the store
  would load; the segments it calls referenced are exactly the segments of the log, each with the size
  of its file, the one it calls the tail is the active segment, and the dangling count is the number
  of the other segment files.\<close>

theorem diagnostic_matches_log:
  assumes "posixHealthy w" and "logOnDisk cfg (posixView w) segs t" and "segs \<noteq> []"
  shows "\<exists>d w'. diagnoseAppendLogStore posixFs cfg w = (d, w') \<and> posixView w' = posixView w
    \<and> ok (dgMountStatus d) \<and> ok (dgListStatus d) \<and> dgHasWinner d
    \<and> concat (map rangeGens (dgRanges d)) @ [dgTailGeneration d] = map segGen segs
    \<and> sorted (map sgGeneration (dgSegments d))
    \<and> {x \<in> set (dgSegments d). sgReferenced x}
      = (\<lambda>sg. \<lparr>sgGeneration = segGen sg,
          sgSizeBytes = word_of_nat (length (the (posixView w (segmentName (segGen sg))))),
          sgReferenced = True, sgIsTail = (segGen sg = segGen (last segs))\<rparr>) ` set segs
    \<and> dgDanglingSegments d = length (filter (\<lambda>x. \<not> sgReferenced x) (dgSegments d))"
proof -
  let ?v = "posixView w"
  obtain md where md: "electedManifest ?v = Some md" "tailGeneration md = segGen (last segs)"
      "concat (map rangeGens (ranges md)) = map segGen (butlast segs)" "tailGeneration md \<noteq> 0"
    using log_manifest [OF assms(2,3)] by metis
  obtain d names w' where d: "diagnoseAppendLogStore posixFs cfg w = (d, w')" "posixView w' = ?v"
      "ok (dgMountStatus d)" "ok (dgListStatus d)" "dgHasWinner d" "dgRanges d = ranges md"
      "dgTailGeneration d = tailGeneration md" "set names = dom ?v"
      "dgSegments d = sort_key sgGeneration (reportFiles ?v (Some md) names)"
      "dgDanglingSegments d = length (filter (\<lambda>x. \<not> sgReferenced x) (dgSegments d))"
    using posix.diagnose_healthy [OF assms(1), of cfg] md(1) by auto
  have gens: "map segGen segs = map segGen (butlast segs) @ [segGen (last segs)]"
    using assms(3) by (metis append_butlast_last_id list.simps(8) list.simps(9) map_append)
  have g: "set (manifestGens md) = segGen ` set segs"
    using arg_cong [OF gens, of set] by (simp add: manifestGens_def md(2-4) md(4) [unfolded md(2)])
  have "set (dgSegments d) = set (reportFiles ?v (Some md) names)" by (simp add: d(9))
  then have "{x \<in> set (dgSegments d). sgReferenced x} = segmentReport ?v (segGen (last segs)) ` segGen ` set segs"
    using reportFiles_referenced [OF assms(2) g d(8)] md(2) by simp
  then have "{x \<in> set (dgSegments d). sgReferenced x}
      = (\<lambda>sg. \<lparr>sgGeneration = segGen sg,
          sgSizeBytes = word_of_nat (length (the (?v (segmentName (segGen sg))))),
          sgReferenced = True, sgIsTail = (segGen sg = segGen (last segs))\<rparr>) ` set segs"
    by (simp add: image_image segmentReport_def)
  moreover have "sorted (map sgGeneration (dgSegments d))" by (simp add: d(9))
  moreover have "concat (map rangeGens (dgRanges d)) @ [dgTailGeneration d] = map segGen segs"
    by (simp add: d(6,7) md(2,3) gens)
  ultimately show ?thesis using d by blast
qed

theorem diagnostic_matches_log_witness:
  "\<exists>segs d w'. diagnoseAppendLogStore posixFs sampleConfig (world oneRecord) = (d, w') \<and> dgHasWinner d
    \<and> concat (map rangeGens (dgRanges d)) @ [dgTailGeneration d] = map segGen segs \<and> segs \<noteq> []"
proof -
  obtain segs where "storeInv sampleConfig (posixView (world oneRecord)) segs oneRecord" "segs \<noteq> []"
    by (rule oneRecord_segments)
  then show ?thesis
    using diagnostic_matches_log [OF oneRecord_ok(2), of sampleConfig segs "[]"]
    by (fastforce simp: storeInv_def)
qed

end
