(* ===== verification/Dump_Protocol.thy ===== *)
theory Dump_Protocol
  imports Log_Theorems "HOL-Library.List_Lexorder" "HOL-Library.Char_ord"
begin

text \<open>
  The file dump of the doctor session (\<open>doctor/dump.h\<close>): one file, or all manifest and segment
  files, as lines of hexadecimal digits framed by their size and their CRC.

  A writer is the list of the strings it was given.  \<open>snprintf\<close> into a buffer of \<open>n\<close> bytes cuts
  its text to \<open>n - 1\<close> characters, and \<open>%s\<close> prints a string up to its first NUL.  The lemmas show
  that a dump of a file decodes to the file, and that its CRC is the one of the log format.
\<close>

section \<open>Printing\<close>

fun decimal :: "nat \<Rightarrow> string" where
  "decimal n = (if n < 10 then [''0123456789'' ! n] else decimal (n div 10) @ [''0123456789'' ! (n mod 10)])"

declare decimal.simps [simp del]

definition lf :: string where "lf = [CHR 0x0A]"

definition snprintf :: "nat \<Rightarrow> string \<Rightarrow> string" where
  "snprintf n s = take (n - 1) s"

definition cstr :: "string \<Rightarrow> string" where
  "cstr s = takeWhile (\<lambda>c. c \<noteq> CHR 0x00) s"

section \<open>CRC and hexadecimal digits\<close>

definition kDumpChunkBytes :: u64 where "kDumpChunkBytes = 128"

definition dumpTable :: "u32 list" where
  "dumpTable =
     map (\<lambda>i. ((\<lambda>c. drop_bit 1 c XOR (if c AND 1 \<noteq> 0 then 0xEDB88320 else 0)) ^^ 8) (word_of_nat i)) [0..<256]"

fun crcUpdateLoop :: "u32 \<Rightarrow> bytes \<Rightarrow> u32" where
  "crcUpdateLoop crc [] = crc"
| "crcUpdateLoop crc (p # ps) =
     crcUpdateLoop (dumpTable ! unat ((crc XOR ucast p) AND 0xFF) XOR drop_bit 8 crc) ps"

definition crc32Update :: "u32 \<Rightarrow> bytes \<Rightarrow> u32" where
  "crc32Update crc data = NOT (crcUpdateLoop (NOT crc) data)"

definition toHex :: "bytes \<Rightarrow> string" where
  "toHex data =
     concat (map (\<lambda>b. [''0123456789abcdef'' ! unat (drop_bit 4 b), ''0123456789abcdef'' ! unat (b AND 0xF)]) data)"

section \<open>Names\<close>

definition isLowerHex :: "char \<Rightarrow> bool" where
  "isLowerHex c \<longleftrightarrow> (CHR ''0'' \<le> c \<and> c \<le> CHR ''9'') \<or> (CHR ''a'' \<le> c \<and> c \<le> CHR ''f'')"

definition isValidDumpName :: "string \<Rightarrow> bool" where
  "isValidDumpName name \<longleftrightarrow>
     name = ''manifest-a.bin'' \<or> name = ''manifest-b.bin''
     \<or> (length name = 16 \<and> take 4 name = ''seg-'' \<and> take 4 (drop 12 name) = ''.bin''
        \<and> list_all isLowerHex (take 8 (drop 4 name)))"

section \<open>Dumping\<close>

definition fileError :: "string \<Rightarrow> string \<Rightarrow> string" where
  "fileError name msg =
     snprintf 256 (''FILE_ERROR name='' @ cstr name @ '' message='' @ msg @ lf)"

lemma chunk_progress:
  fixes fsize offset :: u64
  assumes "offset < fsize" and "n = unat (min kDumpChunkBytes (fsize - offset))"
  shows "unat offset + n \<le> unat fsize" and "0 < n" and "n \<le> 128"
    and "unat (offset + word_of_nat n) = unat offset + n"
proof -
  have d: "unat (fsize - offset) = unat fsize - unat offset"
    using assms(1) by (simp add: unat_sub less_imp_le)
  have lt: "unat offset < unat fsize" using assms(1) by (simp add: word_less_nat_alt)
  have n: "n = min 128 (unat fsize - unat offset)"
    using assms(2) d by (simp add: kDumpChunkBytes_def min_def word_le_nat_alt)
  show le: "unat offset + n \<le> unat fsize" using n lt by simp
  show "0 < n" "n \<le> 128" using n lt by simp_all
  have "unat fsize < 2 ^ 64" using unsigned_less [of fsize, where ?'a = nat] by simp
  then have "unat offset + n < 2 ^ 64" "n < 2 ^ 64" using le by simp_all
  then show "unat (offset + word_of_nat n) = unat offset + n"
    by (simp add: unat_word_ariths unat_of_nat)
qed

text \<open>The loop over the chunks: the CRC, or \<open>None\<close> when a read failed, after the lines written.\<close>

function dumpChunks ::
  "'w fs_ops \<Rightarrow> string \<Rightarrow> u64 \<Rightarrow> u64 \<Rightarrow> u32 \<Rightarrow> string list \<Rightarrow> 'w \<Rightarrow> (u32 option \<times> string list) \<times> 'w" where
  "dumpChunks F name fsize offset crc out w =
     (if offset < fsize then
        let toRead = unat (min kDumpChunkBytes (fsize - offset));
            ((st, chunk), w) = fs_readAt F name offset toRead w
        in if \<not> ok st \<or> length chunk \<noteq> toRead
           then ((None, out @ [fileError name (''read_failed_at_'' @ decimal (unat offset))]), w)
           else dumpChunks F name fsize (offset + word_of_nat (length chunk)) (crc32Update crc chunk)
                  (out @ [toHex chunk @ lf]) w
      else ((Some crc, out), w))"
  by pat_completeness auto

termination
proof (relation "measure (\<lambda>(F, name, fsize, offset, crc, out, w). unat fsize - unat offset)")
  fix F :: "'w fs_ops" and name fsize offset crc out w toRead x w' y st chunk
  assume a: "offset < (fsize :: u64)" "toRead = unat (min kDumpChunkBytes (fsize - offset))"
    and l: "\<not> (\<not> ok st \<or> length (chunk :: bytes) \<noteq> toRead)"
  note p = chunk_progress [OF a]
  show "((F, name, fsize, offset + word_of_nat (length chunk), crc32Update crc chunk,
      out @ [toHex chunk @ lf], w'), F, name, fsize, offset, crc, out, w)
    \<in> measure (\<lambda>(F, name, fsize, offset, crc, out, w). unat fsize - unat offset)"
    using p l by simp
qed simp

declare dumpChunks.simps [simp del]

definition dumpFile :: "'w fs_ops \<Rightarrow> string \<Rightarrow> 'w \<Rightarrow> (bool \<times> string list) \<times> 'w" where
  "dumpFile F name w =
     (if \<not> isValidDumpName name then ((False, [fileError name ''invalid_name'']), w)
      else
        let ((st, fsize), w) = fs_fileSize F name w in
        if \<not> ok st then ((False, [fileError name ''filesize_failed'']), w)
        else
          let beginLine = snprintf 256 (''FILE_BEGIN name='' @ cstr name @ '' size='' @ decimal (unat fsize) @ lf);
              ((crc, out), w) = dumpChunks F name fsize 0 0 [beginLine] w
          in case crc of
               None \<Rightarrow> ((False, out), w)
             | Some crc \<Rightarrow>
                 ((True, out @ [snprintf 256 (''FILE_END name='' @ cstr name @ '' crc='' @ formatGeneration crc @ lf)]), w))"

fun dumpNames ::
  "'w fs_ops \<Rightarrow> string list \<Rightarrow> nat \<Rightarrow> nat \<Rightarrow> 'w \<Rightarrow> ((nat \<times> nat) \<times> string list) \<times> 'w" where
  "dumpNames F [] files errs w = (((files, errs), []), w)"
| "dumpNames F (name # names) files errs w =
     (if \<not> isValidDumpName name then dumpNames F names files errs w
      else
        let ((good, out), w) = dumpFile F name w;
            ((n, more), w) = (if good then dumpNames F names (files + 1) errs w
                              else dumpNames F names files (errs + 1) w)
        in ((n, out @ more), w))"

definition dumpAll :: "'w fs_ops \<Rightarrow> 'w \<Rightarrow> string list \<times> 'w" where
  "dumpAll F w =
     (let ((st, names), w) = fs_listFiles F w in
      if \<not> ok st
      then ([''DUMP_BEGIN'' @ lf, ''LIST_ERROR message=listfiles_failed'' @ lf,
             ''DUMP_END files=0 errors=1'' @ lf], w)
      else
        let (((files, errs), out), w) = dumpNames F (sort names) 0 0 w
        in ([''DUMP_BEGIN'' @ lf] @ out
            @ [snprintf 64 (''DUMP_END files='' @ decimal files @ '' errors='' @ decimal errs @ lf)], w))"

section \<open>What a dump says\<close>

fun chunksOf :: "bytes \<Rightarrow> bytes list" where
  "chunksOf d = (if d = [] then [] else take 128 d # chunksOf (drop 128 d))"

declare chunksOf.simps [simp del]

definition dumpText :: "string \<Rightarrow> bytes \<Rightarrow> string list" where
  "dumpText name d =
     [''FILE_BEGIN name='' @ name @ '' size='' @ decimal (length d) @ lf]
     @ map (\<lambda>c. toHex c @ lf) (chunksOf d)
     @ [''FILE_END name='' @ name @ '' crc='' @ formatGeneration (crc32 0 d) @ lf]"

text \<open>A host reads the digits of the lines between the first and the last one.\<close>

fun unhex :: "string \<Rightarrow> bytes option" where
  "unhex [] = Some []"
| "unhex [c] = None"
| "unhex (a # b # cs) =
     (case (hexDigitValue a, hexDigitValue b, unhex cs) of
        (Some x, Some y, Some ds) \<Rightarrow> Some (word_of_nat (16 * x + y) # ds)
      | _ \<Rightarrow> None)"

definition hostDecode :: "string list \<Rightarrow> bytes option" where
  "hostDecode ls = unhex (concat (map butlast (butlast (tl ls))))"

lemma concat_chunks: "concat (chunksOf d) = d"
  by (induction d rule: chunksOf.induct) (simp add: chunksOf.simps)

lemma toHex_simps [simp]:
  "toHex [] = []"
  "toHex (b # d) = ''0123456789abcdef'' ! unat (drop_bit 4 b) # ''0123456789abcdef'' ! unat (b AND 0xF) # toHex d"
  "toHex (d @ e) = toHex d @ toHex e"
  by (simp_all add: toHex_def)

lemma byte_nibbles:
  fixes b :: u8
  shows "unat (drop_bit 4 b) < 16" and "unat (b AND 0xF) < 16"
    and "16 * unat (drop_bit 4 b) + unat (b AND 0xF) = unat b"
proof -
  have m: "b AND 0xF = take_bit 4 b" by (simp only: take_bit_eq_mask) (simp add: mask_numeral)
  have u: "unat (b AND 0xF) = unat b mod 16" unfolding m by (simp only: unsigned_take_bit_eq) (simp add: take_bit_eq_mod)
  have d: "unat (drop_bit 4 b) = unat b div 16"
  proof -
    have "take_bit 8 (unat b) = unat b"
      using unsigned_less [of b, where ?'a = nat] by (intro take_bit_nat_eq_self) simp
    then show ?thesis by (simp only: unsigned_drop_bit_eq) (simp add: drop_bit_eq_div)
  qed
  have "unat b < 256" using unsigned_less [of b, where ?'a = nat] by simp
  then show "unat (drop_bit 4 b) < 16" "unat (b AND 0xF) < 16"
    "16 * unat (drop_bit 4 b) + unat (b AND 0xF) = unat b" by (simp_all add: u d)
qed

lemma unhex_toHex: "unhex (toHex d) = Some d"
  by (induction d) (simp_all add: hexDigitValue_digit byte_nibbles del: drop_bit_numeral_bit0)

lemma hostDecode_dumpText: "hostDecode (dumpText name d) = Some d"
proof -
  have "concat (map toHex (chunksOf e)) = toHex e" for e
    by (induction e rule: chunksOf.induct)
      (subst (1) chunksOf.simps, simp flip: toHex_simps(3))
  then show ?thesis by (simp add: hostDecode_def dumpText_def lf_def comp_def unhex_toHex)
qed

lemma crc32Update_crc32: "crc32Update = crc32"
proof (intro ext)
  have t: "dumpTable = kTable" by (simp add: dumpTable_def kTable_def crcShift_def [abs_def])
  have "crcUpdateLoop c d = crcLoop c d" for c d by (induction d arbitrary: c) (simp_all add: t)
  then show "crc32Update c d = crc32 c d" for c d by (simp add: crc32Update_def crc32_def)
qed

lemma length_decimal: "n < 10 ^ Suc k \<Longrightarrow> length (decimal n) \<le> Suc k"
proof (induction k arbitrary: n)
  case (Suc k)
  then show ?case by (cases "n < 10") (simp_all add: decimal.simps [of n] less_mult_imp_div_less)
qed (simp add: decimal.simps)

section \<open>Dumping a file\<close>

lemma validName_clean:
  assumes "isValidDumpName name"
  shows "cstr name = name" and "length name \<le> 16"
proof -
  have seg: "CHR 0x00 \<notin> set name" if v: "length name = 16" "take 4 name = ''seg-''"
    "take 4 (drop 12 name) = ''.bin''" "list_all isLowerHex (take 8 (drop 4 name))"
  proof -
    have "take 12 name = take 4 name @ take 8 (drop 4 name)" using take_add [of 4 8 name] by simp
    moreover have "drop 12 name = take 4 (drop 12 name)" using v(1) by simp
    ultimately have "set name = set ''seg-'' \<union> set (take 8 (drop 4 name)) \<union> set ''.bin''"
      using v(2,3) by (metis append_take_drop_id set_append)
    moreover have "CHR 0x00 \<notin> set (take 8 (drop 4 name))"
      using v(4) unfolding list_all_iff isLowerHex_def less_eq_char_def by force
    ultimately show ?thesis by simp
  qed
  have "CHR 0x00 \<notin> set name" using assms seg by (auto simp: isValidDumpName_def)
  then show "cstr name = name" unfolding cstr_def by (subst takeWhile_eq_all_conv) auto
  show "length name \<le> 16" using assms by (auto simp: isValidDumpName_def)
qed

lemma snprintf_short: "length s < n \<Longrightarrow> snprintf n s = s"
  by (simp add: snprintf_def)

context file_system
begin

lemma dumpChunks_healthy:
  assumes "healthy w" and "view w name = Some d" and "unat fsize = length d" and "unat offset \<le> length d"
  shows "\<exists>w'. dumpChunks F name fsize offset crc out w
      = ((Some (crc32 crc (drop (unat offset) d)),
          out @ map (\<lambda>c. toHex c @ lf) (chunksOf (drop (unat offset) d))), w')
    \<and> view w' = view w \<and> healthy w'"
  using assms
proof (induction "length d - unat offset" arbitrary: offset crc out w rule: less_induct)
  case less
  show ?case
  proof (cases "offset < fsize")
    case False
    then have "drop (unat offset) d = []" using less.prems(3,4) by (simp add: word_less_nat_alt)
    then show ?thesis
      using False less.prems(1) by (simp add: dumpChunks.simps chunksOf.simps crc32_def)
  next
    case True
    define n where "n = unat (min kDumpChunkBytes (fsize - offset))"
    note p = chunk_progress [OF True n_def]
    obtain st c w1 where r: "fs_readAt F name offset n w = ((st, c), w1)" by (metis surj_pair)
    have ok: "ok st" "healthy w1" "view w1 = view w" "c = take n (drop (unat offset) d)" "length c = n"
      using readAt_healthy [OF less.prems(1) r] readAt_view [OF r] less.prems(2,3) p(1) by auto
    have nn: "n = min 128 (length (drop (unat offset) d))"
    proof -
      have "unat (fsize - offset) = unat fsize - unat offset" using True by (simp add: unat_sub less_imp_le)
      then show ?thesis using less.prems(3) by (simp add: n_def kDumpChunkBytes_def min_def word_le_nat_alt)
    qed
    have c: "c = take 128 (drop (unat offset) d)"
      by (cases "128 \<le> length (drop (unat offset) d)") (simp_all add: ok(4) nn min_def)
    have dd: "drop 128 (drop (unat offset) d) = drop (unat (offset + word_of_nat n)) d"
      using nn p(4) by (cases "128 \<le> length (drop (unat offset) d)") (simp_all add: min_def add.commute)
    have "length d - unat (offset + word_of_nat n) < length d - unat offset"
      using p(1,2,4) less.prems(3) by simp
    then obtain w' where ih: "dumpChunks F name fsize (offset + word_of_nat n) (crc32 crc c) (out @ [toHex c @ lf]) w1
        = ((Some (crc32 (crc32 crc c) (drop (unat (offset + word_of_nat n)) d)),
            (out @ [toHex c @ lf]) @ map (\<lambda>c. toHex c @ lf) (chunksOf (drop (unat (offset + word_of_nat n)) d))), w')"
        "view w' = view w1" "healthy w'"
      using less.hyps [of "offset + word_of_nat n" w1 "crc32 crc c" "out @ [toHex c @ lf]"]
        ok less.prems p(1,4) by auto
    have ne: "drop (unat offset) d \<noteq> []" using p(1,2) less.prems(3) by simp
    have "dumpChunks F name fsize offset crc out w
        = dumpChunks F name fsize (offset + word_of_nat n) (crc32 crc c) (out @ [toHex c @ lf]) w1"
      using True r ok by (subst dumpChunks.simps) (simp add: n_def [symmetric] crc32Update_crc32)
    moreover have "crc32 (crc32 crc c) (drop (unat (offset + word_of_nat n)) d) = crc32 crc (drop (unat offset) d)"
      unfolding crc32_append dd [symmetric] c append_take_drop_id ..
    moreover have "chunksOf (drop (unat offset) d) = c # chunksOf (drop (unat (offset + word_of_nat n)) d)"
      using ne by (subst chunksOf.simps) (simp add: c dd [symmetric])
    ultimately show ?thesis using ih ok(3) by (intro exI [of _ w']) simp
  qed
qed

lemma dumpFile_healthy:
  assumes "healthy w" and "view w name = Some d" and "isValidDumpName name" and "length d < 2 ^ 64"
  shows "\<exists>w'. dumpFile F name w = ((True, dumpText name d), w') \<and> view w' = view w \<and> healthy w'"
proof -
  obtain st sz w1 where s: "fs_fileSize F name w = ((st, sz), w1)" by (metis surj_pair)
  have ok: "ok st" "healthy w1" "view w1 = view w" "sz = word_of_nat (length d)"
    using size_healthy [OF assms(1) s] size_view [OF s] assms(2) by auto
  have sz: "unat sz = length d" using assms(4) by (simp add: ok(4) unat_of_nat)
  let ?first = "''FILE_BEGIN name='' @ name @ '' size='' @ decimal (length d) @ lf"
  let ?final = "''FILE_END name='' @ name @ '' crc='' @ formatGeneration (crc32 0 d) @ lf"
  obtain w2 where c: "dumpChunks F name sz 0 0 [?first] w1
      = ((Some (crc32 0 d), ?first # map (\<lambda>c. toHex c @ lf) (chunksOf d)), w2)"
      "view w2 = view w" "healthy w2"
    using dumpChunks_healthy [OF ok(2), of name d sz 0 0 "[?first]"] sz assms(2) ok(3) by auto
  have "length (decimal (length d)) \<le> 20"
    using length_decimal [of "length d" 19] assms(4) by simp
  then have "snprintf 256 ?first = ?first" "snprintf 256 ?final = ?final"
    using validName_clean(2) [OF assms(3)] by (intro snprintf_short; simp add: lf_def)+
  then have "dumpFile F name w = ((True, dumpText name d), w2)"
    using assms(3) s ok(1) sz c(1) validName_clean(1) [OF assms(3)]
    by (simp add: dumpFile_def dumpText_def Let_def)
  then show ?thesis using c(2,3) by blast
qed

lemma dumpNames_healthy:
  assumes "healthy w"
    and "\<forall>n \<in> set names. isValidDumpName n \<longrightarrow> (\<exists>d. view w n = Some d \<and> length d < 2 ^ 64)"
  shows "\<exists>w'. dumpNames F names files errs w
      = (((files + length (filter isValidDumpName names), errs),
          concat (map (\<lambda>n. dumpText n (the (view w n))) (filter isValidDumpName names))), w')
    \<and> view w' = view w \<and> healthy w'"
  using assms
proof (induction names arbitrary: files w)
  case (Cons n names)
  show ?case
  proof (cases "isValidDumpName n")
    case True
    then obtain d where d: "view w n = Some d" "length d < 2 ^ 64" using Cons.prems(2) by auto
    obtain w1 where w1: "dumpFile F n w = ((True, dumpText n d), w1)" "view w1 = view w" "healthy w1"
      using dumpFile_healthy [OF Cons.prems(1) d(1) True d(2)] by blast
    obtain w2 where "dumpNames F names (files + 1) errs w1
        = (((files + 1 + length (filter isValidDumpName names), errs),
            concat (map (\<lambda>n. dumpText n (the (view w1 n))) (filter isValidDumpName names))), w2)"
        "view w2 = view w1" "healthy w2"
      using Cons.IH [of w1 "files + 1"] Cons.prems(2) w1 by auto
    then show ?thesis using True w1 d by (intro exI [of _ w2]) (simp add: Let_def)
  next
    case False
    then show ?thesis using Cons.IH [OF Cons.prems(1), of files] Cons.prems(2) by simp
  qed
qed simp

end

section \<open>The dump of a directory\<close>


definition sampleFiles :: posix_world where
  "sampleFiles = emptyWorld\<lparr>pwFiles := [(''seg-00000001.bin'', [1, 2]), (''x'', [])]\<rparr>"


end
