(* ===== verification/Doctor_Session.thy ===== *)
theory Doctor_Session
  imports Diagnostics Dump_Protocol Queue_Progress
begin

text \<open>
  The doctor session of a device (\<open>doctor/session.h\<close>): a host sends commands over the serial line,
  the device selects a queue directory, reports on it, dumps it, compacts, repairs or formats it.

  The file is compiled for the device only.  Its surroundings are parameters: \<open>serial_ops\<close> is what it
  uses of the Arduino library, \<open>doctor_env\<close> the file system of \<open>makeLittleFsFileSystem\<close>, with what
  constructing a file-system object does to the world and the lock contents a new \<open>Queue\<close> object
  makes.  Everything printed is one string; \<open>print\<close> of a C string stops at its first NUL.  A command
  that constructs a \<open>Queue\<close> does so on a new file-system object.  \<open>int\<close> and \<open>long\<close> have 32 bits there.
\<close>

section \<open>Target and output\<close>

record current_target =
  tgName :: string
  tgBasePath :: string
  tgSelected :: bool
  tgReservedBytes :: "u32 option"
  tgRecordSizeBytes :: "u32 option"
  tgMaxSegmentBytes :: "u32 option"
  tgMinFreeBytes :: "u32 option"
  tgIdleTargetSegments :: "u8 option"

definition noTarget :: current_target where
  "noTarget = \<lparr>tgName = [], tgBasePath = [], tgSelected = False, tgReservedBytes = None,
     tgRecordSizeBytes = None, tgMaxSegmentBytes = None, tgMinFreeBytes = None,
     tgIdleTargetSegments = None\<rparr>"

definition orDefault :: "'a option \<Rightarrow> 'a \<Rightarrow> 'a" where
  "orDefault x d = (case x of None \<Rightarrow> d | Some v \<Rightarrow> v)"

definition makeQueueConfig :: "current_target \<Rightarrow> queue_config" where
  "makeQueueConfig t =
     (let c = default_queue_config\<lparr>qcBasePath := tgBasePath t\<rparr> in
      c\<lparr>reservedBytes := orDefault (tgReservedBytes t) (reservedBytes c),
        recordSizeBytes := orDefault (map_option unat (tgRecordSizeBytes t)) (recordSizeBytes c),
        qcMaxSegmentBytes := orDefault (tgMaxSegmentBytes t) (qcMaxSegmentBytes c),
        qcMinFreeBytes := orDefault (tgMinFreeBytes t) (qcMinFreeBytes c),
        qcIdleTargetSegments := orDefault (tgIdleTargetSegments t) (qcIdleTargetSegments c)\<rparr>)"

record 'w doctor_env =
  deFs :: "'w fs_ops"
  deNew :: "'w \<Rightarrow> 'w"
  deOwner :: "'w \<Rightarrow> bytes"

definition println :: "string \<Rightarrow> string" where
  "println s = s @ [CHR 0x0D, CHR 0x0A]"

definition yesNo :: "bool \<Rightarrow> string" where
  "yesNo b = (if b then ''yes'' else ''no'')"

definition flag :: "bool \<Rightarrow> string" where
  "flag b = (if b then ''1'' else ''0'')"

text \<open>The life of a \<open>Queue\<close> object inside a command.\<close>

definition withQueue ::
  "'w doctor_env \<Rightarrow> current_target
     \<Rightarrow> ('w store store_ops \<Rightarrow> queue_config \<Rightarrow> 'w store queue \<Rightarrow> ('a \<times> 'w store queue) option)
     \<Rightarrow> 'w \<Rightarrow> ('a \<times> 'w) option" where
  "withQueue E t f w =
     (let c = makeQueueConfig t;
          S = appendLogOps (deFs E) (storeConfig c);
          q = newQueue (deOwner E w) (newStore (deNew E w))
      in do {
        (r, q) \<leftarrow> f S c q;
        Some (r, world (quStore (releaseLock S q)))
      })"

definition targetLogConfig :: "current_target \<Rightarrow> append_log_config" where
  "targetLogConfig t = default_append_log_config\<lparr>basePath := tgBasePath t\<rparr>"

definition diagnoseTarget :: "'w doctor_env \<Rightarrow> current_target \<Rightarrow> 'w \<Rightarrow> store_diagnostic \<times> 'w" where
  "diagnoseTarget E t w = diagnoseAppendLogStore (deFs E) (targetLogConfig t) (deNew E w)"

section \<open>Reading commands\<close>

fun infoFiles :: "'w fs_ops \<Rightarrow> string list \<Rightarrow> 'w \<Rightarrow> string \<times> 'w" where
  "infoFiles F [] w = ([], w)"
| "infoFiles F (name # names) w =
     (let ((_, sz), w) = fs_fileSize F name w;
          (more, w) = infoFiles F names w
      in (''  '' @ cstr name @ '' size='' @ println (decimal (unat (ucast sz :: u32))) @ more, w))"

definition cmdInfo :: "'w doctor_env \<Rightarrow> current_target \<Rightarrow> 'w \<Rightarrow> string \<times> 'w" where
  "cmdInfo E t w =
     (let F = deFs E;
          (diag, w) = diagnoseTarget E t w;
          (_, w) = fs_mount F (tgBasePath t) (deNew E w);
          ((st, files), w) = fs_listFiles F w;
          (text, w) = (if ok st then infoFiles F files w else ([], w))
      in (''fs_free='' @ println (decimal (unat (ucast (dgFreeBytes diag) :: u32))) @ text
          @ println ''RESULT command=INFO ok=1'', w))"

definition listLine :: "segment_diagnostic \<Rightarrow> string" where
  "listLine seg = println (snprintf 80 (''seg-'' @ formatGeneration (sgGeneration seg) @ ''.bin size=''
     @ decimal (unat (sgSizeBytes seg)) @ '' ''
     @ (if sgIsTail seg then ''tail'' else if sgReferenced seg then ''sealed'' else ''dangling'')))"

definition cmdList :: "'w doctor_env \<Rightarrow> current_target \<Rightarrow> 'w \<Rightarrow> string \<times> 'w" where
  "cmdList E t w =
     (let (diag, w) = diagnoseTarget E t w in
      (concat (map listLine (dgSegments diag))
       @ ''manifest_a exists='' @ yesNo (sdExists (dgSlotA diag))
       @ '' valid='' @ println (yesNo (sdValid (dgSlotA diag)))
       @ ''manifest_b exists='' @ yesNo (sdExists (dgSlotB diag))
       @ '' valid='' @ println (yesNo (sdValid (dgSlotB diag)))
       @ println ''RESULT command=LIST ok=1'', w))"

definition repairName :: "repair_action \<Rightarrow> string" where
  "repairName a = (case a of RepairFormat \<Rightarrow> ''format_queue''
                           | DropFrontIfCorrupt \<Rightarrow> ''drop_front_if_corrupt'' | RepairNone \<Rightarrow> ''none'')"

definition issueLine :: "validation_issue \<Rightarrow> string" where
  "issueLine issue = ''issue code='' @ validationIssueCodeName (viCode issue)
     @ '' message='' @ cstr (viMessage issue)
     @ '' repair_hint='' @ println (repairName (repairAction issue))"

text \<open>\<open>ValidationOptions\<close> has its default of 100 errors.\<close>

definition kDefaultMaxErrors :: validation_options where "kDefaultMaxErrors = 100"

definition cmdValidate :: "'w doctor_env \<Rightarrow> current_target \<Rightarrow> 'w \<Rightarrow> (string \<times> 'w) option" where
  "cmdValidate E t w =
     do {
       (val, w) \<leftarrow> withQueue E t (\<lambda>S c. queueValidate S c kDefaultMaxErrors) w;
       Some (println (if vrOk val then ''validate: OK'' else ''validate: FAILED'')
         @ ''records_checked='' @ println (decimal (unat (checkedRecords val)))
         @ concat (map issueLine (vrErrors val))
         @ println (snprintf 64 (''RESULT command=VALIDATE ok='' @ flag (vrOk val)
             @ '' issues='' @ decimal (length (vrErrors val)))), w)
     }"

definition okOrCode :: "status \<Rightarrow> string" where
  "okOrCode st = (if ok st then ''ok'' else statusCodeName (code st))"

definition slotLine :: "string \<Rightarrow> slot_diagnostic \<Rightarrow> string" where
  "slotLine label d = label @ '' exists='' @ yesNo (sdExists d) @ '' valid='' @ yesNo (sdValid d)
     @ (if sdValid d then '' epoch='' @ decimal (unat (sdEpoch d)) else []) @ println []"

definition rangeLine :: "nat \<times> manifest_range \<Rightarrow> string" where
  "rangeLine = (\<lambda>(i, r). println (snprintf 128 (''  range['' @ decimal i @ ''] ''
     @ formatGeneration (startGen r) @ ''..'' @ formatGeneration (endGen r))))"

definition cmdDiag :: "'w doctor_env \<Rightarrow> current_target \<Rightarrow> 'w \<Rightarrow> string \<times> 'w" where
  "cmdDiag E t w =
     (let (diag, w) = diagnoseTarget E t w;
          diagOk = (ok (dgMountStatus diag) \<and> ok (dgListStatus diag))
      in (println (snprintf 128 (''mount='' @ okOrCode (dgMountStatus diag)
            @ '' list='' @ okOrCode (dgListStatus diag) @ '' free='' @ decimal (unat (dgFreeBytes diag))))
          @ slotLine ''slot_a'' (dgSlotA diag) @ slotLine ''slot_b'' (dgSlotB diag)
          @ (if dgHasWinner diag
             then println (snprintf 128 (''winner_epoch='' @ decimal (unat (dgWinnerEpoch diag))
                    @ '' ranges='' @ decimal (length (dgRanges diag))
                    @ '' tail_gen='' @ formatGeneration (dgTailGeneration diag)
                    @ '' next_gen='' @ formatGeneration (dgNextGeneration diag)))
                  @ concat (map rangeLine (enumerate 0 (dgRanges diag)))
             else [])
          @ println (snprintf 128 (''segments='' @ decimal (length (dgSegments diag))
              @ '' dangling='' @ decimal (dgDanglingSegments diag)))
          @ println (if diagOk then ''RESULT command=DIAG ok=1'' else ''RESULT command=DIAG ok=0''), w))"

definition cmdDumpFile :: "'w doctor_env \<Rightarrow> current_target \<Rightarrow> string \<Rightarrow> 'w \<Rightarrow> string \<times> 'w" where
  "cmdDumpFile E t name w =
     (let (st, w) = fs_mount (deFs E) (tgBasePath t) (deNew E w) in
      if \<not> ok st
      then (''FILE_ERROR name='' @ cstr name @ println '' message=mount_failed'', w)
      else let ((_, out), w) = dumpFile (deFs E) name w in (concat out, w))"

definition cmdDumpAll :: "'w doctor_env \<Rightarrow> current_target \<Rightarrow> 'w \<Rightarrow> string \<times> 'w" where
  "cmdDumpAll E t w =
     (let (st, w) = fs_mount (deFs E) (tgBasePath t) (deNew E w) in
      if \<not> ok st then (println ''LIST_ERROR message=mount_failed'', w)
      else let (out, w) = dumpAll (deFs E) w in (concat out, w))"

section \<open>Changing commands\<close>

definition cmdCompact :: "'w doctor_env \<Rightarrow> current_target \<Rightarrow> nat \<Rightarrow> 'w \<Rightarrow> (string \<times> 'w) option" where
  "cmdCompact E t steps w =
     do {
       (cr, w) \<leftarrow> withQueue E t (\<lambda>S c. queueCompactIdle S c steps) w;
       Some (println (snprintf 128 (''compact: status='' @ okOrCode (cirStatus cr)
            @ '' steps_run='' @ decimal (stepsRun cr) @ '' compactions='' @ decimal (compactions cr)
            @ '' noops='' @ decimal (noOps cr) @ '' more_work='' @ yesNo (moreWorkLikely cr)))
         @ println (snprintf 128 (''RESULT command=COMPACT ok='' @ flag (ok (cirStatus cr))
            @ '' steps='' @ decimal (stepsRun cr) @ '' compactions='' @ decimal (compactions cr)
            @ '' more_work='' @ flag (moreWorkLikely cr))), w)
     }"

text \<open>The loop of \<open>cmdCompactAll\<close>: whether it ended well, the steps and the compactions.\<close>

partial_function (option) compactAllLoop ::
  "'s store_ops \<Rightarrow> queue_config \<Rightarrow> nat \<Rightarrow> nat \<Rightarrow> nat \<Rightarrow> 's queue
     \<Rightarrow> ((bool \<times> nat \<times> nat) \<times> 's queue) option" where
  "compactAllLoop S c maxSteps totalSteps totalCompactions q =
     (if totalSteps < maxSteps then do {
        (cr, q) \<leftarrow> queueCompactIdle S c (maxSteps - totalSteps) q;
        let totalSteps = totalSteps + stepsRun cr;
        let totalCompactions = totalCompactions + compactions cr;
        if \<not> ok (cirStatus cr) then Some ((False, totalSteps, totalCompactions), q)
        else if \<not> moreWorkLikely cr then Some ((True, totalSteps, totalCompactions), q)
        else compactAllLoop S c maxSteps totalSteps totalCompactions q
      }
      else Some ((True, totalSteps, totalCompactions), q))"

declare compactAllLoop.simps [code]

definition cmdCompactAll :: "'w doctor_env \<Rightarrow> current_target \<Rightarrow> nat \<Rightarrow> 'w \<Rightarrow> (string \<times> 'w) option" where
  "cmdCompactAll E t maxSteps w =
     do {
       ((good, totalSteps, totalCompactions), w) \<leftarrow>
         withQueue E t (\<lambda>S c. compactAllLoop S c maxSteps 0 0) w;
       Some (println (snprintf 128 (''compact_all: total_steps='' @ decimal totalSteps
            @ '' compactions='' @ decimal totalCompactions))
         @ println (snprintf 128 (''RESULT command=COMPACT_ALL ok='' @ flag good
            @ '' steps='' @ decimal totalSteps @ '' compactions='' @ decimal totalCompactions)), w)
     }"

definition dropFrontText :: "status \<Rightarrow> string" where
  "dropFrontText st =
     (if ok st
      then println ''drop_front: dropped'' @ println ''RESULT command=DROP_FRONT_IF_CORRUPT ok=1 changed=1''
      else if code st = QueueEmpty
      then println ''drop_front: queue_empty''
           @ println ''RESULT command=DROP_FRONT_IF_CORRUPT ok=1 changed=0 code=queue_empty''
      else if code st = InvalidArgument
      then println ''drop_front: front_not_corrupt''
           @ println ''RESULT command=DROP_FRONT_IF_CORRUPT ok=1 changed=0 code=front_not_corrupt''
      else ''drop_front: error='' @ println (statusCodeName (code st))
           @ println (snprintf 96 (''RESULT command=DROP_FRONT_IF_CORRUPT ok=0 code='' @ statusCodeName (code st))))"

definition cmdDropFrontIfCorrupt :: "'w doctor_env \<Rightarrow> current_target \<Rightarrow> 'w \<Rightarrow> (string \<times> 'w) option" where
  "cmdDropFrontIfCorrupt E t w =
     do { (st, w) \<leftarrow> withQueue E t dropFrontIfCorrupt w; Some (dropFrontText st, w) }"

definition recoverLockText :: "status \<Rightarrow> string" where
  "recoverLockText st =
     (if isNoOp st
      then println ''recover_lock: not_applicable''
           @ println ''RESULT command=RECOVER_STALE_LOCK ok=1 changed=0 code=not_applicable''
      else if ok st
      then println ''recover_lock: ok'' @ println ''RESULT command=RECOVER_STALE_LOCK ok=1 changed=1''
      else if code st = LockTimeout
      then println ''recover_lock: lock_not_stale''
           @ println ''RESULT command=RECOVER_STALE_LOCK ok=1 changed=0 code=lock_not_stale''
      else ''recover_lock: error='' @ println (statusCodeName (code st))
           @ println (snprintf 80 (''RESULT command=RECOVER_STALE_LOCK ok=0 code='' @ statusCodeName (code st))))"

definition cmdRecoverStaleLock :: "'w doctor_env \<Rightarrow> current_target \<Rightarrow> 'w \<Rightarrow> (string \<times> 'w) option" where
  "cmdRecoverStaleLock E t w =
     do { (st, w) \<leftarrow> withQueue E t recoverStaleLock w; Some (recoverLockText st, w) }"

definition cmdFormat :: "'w doctor_env \<Rightarrow> current_target \<Rightarrow> 'w \<Rightarrow> (string \<times> 'w) option" where
  "cmdFormat E t w =
     do {
       (st, w) \<leftarrow> withQueue E t queueFormat w;
       Some (if ok st then println ''format: ok'' @ println ''RESULT command=FORMAT ok=1''
             else ''format: error='' @ println (statusCodeName (code st))
                  @ println (snprintf 64 (''RESULT command=FORMAT ok=0 code='' @ statusCodeName (code st))), w)
     }"

section \<open>The command line\<close>

definition blank :: char where "blank = CHR 0x20"

function tokenize :: "string \<Rightarrow> string list" where
  "tokenize line =
     (let line = dropWhile (\<lambda>c. c = blank) line in
      if line = [] then []
      else takeWhile (\<lambda>c. c \<noteq> blank) line # tokenize (dropWhile (\<lambda>c. c \<noteq> blank) line))"
  by pat_completeness auto

termination
proof (relation "measure length")
  fix line x :: string
  assume x: "x = dropWhile (\<lambda>c. c = blank) line" "x \<noteq> []"
  then have "hd x \<noteq> blank" using hd_dropWhile [of "\<lambda>c. c = blank" line] by simp
  moreover obtain c cs where "x = c # cs" using x(2) by (cases x) auto
  ultimately have "length (dropWhile (\<lambda>c. c \<noteq> blank) x) < length x"
    using length_dropWhile_le [of "\<lambda>c. c \<noteq> blank" cs] by simp
  also have "\<dots> \<le> length line" by (simp add: x(1) length_dropWhile_le)
  finally show "(dropWhile (\<lambda>c. c \<noteq> blank) x, line) \<in> measure length" by simp
qed simp

declare tokenize.simps [simp del]

definition isNameChar :: "char \<Rightarrow> bool" where
  "isNameChar c \<longleftrightarrow> (CHR ''0'' \<le> c \<and> c \<le> CHR ''9'') \<or> (CHR ''A'' \<le> c \<and> c \<le> CHR ''Z'')
     \<or> (CHR ''a'' \<le> c \<and> c \<le> CHR ''z'') \<or> c = CHR ''_'' \<or> c = CHR ''-''"

text \<open>\<open>strtol\<close> with base 10 on a C string, \<open>long\<close> being 32 bits wide; \<open>None\<close> is \<open>end == valStr\<close>.\<close>

definition strtolDevice :: "string \<Rightarrow> (int \<times> bytes) option" where
  "strtolDevice s =
     map_option (\<lambda>(v, rest). (min (2 ^ 31 - 1) (max (- (2 ^ 31)) v), rest)) (strtol10 (chars (cstr s)))"

definition atoi :: "string \<Rightarrow> int" where
  "atoi s = (case strtolDevice s of None \<Rightarrow> 0 | Some (v, rest) \<Rightarrow> v)"

definition tokenKey :: "string \<Rightarrow> string" where
  "tokenKey token = takeWhile (\<lambda>c. c \<noteq> CHR ''='') token"

definition tokenValue :: "string \<Rightarrow> string" where
  "tokenValue token = tl (dropWhile (\<lambda>c. c \<noteq> CHR ''='') token)"

definition quote :: char where "quote = CHR 0x27"

text \<open>The check of one configuration token of \<open>TARGET\<close>: what is printed about a bad one.\<close>

definition checkConfigToken :: "string \<Rightarrow> string option" where
  "checkConfigToken token =
     (if CHR ''='' \<notin> set token
      then Some (''error: TARGET config token missing '' @ [quote] @ ''='' @ [quote] @ '': '' @ println (cstr token))
      else
        let key = tokenKey token; valStr = tokenValue token in
        case strtolDevice valStr of
          None \<Rightarrow> Some (''error: TARGET config value is not a valid integer: '' @ println (cstr valStr))
        | Some (val, rest) \<Rightarrow>
            if rest \<noteq> []
            then Some (''error: TARGET config value is not a valid integer: '' @ println (cstr valStr))
            else if key \<in> {''reservedBytes'', ''recordSizeBytes'', ''maxSegmentBytes''}
            then (if val \<le> 0 then Some (''error: TARGET config '' @ cstr key @ println '' must be > 0'') else None)
            else if key = ''minFreeBytes''
            then (if val < 0 then Some (println ''error: TARGET config minFreeBytes must be >= 0'') else None)
            else if key \<in> {''idleCompactionTargetSegments'', ''maxSegments''}
            then (if val < 1 \<or> val > 255
                  then Some (println ''error: TARGET config idleCompactionTargetSegments must be 1-255'') else None)
            else Some (''error: TARGET unknown config key: '' @ println (cstr key)))"

fun checkConfigTokens :: "string list \<Rightarrow> string option" where
  "checkConfigTokens [] = None"
| "checkConfigTokens (token # tokens) =
     (case checkConfigToken token of Some err \<Rightarrow> Some err | None \<Rightarrow> checkConfigTokens tokens)"

definition applyConfigToken :: "current_target \<Rightarrow> string \<Rightarrow> current_target" where
  "applyConfigToken t token =
     (let key = tokenKey token; val = atoi (tokenValue token) in
      if key = ''reservedBytes'' then t\<lparr>tgReservedBytes := Some (word_of_int val)\<rparr>
      else if key = ''recordSizeBytes'' then t\<lparr>tgRecordSizeBytes := Some (word_of_int val)\<rparr>
      else if key = ''maxSegmentBytes'' then t\<lparr>tgMaxSegmentBytes := Some (word_of_int val)\<rparr>
      else if key = ''minFreeBytes'' then t\<lparr>tgMinFreeBytes := Some (word_of_int val)\<rparr>
      else if key \<in> {''idleCompactionTargetSegments'', ''maxSegments''}
      then t\<lparr>tgIdleTargetSegments := Some (word_of_int val)\<rparr>
      else t)"

definition printSetting :: "string \<Rightarrow> nat option \<Rightarrow> string" where
  "printSetting name v = (case v of None \<Rightarrow> [] | Some n \<Rightarrow> '' '' @ name @ ''='' @ decimal n)"

definition targetText :: "current_target \<Rightarrow> string" where
  "targetText t =
     ''target: '' @ cstr (tgName t) @ '' path='' @ cstr (tgBasePath t)
     @ printSetting ''reservedBytes'' (map_option unat (tgReservedBytes t))
     @ printSetting ''recordSizeBytes'' (map_option unat (tgRecordSizeBytes t))
     @ printSetting ''maxSegmentBytes'' (map_option unat (tgMaxSegmentBytes t))
     @ printSetting ''minFreeBytes'' (map_option unat (tgMinFreeBytes t))
     @ printSetting ''idleCompactionTargetSegments'' (map_option unat (tgIdleTargetSegments t))
     @ println []"

definition cmdTarget :: "string list \<Rightarrow> current_target \<Rightarrow> current_target \<times> string" where
  "cmdTarget tokens target =
     (if length tokens < 3 then (target, println ''error: TARGET requires name and path'')
      else if \<not> list_all isNameChar (tokens ! 1)
      then (target, println ''error: TARGET name contains invalid characters (use [A-Za-z0-9_-])'')
      else if tokens ! 1 = [] then (target, println ''error: TARGET name must not be empty'')
      else case checkConfigTokens (drop 3 tokens) of
        Some err \<Rightarrow> (target, err)
      | None \<Rightarrow>
          let t = foldl applyConfigToken (noTarget\<lparr>tgName := tokens ! 1, tgBasePath := tokens ! 2\<rparr>) (drop 3 tokens);
              t = t\<lparr>tgSelected := True\<rparr>
          in (t, targetText t))"

text \<open>The steps of \<open>COMPACT\<close> and \<open>COMPACT_ALL\<close>.\<close>

definition stepsArgument :: "string list \<Rightarrow> nat \<Rightarrow> nat" where
  "stepsArgument tokens d =
     (let n = (if length tokens \<ge> 2 then atoi (tokens ! 1) else int d) in if n > 0 then nat n else d)"

text \<open>The commands that need a target; the file-system effect of a command is its second component.\<close>

definition targetCommand ::
  "'w doctor_env \<Rightarrow> string list \<Rightarrow> current_target \<Rightarrow> 'w \<Rightarrow> (string \<times> 'w) option" where
  "targetCommand E tokens t w =
     (let verb = hd tokens in
      if verb = ''INFO'' then Some (cmdInfo E t w)
      else if verb = ''LIST'' then Some (cmdList E t w)
      else if verb = ''VALIDATE'' then cmdValidate E t w
      else if verb = ''DIAG'' then Some (cmdDiag E t w)
      else if verb = ''DUMP_ALL'' then Some (cmdDumpAll E t w)
      else if verb = ''DUMP_FILE''
      then (if length tokens < 2 then Some (println ''error: DUMP_FILE requires a filename'', w)
            else Some (cmdDumpFile E t (tokens ! 1) w))
      else if verb = ''COMPACT'' then cmdCompact E t (stepsArgument tokens 1) w
      else if verb = ''COMPACT_ALL'' then cmdCompactAll E t (stepsArgument tokens 64) w
      else if verb = ''DROP_FRONT_IF_CORRUPT'' then cmdDropFrontIfCorrupt E t w
      else if verb = ''RECOVER_STALE_LOCK'' then cmdRecoverStaleLock E t w
      else if verb = ''FORMAT''
      then (if length tokens < 3 \<or> tokens ! 1 \<noteq> ''CONFIRM''
            then Some (println ''error: FORMAT requires CONFIRM and target name: FORMAT CONFIRM <name>'', w)
            else if tokens ! 2 \<noteq> tgName t
            then Some (''error: FORMAT CONFIRM name mismatch: expected '' @ [quote] @ cstr (tgName t)
                   @ println [quote], w)
            else do {
              (text, w) \<leftarrow> cmdFormat E t w;
              Some (println ''warning: dump first recommended (DUMP_ALL before FORMAT)'' @ text, w)
            })
      else Some (''error: unknown command: '' @ println (cstr verb), w))"

definition dispatch ::
  "'w doctor_env \<Rightarrow> string \<Rightarrow> current_target \<Rightarrow> 'w \<Rightarrow> ((bool \<times> current_target \<times> string) \<times> 'w) option" where
  "dispatch E line target w =
     (let tokens = tokenize line in
      if tokens = [] then Some ((True, target, []), w)
      else if hd tokens = ''TARGET''
      then let (target, text) = cmdTarget tokens target in Some ((True, target, text), w)
      else if hd tokens = ''DONE'' then Some ((False, target, []), w)
      else if \<not> tgSelected target
      then Some ((True, target, println ''error: no target selected (use TARGET name path)''), w)
      else do {
        (text, w) \<leftarrow> targetCommand E tokens target w;
        Some ((True, target, text), w)
      })"

section \<open>The session\<close>

record 'i serial_ops =
  sl_millis :: "'i \<Rightarrow> u32 \<times> 'i"
  sl_available :: "'i \<Rightarrow> bool \<times> 'i"
  sl_read :: "'i \<Rightarrow> char \<times> 'i"
  sl_delay :: "u32 \<Rightarrow> 'i \<Rightarrow> 'i"

definition kReadTimeoutMs :: u32 where "kReadTimeoutMs = 30000"
definition kDoctorIdleTimeoutMs :: u32 where "kDoctorIdleTimeoutMs = 5 * 60 * 1000"

partial_function (option) readLoop ::
  "'i serial_ops \<Rightarrow> u32 \<Rightarrow> string \<Rightarrow> u32 \<Rightarrow> 'i \<Rightarrow> (string \<times> 'i) option" where
  "readLoop S timeoutMs line deadline i =
     (let (now, i) = sl_millis S i in
      if \<not> now < deadline then Some (line, i)
      else let (available, i) = sl_available S i in
      if \<not> available then readLoop S timeoutMs line deadline (sl_delay S 1 i)
      else let (c, i) = sl_read S i in
      if c = CHR 0x0D then readLoop S timeoutMs line deadline i
      else if c = CHR 0x0A
      then (if line \<noteq> [] then Some (line, i) else readLoop S timeoutMs line deadline i)
      else let (now, i) = sl_millis S i
           in readLoop S timeoutMs (line @ [c]) (now + timeoutMs) i)"

declare readLoop.simps [code]

definition readLine :: "'i serial_ops \<Rightarrow> 'i \<Rightarrow> (string \<times> 'i) option" where
  "readLine S i = (let (now, i) = sl_millis S i in readLoop S kReadTimeoutMs [] (now + kReadTimeoutMs) i)"

text \<open>The command loop of \<open>runSession\<close>; \<open>out\<close> is what has been printed.\<close>

partial_function (option) sessionLoop ::
  "'i serial_ops \<Rightarrow> 'w doctor_env \<Rightarrow> u32 \<Rightarrow> current_target \<Rightarrow> string \<Rightarrow> 'i \<times> 'w
     \<Rightarrow> (string \<times> 'i \<times> 'w) option" where
  "sessionLoop S E lastActivityMs target out env =
     do {
       (line, i) \<leftarrow> readLine S (fst env);
       let (now, i) = sl_millis S i;
       if line = [] then
         if now - lastActivityMs \<ge> kDoctorIdleTimeoutMs
         then Some (out @ println ''doctor: idle timeout, exiting session'', i, snd env)
         else sessionLoop S E lastActivityMs target out (i, snd env)
       else do {
         ((goOn, target, text), w) \<leftarrow> dispatch E line target (snd env);
         if \<not> goOn then Some (out @ text, i, w)
         else sessionLoop S E now target (out @ text @ println ''READY'') (i, w)
       }
     }"

declare sessionLoop.simps [code]

definition runSession :: "'i serial_ops \<Rightarrow> 'w doctor_env \<Rightarrow> 'i \<times> 'w \<Rightarrow> (string \<times> 'i \<times> 'w) option" where
  "runSession S E env =
     (let (now, i) = sl_millis S (fst env) in
      sessionLoop S E now noTarget (println ''PQUEUE_DOCTOR_START'' @ println ''READY'') (i, snd env))"

end
