(* ===== verification/Doctor_Theorems.thy ===== *)
theory Doctor_Theorems
  imports Doctor_Session
begin

text \<open>
  What a doctor session may do to a queue directory, and that it ends when the host falls silent.

  The first part follows the world through the commands that only report: none of them changes a
  file, whatever the file system answers.  The second part follows the clock through the loops of
  \<open>readLine\<close> and \<open>runSession\<close>.
\<close>

section \<open>Commands that only report\<close>

text \<open>The commands that may change files, and the confirmation \<open>FORMAT\<close> asks for.\<close>

definition changingVerbs :: "string set" where
  "changingVerbs = {''VALIDATE'', ''COMPACT'', ''COMPACT_ALL'', ''DROP_FRONT_IF_CORRUPT'', ''RECOVER_STALE_LOCK''}"

definition formatConfirmed :: "string list \<Rightarrow> current_target \<Rightarrow> bool" where
  "formatConfirmed tokens t \<longleftrightarrow>
     3 \<le> length tokens \<and> hd tokens = ''FORMAT'' \<and> tokens ! 1 = ''CONFIRM'' \<and> tokens ! 2 = tgName t"

context file_system
begin

lemma diagnoseSlot_view: "diagnoseSlot F n w = (r, w') \<Longrightarrow> view w' = view w"
  by (auto simp: diagnoseSlot_def readManifestSlot_def Let_def split: prod.splits if_splits
      dest!: size_view read_view)

lemma diagnoseFiles_view: "diagnoseFiles F m names w = (r, w') \<Longrightarrow> view w' = view w"
proof (induction names arbitrary: w r w')
  case (Cons n names)
  show ?case
  proof (cases "parseSegmentGen n")
    case None
    then show ?thesis using Cons by simp
  next
    case (Some g)
    obtain st sz w1 where s: "fs_fileSize F n w = ((st, sz), w1)" by (metis surj_pair)
    obtain r2 w2 where f: "diagnoseFiles F m names w1 = (r2, w2)" by (metis surj_pair)
    have "w' = w2" using Cons.prems Some s f by (simp add: Let_def split: prod.splits)
    then show ?thesis using Cons.IH [OF f] size_view [OF s] by simp
  qed
qed simp

lemma diagnose_view: "diagnoseAppendLogStore F cfg w = (d, w') \<Longrightarrow> view w' = view w"
  by (auto simp: diagnoseAppendLogStore_def Let_def split: prod.splits if_splits
      dest!: mount_view list_view diagnoseSlot_view diagnoseFiles_view)

lemma infoFiles_view: "infoFiles F names w = (r, w') \<Longrightarrow> view w' = view w"
proof (induction names arbitrary: w r)
  case (Cons n names)
  then show ?case by (auto simp: Let_def split: prod.splits dest!: size_view)
qed simp

lemma dumpChunks_view: "dumpChunks F name fsize offset crc out w = (r, w') \<Longrightarrow> view w' = view w"
proof (induction "unat fsize - unat offset" arbitrary: offset crc out w rule: less_induct)
  case less
  let ?n = "unat (min kDumpChunkBytes (fsize - offset))"
  obtain st chunk w1 where rd: "fs_readAt F name offset ?n w = ((st, chunk), w1)" by (metis surj_pair)
  have v: "view w1 = view w" using readAt_view [OF rd] by simp
  note run = less.prems [unfolded dumpChunks.simps [of F name fsize offset crc out w]]
  consider "\<not> offset < fsize" | "offset < fsize" "\<not> ok st \<or> length chunk \<noteq> ?n"
    | "offset < fsize" "ok st" "length chunk = ?n" by blast
  then show ?case
  proof cases
    case 1
    then show ?thesis using run by simp
  next
    case 2
    then show ?thesis using run rd v by (auto simp: Let_def)
  next
    case 3
    note p = chunk_progress [OF 3(1) refl]
    have "unat fsize - unat (offset + word_of_nat ?n) < unat fsize - unat offset" using p(1,2,4) by simp
    moreover have "dumpChunks F name fsize (offset + word_of_nat ?n) (crc32Update crc chunk)
        (out @ [toHex chunk @ lf]) w1 = (r, w')" using run rd 3 by (simp add: Let_def)
    ultimately show ?thesis using less.hyps v by fastforce
  qed
qed

lemma dumpFile_view: "dumpFile F name w = (r, w') \<Longrightarrow> view w' = view w"
  by (auto simp: dumpFile_def Let_def split: prod.splits if_splits option.splits
      dest!: size_view dumpChunks_view)

lemma dumpNames_view: "dumpNames F names n e w = (r, w') \<Longrightarrow> view w' = view w"
proof (induction names arbitrary: n e w r w')
  case (Cons name names)
  show ?case
  proof (cases "isValidDumpName name")
    case True
    obtain good out w1 where f: "dumpFile F name w = ((good, out), w1)" by (metis surj_pair)
    obtain r2 w2 where more: "dumpNames F names (if good then n + 1 else n) (if good then e else e + 1) w1 = (r2, w2)"
      by (metis surj_pair)
    have "w' = w2" using Cons.prems True f more by (auto simp: Let_def split: prod.splits if_splits)
    then show ?thesis using Cons.IH [OF more] dumpFile_view [OF f] by simp
  qed (use Cons in simp)
qed simp

lemma dumpAll_view: "dumpAll F w = (r, w') \<Longrightarrow> view w' = view w"
  by (auto simp: dumpAll_def Let_def split: prod.splits if_splits dest!: list_view dumpNames_view)

lemma report_view:
  assumes "deFs E = F" and "\<forall>w. view (deNew E w) = view w"
  shows "cmdInfo E t w = (r, w') \<Longrightarrow> view w' = view w"
    and "cmdList E t w = (r, w') \<Longrightarrow> view w' = view w"
    and "cmdDiag E t w = (r, w') \<Longrightarrow> view w' = view w"
    and "cmdDumpFile E t name w = (r, w') \<Longrightarrow> view w' = view w"
    and "cmdDumpAll E t w = (r, w') \<Longrightarrow> view w' = view w"
  using assms(2)
  by (auto simp: assms(1) cmdInfo_def cmdList_def cmdDiag_def cmdDumpFile_def cmdDumpAll_def diagnoseTarget_def
      Let_def split: prod.splits if_splits
      dest!: diagnose_view mount_view list_view infoFiles_view dumpFile_view dumpAll_view)

lemma targetCommand_view:
  assumes "deFs E = F" and "\<forall>w. view (deNew E w) = view w"
    and run: "targetCommand E tokens t w = Some (text, w')"
    and verb: "hd tokens \<notin> changingVerbs" "\<not> formatConfirmed tokens t"
  shows "view w' = view w"
  using run verb report_view [OF assms(1,2)]
  by (auto simp: targetCommand_def Let_def changingVerbs_def formatConfirmed_def
      split: if_splits)

end

section \<open>The target\<close>

text \<open>What \<open>TARGET\<close> guarantees of its settings, and of a selected target.\<close>

definition settingsOk :: "current_target \<Rightarrow> bool" where
  "settingsOk t \<longleftrightarrow>
     tgReservedBytes t \<noteq> Some 0 \<and> tgRecordSizeBytes t \<noteq> Some 0 \<and> tgMaxSegmentBytes t \<noteq> Some 0
     \<and> tgIdleTargetSegments t \<noteq> Some 0
     \<and> (\<forall>x \<in> {tgReservedBytes t, tgRecordSizeBytes t, tgMaxSegmentBytes t, tgMinFreeBytes t}.
          case x of None \<Rightarrow> True | Some n \<Rightarrow> unat n < 2 ^ 31)"

definition targetOk :: "current_target \<Rightarrow> bool" where
  "targetOk t \<longleftrightarrow> settingsOk t
     \<and> (tgSelected t \<longrightarrow> tgName t \<noteq> [] \<and> list_all isNameChar (tgName t) \<and> tgBasePath t \<noteq> [])"

lemma tokenize_nonempty: "t \<in> set (tokenize line) \<Longrightarrow> t \<noteq> []"
proof (induction line rule: tokenize.induct)
  case (1 line)
  let ?rest = "dropWhile (\<lambda>c. c = blank) line"
  show ?case
  proof (cases "?rest = []")
    case True
    then show ?thesis using "1.prems" by (simp add: tokenize.simps [of line])
  next
    case False
    moreover have "hd ?rest \<noteq> blank" using hd_dropWhile [of "\<lambda>c. c = blank" line] False by simp
    ultimately have "takeWhile (\<lambda>c. c \<noteq> blank) ?rest \<noteq> []" by (cases ?rest) auto
    moreover have "tokenize line = takeWhile (\<lambda>c. c \<noteq> blank) ?rest # tokenize (dropWhile (\<lambda>c. c \<noteq> blank) ?rest)"
      using False by (subst tokenize.simps) (simp only: Let_def if_False)
    ultimately show ?thesis using "1.prems" "1.IH" [OF refl False] by (metis set_ConsD)
  qed
qed

lemma unat_of_setting: "0 \<le> v \<Longrightarrow> v < 2 ^ 31 \<Longrightarrow> unat (word_of_int v :: u32) = nat v"
  by (simp add: unsigned_of_int take_bit_int_eq_self)

lemma strtolDevice_range: "strtolDevice s = Some (v, rest) \<Longrightarrow> v < 2 ^ 31"
  by (auto simp: strtolDevice_def)

lemma applyConfigToken_ok:
  assumes "checkConfigToken token = None" and "settingsOk t"
  shows "settingsOk (applyConfigToken t token)"
proof -
  let ?key = "tokenKey token"
  obtain v where v: "strtolDevice (tokenValue token) = Some (v, [])"
    using assms(1) by (auto simp: checkConfigToken_def Let_def split: option.splits if_splits)
  then have a: "atoi (tokenValue token) = v" "v < 2 ^ 31"
    using strtolDevice_range [OF v] by (simp_all add: atoi_def)
  have pos: "0 < v" if "?key \<in> {''reservedBytes'', ''recordSizeBytes'', ''maxSegmentBytes''}"
    using assms(1) v that by (auto simp: checkConfigToken_def Let_def split: if_splits)
  have free: "0 \<le> v" if "?key = ''minFreeBytes''"
    using assms(1) v that by (auto simp: checkConfigToken_def Let_def split: if_splits)
  have idle: "1 \<le> v" "v \<le> 255" if "?key \<in> {''idleCompactionTargetSegments'', ''maxSegments''}"
    using assms(1) v that by (auto simp: checkConfigToken_def Let_def split: if_splits)
  have w32: "(word_of_int v :: u32) \<noteq> 0" if "0 < v"
    using that a(2) unat_of_setting [of v] by (auto simp: unat_eq_zero [symmetric])
  have w8: "(word_of_int v :: u8) \<noteq> 0" if "1 \<le> v" "v \<le> 255"
    using that zdvd_imp_le [of 256 v] by (auto simp: word_of_int_eq_0_iff)
  show ?thesis
    using assms(2) pos free idle w32 w8 a unat_of_setting [of v]
    by (auto simp: settingsOk_def applyConfigToken_def Let_def split: option.splits)
qed

lemma applyConfigTokens_ok:
  "checkConfigTokens tokens = None \<Longrightarrow> settingsOk t \<Longrightarrow> settingsOk (foldl applyConfigToken t tokens)"
proof (induction tokens arbitrary: t)
  case (Cons token tokens)
  then show ?case using applyConfigToken_ok [of token t] by (auto split: option.splits)
qed simp

lemma applyConfigTokens_name:
  "tgName (foldl applyConfigToken t tokens) = tgName t
   \<and> tgBasePath (foldl applyConfigToken t tokens) = tgBasePath t"
proof (induction tokens arbitrary: t)
  case (Cons token tokens)
  have "tgName (applyConfigToken t token) = tgName t \<and> tgBasePath (applyConfigToken t token) = tgBasePath t"
    by (simp add: applyConfigToken_def Let_def)
  then show ?case using Cons by simp
qed simp

lemma cmdTarget_ok:
  assumes "targetOk t" and "\<forall>x \<in> set tokens. x \<noteq> []" and "cmdTarget tokens t = (t', text)"
  shows "targetOk t'"
proof (cases "t' = t")
  case False
  then have c: "3 \<le> length tokens" "list_all isNameChar (tokens ! 1)" "checkConfigTokens (drop 3 tokens) = None"
    "t' = (foldl applyConfigToken (noTarget\<lparr>tgName := tokens ! 1, tgBasePath := tokens ! 2\<rparr>)
       (drop 3 tokens))\<lparr>tgSelected := True\<rparr>"
    using assms(3) by (auto simp: cmdTarget_def Let_def split: if_splits option.splits)
  have "settingsOk (noTarget\<lparr>tgName := tokens ! 1, tgBasePath := tokens ! 2\<rparr>)"
    by (simp add: settingsOk_def noTarget_def)
  from applyConfigTokens_ok [OF c(3) this] have "settingsOk t'" by (simp add: c(4) settingsOk_def)
  moreover have "tokens ! 1 \<noteq> []" "tokens ! 2 \<noteq> []" using assms(2) c(1) nth_mem [of 1 tokens] nth_mem [of 2 tokens] by auto
  ultimately show ?thesis using c(2) by (simp add: targetOk_def c(4) applyConfigTokens_name noTarget_def)
qed (use assms(1) in simp)

section \<open>What a line may do\<close>


text \<open>A session over a POSIX directory, and a target in it.\<close>

definition posixDoctor :: "posix_world doctor_env" where
  "posixDoctor = \<lparr>deFs = posixFs, deNew = (\<lambda>w. w\<lparr>pwLockMounted := False\<rparr>), deOwner = (\<lambda>w. [1])\<rparr>"

definition prodTarget :: current_target where
  "prodTarget = noTarget\<lparr>tgName := ''prod'', tgBasePath := ''/prod'', tgSelected := True\<rparr>"

lemma posixDoctor_env:
  "deFs posixDoctor = posixFs" "\<forall>w. posixView (deNew posixDoctor w) = posixView w"
  by (simp_all add: posixDoctor_def posixView_def)




section \<open>A silent host\<close>

text \<open>\<open>clk\<close> is the time in microseconds: a call takes some time, but less than a second, \<open>millis\<close> tells
  the milliseconds, and no character is waiting.\<close>

definition silentSerial :: "'i serial_ops \<Rightarrow> ('i \<Rightarrow> nat) \<Rightarrow> bool" where
  "silentSerial S clk \<longleftrightarrow>
     (\<forall>i. (\<exists>i'. sl_millis S i = (word_of_nat (clk i' div 1000), i') \<and> clk i < clk i' \<and> clk i' < clk i + 1000000)
        \<and> (\<exists>i'. sl_available S i = (False, i') \<and> clk i < clk i' \<and> clk i' < clk i + 1000000)
        \<and> clk i < clk (sl_delay S 1 i) \<and> clk (sl_delay S 1 i) < clk i + 1000000)"

lemma silent_steps:
  assumes "silentSerial S clk"
  obtains i' i'' where "sl_millis S i = (word_of_nat (clk i' div 1000), i')" "clk i < clk i'"
    "clk i' < clk i + 1000000" "sl_available S i' = (False, i'')" "clk i' < clk i''" "clk i'' < clk i' + 1000000"
    "clk i'' < clk (sl_delay S 1 i'')" "clk (sl_delay S 1 i'') < clk i'' + 1000000"
  using assms unfolding silentSerial_def by metis

lemma u32_of_nat_less: "m < 2 ^ 32 \<Longrightarrow> n < 2 ^ 32 \<Longrightarrow> (word_of_nat m :: u32) < word_of_nat n \<longleftrightarrow> m < n"
  by (simp add: word_less_nat_alt unat_word_u32)

lemma readLoop_silent:
  assumes "silentSerial S clk" and "d + 10000 < 2 ^ 32" and "clk i < 1000 * d + 3000000"
  shows "\<exists>i'. readLoop S tmo [] (word_of_nat d) i = Some ([], i') \<and> clk i < clk i' \<and> clk i' < 1000 * d + 4000000"
  using assms(3)
proof (induction "1000 * d + 3000000 - clk i" arbitrary: i rule: less_induct)
  case less
  obtain i1 i2 where m: "sl_millis S i = (word_of_nat (clk i1 div 1000), i1)" "clk i < clk i1"
      "clk i1 < clk i + 1000000" "sl_available S i1 = (False, i2)" "clk i1 < clk i2"
      "clk i2 < clk i1 + 1000000" "clk i2 < clk (sl_delay S 1 i2)" "clk (sl_delay S 1 i2) < clk i2 + 1000000"
    using silent_steps [OF assms(1)] by metis
  have lt: "(word_of_nat (clk i1 div 1000) :: u32) < word_of_nat d \<longleftrightarrow> clk i1 div 1000 < d"
    using m(3) less.prems assms(2) by (intro u32_of_nat_less) simp_all
  show ?case
  proof (cases "clk i1 div 1000 < d")
    case False
    then show ?thesis using m less.prems lt by (simp add: readLoop.simps [of S tmo _ _ i])
  next
    case True
    let ?i = "sl_delay S 1 i2"
    have "clk i1 < 1000 * d" using True by simp
    then have "clk ?i < 1000 * d + 3000000" using m by simp
    moreover from this have "1000 * d + 3000000 - clk ?i < 1000 * d + 3000000 - clk i" using m by simp
    ultimately obtain i' where "readLoop S tmo [] (word_of_nat d) ?i = Some ([], i')"
        "clk ?i < clk i'" "clk i' < 1000 * d + 4000000"
      using less.hyps by metis
    moreover have "readLoop S tmo [] (word_of_nat d) i = readLoop S tmo [] (word_of_nat d) ?i"
      using m True lt by (subst readLoop.simps) simp
    ultimately show ?thesis using m by (intro exI [of _ i']) simp
  qed
qed

lemma readLine_silent:
  assumes "silentSerial S clk" and "clk i div 1000 + 50000 < 2 ^ 32"
  shows "\<exists>i'. readLine S i = Some ([], i') \<and> clk i < clk i' \<and> clk i' < clk i + 36000000"
proof -
  obtain i1 where m: "sl_millis S i = (word_of_nat (clk i1 div 1000), i1)" "clk i < clk i1"
      "clk i1 < clk i + 1000000"
    using silent_steps [OF assms(1)] by metis
  let ?d = "clk i1 div 1000 + 30000"
  have "?d + 10000 < 2 ^ 32" using m(3) assms(2) by simp
  moreover have "clk i1 < 1000 * ?d + 3000000" by simp
  ultimately obtain i' where r: "readLoop S kReadTimeoutMs [] (word_of_nat ?d) i1 = Some ([], i')"
      "clk i1 < clk i'" "clk i' < 1000 * ?d + 4000000"
    using readLoop_silent [OF assms(1)] by blast
  have "(word_of_nat (clk i1 div 1000) :: u32) + kReadTimeoutMs = word_of_nat ?d" by (simp add: kReadTimeoutMs_def)
  then have "readLine S i = Some ([], i')" using m(1) r(1) by (simp add: readLine_def del: of_nat_add)
  then show ?thesis using m r by (intro exI [of _ i']) simp
qed

section \<open>The end of a session\<close>


text \<open>A silent serial line whose calls take a microsecond each.\<close>

definition idleSerial :: "nat serial_ops" where
  "idleSerial = \<lparr>sl_millis = (\<lambda>i. (word_of_nat ((i + 1) div 1000), i + 1)),
     sl_available = (\<lambda>i. (False, i + 1)), sl_read = (\<lambda>i. (CHR 0x00, i + 1)),
     sl_delay = (\<lambda>ms i. i + 1000 * unat ms + 1)\<rparr>"


section \<open>The wrap-around of the clock\<close>

text \<open>\<open>readLine\<close> compares the clock with a deadline instead of comparing an elapsed time with the timeout.
  A deadline at the end of the range of \<open>millis\<close> can be stepped over; the loop then never ends, here on
  a clock that happens to show even numbers only.\<close>

definition evenSerial :: "u32 serial_ops" where
  "evenSerial = \<lparr>sl_millis = (\<lambda>i. (i, i)), sl_available = (\<lambda>i. (False, i)), sl_read = (\<lambda>i. (CHR 0x00, i)),
     sl_delay = (\<lambda>ms i. i + 2 * ms)\<rparr>"

lemma evenSerial_ops:
  "sl_millis evenSerial i = (i, i)" "sl_available evenSerial i = (False, i)"
  "sl_delay evenSerial ms i = i + 2 * ms"
  by (simp_all add: evenSerial_def)

lemma even_below_max: "even (i :: u32) \<Longrightarrow> i < 0xffffffff"
  using u32_le_max [of i] by (cases "i = 0xffffffff") (auto simp: order.order_iff_strict)

lemma readLoop_wrap:
  "readLoop S tmo l d i = Some r \<Longrightarrow> \<not> (S = evenSerial \<and> d = 0xffffffff \<and> even i)"
  by (erule readLoop.raw_induct [rotated]) (fastforce simp: evenSerial_ops even_below_max)

lemma readLoop_hangs: "even i \<Longrightarrow> readLoop evenSerial tmo l 0xffffffff i = None"
  using readLoop_wrap [where S = evenSerial and d = "0xffffffff" and i = i] by (cases "readLoop evenSerial tmo l 0xffffffff i") auto

end
