(* ===== verification/Tool_File_Systems.thy ===== *)
theory Tool_File_Systems
  imports Compaction_Theorems "HOL-Library.List_Lexorder" "HOL-Library.Char_ord"
begin

text \<open>
  The two file systems of the simulation tools: \<open>CountingFileSystem\<close>
  (\<open>tools/counting_file_system.h\<close>), which counts the calls of another file system and adds up a
  simulated latency, and \<open>MemoryFileSystem\<close> (\<open>tools/memory_file_system.h\<close>), which keeps the files
  in memory.

  A counting file system keeps every law of the file system it wraps, so all that is proved of the
  store, the queue and the outbox holds over it.  The memory file system empties itself on every
  mount and keeps its locks apart from its files, so it does not satisfy the contract as it is;
  what a store sees on it is stated separately.  Counters are 64-bit words and wrap; the latency
  arithmetic is 32-bit, as in the code.
\<close>

section \<open>Counting\<close>

record fs_latency =
  readFileUs :: u32
  readAtUs :: u32
  writeFileFixedUs :: u32
  writeFilePerKbUs :: u32
  writeAtUs :: u32
  removeFileUs :: u32
  listFilesBaseUs :: u32
  listFilesPerFileUs :: u32

record fs_counters =
  ctMount :: u64
  ctReadFile :: u64
  ctWriteFile :: u64
  ctReadAt :: u64
  ctWriteAt :: u64
  ctResizeFile :: u64
  ctFileSize :: u64
  ctRemoveFile :: u64
  ctListFiles :: u64
  ctLockAcquire :: u64
  ctLockRelease :: u64
  ctBytesRead :: u64
  ctBytesWritten :: u64
  ctLockBytesWritten :: u64
  ctSimLatencyUs :: u64

definition zero_counters :: fs_counters where
  "zero_counters =
     \<lparr>ctMount = 0, ctReadFile = 0, ctWriteFile = 0, ctReadAt = 0, ctWriteAt = 0, ctResizeFile = 0,
      ctFileSize = 0, ctRemoveFile = 0, ctListFiles = 0, ctLockAcquire = 0, ctLockRelease = 0,
      ctBytesRead = 0, ctBytesWritten = 0, ctLockBytesWritten = 0, ctSimLatencyUs = 0\<rparr>"

definition metadataOps :: "fs_counters \<Rightarrow> u64" where
  "metadataOps c = ctWriteFile c + ctRemoveFile c"

record 'w counting =
  inner :: 'w
  counters :: fs_counters
  latency :: fs_latency

definition resetCounters :: "'w counting \<Rightarrow> 'w counting" where
  "resetCounters c = c\<lparr>counters := zero_counters\<rparr>"

definition setLatency :: "fs_latency \<Rightarrow> 'w counting \<Rightarrow> 'w counting" where
  "setLatency lat c = c\<lparr>latency := lat\<rparr>"

definition tally :: "(fs_counters \<Rightarrow> fs_counters) \<Rightarrow> 'w counting \<Rightarrow> 'w counting" where
  "tally f c = c\<lparr>counters := f (counters c)\<rparr>"

definition accumulate :: "u32 \<Rightarrow> 'w counting \<Rightarrow> 'w counting" where
  "accumulate us = tally (\<lambda>k. k\<lparr>ctSimLatencyUs := ctSimLatencyUs k + ucast us\<rparr>)"

text \<open>A call of the wrapped file system.\<close>

definition onInner :: "('w \<Rightarrow> 'a \<times> 'w) \<Rightarrow> 'w counting \<Rightarrow> 'a \<times> 'w counting" where
  "onInner f c = (let (r, w) = f (inner c) in (r, c\<lparr>inner := w\<rparr>))"

definition countedMount :: "'w fs_ops \<Rightarrow> string \<Rightarrow> 'w counting \<Rightarrow> status \<times> 'w counting" where
  "countedMount F base c = onInner (fs_mount F base) (tally (\<lambda>k. k\<lparr>ctMount := ctMount k + 1\<rparr>) c)"

definition countedReadFile ::
  "'w fs_ops \<Rightarrow> string \<Rightarrow> 'w counting \<Rightarrow> (status \<times> bytes) \<times> 'w counting" where
  "countedReadFile F name c =
     (let ((st, out), c) = onInner (fs_readFile F name) (tally (\<lambda>k. k\<lparr>ctReadFile := ctReadFile k + 1\<rparr>) c);
          c = (if ok st then tally (\<lambda>k. k\<lparr>ctBytesRead := ctBytesRead k + word_of_nat (length out)\<rparr>) c else c)
      in ((st, out), accumulate (readFileUs (latency c)) c))"

definition countedWriteFile ::
  "'w fs_ops \<Rightarrow> string \<Rightarrow> bytes \<Rightarrow> 'w counting \<Rightarrow> status \<times> 'w counting" where
  "countedWriteFile F name d c =
     (let c = tally (\<lambda>k. k\<lparr>ctWriteFile := ctWriteFile k + 1,
                        ctBytesWritten := ctBytesWritten k + word_of_nat (length d)\<rparr>) c;
          (st, c) = onInner (fs_writeFile F name d) c
      in (st, accumulate (writeFileFixedUs (latency c)
                + word_of_nat (length d div 1024 + 1) * writeFilePerKbUs (latency c)) c))"

definition countedReadAt ::
  "'w fs_ops \<Rightarrow> string \<Rightarrow> u64 \<Rightarrow> nat \<Rightarrow> 'w counting \<Rightarrow> (status \<times> bytes) \<times> 'w counting" where
  "countedReadAt F name off n c =
     (let ((st, out), c) = onInner (fs_readAt F name off n) (tally (\<lambda>k. k\<lparr>ctReadAt := ctReadAt k + 1\<rparr>) c);
          c = (if ok st then tally (\<lambda>k. k\<lparr>ctBytesRead := ctBytesRead k + word_of_nat (length out)\<rparr>) c else c)
      in ((st, out), accumulate (readAtUs (latency c)) c))"

definition countedWriteAt ::
  "'w fs_ops \<Rightarrow> string \<Rightarrow> u64 \<Rightarrow> bytes \<Rightarrow> 'w counting \<Rightarrow> status \<times> 'w counting" where
  "countedWriteAt F name off d c =
     (let c = tally (\<lambda>k. k\<lparr>ctWriteAt := ctWriteAt k + 1,
                        ctBytesWritten := ctBytesWritten k + word_of_nat (length d)\<rparr>) c;
          (st, c) = onInner (fs_writeAt F name off d) c
      in (st, accumulate (writeAtUs (latency c)) c))"

definition countedResizeFile :: "'w fs_ops \<Rightarrow> string \<Rightarrow> u64 \<Rightarrow> 'w counting \<Rightarrow> status \<times> 'w counting" where
  "countedResizeFile F name sz c =
     onInner (fs_resizeFile F name sz)
       (tally (\<lambda>k. k\<lparr>ctResizeFile := ctResizeFile k + 1, ctBytesWritten := ctBytesWritten k + sz\<rparr>) c)"

definition countedFileSize :: "'w fs_ops \<Rightarrow> string \<Rightarrow> 'w counting \<Rightarrow> (status \<times> u64) \<times> 'w counting" where
  "countedFileSize F name c =
     onInner (fs_fileSize F name) (tally (\<lambda>k. k\<lparr>ctFileSize := ctFileSize k + 1\<rparr>) c)"

definition countedRemoveFile :: "'w fs_ops \<Rightarrow> string \<Rightarrow> 'w counting \<Rightarrow> status \<times> 'w counting" where
  "countedRemoveFile F name c =
     (let (st, c) = onInner (fs_removeFile F name) (tally (\<lambda>k. k\<lparr>ctRemoveFile := ctRemoveFile k + 1\<rparr>) c)
      in (st, accumulate (removeFileUs (latency c)) c))"

definition countedListFiles :: "'w fs_ops \<Rightarrow> 'w counting \<Rightarrow> (status \<times> string list) \<times> 'w counting" where
  "countedListFiles F c =
     (let ((st, out), c) = onInner (fs_listFiles F) (tally (\<lambda>k. k\<lparr>ctListFiles := ctListFiles k + 1\<rparr>) c)
      in ((st, out), accumulate (listFilesBaseUs (latency c)
            + word_of_nat (length out) * listFilesPerFileUs (latency c)) c))"

definition countedTryAcquire ::
  "'w fs_ops \<Rightarrow> string \<Rightarrow> bytes \<Rightarrow> 'w counting \<Rightarrow> status \<times> 'w counting" where
  "countedTryAcquire F name contents c =
     onInner (fs_tryAcquireLockFile F name contents)
       (tally (\<lambda>k. k\<lparr>ctLockAcquire := ctLockAcquire k + 1,
                   ctBytesWritten := ctBytesWritten k + word_of_nat (length contents),
                   ctLockBytesWritten := ctLockBytesWritten k + word_of_nat (length contents)\<rparr>) c)"

definition countedRelease ::
  "'w fs_ops \<Rightarrow> string \<Rightarrow> bytes \<Rightarrow> 'w counting \<Rightarrow> status \<times> 'w counting" where
  "countedRelease F name expected c =
     onInner (fs_releaseLockFile F name expected) (tally (\<lambda>k. k\<lparr>ctLockRelease := ctLockRelease k + 1\<rparr>) c)"

definition countedRecoverStale ::
  "'w fs_ops \<Rightarrow> string \<Rightarrow> bytes \<Rightarrow> 'w counting \<Rightarrow> status \<times> 'w counting" where
  "countedRecoverStale F name current c = onInner (fs_recoverStaleLockFile F name current) c"

definition countingFs :: "'w fs_ops \<Rightarrow> 'w counting fs_ops" where
  "countingFs F =
     \<lparr>fs_present = True, fs_mount = countedMount F, fs_readFile = countedReadFile F,
      fs_writeFile = countedWriteFile F, fs_readAt = countedReadAt F, fs_writeAt = countedWriteAt F,
      fs_resizeFile = countedResizeFile F, fs_fileSize = countedFileSize F,
      fs_removeFile = countedRemoveFile F, fs_listFiles = countedListFiles F,
      fs_tryAcquireLockFile = countedTryAcquire F, fs_releaseLockFile = countedRelease F,
      fs_recoverStaleLockFile = countedRecoverStale F, fs_freeBytes = (\<lambda>c. fs_freeBytes F (inner c))\<rparr>"

section \<open>The wrapper is transparent\<close>

lemma inner_tally [simp]: "inner (tally f c) = inner c" "inner (accumulate us c) = inner c"
  by (simp_all add: tally_def accumulate_def)

lemma onInner_inner: "map_prod id inner (onInner f c) = f (inner c)"
  by (simp add: onInner_def split: prod.split)

lemmas counted_defs = countedMount_def countedReadFile_def countedWriteFile_def countedReadAt_def
  countedWriteAt_def countedResizeFile_def countedFileSize_def countedRemoveFile_def
  countedListFiles_def countedTryAcquire_def countedRelease_def countedRecoverStale_def

lemma counted_inner:
  "map_prod id inner (countedMount F base c) = fs_mount F base (inner c)"
  "map_prod id inner (countedReadFile F name c) = fs_readFile F name (inner c)"
  "map_prod id inner (countedWriteFile F name d c) = fs_writeFile F name d (inner c)"
  "map_prod id inner (countedReadAt F name off n c) = fs_readAt F name off n (inner c)"
  "map_prod id inner (countedWriteAt F name off d c) = fs_writeAt F name off d (inner c)"
  "map_prod id inner (countedResizeFile F name sz c) = fs_resizeFile F name sz (inner c)"
  "map_prod id inner (countedFileSize F name c) = fs_fileSize F name (inner c)"
  "map_prod id inner (countedRemoveFile F name c) = fs_removeFile F name (inner c)"
  "map_prod id inner (countedListFiles F c) = fs_listFiles F (inner c)"
  "map_prod id inner (countedTryAcquire F name d c) = fs_tryAcquireLockFile F name d (inner c)"
  "map_prod id inner (countedRelease F name d c) = fs_releaseLockFile F name d (inner c)"
  "map_prod id inner (countedRecoverStale F name d c) = fs_recoverStaleLockFile F name d (inner c)"
  by (simp_all add: counted_defs onInner_def Let_def split: prod.split)

lemma counted_runs:
  "fs_mount (countingFs F) base c = (r_mount, c') \<Longrightarrow> fs_mount F base (inner c) = (r_mount, inner c')"
  "fs_readFile (countingFs F) name c = (r_readFile, c') \<Longrightarrow> fs_readFile F name (inner c) = (r_readFile, inner c')"
  "fs_writeFile (countingFs F) name d c = (r_writeFile, c') \<Longrightarrow> fs_writeFile F name d (inner c) = (r_writeFile, inner c')"
  "fs_readAt (countingFs F) name off n c = (r_readAt, c') \<Longrightarrow> fs_readAt F name off n (inner c) = (r_readAt, inner c')"
  "fs_writeAt (countingFs F) name off d c = (r_writeAt, c') \<Longrightarrow> fs_writeAt F name off d (inner c) = (r_writeAt, inner c')"
  "fs_resizeFile (countingFs F) name sz c = (r_resizeFile, c') \<Longrightarrow> fs_resizeFile F name sz (inner c) = (r_resizeFile, inner c')"
  "fs_fileSize (countingFs F) name c = (r_fileSize, c') \<Longrightarrow> fs_fileSize F name (inner c) = (r_fileSize, inner c')"
  "fs_removeFile (countingFs F) name c = (r_removeFile, c') \<Longrightarrow> fs_removeFile F name (inner c) = (r_removeFile, inner c')"
  "fs_listFiles (countingFs F) c = (r_listFiles, c') \<Longrightarrow> fs_listFiles F (inner c) = (r_listFiles, inner c')"
  "fs_tryAcquireLockFile (countingFs F) name d c = (r_tryAcquireLockFile, c') \<Longrightarrow> fs_tryAcquireLockFile F name d (inner c) = (r_tryAcquireLockFile, inner c')"
  "fs_releaseLockFile (countingFs F) name d c = (r_releaseLockFile, c') \<Longrightarrow> fs_releaseLockFile F name d (inner c) = (r_releaseLockFile, inner c')"
  "fs_recoverStaleLockFile (countingFs F) name d c = (r_recoverStaleLockFile, c') \<Longrightarrow> fs_recoverStaleLockFile F name d (inner c) = (r_recoverStaleLockFile, inner c')"
  by (auto simp: countingFs_def counted_defs onInner_def Let_def split: prod.splits if_splits)

context locking_file_system
begin

lemmas contract_laws =
  mount_view read_view readAt_view write_ok write_fail writeAt_ok writeAt_fail resize_ok size_view
  remove_ok remove_fail list_view mount_healthy read_healthy readAt_healthy write_healthy
  writeAt_healthy resize_healthy size_healthy remove_healthy list_healthy readable_read
  readable_size readable_write readable_writeAt readable_remove acquire_view acquire_code
  release_view recover_view acquire_readable release_readable recover_readable readable_readAt
  acquire_healthy release_healthy

text \<open>A counting file system keeps the whole contract.\<close>

lemma counting_keeps_contract:
  "locking_file_system (countingFs F) (\<lambda>c. view (inner c)) (\<lambda>c. healthy (inner c)) (\<lambda>c. readable (inner c))"
  by unfold_locales
    ((simp add: countingFs_def; fail) | (erule healthy_is_readable)
     | (drule counted_runs, (rule contract_laws; assumption)))+

end

interpretation counted: locking_file_system "countingFs posixFs" "\<lambda>c. posixView (inner c)"
  "\<lambda>c. posixHealthy (inner c)" "\<lambda>c. posixReadable (inner c)"
  by (rule posix.counting_keeps_contract)

text \<open>The counting file system is transparent: every operation over it gives the result of the same
  operation of the wrapped file system and leaves it in the same state.\<close>

theorem counting_transparent:
  "map_prod id inner (fs_mount (countingFs F) base c) = fs_mount F base (inner c)
   \<and> map_prod id inner (fs_readFile (countingFs F) name c) = fs_readFile F name (inner c)
   \<and> map_prod id inner (fs_writeFile (countingFs F) name d c) = fs_writeFile F name d (inner c)
   \<and> map_prod id inner (fs_readAt (countingFs F) name off n c) = fs_readAt F name off n (inner c)
   \<and> map_prod id inner (fs_writeAt (countingFs F) name off d c) = fs_writeAt F name off d (inner c)
   \<and> map_prod id inner (fs_resizeFile (countingFs F) name sz c) = fs_resizeFile F name sz (inner c)
   \<and> map_prod id inner (fs_fileSize (countingFs F) name c) = fs_fileSize F name (inner c)
   \<and> map_prod id inner (fs_removeFile (countingFs F) name c) = fs_removeFile F name (inner c)
   \<and> map_prod id inner (fs_listFiles (countingFs F) c) = fs_listFiles F (inner c)
   \<and> map_prod id inner (fs_tryAcquireLockFile (countingFs F) name d c) = fs_tryAcquireLockFile F name d (inner c)
   \<and> map_prod id inner (fs_releaseLockFile (countingFs F) name d c) = fs_releaseLockFile F name d (inner c)
   \<and> map_prod id inner (fs_recoverStaleLockFile (countingFs F) name d c)
       = fs_recoverStaleLockFile F name d (inner c)
   \<and> fs_freeBytes (countingFs F) c = fs_freeBytes F (inner c)"
  by (simp add: countingFs_def counted_inner)

section \<open>What an enqueue costs\<close>

text \<open>The calls an append makes, read off the counters: an enqueue whose event fits the active
  segment is one positioned write.\<close>

text \<open>An enqueue into an active segment with room costs exactly one positioned write of 24 bytes more
  than the record, whether it succeeds or not: no file is created, removed, read or resized, and no
  other byte is written.\<close>

theorem enqueue_io_cost:
  assumes "mounted s" and "recordSizeError cfg (length p) = None" and "sq \<noteq> 0xffffffff"
    and "admits (countingFs F) cfg (length p) s" and "activeSegmentBytes s \<noteq> 0"
    and "\<not> needsRotation cfg (kEnqueueOverheadBytes + word_of_nat (length p)) s"
  shows "\<exists>st s'. commitEnqueue (countingFs F) cfg sq p s = Some (st, s')
    \<and> counters (world s') = (counters (world s))\<lparr>ctWriteAt := ctWriteAt (counters (world s)) + 1,
        ctBytesWritten := ctBytesWritten (counters (world s)) + word_of_nat (24 + length p),
        ctSimLatencyUs := ctSimLatencyUs (counters (world s)) + ucast (writeAtUs (latency (world s)))\<rparr>"
proof -
  have "commitEnqueue (countingFs F) cfg sq p s = writeEnqueue (countingFs F) cfg sq p s"
    using assms(1-4) makeRoom_admits [OF assms(4)] by (simp add: commitEnqueue_def ensureMounted_def)
  moreover have "length (serializeEnqueueEvent sq p) = 24 + length p"
    by (simp add: serializeEnqueueEvent_bytes)
  moreover obtain st w where "fs_writeAt F (segmentName (activeGeneration s)) (ucast (activeSegmentBytes s))
      (serializeEnqueueEvent sq p) (inner (world s)) = (st, w)" by fastforce
  ultimately show ?thesis
    using assms(5,6)
    by (cases "ok st") (simp_all add: writeEnqueue_def rotateIfFull_def ensureActiveSegment_def
        appendEnqueueEventBytes_def onWorld_def countingFs_def countedWriteAt_def onInner_def tally_def
        accumulate_def storeDiagnostic_def Let_def)
qed

text \<open>A store over a counting file system, with an active segment.\<close>

definition countedStore :: "posix_world counting store" where
  "countedStore = (newStore \<lparr>inner = emptyWorld, counters = zero_counters,
      latency = \<lparr>readFileUs = 0, readAtUs = 0, writeFileFixedUs = 0, writeFilePerKbUs = 0, writeAtUs = 7,
        removeFileUs = 0, listFilesBaseUs = 0, listFilesPerFileUs = 0\<rparr>\<rparr>)
     \<lparr>mounted := True, activeGeneration := 1, activeSegmentBytes := 20\<rparr>"

theorem enqueue_io_cost_witness:
  "\<exists>st s'. commitEnqueue (countingFs posixFs) sampleConfig 0 [1, 2] countedStore = Some (st, s')
    \<and> counters (world s') = (counters (world countedStore))\<lparr>ctWriteAt := ctWriteAt (counters (world countedStore)) + 1,
        ctBytesWritten := ctBytesWritten (counters (world countedStore)) + word_of_nat (24 + length [1 :: u8, 2]),
        ctSimLatencyUs := ctSimLatencyUs (counters (world countedStore))
          + ucast (writeAtUs (latency (world countedStore)))\<rparr>"
  by (rule enqueue_io_cost)
    (simp_all add: sampleConfig_ok countedStore_def newStore_def admits_def sampleConfig_def
      default_append_log_config_def needsRotation_def recordSizeError_def kSegmentHeaderBytes_def
      kEnqueueOverheadBytes_def kEnqueueHeaderBytes_def kEventTrailerBytes_def)

section \<open>Files in memory\<close>

record memory_world =
  mwTotalBytes :: u64
  mwFiles :: "(string \<times> bytes) list"
  mwLocks :: "(string \<times> bytes) list"

definition newMemoryFileSystem :: "u64 \<Rightarrow> memory_world" where
  "newMemoryFileSystem totalBytes =
     \<lparr>mwTotalBytes = (if totalBytes = 0 then push_bit 32 1 else totalBytes), mwFiles = [], mwLocks = []\<rparr>"

definition memFile :: "string \<Rightarrow> memory_world \<Rightarrow> bytes option" where
  "memFile name w = map_of (mwFiles w) name"

definition memPut :: "string \<Rightarrow> bytes \<Rightarrow> memory_world \<Rightarrow> memory_world" where
  "memPut name d w = w\<lparr>mwFiles := AList.update name d (mwFiles w)\<rparr>"

definition memMissing :: status where "memMissing = failure ReadFailed ''file not found''"

definition memMount :: "string \<Rightarrow> memory_world \<Rightarrow> status \<times> memory_world" where
  "memMount base w = (success, w\<lparr>mwFiles := []\<rparr>)"

definition memReadFile :: "string \<Rightarrow> memory_world \<Rightarrow> (status \<times> bytes) \<times> memory_world" where
  "memReadFile name w =
     ((case memFile name w of None \<Rightarrow> (memMissing, []) | Some d \<Rightarrow> (success, d)), w)"

definition memWriteFile :: "string \<Rightarrow> bytes \<Rightarrow> memory_world \<Rightarrow> status \<times> memory_world" where
  "memWriteFile name d w = (success, memPut name d w)"

text \<open>The sum of offset and size is taken without wrap-around, here and in \<open>memWriteAt\<close>: where it
  wraps, the code uses iterators past the end of the buffer.\<close>

definition memReadAt :: "string \<Rightarrow> u64 \<Rightarrow> nat \<Rightarrow> memory_world \<Rightarrow> (status \<times> bytes) \<times> memory_world" where
  "memReadAt name off n w =
     ((case memFile name w of
         None \<Rightarrow> (memMissing, [])
       | Some buf \<Rightarrow>
           if unat off + n > length buf then (failure ReadFailed ''read out of range'', [])
           else (success, take n (drop (unat off) buf))), w)"

definition memWriteAt :: "string \<Rightarrow> u64 \<Rightarrow> bytes \<Rightarrow> memory_world \<Rightarrow> status \<times> memory_world" where
  "memWriteAt name off d w =
     (case memFile name w of
        None \<Rightarrow> (failure WriteFailed ''file not found for writeAt'', w)
      | Some buf \<Rightarrow>
          let end1 = unat off + length d;
              buf = (if end1 > length buf then buf @ replicate (end1 - length buf) 0 else buf)
          in (success, memPut name (take (unat off) buf @ d @ drop end1 buf) w))"

definition memResizeFile :: "string \<Rightarrow> u64 \<Rightarrow> memory_world \<Rightarrow> status \<times> memory_world" where
  "memResizeFile name sz w =
     (let buf = (case memFile name w of None \<Rightarrow> [] | Some buf \<Rightarrow> buf)
      in (success, memPut name (take (unat sz) buf @ replicate (unat sz - length buf) 0) w))"

definition memFileSize :: "string \<Rightarrow> memory_world \<Rightarrow> (status \<times> u64) \<times> memory_world" where
  "memFileSize name w =
     ((case memFile name w of None \<Rightarrow> (memMissing, 0) | Some buf \<Rightarrow> (success, word_of_nat (length buf))), w)"

definition memRemoveFile :: "string \<Rightarrow> memory_world \<Rightarrow> status \<times> memory_world" where
  "memRemoveFile name w = (success, w\<lparr>mwFiles := AList.delete name (mwFiles w)\<rparr>)"

definition memListFiles :: "memory_world \<Rightarrow> (status \<times> string list) \<times> memory_world" where
  "memListFiles w = ((success, sort (map fst (mwFiles w))), w)"

definition memTryAcquire :: "string \<Rightarrow> bytes \<Rightarrow> memory_world \<Rightarrow> status \<times> memory_world" where
  "memTryAcquire name contents w =
     (if map_of (mwLocks w) name \<noteq> None then (failure LockTimeout ''lock already held'', w)
      else (success, w\<lparr>mwLocks := AList.update name contents (mwLocks w)\<rparr>))"

definition memRelease :: "string \<Rightarrow> bytes \<Rightarrow> memory_world \<Rightarrow> status \<times> memory_world" where
  "memRelease name expected w =
     (if map_of (mwLocks w) name \<noteq> Some expected
      then (failure LockTimeout ''lock not held or contents mismatch'', w)
      else (success, w\<lparr>mwLocks := AList.delete name (mwLocks w)\<rparr>))"

definition memRecoverStale :: "string \<Rightarrow> bytes \<Rightarrow> memory_world \<Rightarrow> status \<times> memory_world" where
  "memRecoverStale name current w =
     (if map_of (mwLocks w) name = None then (noOp, w)
      else (success, w\<lparr>mwLocks := AList.delete name (mwLocks w)\<rparr>))"

definition memFreeBytes :: "memory_world \<Rightarrow> u64" where
  "memFreeBytes w =
     (let used = foldl (\<lambda>n kv. n + word_of_nat (length (snd kv))) 0 (mwFiles w)
      in if mwTotalBytes w > used then mwTotalBytes w - used else 0)"

definition memoryFs :: "memory_world fs_ops" where
  "memoryFs =
     \<lparr>fs_present = True, fs_mount = memMount, fs_readFile = memReadFile, fs_writeFile = memWriteFile,
      fs_readAt = memReadAt, fs_writeAt = memWriteAt, fs_resizeFile = memResizeFile,
      fs_fileSize = memFileSize, fs_removeFile = memRemoveFile, fs_listFiles = memListFiles,
      fs_tryAcquireLockFile = memTryAcquire, fs_releaseLockFile = memRelease,
      fs_recoverStaleLockFile = memRecoverStale, fs_freeBytes = memFreeBytes\<rparr>"

text \<open>A mount throws the files away, so a new store object always starts with an empty queue.\<close>

lemmas memory_ops = memoryFs_def memMount_def memReadFile_def memFileSize_def memListFiles_def
  memRemoveFile_def memFile_def memMissing_def

text \<open>A store mounted on the memory file system is empty, whatever the file system held before: it
  succeeds, indexes no record, finds no segment and leaves no file.\<close>

theorem memory_mount_forgets:
  "\<exists>s'. mountStore memoryFs cfg (newStore w) = Some (success, s')
    \<and> records s' = [] \<and> manifestRanges s' = [] \<and> activeGenerations s' = [] \<and> mwFiles (world s') = []"
  by (simp add: mountStore_def scanSegments_def loadManifest_def memory_ops newStore_def onWorld_def
      segmentGenerations_def resetForScan_def slotExists_def tryRead_def readManifest_def applyManifestToRam_def
      totalSlot_def cleanupOneDanglingSegment_def Let_def)

end
