(* ===== verification/LittleFs_File_System.thy ===== *)
theory LittleFs_File_System
  imports Mount_Correct
begin

text \<open>
  The file system of the device (\<open>storage_littlefs.cpp\<close>): a directory of the LittleFS library of the
  ESP32 core, with FreeRTOS mutexes instead of lock files (the branch for \<open>ESP32\<close>).

  The library is a parameter: \<open>lfs_lib\<close> has the calls the code makes on the object \<open>LittleFS\<close>, on
  \<open>File\<close> objects, of type \<open>'h\<close>, and on semaphores, which are numbers.  A \<open>File\<close> that tests as false
  is \<open>None\<close>.  \<open>littlefs\<close> is the \<open>LittleFsFileSystem\<close> object together with the library and the two
  static variables of the file.  The loops that ask the library whether there is more (bytes of a
  file, entries of a directory) return an option.
\<close>

section \<open>The library\<close>

record ('h, 'l) lfs_lib =
  lf_begin :: "bool \<Rightarrow> 'l \<Rightarrow> bool \<times> 'l"
  lf_mkdir :: "string \<Rightarrow> 'l \<Rightarrow> bool \<times> 'l"
  lf_open :: "string \<Rightarrow> string \<Rightarrow> 'l \<Rightarrow> 'h option \<times> 'l"
  lf_remove :: "string \<Rightarrow> 'l \<Rightarrow> bool \<times> 'l"
  lf_totalBytes :: "'l \<Rightarrow> u32"
  lf_usedBytes :: "'l \<Rightarrow> u32"
  fl_isDirectory :: "'h \<Rightarrow> 'l \<Rightarrow> bool"
  fl_openNextFile :: "'h \<Rightarrow> 'l \<Rightarrow> 'h option \<times> 'l"
  fl_name :: "'h \<Rightarrow> 'l \<Rightarrow> string option"
  fl_available :: "'h \<Rightarrow> 'l \<Rightarrow> bool \<times> 'l"
  fl_read :: "'h \<Rightarrow> nat \<Rightarrow> 'l \<Rightarrow> bytes \<times> 'l"
  fl_write :: "'h \<Rightarrow> bytes \<Rightarrow> 'l \<Rightarrow> nat \<times> 'l"
  fl_seek :: "'h \<Rightarrow> u32 \<Rightarrow> 'l \<Rightarrow> bool \<times> 'l"
  fl_size :: "'h \<Rightarrow> 'l \<Rightarrow> u32"
  fl_flush :: "'h \<Rightarrow> 'l \<Rightarrow> 'l"
  fl_close :: "'h \<Rightarrow> 'l \<Rightarrow> 'l"
  sm_create :: "'l \<Rightarrow> nat option \<times> 'l"
  sm_take :: "nat \<Rightarrow> bool \<Rightarrow> 'l \<Rightarrow> bool \<times> 'l"
  sm_give :: "nat \<Rightarrow> 'l \<Rightarrow> 'l"

section \<open>The object\<close>

text \<open>\<open>lockAcquired\<close> and \<open>lockMutex\<close> are the members of \<open>LittleFsMutexLock\<close>.\<close>

record littlefs_lock =
  lockBasePath :: string
  lockAcquired :: bool
  lockMutex :: "nat option"

record 'l littlefs =
  lfLib :: 'l
  lfMutexes :: "(string \<times> nat option) list"
  lfRegistryLock :: "nat option option"
  lfBasePath :: string
  lfLock :: "littlefs_lock option"

text \<open>\<open>makeLittleFsFileSystem\<close> replaces the object; the library and the static variables stay.\<close>

definition newLittleFs :: "'l littlefs \<Rightarrow> 'l littlefs" where
  "newLittleFs w = w\<lparr>lfBasePath := ''/pqueue_spool'', lfLock := None\<rparr>"

definition onLfs :: "('l \<Rightarrow> 'a \<times> 'l) \<Rightarrow> 'l littlefs \<Rightarrow> 'a \<times> 'l littlefs" where
  "onLfs f w = (let (r, l) = f (lfLib w) in (r, w\<lparr>lfLib := l\<rparr>))"

definition atLfs :: "('l \<Rightarrow> 'l) \<Rightarrow> 'l littlefs \<Rightarrow> 'l littlefs" where
  "atLfs f w = w\<lparr>lfLib := f (lfLib w)\<rparr>"

section \<open>Paths\<close>

text \<open>The loop over the slashes at the end.\<close>

fun dropSlashes :: "string \<Rightarrow> string" where
  "dropSlashes out = (if length out > 1 \<and> last out = CHR ''/'' then dropSlashes (butlast out) else out)"

declare dropSlashes.simps [simp del]

definition normalizeBasePath :: "string \<Rightarrow> string" where
  "normalizeBasePath base =
     (if base = [] \<or> base = ''/'' then ''/''
      else dropSlashes (if hd base = CHR ''/'' then base else ''/'' @ base))"

definition joinPath :: "string \<Rightarrow> string \<Rightarrow> string" where
  "joinPath base name = (if base = ''/'' then ''/'' @ name else base @ ''/'' @ name)"

text \<open>What follows the last slash.\<close>

definition baseName :: "string option \<Rightarrow> string" where
  "baseName path =
     (case path of None \<Rightarrow> [] | Some p \<Rightarrow> rev (takeWhile (\<lambda>c. c \<noteq> CHR ''/'') (rev p)))"

section \<open>The mutexes\<close>

definition registryLock :: "('h, 'l) lfs_lib \<Rightarrow> 'l littlefs \<Rightarrow> nat option \<times> 'l littlefs" where
  "registryLock L w =
     (case lfRegistryLock w of
        Some m \<Rightarrow> (m, w)
      | None \<Rightarrow> let (m, w) = onLfs (sm_create L) w in (m, w\<lparr>lfRegistryLock := Some m\<rparr>))"

definition mutexForKey :: "('h, 'l) lfs_lib \<Rightarrow> string \<Rightarrow> 'l littlefs \<Rightarrow> nat option \<times> 'l littlefs" where
  "mutexForKey L key w =
     (let (reg, w) = registryLock L w in
      case reg of
        None \<Rightarrow> (None, w)
      | Some r \<Rightarrow>
          let (taken, w) = onLfs (sm_take L r True) w in
          if \<not> taken then (None, w)
          else case map_of (lfMutexes w) key of
            Some m \<Rightarrow> (m, atLfs (sm_give L r) w)
          | None \<Rightarrow>
              let (m, w) = onLfs (sm_create L) w;
                  w = (if m \<noteq> None then w\<lparr>lfMutexes := lfMutexes w @ [(key, m)]\<rparr> else w)
              in (m, atLfs (sm_give L r) w))"

definition mutexAcquire ::
  "('h, 'l) lfs_lib \<Rightarrow> littlefs_lock \<Rightarrow> string \<Rightarrow> 'l littlefs \<Rightarrow> status \<times> 'l littlefs" where
  "mutexAcquire L lk name w =
     (let (m, w) = mutexForKey L (joinPath (lockBasePath lk) name) w in
      case m of
        None \<Rightarrow> (failure LockTimeout ''failed to create LittleFS queue mutex'', w)
      | Some m \<Rightarrow>
          let (taken, w) = onLfs (sm_take L m False) w in
          if \<not> taken then (failure LockTimeout ''LittleFS queue mutex is busy'', w)
          else (success, w\<lparr>lfLock := Some (lk\<lparr>lockAcquired := True, lockMutex := Some m\<rparr>)\<rparr>))"

definition mutexRelease :: "('h, 'l) lfs_lib \<Rightarrow> littlefs_lock \<Rightarrow> 'l littlefs \<Rightarrow> status \<times> 'l littlefs" where
  "mutexRelease L lk w =
     (if \<not> lockAcquired lk then (success, w)
      else
        let w = (case lockMutex lk of None \<Rightarrow> w | Some m \<Rightarrow> atLfs (sm_give L m) w)
        in (success, w\<lparr>lfLock := Some (lk\<lparr>lockAcquired := False, lockMutex := None\<rparr>)\<rparr>))"

definition lockNotMounted :: status where
  "lockNotMounted = failure BackendUnavailable ''LittleFS lock backend is not mounted''"

definition lfTryAcquire ::
  "('h, 'l) lfs_lib \<Rightarrow> string \<Rightarrow> bytes \<Rightarrow> 'l littlefs \<Rightarrow> status \<times> 'l littlefs" where
  "lfTryAcquire L name contents w =
     (case lfLock w of None \<Rightarrow> (lockNotMounted, w) | Some lk \<Rightarrow> mutexAcquire L lk name w)"

definition lfRelease ::
  "('h, 'l) lfs_lib \<Rightarrow> string \<Rightarrow> bytes \<Rightarrow> 'l littlefs \<Rightarrow> status \<times> 'l littlefs" where
  "lfRelease L name expected w =
     (case lfLock w of None \<Rightarrow> (lockNotMounted, w) | Some lk \<Rightarrow> mutexRelease L lk w)"

definition lfRecoverStale :: "string \<Rightarrow> bytes \<Rightarrow> 'l littlefs \<Rightarrow> status \<times> 'l littlefs" where
  "lfRecoverStale name current w =
     (case lfLock w of None \<Rightarrow> (lockNotMounted, w) | Some lk \<Rightarrow> (noOp, w))"

section \<open>Mounting and directories\<close>

definition ensureDirectory :: "('h, 'l) lfs_lib \<Rightarrow> string \<Rightarrow> 'l littlefs \<Rightarrow> status \<times> 'l littlefs" where
  "ensureDirectory L path w =
     (if path = ''/'' then (success, w)
      else
        let (made, w) = onLfs (lf_mkdir L path) w in
        if made then (success, w)
        else
          let (dir, w) = onLfs (lf_open L path ''r'') w;
              failed = failure MountFailed ''failed to create LittleFS directory''
          in case dir of
               None \<Rightarrow> (failed, w)
             | Some d \<Rightarrow>
                 if fl_isDirectory L d (lfLib w) then (success, atLfs (fl_close L d) w)
                 else (failed, atLfs (fl_close L d) w))"

definition lfMount :: "('h, 'l) lfs_lib \<Rightarrow> string \<Rightarrow> 'l littlefs \<Rightarrow> status \<times> 'l littlefs" where
  "lfMount L base w =
     (let w = w\<lparr>lfBasePath := normalizeBasePath base\<rparr>;
          w = (if lfLock w = None
               then w\<lparr>lfLock := Some \<lparr>lockBasePath = lfBasePath w, lockAcquired = False, lockMutex = None\<rparr>\<rparr>
               else w);
          (begun, w) = onLfs (lf_begin L False) w
      in if \<not> begun then (failure MountFailed ''failed to mount LittleFS'', w)
         else ensureDirectory L (lfBasePath w) w)"

definition lfPath :: "string \<Rightarrow> 'l littlefs \<Rightarrow> string" where
  "lfPath name w = joinPath (lfBasePath w) name"

text \<open>\<open>fileExistsQuiet\<close>: an open directory is searched for the name.\<close>

partial_function (option) findEntry ::
  "('h, 'l) lfs_lib \<Rightarrow> 'h \<Rightarrow> string \<Rightarrow> 'l littlefs \<Rightarrow> (bool \<times> 'l littlefs) option" where
  "findEntry L dir name w =
     (let (file, w) = onLfs (fl_openNextFile L dir) w in
      case file of
        None \<Rightarrow> Some (False, atLfs (fl_close L dir) w)
      | Some f \<Rightarrow>
          let matches = (baseName (fl_name L f (lfLib w)) = name);
              w = atLfs (fl_close L f) w
          in if matches then Some (True, atLfs (fl_close L dir) w) else findEntry L dir name w)"

declare findEntry.simps [code]

definition fileExistsQuiet ::
  "('h, 'l) lfs_lib \<Rightarrow> string \<Rightarrow> 'l littlefs \<Rightarrow> (bool \<times> 'l littlefs) option" where
  "fileExistsQuiet L name w =
     (let (dir, w) = onLfs (lf_open L (lfBasePath w) ''r'') w in
      case dir of
        None \<Rightarrow> Some (False, w)
      | Some d \<Rightarrow>
          if \<not> fl_isDirectory L d (lfLib w) then Some (False, atLfs (fl_close L d) w)
          else findEntry L d name w)"

partial_function (option) listEntries ::
  "('h, 'l) lfs_lib \<Rightarrow> 'h \<Rightarrow> string list \<Rightarrow> 'l littlefs \<Rightarrow> (string list \<times> 'l littlefs) option" where
  "listEntries L dir out w =
     (let (file, w) = onLfs (fl_openNextFile L dir) w in
      case file of
        None \<Rightarrow> Some (out, atLfs (fl_close L dir) w)
      | Some f \<Rightarrow>
          let out = (if \<not> fl_isDirectory L f (lfLib w) then out @ [baseName (fl_name L f (lfLib w))] else out)
          in listEntries L dir out (atLfs (fl_close L f) w))"

declare listEntries.simps [code]

text \<open>\<open>open\<close> without a mode opens for reading.\<close>

definition lfListFiles ::
  "('h, 'l) lfs_lib \<Rightarrow> 'l littlefs \<Rightarrow> ((status \<times> string list) \<times> 'l littlefs) option" where
  "lfListFiles L w =
     (let (dir, w) = onLfs (lf_open L (lfBasePath w) ''r'') w;
          failed = failure ListFailed ''failed to open LittleFS directory''
      in case dir of
           None \<Rightarrow> Some ((failed, []), w)
         | Some d \<Rightarrow>
             if \<not> fl_isDirectory L d (lfLib w) then Some ((failed, []), atLfs (fl_close L d) w)
             else do { (out, w) \<leftarrow> listEntries L d [] w; Some ((success, out), w) })"

section \<open>Files\<close>

text \<open>The reading loop of \<open>readFile\<close>: \<open>None\<close> in the result is the read that returned nothing.\<close>

partial_function (option) readChunks ::
  "('h, 'l) lfs_lib \<Rightarrow> 'h \<Rightarrow> bytes \<Rightarrow> 'l littlefs \<Rightarrow> ((bool \<times> bytes) \<times> 'l littlefs) option" where
  "readChunks L f out w =
     (let (more, w) = onLfs (fl_available L f) w in
      if \<not> more then Some ((True, out), w)
      else
        let (chunk, w) = onLfs (fl_read L f 128) w in
        if chunk = [] then Some ((False, out), w) else readChunks L f (out @ chunk) w)"

declare readChunks.simps [code]

definition openForRead :: status where
  "openForRead = failure ReadFailed ''failed to open LittleFS file for read''"

definition lfReadFile ::
  "('h, 'l) lfs_lib \<Rightarrow> string \<Rightarrow> 'l littlefs \<Rightarrow> ((status \<times> bytes) \<times> 'l littlefs) option" where
  "lfReadFile L name w =
     do {
       (exists, w) \<leftarrow> fileExistsQuiet L name w;
       if \<not> exists then Some ((openForRead, []), w)
       else
         let (file, w) = onLfs (lf_open L (lfPath name w) ''r'') w in
         case file of
           None \<Rightarrow> Some ((openForRead, []), w)
         | Some f \<Rightarrow> do {
             ((complete, out), w) \<leftarrow> readChunks L f [] w;
             let w = atLfs (fl_close L f) w;
             if complete then Some ((success, out), w)
             else Some ((failure ReadFailed ''failed to read LittleFS file'', out), w)
           }
     }"

definition lfWriteFile ::
  "('h, 'l) lfs_lib \<Rightarrow> string \<Rightarrow> bytes \<Rightarrow> 'l littlefs \<Rightarrow> status \<times> 'l littlefs" where
  "lfWriteFile L name d w =
     (let (file, w) = onLfs (lf_open L (lfPath name w) ''w'') w in
      case file of
        None \<Rightarrow> (failure WriteFailed ''failed to open LittleFS file for write'', w)
      | Some f \<Rightarrow>
          let (n, w) = onLfs (fl_write L f d) w;
              w = atLfs (fl_close L f) (atLfs (fl_flush L f) w)
          in if n \<noteq> length d
             then (failure WriteFailed ''failed to write complete LittleFS file'',
                   snd (onLfs (lf_remove L (lfPath name w)) w))
             else (success, w))"

text \<open>The buffer of \<open>readAt\<close> is filled with zeros before the read.\<close>

definition lfReadAt ::
  "('h, 'l) lfs_lib \<Rightarrow> string \<Rightarrow> u64 \<Rightarrow> nat \<Rightarrow> 'l littlefs \<Rightarrow> (status \<times> bytes) \<times> 'l littlefs" where
  "lfReadAt L name offset sz w =
     (let (file, w) = onLfs (lf_open L (lfPath name w) ''r'') w in
      case file of
        None \<Rightarrow> ((failure ReadFailed ''failed to open LittleFS file for positioned read'', []), w)
      | Some f \<Rightarrow>
          let (sought, w) = onLfs (fl_seek L f (ucast offset)) w in
          if \<not> sought
          then ((failure ReadFailed ''failed to seek LittleFS file for read'', []), atLfs (fl_close L f) w)
          else
            let (d, w) = onLfs (fl_read L f sz) w;
                w = atLfs (fl_close L f) w
            in if length d \<noteq> sz
               then ((failure ReadFailed ''failed to read complete LittleFS range'',
                      d @ replicate (sz - length d) 0), w)
               else ((success, d), w))"

definition lfWriteAt ::
  "('h, 'l) lfs_lib \<Rightarrow> string \<Rightarrow> u64 \<Rightarrow> bytes \<Rightarrow> 'l littlefs \<Rightarrow> status \<times> 'l littlefs" where
  "lfWriteAt L name offset d w =
     (let (file, w) = onLfs (lf_open L (lfPath name w) ''r+'') w in
      case file of
        None \<Rightarrow> (failure WriteFailed ''failed to open LittleFS file for positioned write'', w)
      | Some f \<Rightarrow>
          let (sought, w) = onLfs (fl_seek L f (ucast offset)) w in
          if \<not> sought
          then (failure WriteFailed ''failed to seek LittleFS file for write'', atLfs (fl_close L f) w)
          else
            let (n, w) = onLfs (fl_write L f d) w;
                w = atLfs (fl_close L f) (atLfs (fl_flush L f) w)
            in if n \<noteq> length d
               then (failure WriteFailed ''failed to write complete LittleFS range'', w)
               else (success, w))"

text \<open>The loop that writes zeros from \<open>written\<close> up to the size; whether every write was complete.\<close>

function writeZeros ::
  "('h, 'l) lfs_lib \<Rightarrow> 'h \<Rightarrow> nat \<Rightarrow> nat \<Rightarrow> 'l littlefs \<Rightarrow> bool \<times> 'l littlefs" where
  "writeZeros L f written sz w =
     (if written < sz then
        let chunk = min 128 (sz - written);
            (n, w) = onLfs (fl_write L f (replicate chunk 0)) w
        in if n \<noteq> chunk then (False, w) else writeZeros L f (written + chunk) sz w
      else (True, w))"
  by pat_completeness auto

termination
  by (relation "measure (\<lambda>(L, f, written, sz, w). sz - written)") (auto simp: min_def)

declare writeZeros.simps [simp del]

text \<open>\<open>resizeFile\<close>: an open file of the size \<open>current\<close> is made \<open>sz\<close> bytes long.  A file that is too long
  is removed and created again; its handle is \<open>Inr\<close>, or \<open>Inl\<close> the failure.\<close>

definition resizeStart ::
  "('h, 'l) lfs_lib \<Rightarrow> string \<Rightarrow> 'h \<Rightarrow> u64 \<Rightarrow> u64 \<Rightarrow> 'l littlefs \<Rightarrow> (status + 'h) \<times> 'l littlefs" where
  "resizeStart L fullPath f current sz w =
     (if current > sz then
        let w = atLfs (fl_close L f) w;
            (_, w) = onLfs (lf_remove L fullPath) w;
            (file, w) = onLfs (lf_open L fullPath ''w'') w
        in (case file of
              None \<Rightarrow> Inl (failure WriteFailed ''failed to recreate LittleFS file for resize'')
            | Some f \<Rightarrow> Inr f, w)
      else if current < sz then
        let (sought, w) = onLfs (fl_seek L f (ucast current)) w in
        if \<not> sought
        then (Inl (failure WriteFailed ''failed to seek LittleFS file for resize''), atLfs (fl_close L f) w)
        else (Inr f, w)
      else (Inr f, w))"

definition lfResizeFile ::
  "('h, 'l) lfs_lib \<Rightarrow> string \<Rightarrow> u64 \<Rightarrow> 'l littlefs \<Rightarrow> (status \<times> 'l littlefs) option" where
  "lfResizeFile L name sz w =
     do {
       (exists, w) \<leftarrow> fileExistsQuiet L name w;
       let fullPath = lfPath name w;
       let (file, w) = onLfs (lf_open L fullPath (if exists then ''r+'' else ''w'')) w;
       case file of
         None \<Rightarrow> Some (failure WriteFailed ''failed to open LittleFS file for resize'', w)
       | Some f \<Rightarrow>
           let current = (ucast (fl_size L f (lfLib w)) :: u64);
               (started, w) = resizeStart L fullPath f current sz w
           in case started of
                Inl st \<Rightarrow> Some (st, w)
              | Inr f \<Rightarrow>
                  let (complete, w) = writeZeros L f (if current > sz then 0 else unat current) (unat sz) w in
                  if \<not> complete
                  then Some (failure WriteFailed ''failed to size LittleFS file'', atLfs (fl_close L f) w)
                  else Some (success, atLfs (fl_close L f) (atLfs (fl_flush L f) w))
     }"

definition lfFileSize ::
  "('h, 'l) lfs_lib \<Rightarrow> string \<Rightarrow> 'l littlefs \<Rightarrow> (status \<times> u64) \<times> 'l littlefs" where
  "lfFileSize L name w =
     (let (file, w) = onLfs (lf_open L (lfPath name w) ''r'') w in
      case file of
        None \<Rightarrow> ((failure ReadFailed ''failed to stat LittleFS file'', 0), w)
      | Some f \<Rightarrow> ((success, ucast (fl_size L f (lfLib w))), atLfs (fl_close L f) w))"

definition lfRemoveFile :: "('h, 'l) lfs_lib \<Rightarrow> string \<Rightarrow> 'l littlefs \<Rightarrow> status \<times> 'l littlefs" where
  "lfRemoveFile L name w =
     (let (removed, w) = onLfs (lf_remove L (lfPath name w)) w
      in (if removed then success else failure RemoveFailed ''failed to remove LittleFS file'', w))"

definition lfFreeBytes :: "('h, 'l) lfs_lib \<Rightarrow> 'l littlefs \<Rightarrow> u64" where
  "lfFreeBytes L w =
     (let totl = lf_totalBytes L (lfLib w); used = lf_usedBytes L (lfLib w)
      in if used \<le> totl then ucast (totl - used) else 0)"

text \<open>The class.  \<open>the\<close> is applied to the loops over the library; on a library that keeps its contract
  they return.\<close>

definition littleFs :: "('h, 'l) lfs_lib \<Rightarrow> 'l littlefs fs_ops" where
  "littleFs L =
     \<lparr>fs_present = True, fs_mount = lfMount L, fs_readFile = (\<lambda>name w. the (lfReadFile L name w)),
      fs_writeFile = lfWriteFile L, fs_readAt = lfReadAt L, fs_writeAt = lfWriteAt L,
      fs_resizeFile = (\<lambda>name sz w. the (lfResizeFile L name sz w)), fs_fileSize = lfFileSize L,
      fs_removeFile = lfRemoveFile L, fs_listFiles = (\<lambda>w. the (lfListFiles L w)),
      fs_tryAcquireLockFile = lfTryAcquire L, fs_releaseLockFile = lfRelease L,
      fs_recoverStaleLockFile = lfRecoverStale, fs_freeBytes = lfFreeBytes L\<rparr>"

end
