(* ===== verification/LittleFs_Correct.thy ===== *)
theory LittleFs_Correct
  imports LittleFs_File_System
begin

text \<open>
  What the file system of the device promises on a library that keeps its own contract: every
  operation acts on the directory as on a map from names to contents, except that \<open>resizeFile\<close> to a
  smaller size leaves zeros instead of the beginning of the file.

  The locale \<open>arduino_library\<close> states the contract of the library for a flash without errors.  \<open>files\<close>
  gives the contents of the one directory \<open>dir\<close>, \<open>cursor\<close> the file and the position of an open file,
  \<open>listing\<close> the entries an open directory still has to give.
\<close>

section \<open>The contract of the library\<close>

locale arduino_library =
  fixes L :: "('h, 'l) lfs_lib" and good :: "'l \<Rightarrow> bool" and files :: "'l \<Rightarrow> string \<Rightarrow> bytes option"
    and cursor :: "'l \<Rightarrow> 'h \<Rightarrow> (string \<times> nat) option" and listing :: "'l \<Rightarrow> 'h \<Rightarrow> string list option"
    and dir :: string
  assumes begin_good: "good l \<Longrightarrow> \<exists>l'. lf_begin L False l = (True, l') \<and> good l' \<and> files l' = files l"
    and mkdir_good: "good l \<Longrightarrow> \<exists>r l'. lf_mkdir L dir l = (r, l') \<and> good l' \<and> files l' = files l"
    and open_dir: "good l \<Longrightarrow> \<exists>h ns l'. lf_open L dir ''r'' l = (Some h, l') \<and> good l' \<and> files l' = files l
          \<and> fl_isDirectory L h l' \<and> listing l' h = Some ns \<and> set ns = dom (files l)"
    and open_file: "good l \<Longrightarrow> CHR ''/'' \<notin> set name \<Longrightarrow> files l name = Some c \<Longrightarrow> m = ''r'' \<or> m = ''r+'' \<Longrightarrow>
          \<exists>h l'. lf_open L (joinPath dir name) m l = (Some h, l') \<and> good l' \<and> files l' = files l
            \<and> cursor l' h = Some (name, 0)"
    and open_missing: "good l \<Longrightarrow> CHR ''/'' \<notin> set name \<Longrightarrow> files l name = None \<Longrightarrow> m = ''r'' \<or> m = ''r+'' \<Longrightarrow>
          \<exists>l'. lf_open L (joinPath dir name) m l = (None, l') \<and> good l' \<and> files l' = files l"
    and open_new: "good l \<Longrightarrow> CHR ''/'' \<notin> set name \<Longrightarrow>
          \<exists>h l'. lf_open L (joinPath dir name) ''w'' l = (Some h, l') \<and> good l'
            \<and> files l' = (files l)(name := Some []) \<and> cursor l' h = Some (name, 0)"
    and remove_file: "good l \<Longrightarrow> CHR ''/'' \<notin> set name \<Longrightarrow>
          \<exists>l'. lf_remove L (joinPath dir name) l = (files l name \<noteq> None, l') \<and> good l'
            \<and> files l' = (files l)(name := None)"
    and next_entry: "good l \<Longrightarrow> listing l h = Some (entry # ns) \<Longrightarrow>
          \<exists>f l'. fl_openNextFile L h l = (Some f, l') \<and> good l' \<and> files l' = files l
            \<and> baseName (fl_name L f l') = entry \<and> \<not> fl_isDirectory L f l' \<and> f \<noteq> h \<and> listing l' h = Some ns"
    and no_entry: "good l \<Longrightarrow> listing l h = Some [] \<Longrightarrow>
          \<exists>l'. fl_openNextFile L h l = (None, l') \<and> good l' \<and> files l' = files l"
    and close_keeps: "good l \<Longrightarrow> good (fl_close L h l) \<and> files (fl_close L h l) = files l"
    and close_other: "good l \<Longrightarrow> f \<noteq> h \<Longrightarrow> listing (fl_close L f l) h = listing l h"
    and flush_keeps: "good l \<Longrightarrow> good (fl_flush L h l) \<and> files (fl_flush L h l) = files l"
    and available_file: "good l \<Longrightarrow> cursor l h = Some (name, n) \<Longrightarrow> files l name = Some c \<Longrightarrow>
          \<exists>l'. fl_available L h l = (n < length c, l') \<and> good l' \<and> files l' = files l
            \<and> cursor l' h = Some (name, n)"
    and read_file: "good l \<Longrightarrow> cursor l h = Some (name, n) \<Longrightarrow> files l name = Some c \<Longrightarrow>
          \<exists>l'. fl_read L h k l = (take k (drop n c), l') \<and> good l' \<and> files l' = files l
            \<and> cursor l' h = Some (name, min (n + k) (length c))"
    and seek_file: "good l \<Longrightarrow> cursor l h = Some (name, n) \<Longrightarrow> files l name = Some c \<Longrightarrow> unat off \<le> length c \<Longrightarrow>
          \<exists>l'. fl_seek L h off l = (True, l') \<and> good l' \<and> files l' = files l \<and> cursor l' h = Some (name, unat off)"
    and write_file: "good l \<Longrightarrow> cursor l h = Some (name, n) \<Longrightarrow> files l name = Some c \<Longrightarrow> n \<le> length c \<Longrightarrow>
          \<exists>l'. fl_write L h d l = (length d, l') \<and> good l' \<and> files l' = (files l)(name := Some (overlay n d c))
            \<and> cursor l' h = Some (name, n + length d)"
    and file_size: "good l \<Longrightarrow> cursor l h = Some (name, n) \<Longrightarrow> files l name = Some c \<Longrightarrow>
          fl_size L h l = word_of_nat (length c)"
begin

lemma close_same: "good l \<Longrightarrow> files (fl_close L h l) = files l" "good l \<Longrightarrow> good (fl_close L h l)"
  using close_keeps by blast+

lemma flush_same: "good l \<Longrightarrow> files (fl_flush L h l) = files l" "good l \<Longrightarrow> good (fl_flush L h l)"
  using flush_keeps by blast+

section \<open>Directories\<close>

lemma findEntry_listing:
  assumes "good (lfLib w)" and "listing (lfLib w) h = Some ns"
  shows "\<exists>l'. findEntry L h name w = Some (name \<in> set ns, w\<lparr>lfLib := l'\<rparr>) \<and> good l' \<and> files l' = files (lfLib w)"
  using assms
proof (induction ns arbitrary: w)
  case Nil
  then obtain l' where "fl_openNextFile L h (lfLib w) = (None, l')" "good l'" "files l' = files (lfLib w)"
    using no_entry by blast
  then show ?case
    by (subst findEntry.simps) (auto simp: onLfs_def atLfs_def close_same)
next
  case (Cons n ns)
  then obtain f l' where f: "fl_openNextFile L h (lfLib w) = (Some f, l')" "good l'" "files l' = files (lfLib w)"
      "baseName (fl_name L f l') = n" "f \<noteq> h" "listing l' h = Some ns"
    using next_entry by blast
  define w1 where "w1 = w\<lparr>lfLib := fl_close L f l'\<rparr>"
  have w1: "good (lfLib w1)" "listing (lfLib w1) h = Some ns" "files (lfLib w1) = files (lfLib w)"
    using f by (simp_all add: w1_def close_same close_other)
  show ?case
  proof (cases "n = name")
    case True
    then show ?thesis using f w1
      by (subst findEntry.simps) (auto simp: onLfs_def atLfs_def w1_def close_same)
  next
    case False
    then have "findEntry L h name w = findEntry L h name w1"
      using f by (subst findEntry.simps) (simp add: onLfs_def atLfs_def w1_def)
    then show ?thesis using Cons.IH [OF w1(1,2)] False w1(3) by (auto simp: w1_def)
  qed
qed

lemma fileExistsQuiet_dom:
  assumes "good (lfLib w)" and "lfBasePath w = dir"
  shows "\<exists>l'. fileExistsQuiet L name w = Some (files (lfLib w) name \<noteq> None, w\<lparr>lfLib := l'\<rparr>)
    \<and> good l' \<and> files l' = files (lfLib w)"
proof -
  obtain h ns l1 where o: "lf_open L dir ''r'' (lfLib w) = (Some h, l1)" "good l1" "files l1 = files (lfLib w)"
      "fl_isDirectory L h l1" "listing l1 h = Some ns" "set ns = dom (files (lfLib w))"
    using open_dir [OF assms(1)] by blast
  have "\<exists>l'. findEntry L h name (w\<lparr>lfLib := l1\<rparr>) = Some (name \<in> set ns, w\<lparr>lfLib := l'\<rparr>)
      \<and> good l' \<and> files l' = files (lfLib w)"
    using findEntry_listing [of "w\<lparr>lfLib := l1\<rparr>" h ns name] o by simp
  then show ?thesis
    using o assms(2) by (auto simp: fileExistsQuiet_def onLfs_def domIff)
qed

lemma listEntries_listing:
  assumes "good (lfLib w)" and "listing (lfLib w) h = Some ns"
  shows "\<exists>l'. listEntries L h out w = Some (out @ ns, w\<lparr>lfLib := l'\<rparr>) \<and> good l' \<and> files l' = files (lfLib w)"
  using assms
proof (induction ns arbitrary: w out)
  case Nil
  then obtain l' where "fl_openNextFile L h (lfLib w) = (None, l')" "good l'" "files l' = files (lfLib w)"
    using no_entry by blast
  then show ?case
    by (subst listEntries.simps) (auto simp: onLfs_def atLfs_def close_same)
next
  case (Cons n ns)
  then obtain f l' where f: "fl_openNextFile L h (lfLib w) = (Some f, l')" "good l'" "files l' = files (lfLib w)"
      "baseName (fl_name L f l') = n" "\<not> fl_isDirectory L f l'" "f \<noteq> h" "listing l' h = Some ns"
    using next_entry by blast
  define w1 where "w1 = w\<lparr>lfLib := fl_close L f l'\<rparr>"
  have w1: "good (lfLib w1)" "listing (lfLib w1) h = Some ns" "files (lfLib w1) = files (lfLib w)"
    using f by (simp_all add: w1_def close_same close_other)
  have "listEntries L h out w = listEntries L h (out @ [n]) w1"
    using f by (subst listEntries.simps) (simp add: onLfs_def atLfs_def w1_def)
  then show ?case using Cons.IH [OF w1(1,2), of "out @ [n]"] w1(3) by (auto simp: w1_def)
qed

lemma lfListFiles_good:
  assumes "good (lfLib w)" and "lfBasePath w = dir"
  shows "\<exists>ns l'. lfListFiles L w = Some ((success, ns), w\<lparr>lfLib := l'\<rparr>)
    \<and> set ns = dom (files (lfLib w)) \<and> good l' \<and> files l' = files (lfLib w)"
proof -
  obtain h ns l1 where o: "lf_open L dir ''r'' (lfLib w) = (Some h, l1)" "good l1" "files l1 = files (lfLib w)"
      "fl_isDirectory L h l1" "listing l1 h = Some ns" "set ns = dom (files (lfLib w))"
    using open_dir [OF assms(1)] by blast
  have "\<exists>l'. listEntries L h [] (w\<lparr>lfLib := l1\<rparr>) = Some (ns, w\<lparr>lfLib := l'\<rparr>)
      \<and> good l' \<and> files l' = files (lfLib w)"
    using listEntries_listing [of "w\<lparr>lfLib := l1\<rparr>" h ns "[]"] o by simp
  then show ?thesis
    using o assms(2) by (auto simp: lfListFiles_def onLfs_def)
qed

lemma lfMount_good:
  assumes "good (lfLib w)" and "normalizeBasePath base = dir"
  shows "\<exists>l' lk. lfMount L base w = (success, w\<lparr>lfBasePath := dir, lfLock := lk, lfLib := l'\<rparr>)
    \<and> good l' \<and> files l' = files (lfLib w)"
proof -
  obtain l1 where b: "lf_begin L False (lfLib w) = (True, l1)" "good l1" "files l1 = files (lfLib w)"
    using begin_good [OF assms(1)] by blast
  obtain r l2 where m: "lf_mkdir L dir l1 = (r, l2)" "good l2" "files l2 = files (lfLib w)"
    using mkdir_good [OF b(2)] b(3) by auto
  obtain h ns l3 where o: "lf_open L dir ''r'' l2 = (Some h, l3)" "good l3" "files l3 = files (lfLib w)"
      "fl_isDirectory L h l3"
    using open_dir [OF m(2)] m(3) by auto
  have c: "good (fl_close L h l3)" "files (fl_close L h l3) = files (lfLib w)"
    using o close_same by simp_all
  define w1 where "w1 = (let w = w\<lparr>lfBasePath := dir\<rparr> in
      if lfLock w = None
      then w\<lparr>lfLock := Some \<lparr>lockBasePath = lfBasePath w, lockAcquired = False, lockMutex = None\<rparr>\<rparr> else w)"
  have w1: "\<exists>lk. w1\<lparr>lfLib := l\<rparr> = w\<lparr>lfBasePath := dir, lfLock := lk, lfLib := l\<rparr>" for l
    by (cases w) (auto simp: w1_def Let_def)
  have lib: "lfLib w1 = lfLib w" "lfBasePath w1 = dir" by (simp_all add: w1_def Let_def)
  have "lfMount L base w = ensureDirectory L dir (w1\<lparr>lfLib := l1\<rparr>)"
    using b lib by (simp add: lfMount_def w1_def assms(2) onLfs_def Let_def)
  moreover have "\<exists>l'. ensureDirectory L dir (w1\<lparr>lfLib := l1\<rparr>) = (success, w1\<lparr>lfLib := l'\<rparr>)
      \<and> good l' \<and> files l' = files (lfLib w)"
    using b m o c lib by (auto simp: ensureDirectory_def onLfs_def atLfs_def)
  ultimately show ?thesis using w1 by metis
qed

end

section \<open>Files\<close>

context arduino_library
begin

lemma readChunks_rest:
  assumes "good (lfLib w)" and "cursor (lfLib w) h = Some (name, n)" and "files (lfLib w) name = Some c"
    and "n \<le> length c"
  shows "\<exists>l'. readChunks L h out w = Some ((True, out @ drop n c), w\<lparr>lfLib := l'\<rparr>)
    \<and> good l' \<and> files l' = files (lfLib w)"
  using assms
proof (induction "length c - n" arbitrary: n w out rule: less_induct)
  case less
  obtain l1 where a: "fl_available L h (lfLib w) = (n < length c, l1)" "good l1" "files l1 = files (lfLib w)"
      "cursor l1 h = Some (name, n)"
    using available_file [OF less.prems(1-3)] by blast
  show ?case
  proof (cases "n < length c")
    case False
    then show ?thesis using a less.prems(4) by (subst readChunks.simps) (auto simp: onLfs_def)
  next
    case True
    define m where "m = min (n + 128) (length c)"
    obtain l2 where r: "fl_read L h 128 l1 = (take 128 (drop n c), l2)" "good l2" "files l2 = files (lfLib w)"
        "cursor l2 h = Some (name, m)"
      using read_file [OF a(2,4), of c 128] a(3) less.prems(3) by (auto simp: m_def)
    have ne: "take 128 (drop n c) \<noteq> []" using True by simp
    have step: "readChunks L h out w = readChunks L h (out @ take 128 (drop n c)) (w\<lparr>lfLib := l2\<rparr>)"
      using a r ne True by (subst readChunks.simps) (simp add: onLfs_def)
    have "drop m c = drop 128 (drop n c)" by (simp add: m_def min_def add.commute)
    then have "take 128 (drop n c) @ drop m c = drop n c" by (simp only: append_take_drop_id)
    moreover have "length c - m < length c - n" "m \<le> length c" using True by (auto simp: m_def)
    ultimately show ?thesis
      using less.hyps [of m "w\<lparr>lfLib := l2\<rparr>" "out @ take 128 (drop n c)"] r less.prems(3) step by auto
  qed
qed

lemma lfReadFile_good:
  assumes "good (lfLib w)" and "lfBasePath w = dir" and "CHR ''/'' \<notin> set name"
  shows "\<exists>st d l'. lfReadFile L name w = Some ((st, d), w\<lparr>lfLib := l'\<rparr>) \<and> good l' \<and> files l' = files (lfLib w)
    \<and> (if ok st then files (lfLib w) name = Some d else files (lfLib w) name = None)"
proof -
  obtain l1 where e: "fileExistsQuiet L name w = Some (files (lfLib w) name \<noteq> None, w\<lparr>lfLib := l1\<rparr>)"
      "good l1" "files l1 = files (lfLib w)"
    using fileExistsQuiet_dom [OF assms(1,2)] by blast
  show ?thesis
  proof (cases "files (lfLib w) name")
    case None
    then show ?thesis using e by (simp add: lfReadFile_def openForRead_def) (metis)
  next
    case (Some c)
    obtain h l2 where o: "lf_open L (joinPath dir name) ''r'' l1 = (Some h, l2)" "good l2"
        "files l2 = files (lfLib w)" "cursor l2 h = Some (name, 0)"
      using open_file [OF e(2) assms(3), of c "''r''"] Some e(3) by auto
    obtain l3 where r: "readChunks L h [] (w\<lparr>lfLib := l2\<rparr>) = Some ((True, c), w\<lparr>lfLib := l3\<rparr>)" "good l3"
        "files l3 = files (lfLib w)"
      using readChunks_rest [of "w\<lparr>lfLib := l2\<rparr>" h name 0 c "[]"] o Some by auto
    show ?thesis
      using Some e o r assms(2) close_same [OF r(2)]
      by (intro exI [of _ success] exI [of _ c] exI [of _ "fl_close L h l3"])
        (simp add: lfReadFile_def onLfs_def atLfs_def lfPath_def)
  qed
qed

lemma lfFileSize_good:
  assumes "good (lfLib w)" and "lfBasePath w = dir" and "CHR ''/'' \<notin> set name"
    and "files (lfLib w) name = Some c" and "length c < 2 ^ 32"
  shows "\<exists>l'. lfFileSize L name w = ((success, word_of_nat (length c)), w\<lparr>lfLib := l'\<rparr>)
    \<and> good l' \<and> files l' = files (lfLib w)"
proof -
  obtain h l1 where o: "lf_open L (joinPath dir name) ''r'' (lfLib w) = (Some h, l1)" "good l1"
      "files l1 = files (lfLib w)" "cursor l1 h = Some (name, 0)"
    using open_file [OF assms(1,3,4), of "''r''"] by auto
  have "fl_size L h l1 = word_of_nat (length c)" using file_size [OF o(2,4)] o(3) assms(4) by simp
  moreover have "(ucast (word_of_nat (length c) :: u32) :: u64) = word_of_nat (length c)"
    using assms(5) by (simp add: word_unat_eq_iff unsigned_ucast_eq unat_of_nat take_bit_nat_eq_self)
  ultimately show ?thesis
    using o assms(2) close_same [OF o(2)]
    by (simp add: lfFileSize_def onLfs_def atLfs_def lfPath_def) blast
qed

lemma lfWriteFile_good:
  assumes "good (lfLib w)" and "lfBasePath w = dir" and "CHR ''/'' \<notin> set name"
  shows "\<exists>l'. lfWriteFile L name d w = (success, w\<lparr>lfLib := l'\<rparr>)
    \<and> good l' \<and> files l' = (files (lfLib w))(name := Some d)"
proof -
  obtain h l1 where o: "lf_open L (joinPath dir name) ''w'' (lfLib w) = (Some h, l1)" "good l1"
      "files l1 = (files (lfLib w))(name := Some [])" "cursor l1 h = Some (name, 0)"
    using open_new [OF assms(1,3)] by blast
  obtain l2 where p: "fl_write L h d l1 = (length d, l2)" "good l2" "files l2 = (files (lfLib w))(name := Some d)"
    using write_file [OF o(2,4), of "[]" d] o(3) by (auto simp: overlay_def)
  show ?thesis
    using o p assms(2) flush_same [OF p(2)] close_same [OF flush_same(2) [OF p(2)]]
    by (simp add: lfWriteFile_def onLfs_def atLfs_def lfPath_def) blast
qed

lemma lfReadAt_good:
  assumes "good (lfLib w)" and "lfBasePath w = dir" and "CHR ''/'' \<notin> set name"
    and "files (lfLib w) name = Some c" and "unat off \<le> length c" and "length c < 2 ^ 32"
  shows "\<exists>st d l'. lfReadAt L name off n w = ((st, d), w\<lparr>lfLib := l'\<rparr>) \<and> good l' \<and> files l' = files (lfLib w)
    \<and> (ok st \<longleftrightarrow> unat off + n \<le> length c) \<and> (ok st \<longrightarrow> d = take n (drop (unat off) c))"
proof -
  obtain h l1 where o: "lf_open L (joinPath dir name) ''r'' (lfLib w) = (Some h, l1)" "good l1"
      "files l1 = files (lfLib w)" "cursor l1 h = Some (name, 0)"
    using open_file [OF assms(1,3,4), of "''r''"] by auto
  have u: "unat (ucast off :: u32) = unat off"
    using assms(5,6) by (simp add: unsigned_ucast_eq take_bit_nat_eq_self)
  obtain l2 where s: "fl_seek L h (ucast off) l1 = (True, l2)" "good l2" "files l2 = files (lfLib w)"
      "cursor l2 h = Some (name, unat off)"
    using seek_file [OF o(2,4), of c "ucast off"] o(3) assms(4,5) u by auto
  obtain l3 where r: "fl_read L h n l2 = (take n (drop (unat off) c), l3)" "good l3" "files l3 = files (lfLib w)"
    using read_file [OF s(2,4), of c n] s(3) assms(4) by auto
  show ?thesis
    using o s r assms(2,5) close_same [OF r(2)]
    by (auto simp: lfReadAt_def onLfs_def atLfs_def lfPath_def Let_def intro!: exI)
qed

lemma lfWriteAt_good:
  assumes "good (lfLib w)" and "lfBasePath w = dir" and "CHR ''/'' \<notin> set name"
    and "files (lfLib w) name = Some c" and "unat off \<le> length c" and "length c < 2 ^ 32"
  shows "\<exists>l'. lfWriteAt L name off d w = (success, w\<lparr>lfLib := l'\<rparr>)
    \<and> good l' \<and> files l' = (files (lfLib w))(name := Some (overlay (unat off) d c))"
proof -
  obtain h l1 where o: "lf_open L (joinPath dir name) ''r+'' (lfLib w) = (Some h, l1)" "good l1"
      "files l1 = files (lfLib w)" "cursor l1 h = Some (name, 0)"
    using open_file [OF assms(1,3,4), of "''r+''"] by auto
  have u: "unat (ucast off :: u32) = unat off"
    using assms(5,6) by (simp add: unsigned_ucast_eq take_bit_nat_eq_self)
  obtain l2 where s: "fl_seek L h (ucast off) l1 = (True, l2)" "good l2" "files l2 = files (lfLib w)"
      "cursor l2 h = Some (name, unat off)"
    using seek_file [OF o(2,4), of c "ucast off"] o(3) assms(4,5) u by auto
  obtain l3 where p: "fl_write L h d l2 = (length d, l3)" "good l3"
      "files l3 = (files (lfLib w))(name := Some (overlay (unat off) d c))"
    using write_file [OF s(2,4), of c d] s(3) assms(4,5) by auto
  show ?thesis
    using o s p assms(2) flush_same [OF p(2)] close_same [OF flush_same(2) [OF p(2)]]
    by (simp add: lfWriteAt_def onLfs_def atLfs_def lfPath_def) blast
qed

lemma lfRemoveFile_good:
  assumes "good (lfLib w)" and "lfBasePath w = dir" and "CHR ''/'' \<notin> set name"
  shows "\<exists>st l'. lfRemoveFile L name w = (st, w\<lparr>lfLib := l'\<rparr>) \<and> (ok st \<longleftrightarrow> files (lfLib w) name \<noteq> None)
    \<and> good l' \<and> files l' = (files (lfLib w))(name := None)"
  using remove_file [OF assms(1,3)] assms(2)
  by (auto simp: lfRemoveFile_def onLfs_def lfPath_def)

end

section \<open>Resizing\<close>

text \<open>What \<open>resizeFile\<close> leaves: a file that was longer holds zeros only.\<close>

definition deviceResize :: "nat \<Rightarrow> bytes option \<Rightarrow> bytes" where
  "deviceResize n c =
     (case c of None \<Rightarrow> replicate n 0
      | Some c \<Rightarrow> if n < length c then replicate n 0 else c @ replicate (n - length c) 0)"

context arduino_library
begin

lemma writeZeros_good:
  assumes "good (lfLib w)" and "length c < n \<longrightarrow> cursor (lfLib w) h = Some (name, length c)"
    and "files (lfLib w) name = Some c"
  shows "\<exists>l'. writeZeros L h (length c) n w = (True, w\<lparr>lfLib := l'\<rparr>) \<and> good l'
    \<and> files l' = (files (lfLib w))(name := Some (c @ replicate (n - length c) 0))"
  using assms
proof (induction "n - length c" arbitrary: w c rule: less_induct)
  case less
  show ?case
  proof (cases "length c < n")
    case False
    then show ?thesis using less.prems
      by (intro exI [of _ "lfLib w"]) (subst writeZeros.simps, simp add: fun_upd_idem)
  next
    case True
    define k where "k = min 128 (n - length c)"
    define c' where "c' = c @ replicate k 0"
    obtain l1 where p: "fl_write L h (replicate k 0) (lfLib w) = (k, l1)" "good l1"
        "files l1 = (files (lfLib w))(name := Some c')" "cursor l1 h = Some (name, length c')"
      using write_file [of "lfLib w" h name "length c" c "replicate k 0"] less.prems True by (auto simp: c'_def overlay_at_end)
    have step: "writeZeros L h (length c) n w = writeZeros L h (length c') n (w\<lparr>lfLib := l1\<rparr>)"
      using p True by (subst writeZeros.simps) (simp add: onLfs_def k_def c'_def)
    have "c' @ replicate (n - length c') 0 = c @ replicate (n - length c) 0"
      using True by (simp add: c'_def k_def flip: replicate_add)
    moreover have "n - length c' < n - length c" using True by (simp add: c'_def k_def)
    ultimately show ?thesis
      using less.hyps [of c' "w\<lparr>lfLib := l1\<rparr>"] p step by auto
  qed
qed

lemma resizeStart_good:
  assumes "good (lfLib w)" and "lfBasePath w = dir" and "CHR ''/'' \<notin> set name"
    and "cursor (lfLib w) h = Some (name, 0)" and "files (lfLib w) name = Some c" and "length c < 2 ^ 32"
  shows "\<exists>f l'. resizeStart L (joinPath dir name) h (word_of_nat (length c)) sz w = (Inr f, w\<lparr>lfLib := l'\<rparr>)
    \<and> good l' \<and> (let c' = (if unat sz < length c then [] else c) in
        files l' = (files (lfLib w))(name := Some c')
        \<and> (length c' < unat sz \<longrightarrow> cursor l' f = Some (name, length c')))"
proof -
  have u: "unat (word_of_nat (length c) :: u64) = length c" using assms(6) by (simp add: unat_of_nat)
  show ?thesis
  proof (cases "unat sz < length c")
    case True
    define l1 where "l1 = fl_close L h (lfLib w)"
    have l1: "good l1" "files l1 = files (lfLib w)" using close_same [OF assms(1)] by (simp_all add: l1_def)
    obtain l2 where r: "lf_remove L (joinPath dir name) l1 = (True, l2)" "good l2"
        "files l2 = (files (lfLib w))(name := None)"
      using remove_file [OF l1(1) assms(3)] l1(2) assms(5) by auto
    obtain f l3 where o: "lf_open L (joinPath dir name) ''w'' l2 = (Some f, l3)" "good l3"
        "files l3 = (files (lfLib w))(name := Some [])" "cursor l3 f = Some (name, 0)"
      using open_new [OF r(2) assms(3)] r(3) by auto
    show ?thesis
      by (intro exI [of _ f] exI [of _ l3])
        (use True r o in \<open>simp add: resizeStart_def onLfs_def atLfs_def word_less_nat_alt u l1_def [symmetric]\<close>)
  next
    case False
    have "unat (ucast (word_of_nat (length c) :: u64) :: u32) = length c"
      using assms(6) u by (simp add: unsigned_ucast_eq take_bit_nat_eq_self)
    then obtain l1 where s: "fl_seek L h (ucast (word_of_nat (length c) :: u64)) (lfLib w) = (True, l1)" "good l1"
        "files l1 = files (lfLib w)" "cursor l1 h = Some (name, length c)"
      using seek_file [OF assms(1,4,5), of "ucast (word_of_nat (length c) :: u64)"] by auto
    show ?thesis
    proof (cases "unat sz = length c")
      case True
      show ?thesis
        by (intro exI [of _ h] exI [of _ "lfLib w"])
          (use True assms(1,5) in \<open>simp add: resizeStart_def word_less_nat_alt u fun_upd_idem\<close>)
    next
      case ne: False
      show ?thesis
        by (intro exI [of _ h] exI [of _ l1])
          (use False ne assms(5) s in \<open>simp add: resizeStart_def onLfs_def word_less_nat_alt u fun_upd_idem\<close>)
    qed
  qed
qed

lemma lfResizeFile_good:
  assumes "good (lfLib w)" and "lfBasePath w = dir" and "CHR ''/'' \<notin> set name"
    and "\<forall>c. files (lfLib w) name = Some c \<longrightarrow> length c < 2 ^ 32"
  shows "\<exists>l'. lfResizeFile L name sz w = Some (success, w\<lparr>lfLib := l'\<rparr>) \<and> good l'
    \<and> files l' = (files (lfLib w))(name := Some (deviceResize (unat sz) (files (lfLib w) name)))"
proof -
  let ?m = "if files (lfLib w) name \<noteq> None then ''r+'' else ''w''"
  obtain l1 where e: "fileExistsQuiet L name w = Some (files (lfLib w) name \<noteq> None, w\<lparr>lfLib := l1\<rparr>)"
      "good l1" "files l1 = files (lfLib w)"
    using fileExistsQuiet_dom [OF assms(1,2)] by blast
  define c where "c = (case files (lfLib w) name of None \<Rightarrow> [] | Some c \<Rightarrow> c)"
  have lc: "length c < 2 ^ 32" using assms(4) by (simp add: c_def split: option.split)
  obtain h l2 where o: "lf_open L (joinPath dir name) ?m l1 = (Some h, l2)" "good l2"
      "files l2 = (files (lfLib w))(name := Some c)" "cursor l2 h = Some (name, 0)"
  proof (cases "files (lfLib w) name")
    case None
    then show ?thesis using open_new [OF e(2) assms(3)] e(3) that by (auto simp: c_def)
  next
    case (Some d)
    then show ?thesis
      using open_file [OF e(2) assms(3), of d "''r+''"] e(3) that by (auto simp: c_def fun_upd_idem)
  qed
  have f2: "files l2 name = Some c" by (simp add: o(3))
  have cur: "(ucast (fl_size L h l2) :: u64) = word_of_nat (length c)"
    using file_size [OF o(2,4) f2] lc
    by (simp add: word_unat_eq_iff unsigned_ucast_eq unat_of_nat take_bit_nat_eq_self)
  have u: "unat (word_of_nat (length c) :: u64) = length c" using lc by (simp add: unat_of_nat)
  define c' where "c' = (if unat sz < length c then [] else c)"
  have dr: "c' @ replicate (unat sz - length c') 0 = deviceResize (unat sz) (files (lfLib w) name)"
    by (auto simp: c'_def c_def deviceResize_def split: option.split)
  let ?w = "w\<lparr>lfLib := l2\<rparr>"
  obtain f l3 where s: "resizeStart L (joinPath dir name) h (word_of_nat (length c)) sz ?w = (Inr f, w\<lparr>lfLib := l3\<rparr>)"
      "good l3" "files l3 = (files (lfLib w))(name := Some c')"
      "length c' < unat sz \<longrightarrow> cursor l3 f = Some (name, length c')"
    using resizeStart_good [of ?w name h c sz] o f2 lc assms(2,3) by (auto simp: c'_def [symmetric] Let_def)
  obtain l4 where z: "writeZeros L f (length c') (unat sz) (w\<lparr>lfLib := l3\<rparr>) = (True, w\<lparr>lfLib := l4\<rparr>)" "good l4"
      "files l4 = (files (lfLib w))(name := Some (deviceResize (unat sz) (files (lfLib w) name)))"
    using writeZeros_good [where w = "w\<lparr>lfLib := l3\<rparr>" and h = f and name = name and c = c' and n = "unat sz"] s dr by auto
  have "lfResizeFile L name sz w = Some (success, w\<lparr>lfLib := fl_close L f (fl_flush L f l4)\<rparr>)"
    using e o(1) s(1) z(1) assms(2) cur
    by (cases "unat sz < length c")
      (simp_all add: lfResizeFile_def onLfs_def atLfs_def lfPath_def Let_def c'_def word_less_nat_alt u)
  then show ?thesis
    using z flush_same [OF z(2)] close_same [OF flush_same(2) [OF z(2)]] by auto
qed

end

end
