(* ===== verification/LittleFs_Theorems.thy ===== *)
theory LittleFs_Theorems
  imports LittleFs_Correct "HOL-Library.AList"
begin

text \<open>
  The file system of the device as a directory, and what its \<open>resizeFile\<close> does to a queue.  A library
  in memory shows that the contract of the library can hold.
\<close>

section \<open>A library in memory\<close>

datatype ram_handle = RamFile string nat | RamDir "string list"

record ram_disk =
  rdFiles :: "(string \<times> bytes) list"
  rdHandles :: "nat \<Rightarrow> ram_handle option"
  rdNext :: nat

definition ramDir :: string where
  "ramDir = ''/pqueue_spool''"

definition newHandle :: "ram_handle \<Rightarrow> ram_disk \<Rightarrow> nat option \<times> ram_disk" where
  "newHandle r l = (Some (rdNext l), l\<lparr>rdHandles := (rdHandles l)(rdNext l := Some r), rdNext := Suc (rdNext l)\<rparr>)"

definition ramOpen :: "string \<Rightarrow> string \<Rightarrow> ram_disk \<Rightarrow> nat option \<times> ram_disk" where
  "ramOpen p m l =
     (let name = baseName (Some p) in
      if p = ramDir then newHandle (RamDir (map fst (rdFiles l))) l
      else if m = ''w'' then newHandle (RamFile name 0) (l\<lparr>rdFiles := AList.update name [] (rdFiles l)\<rparr>)
      else if map_of (rdFiles l) name = None then (None, l)
      else newHandle (RamFile name 0) l)"

definition ramNext :: "nat \<Rightarrow> ram_disk \<Rightarrow> nat option \<times> ram_disk" where
  "ramNext h l =
     (case rdHandles l h of
        Some (RamDir (n # ns)) \<Rightarrow> newHandle (RamFile n 0) (l\<lparr>rdHandles := (rdHandles l)(h := Some (RamDir ns))\<rparr>)
      | _ \<Rightarrow> (None, l))"

text \<open>An operation on an open file, from its contents and the position to a result, the new contents
  and the new position.\<close>

definition onRamFile ::
  "'a \<Rightarrow> (bytes \<Rightarrow> nat \<Rightarrow> 'a \<times> bytes \<times> nat) \<Rightarrow> nat \<Rightarrow> ram_disk \<Rightarrow> 'a \<times> ram_disk" where
  "onRamFile failed f h l =
     (case rdHandles l h of
        Some (RamFile name n) \<Rightarrow>
          (case map_of (rdFiles l) name of
             None \<Rightarrow> (failed, l)
           | Some c \<Rightarrow>
               let (r, c', n') = f c n
               in (r, l\<lparr>rdFiles := AList.update name c' (rdFiles l),
                        rdHandles := (rdHandles l)(h := Some (RamFile name n'))\<rparr>))
      | _ \<Rightarrow> (failed, l))"

definition ramLfs :: "(nat, ram_disk) lfs_lib" where
  "ramLfs =
     \<lparr>lf_begin = (\<lambda>b l. (True, l)), lf_mkdir = (\<lambda>p l. (False, l)), lf_open = ramOpen,
      lf_remove = (\<lambda>p l. (map_of (rdFiles l) (baseName (Some p)) \<noteq> None,
        l\<lparr>rdFiles := AList.delete (baseName (Some p)) (rdFiles l)\<rparr>)),
      lf_totalBytes = (\<lambda>l. 1048576), lf_usedBytes = (\<lambda>l. word_of_nat (sum_list (map (length \<circ> snd) (rdFiles l)))),
      fl_isDirectory = (\<lambda>h l. case rdHandles l h of Some (RamDir ns) \<Rightarrow> True | _ \<Rightarrow> False),
      fl_openNextFile = ramNext,
      fl_name = (\<lambda>h l. case rdHandles l h of Some (RamFile name n) \<Rightarrow> Some name | _ \<Rightarrow> None),
      fl_available = onRamFile False (\<lambda>c n. (n < length c, c, n)),
      fl_read = (\<lambda>h k. onRamFile [] (\<lambda>c n. (take k (drop n c), c, min (n + k) (length c))) h),
      fl_write = (\<lambda>h d. onRamFile 0 (\<lambda>c n. (length d, overlay n d c, n + length d)) h),
      fl_seek = (\<lambda>h off. onRamFile False (\<lambda>c n. (True, c, unat off)) h),
      fl_size = (\<lambda>h l. fst (onRamFile 0 (\<lambda>c n. (word_of_nat (length c), c, n)) h l)),
      fl_flush = (\<lambda>h l. l), fl_close = (\<lambda>h l. l\<lparr>rdHandles := (rdHandles l)(h := None)\<rparr>),
      sm_create = (\<lambda>l. (None, l)), sm_take = (\<lambda>m b l. (False, l)), sm_give = (\<lambda>m l. l)\<rparr>"

definition ramFiles :: "ram_disk \<Rightarrow> string \<Rightarrow> bytes option" where
  "ramFiles l = map_of (rdFiles l)"

definition ramCursor :: "ram_disk \<Rightarrow> nat \<Rightarrow> (string \<times> nat) option" where
  "ramCursor l h = (case rdHandles l h of Some (RamFile name n) \<Rightarrow> Some (name, n) | _ \<Rightarrow> None)"

definition ramListing :: "ram_disk \<Rightarrow> nat \<Rightarrow> string list option" where
  "ramListing l h = (case rdHandles l h of Some (RamDir ns) \<Rightarrow> Some ns | _ \<Rightarrow> None)"

definition plainNames :: "string list \<Rightarrow> bool" where
  "plainNames ns \<longleftrightarrow> (\<forall>n \<in> set ns. CHR ''/'' \<notin> set n)"

definition ramGood :: "ram_disk \<Rightarrow> bool" where
  "ramGood l \<longleftrightarrow> plainNames (map fst (rdFiles l))
     \<and> (\<forall>h. rdHandles l h \<noteq> None \<longrightarrow> h < rdNext l)
     \<and> (\<forall>h ns. rdHandles l h = Some (RamDir ns) \<longrightarrow> plainNames ns)"

lemma takeWhile_plain: "c \<notin> set n \<Longrightarrow> takeWhile (\<lambda>x. x \<noteq> c) (rev n @ ys) = rev n @ takeWhile (\<lambda>x. x \<noteq> c) ys"
  by (rule takeWhile_append2) auto

lemma baseName_plain:
  assumes "CHR ''/'' \<notin> set n"
  shows "baseName (Some n) = n"
proof -
  have "takeWhile (\<lambda>c. c \<noteq> CHR ''/'') (rev n) = rev n"
    unfolding takeWhile_eq_all_conv using assms by auto
  then show ?thesis by (simp only: baseName_def option.case rev_rev_ident)
qed

lemma baseName_join: "CHR ''/'' \<notin> set n \<Longrightarrow> baseName (Some (joinPath d n)) = n"
  by (simp add: baseName_def joinPath_def takeWhile_plain)

lemma joinPath_ramDir [simp]: "joinPath ramDir n \<noteq> ramDir"
  by (simp add: joinPath_def ramDir_def)

lemma plainNames_update:
  "plainNames (map fst fs) \<Longrightarrow> CHR ''/'' \<notin> set n \<Longrightarrow> plainNames (map fst (AList.update n c fs))"
  by (auto simp: plainNames_def dom_update)

lemma ramGood_update:
  "ramGood l \<Longrightarrow> CHR ''/'' \<notin> set n \<Longrightarrow> ramGood (l\<lparr>rdFiles := AList.update n c (rdFiles l)\<rparr>)"
  by (simp add: ramGood_def plainNames_update)

lemma ramGood_newHandle:
  "ramGood l \<Longrightarrow> (\<And>ns. r = RamDir ns \<Longrightarrow> plainNames ns) \<Longrightarrow> ramGood (snd (newHandle r l))"
  by (auto simp: ramGood_def newHandle_def less_Suc_eq)

lemma ramGood_cursor: "ramGood l \<Longrightarrow> ramCursor l h = Some (name, n) \<Longrightarrow> h < rdNext l"
  by (auto simp: ramGood_def ramCursor_def split: option.splits)

lemma ramGood_file:
  assumes "ramGood l" and "ramFiles l name = Some c"
  shows "CHR ''/'' \<notin> set name"
proof -
  have "name \<in> set (map fst (rdFiles l))" using assms(2) by (force simp: ramFiles_def dest: map_of_SomeD)
  then show ?thesis using assms(1) unfolding ramGood_def plainNames_def by blast
qed

text \<open>The operations on an open file.\<close>

lemma onRamFile_good:
  assumes "ramGood l" and "ramCursor l h = Some (name, n)" and "ramFiles l name = Some c"
    and "f c n = (r, c', n')"
  shows "\<exists>l'. onRamFile failed f h l = (r, l') \<and> ramGood l' \<and> ramFiles l' = (ramFiles l)(name := Some c')
    \<and> ramCursor l' h = Some (name, n')"
proof -
  have h: "rdHandles l h = Some (RamFile name n)"
    using assms(2) by (auto simp: ramCursor_def split: option.splits ram_handle.splits)
  have "ramGood (l\<lparr>rdFiles := AList.update name c' (rdFiles l), rdHandles := (rdHandles l)(h := Some (RamFile name n'))\<rparr>)"
    using ramGood_update [OF assms(1) ramGood_file [OF assms(1,3)], of c'] h by (auto simp: ramGood_def)
  then show ?thesis
    using h assms(3,4) by (auto simp: onRamFile_def ramFiles_def ramCursor_def update_conv')
qed

interpretation ram: arduino_library ramLfs ramGood ramFiles ramCursor ramListing ramDir
proof unfold_locales
  fix l :: ram_disk and name entry :: string and m :: string and h n k :: nat and c d ns and off :: u32
  assume g: "ramGood l"
  show "\<exists>l'. lf_begin ramLfs False l = (True, l') \<and> ramGood l' \<and> ramFiles l' = ramFiles l"
    "\<exists>r l'. lf_mkdir ramLfs ramDir l = (r, l') \<and> ramGood l' \<and> ramFiles l' = ramFiles l"
    "ramGood (fl_flush ramLfs h l) \<and> ramFiles (fl_flush ramLfs h l) = ramFiles l"
    "ramGood (fl_close ramLfs h l) \<and> ramFiles (fl_close ramLfs h l) = ramFiles l"
    using g by (auto simp: ramLfs_def ramGood_def ramFiles_def)
  show "\<exists>h ns l'. lf_open ramLfs ramDir ''r'' l = (Some h, l') \<and> ramGood l' \<and> ramFiles l' = ramFiles l
      \<and> fl_isDirectory ramLfs h l' \<and> ramListing l' h = Some ns \<and> set ns = dom (ramFiles l)"
    using g ramGood_newHandle [OF g, of "RamDir (map fst (rdFiles l))"]
    by (auto simp: ramLfs_def ramOpen_def newHandle_def ramListing_def ramFiles_def dom_map_of_conv_image_fst ramGood_def)
  {
    assume p: "CHR ''/'' \<notin> set name"
    note b = baseName_join [OF p, of ramDir]
    show "\<exists>h l'. lf_open ramLfs (joinPath ramDir name) ''w'' l = (Some h, l') \<and> ramGood l'
        \<and> ramFiles l' = (ramFiles l)(name := Some []) \<and> ramCursor l' h = Some (name, 0)"
      using ramGood_newHandle [OF ramGood_update [OF g p], of "RamFile name 0" "[]"]
      by (auto simp: ramLfs_def ramOpen_def newHandle_def ramCursor_def ramFiles_def b update_conv')
    have "plainNames (map fst (AList.delete name (rdFiles l)))"
      using g by (auto simp: ramGood_def plainNames_def AList.delete_eq)
    then show "\<exists>l'. lf_remove ramLfs (joinPath ramDir name) l = (ramFiles l name \<noteq> None, l') \<and> ramGood l'
        \<and> ramFiles l' = (ramFiles l)(name := None)"
      using g by (auto simp: ramLfs_def ramFiles_def b delete_conv' ramGood_def)
    assume m: "m = ''r'' \<or> m = ''r+''"
    show "ramFiles l name = None \<Longrightarrow>
        \<exists>l'. lf_open ramLfs (joinPath ramDir name) m l = (None, l') \<and> ramGood l' \<and> ramFiles l' = ramFiles l"
      using m g by (auto simp: ramLfs_def ramOpen_def ramFiles_def b)
    show "ramFiles l name = Some c \<Longrightarrow>
        \<exists>h l'. lf_open ramLfs (joinPath ramDir name) m l = (Some h, l') \<and> ramGood l' \<and> ramFiles l' = ramFiles l
          \<and> ramCursor l' h = Some (name, 0)"
      using m ramGood_newHandle [OF g, of "RamFile name 0"]
      by (auto simp: ramLfs_def ramOpen_def ramFiles_def newHandle_def ramCursor_def b)
  }
  {
    assume "ramListing l h = Some (entry # ns)"
    then have h: "rdHandles l h = Some (RamDir (entry # ns))"
      by (auto simp: ramListing_def split: option.splits ram_handle.splits)
    then have n: "h < rdNext l" "plainNames (entry # ns)" using g by (auto simp: ramGood_def)
    have "ramGood (l\<lparr>rdHandles := (rdHandles l)(h := Some (RamDir ns))\<rparr>)"
      using g h n by (auto simp: ramGood_def plainNames_def)
    from ramGood_newHandle [OF this, of "RamFile entry 0"]
    show "\<exists>f l'. fl_openNextFile ramLfs h l = (Some f, l') \<and> ramGood l' \<and> ramFiles l' = ramFiles l
        \<and> baseName (fl_name ramLfs f l') = entry \<and> \<not> fl_isDirectory ramLfs f l' \<and> f \<noteq> h
        \<and> ramListing l' h = Some ns"
      using h n by (auto simp: ramLfs_def ramNext_def newHandle_def ramFiles_def ramListing_def plainNames_def baseName_plain)
  }
  show "ramListing l h = Some [] \<Longrightarrow>
      \<exists>l'. fl_openNextFile ramLfs h l = (None, l') \<and> ramGood l' \<and> ramFiles l' = ramFiles l"
    using g by (auto simp: ramListing_def ramLfs_def ramNext_def split: option.splits ram_handle.splits)
  show "n \<noteq> h \<Longrightarrow> ramListing (fl_close ramLfs n l) h = ramListing l h"
    by (simp add: ramLfs_def ramListing_def)
  assume f: "ramCursor l h = Some (name, n)" "ramFiles l name = Some c"
  have same: "(ramFiles l)(name := Some c) = ramFiles l" using f(2) by auto
  note on = onRamFile_good [OF g f]
  show "\<exists>l'. fl_available ramLfs h l = (n < length c, l') \<and> ramGood l' \<and> ramFiles l' = ramFiles l
      \<and> ramCursor l' h = Some (name, n)"
    using on [of "\<lambda>c n. (n < length c, c, n)"] by (simp add: ramLfs_def same)
  show "\<exists>l'. fl_read ramLfs h k l = (take k (drop n c), l') \<and> ramGood l' \<and> ramFiles l' = ramFiles l
      \<and> ramCursor l' h = Some (name, min (n + k) (length c))"
    using on [of "\<lambda>c n. (take k (drop n c), c, min (n + k) (length c))"] by (simp add: ramLfs_def same)
  show "\<exists>l'. fl_seek ramLfs h off l = (True, l') \<and> ramGood l' \<and> ramFiles l' = ramFiles l
      \<and> ramCursor l' h = Some (name, unat off)"
    using on [of "\<lambda>c n. (True, c, unat off)"] by (simp add: ramLfs_def same)
  show "\<exists>l'. fl_write ramLfs h d l = (length d, l') \<and> ramGood l'
      \<and> ramFiles l' = (ramFiles l)(name := Some (overlay n d c)) \<and> ramCursor l' h = Some (name, n + length d)"
    using on [of "\<lambda>c n. (length d, overlay n d c, n + length d)"] by (simp add: ramLfs_def)
  show "fl_size ramLfs h l = word_of_nat (length c)"
    using on [of "\<lambda>c n. (word_of_nat (length c) :: u32, c, n)" "word_of_nat (length c)" c n 0] by (auto simp: ramLfs_def)
qed

section \<open>The device as a directory\<close>

text \<open>The calls of the interface that move bytes, with what their caller learns, over any file system
  and over a map from names to contents.\<close>

datatype file_call =
    ReadFile string | WriteFile string bytes | ReadAt string u64 nat | WriteAt string u64 bytes
  | FileSize string | RemoveFile string | ListFiles | ResizeFile string u64

datatype file_answer = Done bool | Contents "bytes option" | Size "u64 option" | Names "string set"

definition answered :: "('a \<Rightarrow> 'b) \<Rightarrow> status \<times> 'a \<Rightarrow> 'b option" where
  "answered f r = (if ok (fst r) then Some (f (snd r)) else None)"

fun fsCall :: "'w fs_ops \<Rightarrow> file_call \<Rightarrow> 'w \<Rightarrow> file_answer \<times> 'w" where
  "fsCall F (ReadFile n) w = (let (r, w) = fs_readFile F n w in (Contents (answered id r), w))"
| "fsCall F (WriteFile n d) w = (let (st, w) = fs_writeFile F n d w in (Done (ok st), w))"
| "fsCall F (ReadAt n off k) w = (let (r, w) = fs_readAt F n off k w in (Contents (answered id r), w))"
| "fsCall F (WriteAt n off d) w = (let (st, w) = fs_writeAt F n off d w in (Done (ok st), w))"
| "fsCall F (FileSize n) w = (let (r, w) = fs_fileSize F n w in (Size (answered id r), w))"
| "fsCall F (RemoveFile n) w = (let (st, w) = fs_removeFile F n w in (Done (ok st), w))"
| "fsCall F ListFiles w = (let (r, w) = fs_listFiles F w in (Names (if ok (fst r) then set (snd r) else {}), w))"
| "fsCall F (ResizeFile n sz) w = (let (st, w) = fs_resizeFile F n sz w in (Done (ok st), w))"

fun mapCall :: "file_call \<Rightarrow> (string \<Rightarrow> bytes option) \<Rightarrow> file_answer \<times> (string \<Rightarrow> bytes option)" where
  "mapCall (ReadFile n) m = (Contents (m n), m)"
| "mapCall (WriteFile n d) m = (Done True, m(n := Some d))"
| "mapCall (ReadAt n off k) m =
     (Contents (case m n of None \<Rightarrow> None
        | Some c \<Rightarrow> if unat off + k \<le> length c then Some (take k (drop (unat off) c)) else None), m)"
| "mapCall (WriteAt n off d) m =
     (case m n of None \<Rightarrow> (Done False, m) | Some c \<Rightarrow> (Done True, m(n := Some (overlay (unat off) d c))))"
| "mapCall (FileSize n) m = (Size (map_option (\<lambda>c. word_of_nat (length c)) (m n)), m)"
| "mapCall (RemoveFile n) m = (Done (m n \<noteq> None), m(n := None))"
| "mapCall ListFiles m = (Names (dom m), m)"
| "mapCall (ResizeFile n sz) m = (Done True, m(n := Some (deviceResize (unat sz) (m n))))"

text \<open>The calls the contract of the library covers: plain names, files below 4 GB, and offsets inside
  the file.\<close>

fun callName :: "file_call \<Rightarrow> string" where
  "callName (ReadFile n) = n"
| "callName (WriteFile n d) = n"
| "callName (ReadAt n off k) = n"
| "callName (WriteAt n off d) = n"
| "callName (FileSize n) = n"
| "callName (RemoveFile n) = n"
| "callName ListFiles = []"
| "callName (ResizeFile n sz) = n"

fun callOffset :: "file_call \<Rightarrow> nat" where
  "callOffset (ReadAt n off k) = unat off"
| "callOffset (WriteAt n off d) = unat off"
| "callOffset c = 0"

definition callOk :: "file_call \<Rightarrow> (string \<Rightarrow> bytes option) \<Rightarrow> bool" where
  "callOk c m \<longleftrightarrow> CHR ''/'' \<notin> set (callName c)
     \<and> (case m (callName c) of None \<Rightarrow> True | Some d \<Rightarrow> length d < 2 ^ 32 \<and> callOffset c \<le> length d)"

fun runCalls :: "('c \<Rightarrow> 'w \<Rightarrow> 'a \<times> 'w) \<Rightarrow> 'c list \<Rightarrow> 'w \<Rightarrow> 'a list \<times> 'w" where
  "runCalls f [] w = ([], w)"
| "runCalls f (c # cs) w = (let (a, w) = f c w; (as, w) = runCalls f cs w in (a # as, w))"

fun callsOk :: "file_call list \<Rightarrow> (string \<Rightarrow> bytes option) \<Rightarrow> bool" where
  "callsOk [] m \<longleftrightarrow> True"
| "callsOk (c # cs) m \<longleftrightarrow> callOk c m \<and> callsOk cs (snd (mapCall c m))"

context arduino_library
begin

lemma read_missing:
  assumes "good (lfLib w)" and "lfBasePath w = dir" and "CHR ''/'' \<notin> set name" and "files (lfLib w) name = None"
  shows "\<exists>st d l'. lfReadAt L name off n w = ((st, d), w\<lparr>lfLib := l'\<rparr>) \<and> \<not> ok st \<and> good l' \<and> files l' = files (lfLib w)"
    and "\<exists>st l'. lfWriteAt L name off b w = (st, w\<lparr>lfLib := l'\<rparr>) \<and> \<not> ok st \<and> good l' \<and> files l' = files (lfLib w)"
    and "\<exists>st d l'. lfFileSize L name w = ((st, d), w\<lparr>lfLib := l'\<rparr>) \<and> \<not> ok st \<and> good l' \<and> files l' = files (lfLib w)"
  using open_missing [OF assms(1,3,4), of "''r''"] open_missing [OF assms(1,3,4), of "''r+''"] assms(2)
  by (auto simp: lfReadAt_def lfWriteAt_def lfFileSize_def onLfs_def lfPath_def)

lemma fsCall_device:
  assumes g: "good (lfLib w)" and b: "lfBasePath w = dir" and c: "callOk c (files (lfLib w))"
  shows "\<exists>l'. fsCall (littleFs L) c w = (fst (mapCall c (files (lfLib w))), w\<lparr>lfLib := l'\<rparr>) \<and> good l'
    \<and> files l' = snd (mapCall c (files (lfLib w)))"
proof (cases c)
  case (ReadFile n)
  then show ?thesis using lfReadFile_good [OF g b, of n] c
    by (auto simp: callOk_def littleFs_def answered_def split: if_splits)
next
  case (WriteFile n d)
  then show ?thesis using lfWriteFile_good [OF g b, of n d] c by (auto simp: callOk_def littleFs_def)
next
  case (ReadAt n off k)
  then show ?thesis
    using lfReadAt_good [OF g b, of n _ off k] read_missing(1) [OF g b, of n off k] c
    by (cases "files (lfLib w) n") (force simp: callOk_def littleFs_def answered_def)+
next
  case (WriteAt n off d)
  then show ?thesis
    using lfWriteAt_good [OF g b, of n _ off d] read_missing(2) [OF g b, of n off d] c
    by (cases "files (lfLib w) n") (force simp: callOk_def littleFs_def)+
next
  case (FileSize n)
  then show ?thesis
    using lfFileSize_good [OF g b, of n] read_missing(3) [OF g b, of n] c
    by (cases "files (lfLib w) n") (force simp: callOk_def littleFs_def answered_def)+
next
  case (RemoveFile n)
  then show ?thesis using lfRemoveFile_good [OF g b, of n] c by (auto simp: callOk_def littleFs_def)
next
  case ListFiles
  then show ?thesis using lfListFiles_good [OF g b] by (auto simp: littleFs_def)
next
  case (ResizeFile n sz)
  then show ?thesis
    using lfResizeFile_good [OF g b, of n sz] c by (force simp: callOk_def littleFs_def split: option.splits)
qed

lemma runCalls_device:
  assumes "good (lfLib w)" and "lfBasePath w = dir" and "callsOk cs (files (lfLib w))"
  shows "\<exists>w'. runCalls (fsCall (littleFs L)) cs w = (fst (runCalls mapCall cs (files (lfLib w))), w')
    \<and> files (lfLib w') = snd (runCalls mapCall cs (files (lfLib w)))"
  using assms
proof (induction cs arbitrary: w)
  case (Cons c cs)
  obtain a m where m: "mapCall c (files (lfLib w)) = (a, m)" by fastforce
  obtain l' where d: "fsCall (littleFs L) c w = (a, w\<lparr>lfLib := l'\<rparr>)" "good l'" "files l' = m"
    using fsCall_device [OF Cons.prems(1,2), of c] Cons.prems(3) m by auto
  obtain w' where "runCalls (fsCall (littleFs L)) cs (w\<lparr>lfLib := l'\<rparr>) = (fst (runCalls mapCall cs m), w')"
      "files (lfLib w') = snd (runCalls mapCall cs m)"
    using Cons.IH [of "w\<lparr>lfLib := l'\<rparr>"] d Cons.prems m by auto
  then show ?case using d m by (simp add: case_prod_unfold Let_def)
qed simp

end

text \<open>C31. On a library that keeps its contract the file system of the device is a directory: a sequence of
  calls with plain names, on files below 4 GB and at offsets inside them, gives the answers and leaves the
  files of a map from names to contents.  The map says what every call does; \<open>resizeFile\<close> to a smaller
  size leaves zeros.\<close>

theorem device_is_directory:
  assumes "arduino_library L good files cursor listing dir"
    and "good (lfLib w)" and "lfBasePath w = dir" and "callsOk cs (files (lfLib w))"
  shows "\<exists>w'. runCalls (fsCall (littleFs L)) cs w = (fst (runCalls mapCall cs (files (lfLib w))), w')
    \<and> files (lfLib w') = snd (runCalls mapCall cs (files (lfLib w)))"
  by (rule arduino_library.runCalls_device [OF assms])

text \<open>An empty directory in memory.\<close>

definition ramDevice :: "(string \<times> bytes) list \<Rightarrow> ram_disk littlefs" where
  "ramDevice fs = \<lparr>lfLib = \<lparr>rdFiles = fs, rdHandles = (\<lambda>_. None), rdNext = 0\<rparr>, lfMutexes = [],
     lfRegistryLock = None, lfBasePath = ramDir, lfLock = None\<rparr>"

lemma ramDevice_good: "plainNames (map fst fs) \<Longrightarrow> ramGood (lfLib (ramDevice fs))"
  by (simp add: ramDevice_def ramGood_def)

theorem device_is_directory_witness:
  "fst (runCalls (fsCall (littleFs ramLfs))
      [WriteFile ''a'' [1, 2, 3], WriteAt ''a'' 2 [7, 8], ReadAt ''a'' 1 2, ResizeFile ''a'' 2, ReadFile ''a'',
       RemoveFile ''b'', ReadFile ''b''] (ramDevice []))
   = [Done True, Done True, Contents (Some [2, 7]), Done True, Contents (Some [0, 0]), Done False, Contents None]"
  (is "fst (runCalls _ ?cs _) = ?answers")
proof -
  let ?m = "ramFiles (lfLib (ramDevice []))"
  note eval = ramDevice_def ramFiles_def overlay_def deviceResize_def
  have two: "replicate 2 (0 :: u8) = [0, 0]" by (simp add: numeral_2_eq_2)
  have "callsOk ?cs ?m" by (simp add: callOk_def eval)
  moreover have "fst (runCalls mapCall ?cs ?m) = ?answers" by (simp add: eval two)
  ultimately show ?thesis
    using device_is_directory [OF ram.arduino_library_axioms ramDevice_good [of "[]"], of ?cs]
    by (auto simp: plainNames_def ramDevice_def simp del: runCalls.simps callsOk.simps)
qed

section \<open>A torn tail on the device\<close>

lemma segmentName_plain: "CHR ''/'' \<notin> set (segmentName g)"
proof -
  have "''0123456789abcdef'' ! n \<noteq> CHR ''/''" if "n < 16" for n
    using that nth_mem [of n "''0123456789abcdef''"] by (auto simp del: nth_mem)
  then show ?thesis
    using nibble_less by (force simp: segmentName_def kSegmentPrefix_def kSegmentSuffix_def formatGeneration_def)
qed

lemma parseSegmentHeader_zeros: "20 \<le> n \<Longrightarrow> \<not> fst (parseSegmentHeader (take 20 (replicate n 0)) h)"
  by (simp add: parseSegmentHeader_def readU32_def kSegmentMagic_def min_def Let_def split: option.split)

lemma scanSegmentFile_zeros:
  assumes "fs_fileSize F (segmentName g) (world s) = ((st1, word_of_nat n), w1)" "ok st1"
    and "fs_readFile F (segmentName g) w1 = ((st2, replicate n 0), w2)" "ok st2"
    and "20 \<le> n" "n \<le> maxReplayBytes"
  shows "\<exists>st aff' s'. scanSegmentFile F cfg g isLast aff s = Some ((st, aff'), s') \<and> code st = DataCorrupt"
proof -
  obtain h where h: "parseSegmentHeader (take 20 (replicate n 0)) default_segment_header = (False, h)"
    using parseSegmentHeader_zeros [OF assms(5), of default_segment_header] by (metis (full_types) prod.collapse)
  have u: "unat (word_of_nat n :: u64) = n" using assms(6) by (simp add: unat_of_nat)
  have guard: "\<not> (word_of_nat n :: u64) < ucast kSegmentHeaderBytes"
    "\<not> (word_of_nat n :: u64) > kMaxReplaySegmentReadBytes"
    using assms(5,6) by (simp_all add: word_less_nat_alt u kSegmentHeaderBytes_def kMaxReplaySegmentReadBytes_def)
  show ?thesis
    using assms(1-4) guard h by (simp add: scanSegmentFile_def onWorld_def Let_def u kSegmentHeaderBytes_def)
qed

context arduino_library
begin

lemma device_scan_torn:
  assumes g: "good (lfLib (world s))" and b: "lfBasePath (world s) = dir"
    and v: "files (lfLib (world s)) (segmentName gn) = Some buf" and buf: "buf = segBytes (gn, ss, evs) @ t"
    and t: "t \<noteq> []" "tornTail cfg t" and fits: "\<forall>ev \<in> set evs. eventFits cfg ev"
    and len: "length buf \<le> maxReplayBytes" and mr: "maxRecordBytes cfg < 4294967272"
  shows "\<exists>aff' s'. scanSegmentFile (littleFs L) cfg gn True aff s = Some ((success, aff'), s')
    \<and> good (lfLib (world s')) \<and> lfBasePath (world s') = dir
    \<and> files (lfLib (world s')) = (files (lfLib (world s)))
         (segmentName gn := Some (replicate (length (segBytes (gn, ss, evs))) 0))"
proof -
  let ?n = "segmentName gn" and ?k = "length (segBytes (gn, ss, evs))"
  note pn = segmentName_plain [of gn]
  have lb: "length buf < 2 ^ 32" using len by simp
  obtain l1 where s1: "lfFileSize L ?n (world s) = ((success, word_of_nat (length buf)), (world s)\<lparr>lfLib := l1\<rparr>)"
      "good l1" "files l1 = files (lfLib (world s))"
    using lfFileSize_good [OF g b pn v lb] by blast
  let ?w1 = "(world s)\<lparr>lfLib := l1\<rparr>"
  obtain st l2 where s2: "lfReadFile L ?n ?w1 = Some ((st, buf), (world s)\<lparr>lfLib := l2\<rparr>)" "ok st"
      "good l2" "files l2 = files (lfLib (world s))"
    using lfReadFile_good [of ?w1 ?n] s1 b pn v by (auto split: if_splits)
  let ?w2 = "(world s)\<lparr>lfLib := l2\<rparr>"
  have k: "unat (word_of_nat ?k :: u64) = ?k" "?k < length buf"
    using len t(1) by (simp_all add: buf unat_of_nat)
  obtain l3 where s3: "lfResizeFile L ?n (word_of_nat ?k) ?w2 = Some (success, (world s)\<lparr>lfLib := l3\<rparr>)" "good l3"
      "files l3 = (files (lfLib (world s)))(?n := Some (replicate ?k 0))"
    using lfResizeFile_good [of ?w2 ?n "word_of_nat ?k"] s2 b pn v lb k by (auto simp: deviceResize_def)
  let ?sc = "scanEvents gn True evs \<lparr>scOffset = kSegmentHeaderBytes, scLastGood = kSegmentHeaderBytes,
    scRecords = records s, scNextSequence = nextSequence s, scAffected = aff\<rparr>"
  have fs: "fs_fileSize (littleFs L) ?n (world s) = ((success, word_of_nat (length buf)), ?w1)"
    "fs_readFile (littleFs L) ?n ?w1 = ((st, buf), ?w2)"
    "fs_resizeFile (littleFs L) ?n (word_of_nat ?k) ?w2 = (success, (world s)\<lparr>lfLib := l3\<rparr>)"
    using s1(1) s2(1) s3(1) by (simp_all add: littleFs_def)
  obtain em where "scanSegmentFile (littleFs L) cfg gn True aff s = Some ((success, scAffected ?sc),
      s\<lparr>world := (if t = [] then ?w2 else (world s)\<lparr>lfLib := l3\<rparr>), records := scRecords ?sc,
        nextSequence := scNextSequence ?sc, activeGeneration := gn, activeSegmentBytes := scOffset ?sc, emitted := em\<rparr>)"
    using scanSegmentFile_steps(1) [where s = s and isLast = True,
        OF fs(1) _ fs(2) s2(2) fs(3) buf fits t(2) _ len mr refl] by auto
  then show ?thesis using s3 b t(1) by auto
qed

lemma device_scan_zeros:
  assumes g: "good (lfLib (world s))" and b: "lfBasePath (world s) = dir"
    and v: "files (lfLib (world s)) (segmentName gn) = Some (replicate n 0)"
    and n: "20 \<le> n" "n \<le> maxReplayBytes"
  shows "\<exists>st aff' s'. scanSegmentFile (littleFs L) cfg gn isLast aff s = Some ((st, aff'), s') \<and> code st = DataCorrupt"
proof -
  note pn = segmentName_plain [of gn]
  obtain l1 where s1: "lfFileSize L (segmentName gn) (world s) = ((success, word_of_nat n), (world s)\<lparr>lfLib := l1\<rparr>)"
      "good l1" "files l1 = files (lfLib (world s))"
    using lfFileSize_good [OF g b pn v] n by auto
  obtain st l2 where s2: "lfReadFile L (segmentName gn) ((world s)\<lparr>lfLib := l1\<rparr>)
      = Some ((st, replicate n 0), (world s)\<lparr>lfLib := l2\<rparr>)" "ok st"
    using lfReadFile_good [of "(world s)\<lparr>lfLib := l1\<rparr>" "segmentName gn"] s1 b pn v by (auto split: if_splits)
  have fs: "fs_fileSize (littleFs L) (segmentName gn) (world s) = ((success, word_of_nat n), (world s)\<lparr>lfLib := l1\<rparr>)"
    "fs_readFile (littleFs L) (segmentName gn) ((world s)\<lparr>lfLib := l1\<rparr>)
      = ((st, replicate n 0), (world s)\<lparr>lfLib := l2\<rparr>)"
    using s1(1) s2(1) by (simp_all add: littleFs_def)
  show ?thesis by (rule scanSegmentFile_zeros [OF fs(1) _ fs(2) s2(2) n]) simp
qed

end

text \<open>C32. On the device a crash in the middle of an append costs the whole active segment: scanning a segment
  whose last event is torn reports success, so that the mount goes on, but cutting the tail off replaces
  every byte of the segment by zero, and any later scan of it, the one of the next start, fails with
  \<open>DataCorrupt\<close>.\<close>

theorem device_loses_torn_segment:
  assumes "arduino_library L good files cursor listing dir"
    and "good (lfLib (world s))" and "lfBasePath (world s) = dir"
    and "files (lfLib (world s)) (segmentName g) = Some (segBytes (g, ss, evs) @ t)"
    and "t \<noteq> []" and "tornTail cfg t" and "list_all (eventFits cfg) evs"
    and "length (segBytes (g, ss, evs) @ t) \<le> maxReplayBytes" and "maxRecordBytes cfg < 4294967272"
  shows "\<exists>aff' s'. scanSegmentFile (littleFs L) cfg g True aff s = Some ((success, aff'), s')
    \<and> files (lfLib (world s')) = (files (lfLib (world s)))
         (segmentName g := Some (replicate (length (segBytes (g, ss, evs))) 0))
    \<and> (\<exists>st aff2 s2. scanSegmentFile (littleFs L) cfg g isLast aff1 (newStore (world s')) = Some ((st, aff2), s2)
         \<and> code st = DataCorrupt)"
proof -
  let ?n = "length (segBytes (g, ss, evs))"
  obtain aff' s' where s': "scanSegmentFile (littleFs L) cfg g True aff s = Some ((success, aff'), s')"
      "good (lfLib (world s'))" "lfBasePath (world s') = dir"
      "files (lfLib (world s')) = (files (lfLib (world s)))(segmentName g := Some (replicate ?n 0))"
    using arduino_library.device_scan_torn [OF assms(1-4) refl assms(5,6)
        assms(7) [unfolded list_all_iff] assms(8,9)] by blast
  have "20 \<le> ?n" "?n \<le> maxReplayBytes" using assms(8) by (simp_all add: length_segBytes)
  then show ?thesis
    using arduino_library.device_scan_zeros [OF assms(1), of "newStore (world s')" g ?n] s'
    by (auto simp: newStore_def)
qed

text \<open>A segment with one record, and a pop that was cut off after five bytes.\<close>

definition tornDevice :: "ram_disk littlefs store" where
  "tornDevice = newStore (ramDevice
     [(segmentName 1, segBytes (1, 0, [LogEnqueue 0 [1, 2]]) @ take 5 (encodeEvent (LogPop 0)))])"

theorem device_loses_torn_segment_witness:
  "\<exists>aff' s'. scanSegmentFile (littleFs ramLfs) default_append_log_config 1 True {} tornDevice = Some ((success, aff'), s')
    \<and> ramFiles (lfLib (world s')) = [segmentName 1 \<mapsto> replicate 46 0]
    \<and> (\<exists>st aff2 s2. scanSegmentFile (littleFs ramLfs) default_append_log_config 1 True {} (newStore (world s'))
         = Some ((st, aff2), s2) \<and> code st = DataCorrupt)"
proof -
  let ?evs = "[LogEnqueue 0 [1, 2]]" and ?t = "take 5 (encodeEvent (LogPop 0))"
  have n: "length (segBytes (1, 0, ?evs)) = 46" by (simp add: length_segBytes segEvents_def del: encodeEvent.simps)
  have "tornTail default_append_log_config ?t"
    unfolding tornTail_def tornEvent_def by (intro disjI1 exI [of _ "LogPop 0"] exI [of _ 5]) simp
  moreover have "length ?t = 5" by simp
  moreover from this have "?t \<noteq> []" by (metis length_0_conv zero_neq_numeral)
  moreover have "ramGood (lfLib (world tornDevice))" "lfBasePath (world tornDevice) = ramDir"
      "ramFiles (lfLib (world tornDevice)) = [segmentName 1 \<mapsto> segBytes (1, 0, ?evs) @ ?t]"
    using ramDevice_good [of "[(segmentName 1, segBytes (1, 0, ?evs) @ ?t)]"]
    by (auto simp: tornDevice_def newStore_def plainNames_def segmentName_plain ramDevice_def ramFiles_def)
  ultimately show ?thesis
    using device_loses_torn_segment [OF ram.arduino_library_axioms, of tornDevice 1 0 ?evs ?t
        default_append_log_config "{}" True "{}"] n
    by (simp add: default_append_log_config_def)
qed

end
