(* ===== verification/Command_Line_Tools.thy ===== *)
theory Command_Line_Tools
  imports Queue_API Diagnostics Dump_Protocol Posix_File_System
begin

text \<open>
  The command-line tools a user of a spool directory runs: \<open>pqueue_repair_tool.cpp\<close>,
  \<open>pqueue_appendlog_diag.cpp\<close> and \<open>pqueue_doctor_dump_posix.cpp\<close>.  The command line is parsed by the
  CLI11 library; the result of its \<open>parse\<close> is an argument of each \<open>main\<close>: the exit code and texts of
  \<open>app.exit\<close>, or the options.  A run returns its exit code, what it printed to \<open>cout\<close> and to \<open>cerr\<close>,
  and the directory it leaves.  The lock contents of the process are an argument.
\<close>

section \<open>Running a queue in a process of its own\<close>

type_synonym tool_run = "(int \<times> string \<times> string) \<times> posix_world"

text \<open>\<open>Queue queue(config)\<close> makes a new POSIX file system object; at the end of its scope the lock is released.\<close>

definition withToolQueue ::
  "queue_config \<Rightarrow> bytes
     \<Rightarrow> (posix_world store store_ops \<Rightarrow> queue_config \<Rightarrow> posix_world store queue
         \<Rightarrow> ('a \<times> posix_world store queue) option)
     \<Rightarrow> posix_world \<Rightarrow> ('a \<times> posix_world) option" where
  "withToolQueue c owner f w =
     (let S = appendLogOps posixFs (storeConfig c);
          q = newQueue owner (newStore (w\<lparr>pwLockMounted := False\<rparr>))
      in do {
        (r, q) \<leftarrow> f S c q;
        Some (r, world (quStore (releaseLock S q)))
      })"

definition toolYesNo :: "bool \<Rightarrow> string" where
  "toolYesNo value = (if value then ''yes'' else ''no'')"

text \<open>\<open>ValidationOptions\<close> keeps its default.\<close>

definition toolMaxErrors :: validation_options where "toolMaxErrors = 100"

section \<open>The repair tool\<close>

fun repairActionHuman :: "repair_action \<Rightarrow> string" where
  "repairActionHuman RepairNone = ''none''"
| "repairActionHuman RepairFormat = ''format queue''"
| "repairActionHuman DropFrontIfCorrupt = ''drop corrupt front record''"

definition statusText :: "status \<Rightarrow> string" where
  "statusText st = ''status: '' @ statusCodeName (code st) @ lf @ ''message: '' @ message st @ lf"

definition printFormatStatus :: "status \<Rightarrow> int \<times> string" where
  "printFormatStatus st =
     (if ok st then (0, ''Queue formatted.'' @ lf)
      else (2, ''Format failed.'' @ lf @ statusText st))"

definition printDropFrontStatus :: "status \<Rightarrow> int \<times> string" where
  "printDropFrontStatus st =
     (if ok st then (0, ''Front record was corrupt and was dropped.'' @ lf)
      else if code st = QueueEmpty then (0, ''Queue is empty.'' @ lf @ ''Nothing to drop.'' @ lf)
      else if code st = InvalidArgument \<and> message st = ''front record is not corrupt''
      then (0, ''Front record is readable.'' @ lf @ ''Nothing to drop.'' @ lf)
      else (2, ''Could not drop front record.'' @ lf @ statusText st))"

definition repairIssueText :: "nat \<times> validation_issue \<Rightarrow> string" where
  "repairIssueText = (\<lambda>(i, issue).
     lf @ ''Issue '' @ decimal (i + 1) @ '':'' @ lf
     @ ''  code: '' @ validationIssueCodeName (viCode issue) @ lf
     @ ''  message: '' @ viMessage issue @ lf
     @ ''  repair hint: '' @ repairActionHuman (repairAction issue) @ lf
     @ (if hasRecordIndex issue then ''  record: '' @ decimal (unat (recordIndex issue)) @ lf else [])
     @ (if hasExpectedSequence issue
        then ''  expected sequence: '' @ decimal (unat (expectedSequence issue)) @ lf else [])
     @ (if hasActualSequence issue
        then ''  actual sequence: '' @ decimal (unat (actualSequence issue)) @ lf else []))"

definition repairValidationText :: "validation_result \<Rightarrow> int \<times> string" where
  "repairValidationText validation =
     (let text = (if vrOk validation then ''Validation OK'' else ''Validation failed'') @ lf
            @ ''records checked: '' @ decimal (unat (checkedRecords validation)) @ lf
            @ ''stopped early: '' @ toolYesNo (stoppedEarly validation) @ lf
            @ ''errors: '' @ decimal (length (vrErrors validation)) @ lf
      in if vrErrors validation = [] then (0, text @ ''repair hint: none'' @ lf)
         else (1, text @ concat (map repairIssueText (enumerate 0 (vrErrors validation)))))"

definition printRecoverStatus :: "status \<Rightarrow> int \<times> string" where
  "printRecoverStatus st =
     (if isNoOp st
      then (0, ''Not applicable: lock backend has no persistent state (ESP32/LittleFS or lock file absent).'' @ lf)
      else if ok st then (0, ''Stale lock removed.'' @ lf)
      else if code st = LockTimeout
      then (1, ''Lock is not stale (held by current boot).'' @ lf @ ''message: '' @ message st @ lf)
      else (2, ''Failed to recover stale lock.'' @ lf @ statusText st))"

datatype repair_command =
    CommandNone | CommandValidate | CommandFormat | CommandDropFrontIfCorrupt | CommandRecoverStaleLock

text \<open>What a subcommand prints goes to \<open>cout\<close>.\<close>

definition toolRun :: "('a \<Rightarrow> int \<times> string) \<Rightarrow> 'a \<times> posix_world \<Rightarrow> tool_run" where
  "toolRun f = (\<lambda>(r, w). let (exit, out) = f r in ((exit, out, []), w))"

definition repairMain ::
  "(int \<times> string \<times> string) + (queue_config \<times> repair_command) \<Rightarrow> bytes \<Rightarrow> posix_world \<Rightarrow> tool_run option" where
  "repairMain parsed owner w =
     (case parsed of
        Inl e \<Rightarrow> Some (e, w)
      | Inr (config, command) \<Rightarrow>
          (case command of
             CommandValidate \<Rightarrow> map_option (toolRun repairValidationText)
               (withToolQueue config owner (\<lambda>S c. queueValidate S c toolMaxErrors) w)
           | CommandFormat \<Rightarrow> map_option (toolRun printFormatStatus) (withToolQueue config owner queueFormat w)
           | CommandDropFrontIfCorrupt \<Rightarrow>
               map_option (toolRun printDropFrontStatus) (withToolQueue config owner dropFrontIfCorrupt w)
           | CommandRecoverStaleLock \<Rightarrow>
               map_option (toolRun printRecoverStatus) (withToolQueue config owner recoverStaleLock w)
           | CommandNone \<Rightarrow> Some ((2, [], ''no command selected'' @ lf), w)))"

section \<open>The diagnostic tool\<close>

fun issueCodeName :: "issue_code \<Rightarrow> string" where
  "issueCodeName InvalidConfig = ''invalid_config''"
| "issueCodeName MetadataCorrupt = ''metadata_corrupt''"
| "issueCodeName JournalCorrupt = ''journal_corrupt''"
| "issueCodeName ConfigMismatch = ''config_mismatch''"
| "issueCodeName RecordCrcMismatch = ''record_crc_mismatch''"
| "issueCodeName QueueLoadFailed = ''queue_load_failed''"
| "issueCodeName QueueIndexMismatch = ''queue_index_mismatch''"
| "issueCodeName OutboxEnvelopeInvalid = ''outbox_envelope_invalid''"
| "issueCodeName HttpRequestEnvelopeInvalid = ''http_request_envelope_invalid''"

fun repairActionName :: "repair_action \<Rightarrow> string" where
  "repairActionName RepairNone = ''none''"
| "repairActionName RepairFormat = ''format queue''"
| "repairActionName DropFrontIfCorrupt = ''drop corrupt front record''"

text \<open>\<open>hex8\<close> streams with \<open>std::hex\<close>, width 8 and fill 0.\<close>

definition hex8 :: "u32 \<Rightarrow> string" where
  "hex8 v = map (\<lambda>i. ''0123456789abcdef'' ! (unat v div 16 ^ i mod 16)) (rev [0..<8])"

text \<open>\<open>std::left << std::setw(12)\<close>.\<close>

definition setw12 :: "string \<Rightarrow> string" where
  "setw12 s = s @ replicate (12 - length s) (CHR 0x20)"

definition printSlot :: "string \<Rightarrow> slot_diagnostic \<Rightarrow> string" where
  "printSlot label s =
     label @ '': present='' @ toolYesNo (sdExists s) @ ''  valid='' @ toolYesNo (sdValid s)
     @ (if sdValid s then ''  epoch='' @ decimal (unat (sdEpoch s)) else []) @ lf"

definition winnerLabel :: "store_diagnostic \<Rightarrow> string" where
  "winnerLabel d =
     (if sdValid (dgSlotA d) \<and> sdValid (dgSlotB d)
      then if sdEpoch (dgSlotB d) > sdEpoch (dgSlotA d) then ''slot B'' else ''slot A''
      else if sdValid (dgSlotA d) then ''slot A'' else ''slot B'')"

definition diagRangeText :: "nat \<times> manifest_range \<Rightarrow> string" where
  "diagRangeText = (\<lambda>(i, r).
     let span = (ucast (endGen r) - ucast (startGen r) + 1 :: u64) in
     ''  ['' @ decimal (i + 1) @ ''] gen '' @ hex8 (startGen r) @ ''..'' @ hex8 (endGen r)
     @ '' ('' @ decimal (unat span) @ '' segment'' @ (if span = 1 then [] else ''s'') @ '')'' @ lf)"

definition diagSegmentText :: "segment_diagnostic \<Rightarrow> string" where
  "diagSegmentText seg =
     (let status = (if \<not> sgReferenced seg then ''dangling'' else if sgIsTail seg then ''tail'' else ''sealed'')
      in setw12 (hex8 (sgGeneration seg)) @ setw12 (decimal (unat (sgSizeBytes seg))) @ status @ lf)"

definition printDiagnostic :: "store_diagnostic \<Rightarrow> string" where
  "printDiagnostic d =
     ''=== AppendLog Diagnostic ==='' @ lf @ ''base path : '' @ dgBasePath d @ lf
     @ ''free bytes: '' @ decimal (unat (dgFreeBytes d)) @ lf @ lf
     @ ''--- Manifest Slots ---'' @ lf
     @ printSlot ''slot A'' (dgSlotA d) @ printSlot ''slot B'' (dgSlotB d)
     @ (if \<not> dgHasWinner d then ''winner: none'' @ lf @ lf
        else ''winner: '' @ winnerLabel d @ ''  epoch='' @ decimal (unat (dgWinnerEpoch d)) @ lf @ lf
          @ ''--- Manifest Contents ---'' @ lf
          @ ''ranges        : '' @ decimal (length (dgRanges d)) @ lf
          @ concat (map diagRangeText (enumerate 0 (dgRanges d)))
          @ ''tail generation: '' @ hex8 (dgTailGeneration d)
          @ (if dgTailGeneration d = 0 then '' (none)'' else []) @ lf
          @ ''next generation: '' @ hex8 (dgNextGeneration d) @ lf @ lf)
     @ (if \<not> ok (dgListStatus d)
        then ''WARNING: file listing failed: '' @ statusCodeName (code (dgListStatus d)) @ '': ''
             @ message (dgListStatus d) @ lf
        else [])
     @ ''--- Segments on Disk ---'' @ lf @ setw12 ''generation'' @ setw12 ''size'' @ ''status'' @ lf
     @ concat (map diagSegmentText (dgSegments d))
     @ (if dgSegments d = [] then ''(none)'' @ lf else [])
     @ ''dangling: '' @ decimal (dgDanglingSegments d) @ lf"

definition diagIssueText :: "nat \<times> validation_issue \<Rightarrow> string" where
  "diagIssueText = (\<lambda>(i, issue).
     lf @ ''Issue '' @ decimal (i + 1) @ '':'' @ lf
     @ ''  code        : '' @ issueCodeName (viCode issue) @ lf
     @ ''  message     : '' @ viMessage issue @ lf
     @ ''  repair hint : '' @ repairActionName (repairAction issue) @ lf)"

definition diagValidationText :: "validation_result \<Rightarrow> int \<times> string" where
  "diagValidationText val =
     (if vrOk val then 0 else 1,
      lf @ ''--- Validation ---'' @ lf @ (if vrOk val then ''OK'' else ''FAILED'') @ lf
      @ ''records checked: '' @ decimal (unat (checkedRecords val)) @ lf
      @ ''stopped early  : '' @ toolYesNo (stoppedEarly val) @ lf
      @ ''errors         : '' @ decimal (length (vrErrors val)) @ lf
      @ concat (map diagIssueText (enumerate 0 (vrErrors val))))"

text \<open>Both \<open>runValidation\<close> and \<open>runFormat\<close> set only the base path and keep the other defaults of \<open>Config\<close>.\<close>

definition diagConfig :: "string \<Rightarrow> queue_config" where
  "diagConfig base = default_queue_config\<lparr>qcBasePath := base\<rparr>"

definition runValidation :: "string \<Rightarrow> bytes \<Rightarrow> posix_world \<Rightarrow> ((int \<times> string) \<times> posix_world) option" where
  "runValidation base owner w =
     map_option (\<lambda>(val, w). (diagValidationText val, w))
       (withToolQueue (diagConfig base) owner (\<lambda>S c. queueValidate S c toolMaxErrors) w)"

definition runFormat :: "string \<Rightarrow> bytes \<Rightarrow> posix_world \<Rightarrow> ((int \<times> string) \<times> posix_world) option" where
  "runFormat base owner w =
     map_option (\<lambda>(st, w).
         (if ok st then (0, ''Queue formatted.'' @ lf)
          else (2, ''Format failed: '' @ statusCodeName (code st) @ '': '' @ message st @ lf), w))
       (withToolQueue (diagConfig base) owner queueFormat w)"

definition diagMain ::
  "(int \<times> string \<times> string) + (string \<times> bool) \<Rightarrow> bytes \<Rightarrow> posix_world \<Rightarrow> tool_run option" where
  "diagMain parsed owner w =
     (case parsed of
        Inl e \<Rightarrow> Some (e, w)
      | Inr (base, doFormat) \<Rightarrow>
          if doFormat then map_option (toolRun id) (runFormat base owner w)
          else do {
            let (d, w) = diagnoseAppendLogStore posixFs (default_append_log_config\<lparr>basePath := base\<rparr>)
                           (w\<lparr>pwLockMounted := False\<rparr>);
            ((exit, out), w) \<leftarrow> runValidation base owner w;
            Some ((exit, printDiagnostic d @ out, []), w)
          })"

section \<open>The dump tool\<close>

definition dumpMain ::
  "(int \<times> string \<times> string) + (string \<times> string) \<Rightarrow> posix_world \<Rightarrow> tool_run" where
  "dumpMain parsed w =
     (case parsed of
        Inl e \<Rightarrow> (e, w)
      | Inr (base, fileName) \<Rightarrow>
          let (st, w) = fs_mount posixFs base (w\<lparr>pwLockMounted := False\<rparr>) in
          if \<not> ok st
          then ((1, [], ''mount failed: '' @ statusCodeName (code st) @ '': '' @ message st @ lf), w)
          else if fileName \<noteq> []
          then let ((good, out), w) = dumpFile posixFs fileName w
               in ((if good then 0 else 1, concat out, []), w)
          else let (out, w) = dumpAll posixFs w in ((0, concat out, []), w))"

end
