(* ===== verification/Validation_Correct.thy ===== *)
theory Validation_Correct
  imports Store_Validation Compaction_Correct
begin

text \<open>
  What \<open>validateUnlocked\<close> finds: its event checks make the same decisions as the scan of \<open>mount\<close>,
  although they read the file piece by piece instead of as a whole; and on a directory that holds a log
  it reports nothing, counts the events and changes no file.
\<close>

section \<open>Events\<close>

text \<open>The result of a validation step that corresponds to a step of the mounting scan.\<close>

fun exitMatches :: "scan_step \<Rightarrow> scan_exit + u32 \<Rightarrow> bool" where
  "exitMatches (ScanStop corrupt) r \<longleftrightarrow>
     (if corrupt then \<exists>why. r = Inl (ScanCorrupt why) else r = Inl ScanTorn)"
| "exitMatches (ScanNext st) r \<longleftrightarrow> r = Inr (scOffset st)"

lemma overhead_bytes: "kEnqueueHeaderBytes + n + kEventTrailerBytes = kEnqueueOverheadBytes + n"
  by (simp add: kEnqueueHeaderBytes_def kEventTrailerBytes_def kEnqueueOverheadBytes_def)

lemma unat_overhead: "unat n < 4294967272 \<Longrightarrow> unat (kEnqueueOverheadBytes + n) = 24 + unat n"
  by (simp add: kEnqueueOverheadBytes_def kEnqueueHeaderBytes_def kEventTrailerBytes_def unat_word_ariths)

context file_system
begin

lemma healthy_readAt:
  assumes "healthy w" and "view w name = Some c" and "unat off + n \<le> length c"
  shows "\<exists>st w'. fs_readAt F name off n w = ((st, take n (drop (unat off) c)), w') \<and> ok st \<and> healthy w'
    \<and> view w' = view w"
proof -
  obtain st d w' where e: "fs_readAt F name off n w = ((st, d), w')" by (metis prod.collapse)
  show ?thesis using e readAt_healthy [OF assms(1) e] readAt_view [OF e] assms(2,3) by auto
qed

lemma validateRecordEvent_scan:
  assumes h: "healthy (world s)" and v: "view (world s) name = Some buf" and len: "length buf = unat fileSize"
    and off: "unat (scOffset st) \<le> length buf" and mr: "maxRecordBytes cfg < 4294967272"
    and rem: "remaining = fileSize - scOffset st"
  shows "\<exists>r w. validateRecordEvent F cfg name remaining (scOffset st) hb s = (r, s\<lparr>world := w\<rparr>) \<and> healthy w
    \<and> view w = view (world s) \<and> exitMatches (scanEnqueueOrRewrite cfg gen isLast buf remaining hb st) r"
proof -
  obtain p eh where ph: "parseEnqueueHeader hb default_enqueue_header = (p, eh)" by fastforce
  define n where "n = ehPayloadBytes eh"
  note defs = validateRecordEvent_def scanEnqueueOrRewrite_def Let_def ph overhead_bytes n_def [symmetric]
  show ?thesis
  proof (cases "min remaining kEnqueueHeaderBytes < kEnqueueHeaderBytes \<or> \<not> p \<or> unat n > maxRecordBytes cfg
      \<or> kEnqueueOverheadBytes + n > remaining")
    case True
    define r :: "scan_exit + u32" where
      "r = Inl (if min remaining kEnqueueHeaderBytes < kEnqueueHeaderBytes then ScanTorn
         else if \<not> p then ScanCorrupt ''bad enqueue header''
         else if unat n > maxRecordBytes cfg then ScanCorrupt ''payload exceeds max record size'' else ScanTorn)"
    have "validateRecordEvent F cfg name remaining (scOffset st) hb s = (r, s)"
      using True by (auto simp: defs r_def)
    moreover have "exitMatches (scanEnqueueOrRewrite cfg gen isLast buf remaining hb st) r"
      using True by (auto simp: defs r_def)
    ultimately show ?thesis using h by (intro exI [of _ r] exI [of _ "world s"]) simp
  next
    case False
    have nb: "unat n < 4294967272" using False mr by simp
    have u24: "unat (kEnqueueOverheadBytes + n) = 24 + unat n"
      by (rule unat_overhead [OF nb])
    have rb: "unat remaining = length buf - unat (scOffset st)"
      using off len by (simp add: rem unat_sub_if')
    have le: "24 + unat n \<le> length buf - unat (scOffset st)"
      using False u24 rb by (simp add: word_less_nat_alt not_less)
    have fb: "unat (scOffset st) + 24 + unat n \<le> unat fileSize" using le len by simp
    note b = u32_bound [of fileSize]
    have u8: "unat (n + kEventTrailerBytes) = unat n + 8"
      using nb by (simp add: kEventTrailerBytes_def unat_word_ariths)
    have u16: "unat (scOffset st + kEnqueueHeaderBytes) = unat (scOffset st) + 16"
      using fb b by (simp add: kEnqueueHeaderBytes_def unat_word_ariths)
    have uc: "unat (ucast (scOffset st + kEnqueueHeaderBytes) :: u64) = unat (scOffset st) + 16"
      using u16 u32_bound [of "scOffset st + kEnqueueHeaderBytes"]
      by (simp add: unsigned_ucast_eq take_bit_nat_eq_self)
    define d where "d = take (unat n + 8) (drop (unat (scOffset st) + 16) buf)"
    have ld: "length d = unat n + 8" using le by (simp add: d_def)
    obtain st1 w where r: "fs_readAt F name (ucast (scOffset st + kEnqueueHeaderBytes)) (unat n + 8) (world s)
        = ((st1, d), w)" "ok st1" "healthy w" "view w = view (world s)"
      using healthy_readAt [OF h v, of "ucast (scOffset st + kEnqueueHeaderBytes)" "unat n + 8"] fb len
      by (auto simp: uc d_def)
    define x :: "scan_exit + u32" where
      "x = (if readLE32 d (unat n) \<noteq> enqueueEventCrc eh (take (unat n) d) \<or> readLE32 d (unat (n + 4)) \<noteq> kFooterMagic
         then Inl (ScanCorrupt ''CRC or footer mismatch'') else Inr (scOffset st + (kEnqueueOverheadBytes + n)))"
    have "validateRecordEvent F cfg name remaining (scOffset st) hb s = (x, s\<lparr>world := w\<rparr>)"
      using False r ld by (simp add: defs onWorld_def u8 x_def)
    moreover have "exitMatches (scanEnqueueOrRewrite cfg gen isLast buf remaining hb st) x"
      using False ld le by (simp add: defs u8 u16 d_def [symmetric] x_def case_prod_unfold)
    ultimately show ?thesis using r by blast
  qed
qed

lemma validatePopEvent_scan:
  assumes h: "healthy (world s)" and v: "view (world s) name = Some buf" and len: "length buf = unat fileSize"
    and off: "unat (scOffset st) \<le> length buf" and rem: "remaining = fileSize - scOffset st"
  shows "\<exists>r w. validatePopEvent F name remaining (scOffset st) s = (r, s\<lparr>world := w\<rparr>) \<and> healthy w
    \<and> view w = view (world s) \<and> exitMatches (scanPop isLast buf remaining st) r"
proof (cases "remaining < kPopEventBytes")
  case True
  then show ?thesis using h
    by (intro exI [of _ "Inl ScanTorn"] exI [of _ "world s"]) (simp add: validatePopEvent_def scanPop_def)
next
  case False
  have "unat remaining = length buf - unat (scOffset st)" using off len by (simp add: rem unat_sub_if')
  then have le: "unat (scOffset st) + unat kPopEventBytes \<le> length buf"
    using False off by (simp add: word_less_nat_alt not_less)
  have uc: "unat (ucast (scOffset st) :: u64) = unat (scOffset st)"
    using u32_bound [of "scOffset st"] by (simp add: unsigned_ucast_eq take_bit_nat_eq_self)
  obtain st1 w where r: "fs_readAt F name (ucast (scOffset st)) (unat kPopEventBytes) (world s)
      = ((st1, take (unat kPopEventBytes) (drop (unat (scOffset st)) buf)), w)" "ok st1" "healthy w"
      "view w = view (world s)"
    using healthy_readAt [OF h v, of "ucast (scOffset st)" "unat kPopEventBytes"] le by (auto simp: uc)
  obtain p pe where pe: "parsePopEvent (take (unat kPopEventBytes) (drop (unat (scOffset st)) buf)) default_pop_event
      = (p, pe)" by fastforce
  show ?thesis
    by (intro exI [of _ "if p then Inr (scOffset st + kPopEventBytes) else Inl (ScanCorrupt ''bad pop event'')"]
        exI [of _ w])
      (use False r pe in \<open>simp add: validatePopEvent_def scanPop_def onWorld_def Let_def case_prod_unfold\<close>)
qed

lemma validateEvent_scan:
  assumes h: "healthy (world s)" and v: "view (world s) name = Some buf" and len: "length buf = unat fileSize"
    and off: "unat (scOffset st) \<le> length buf" and mr: "maxRecordBytes cfg < 4294967272"
  shows "\<exists>r w. validateEvent F cfg name fileSize (scOffset st) s = (r, s\<lparr>world := w\<rparr>) \<and> healthy w
    \<and> view w = view (world s) \<and> exitMatches (scanStep cfg gen isLast buf fileSize st) r"
proof (cases "fileSize - scOffset st < 4")
  case True
  then show ?thesis using h
    by (intro exI [of _ "Inl ScanTorn"] exI [of _ "world s"]) (simp add: validateEvent_def scanStep_def Let_def)
next
  case False
  define rem where "rem = fileSize - scOffset st"
  define k where "k = min rem kEnqueueHeaderBytes"
  have "unat rem = length buf - unat (scOffset st)" using off len by (simp add: rem_def unat_sub_if')
  moreover have "unat k \<le> unat rem" by (simp add: k_def min_def word_le_nat_alt)
  ultimately have le: "unat (scOffset st) + unat k \<le> length buf" using off by simp
  have uc: "unat (ucast (scOffset st) :: u64) = unat (scOffset st)"
    using u32_bound [of "scOffset st"] by (simp add: unsigned_ucast_eq take_bit_nat_eq_self)
  define hb where "hb = take (unat k) (drop (unat (scOffset st)) buf)"
  obtain st1 w where r: "fs_readAt F name (ucast (scOffset st)) (unat k) (world s) = ((st1, hb), w)" "ok st1"
      "healthy w" "view w = view (world s)"
    using healthy_readAt [OF h v, of "ucast (scOffset st)" "unat k"] le by (auto simp: uc hb_def)
  let ?s = "s\<lparr>world := w\<rparr>"
  have s1: "healthy (world ?s)" "view (world ?s) name = Some buf" using r v by simp_all
  note recd = validateRecordEvent_scan [OF s1 len off mr rem_def, of hb gen isLast]
    and pop = validatePopEvent_scan [OF s1 len off rem_def, of isLast]
  have V: "validateEvent F cfg name fileSize (scOffset st) s =
    (if length hb < 4 then (Inl ScanTorn, ?s)
     else if readLE32 hb 0 = kEnqueueMagic \<or> readLE32 hb 0 = kRewriteMagic
     then validateRecordEvent F cfg name rem (scOffset st) hb ?s
     else if readLE32 hb 0 = kPopMagic then validatePopEvent F name rem (scOffset st) ?s
     else (Inl (ScanCorrupt ''unknown event magic''), ?s))"
    using False r by (simp add: validateEvent_def Let_def onWorld_def rem_def [symmetric] k_def [symmetric])
  have S: "scanStep cfg gen isLast buf fileSize st =
    (if length hb < 4 then ScanStop False
     else if readLE32 hb 0 = kEnqueueMagic \<or> readLE32 hb 0 = kRewriteMagic
     then scanEnqueueOrRewrite cfg gen isLast buf rem hb st
     else if readLE32 hb 0 = kPopMagic then scanPop isLast buf rem st else ScanStop True)"
    using False by (simp add: scanStep_def Let_def rem_def [symmetric] k_def [symmetric] hb_def)
  show ?thesis
  proof (cases "length hb < 4 \<or> readLE32 hb 0 \<notin> {kEnqueueMagic, kRewriteMagic, kPopMagic}")
    case True
    then show ?thesis unfolding V S using r by auto
  next
    case False
    then show ?thesis unfolding V S using recd pop r(4) by auto
  qed
qed

end

section \<open>The loop over one segment\<close>

text \<open>A step of the scan goes forward and stays inside the file, so the scan of a segment ends.\<close>

lemma scanStep_progress:
  assumes n: "scanStep cfg gen isLast buf fileSize st = ScanNext st'"
    and off: "scOffset st < fileSize" and mr: "maxRecordBytes cfg < 4294967272"
  shows "scOffset st < scOffset st' \<and> scOffset st' \<le> fileSize"
proof -
  define rem where "rem = fileSize - scOffset st"
  have fwd: "scOffset st < scOffset st + k \<and> scOffset st + k \<le> fileSize" if "k \<noteq> 0" "k \<le> rem" for k
  proof -
    have "unat rem = unat fileSize - unat (scOffset st)"
      using off by (simp add: rem_def unat_sub_if' word_less_nat_alt)
    then have "unat (scOffset st) + unat k \<le> unat fileSize" "0 < unat k"
      using that off by (simp_all add: word_le_nat_alt word_less_nat_alt unat_gt_0)
    moreover from this have "unat (scOffset st + k) = unat (scOffset st) + unat k"
      using u32_bound [of fileSize] by (simp add: unat_word_ariths)
    ultimately show ?thesis by (simp add: word_le_nat_alt word_less_nat_alt)
  qed
  have nz: "kEnqueueOverheadBytes + k \<noteq> 0" if "unat k \<le> maxRecordBytes cfg" for k
  proof -
    have "unat (kEnqueueOverheadBytes + k) = 24 + unat k"
      using that mr by (intro unat_overhead) simp
    then show ?thesis by force
  qed
  have pop: "kPopEventBytes \<noteq> 0" by (simp add: kPopEventBytes_def)
  show ?thesis
    using n fwd nz pop
    by (auto simp: scanStep_def scanEnqueueOrRewrite_def scanPop_def Let_def rem_def [symmetric] overhead_bytes
        not_less split: if_splits prod.splits)
qed

context file_system
begin

lemma validateLoop_scan:
  assumes h: "healthy (world s)" and v: "view (world s) name = Some buf" and len: "length buf = unat fileSize"
    and off: "scOffset st \<le> fileSize" and mr: "maxRecordBytes cfg < 4294967272" and r: "\<not> stoppedEarly r"
  shows "\<exists>corrupt st' ex n w. scanLoop cfg gen isLast buf fileSize st = Some (corrupt, st')
    \<and> validateLoop F cfg name fileSize (scOffset st) r s
        = Some ((ex, r\<lparr>checkedRecords := checkedRecords r + n\<rparr>), s\<lparr>world := w\<rparr>)
    \<and> healthy w \<and> view w = view (world s) \<and> (corrupt \<longleftrightarrow> (\<exists>why. ex = ScanCorrupt why))
    \<and> (ex = ScanClean \<longleftrightarrow> \<not> corrupt \<and> \<not> scOffset st' < fileSize)
    \<and> scOffset st \<le> scOffset st' \<and> (scOffset st' = scOffset st \<longrightarrow> n = 0)"
  using h v off r
proof (induction "unat fileSize - unat (scOffset st)" arbitrary: st r s rule: less_induct)
  case less
  show ?case
  proof (cases "scOffset st < fileSize")
    case False
    then show ?thesis using less.prems(1)
      by (intro exI [of _ False] exI [of _ st] exI [of _ ScanClean] exI [of _ 0] exI [of _ "world s"])
        (simp add: scanLoop.simps [of _ _ _ _ _ st] validateLoop.simps [of _ _ _ _ "scOffset st"])
  next
    case True
    have o: "unat (scOffset st) \<le> length buf" using less.prems(3) len by (simp add: word_le_nat_alt)
    obtain e w where e: "validateEvent F cfg name fileSize (scOffset st) s = (e, s\<lparr>world := w\<rparr>)" "healthy w"
        "view w = view (world s)" "exitMatches (scanStep cfg gen isLast buf fileSize st) e"
      using validateEvent_scan [OF less.prems(1,2) len o mr, of gen isLast] by blast
    show ?thesis
    proof (cases "scanStep cfg gen isLast buf fileSize st")
      case (ScanStop c)
      obtain ex where ex: "e = Inl ex" "c \<longleftrightarrow> (\<exists>why. ex = ScanCorrupt why)" "ex \<noteq> ScanClean"
        using e(4) ScanStop by (auto split: if_splits)
      show ?thesis
        by (intro exI [of _ c] exI [of _ st] exI [of _ ex] exI [of _ 0] exI [of _ w])
          (use True less.prems(4) e ex ScanStop in
            \<open>simp add: scanLoop.simps [of _ _ _ _ _ st] validateLoop.simps [of _ _ _ _ "scOffset st"]\<close>)
    next
      case (ScanNext st1)
      note p = scanStep_progress [OF ScanNext True mr]
      have d: "unat fileSize - unat (scOffset st1) < unat fileSize - unat (scOffset st)"
        using p True unfolding word_less_nat_alt word_le_nat_alt by linarith
      let ?r = "r\<lparr>checkedRecords := checkedRecords r + 1\<rparr>" and ?s = "s\<lparr>world := w\<rparr>"
      have pr: "healthy (world ?s)" "view (world ?s) name = Some buf" "scOffset st1 \<le> fileSize"
          "\<not> stoppedEarly ?r"
        using e p less.prems(2,4) by simp_all
      have "scanLoop cfg gen isLast buf fileSize st = scanLoop cfg gen isLast buf fileSize st1"
        "validateLoop F cfg name fileSize (scOffset st) r s = validateLoop F cfg name fileSize (scOffset st1) ?r ?s"
        using True less.prems(4) ScanNext e
        by (simp_all add: scanLoop.simps [of _ _ _ _ _ st] validateLoop.simps [of _ _ _ _ "scOffset st"])
      moreover obtain c st' ex n w' where "scanLoop cfg gen isLast buf fileSize st1 = Some (c, st')"
          "validateLoop F cfg name fileSize (scOffset st1) ?r ?s
            = Some ((ex, ?r\<lparr>checkedRecords := checkedRecords ?r + n\<rparr>), ?s\<lparr>world := w'\<rparr>)"
          "healthy w'" "view w' = view (world ?s)" "c \<longleftrightarrow> (\<exists>why. ex = ScanCorrupt why)"
          "ex = ScanClean \<longleftrightarrow> \<not> c \<and> \<not> scOffset st' < fileSize" "scOffset st1 \<le> scOffset st'"
        using less.hyps [OF d pr] by blast
      moreover from this(7) have "scOffset st < scOffset st'" using p by (meson less_le_trans)
      moreover from this have "scOffset st' \<noteq> scOffset st" by force
      ultimately show ?thesis
        using e(3) by (intro exI [of _ c] exI [of _ st'] exI [of _ ex] exI [of _ "1 + n"] exI [of _ w'])
          (simp add: add.assoc less_imp_le)
    qed
  qed
qed

end

section \<open>One segment\<close>

lemma addErr_bad [simp]: "vrOk (addErr n c m r) = False"
  by (simp add: addErr_def Let_def)

lemma scanExitIssue_ok:
  "vrOk (scanExitIssue n name isTail ex r) \<longleftrightarrow> vrOk r \<and> (ex = ScanClean \<or> ex = ScanTorn \<and> isTail)"
  by (cases ex) (simp_all add: scanExitIssue_def)

context file_system
begin

lemma validateSegment_scan:
  assumes h: "healthy (world s)" and v: "view (world s) (segmentName g) = Some buf"
    and len: "length buf \<le> maxReplayBytes" and mr: "maxRecordBytes cfg < 4294967272" and r: "\<not> stoppedEarly r" "vrOk r"
  shows "\<exists>r' w st aff' s'. validateSegment F cfg n g isTail r s = Some (r', s\<lparr>world := w\<rparr>) \<and> healthy w
    \<and> view w = view (world s) \<and> scanSegmentFile F cfg g isTail aff s = Some ((st, aff'), s')
    \<and> (vrOk r' \<longrightarrow> ok st) \<and> (\<not> isTail \<longrightarrow> ok st \<longrightarrow> vrOk r')"
proof -
  let ?N = "segmentName g" and ?L = "length buf"
  have u64: "unat (word_of_nat ?L :: u64) = ?L" and u32: "unat (word_of_nat ?L :: u32) = ?L"
    using len by (simp_all add: unat_of_nat)
  have uc: "(ucast (word_of_nat ?L :: u64) :: u32) = word_of_nat ?L"
    using u32 u64 len by (simp add: u32_eq_unat unsigned_ucast_eq take_bit_nat_eq_self)
  obtain st1 w1 where fs1: "fs_fileSize F ?N (world s) = ((st1, word_of_nat ?L), w1)" "ok st1" "healthy w1"
      "view w1 = view (world s)"
    using healthy_size [OF h v] by auto
  obtain st2 w2 where fs2: "fs_readFile F ?N w1 = ((st2, buf), w2)" "ok st2" "healthy w2" "view w2 = view (world s)"
    using healthy_read [of w1 ?N buf] fs1 v by auto
  obtain st3 d w3 where fs3: "fs_readAt F ?N 0 20 w1 = ((st3, d), w3)" by (metis prod.collapse)
  have w3: "healthy w3" "view w3 = view (world s)" "ok st3 \<longleftrightarrow> 20 \<le> ?L" "ok st3 \<longrightarrow> d = take 20 buf"
    using readAt_healthy [OF fs1(3) fs3] readAt_view [OF fs3] fs1(4) v by auto
  have le: "\<not> (word_of_nat ?L :: u64) > kMaxReplaySegmentReadBytes"
    using len by (simp add: word_less_nat_alt u64 kMaxReplaySegmentReadBytes_def)
  have lt: "(word_of_nat ?L :: u64) < ucast kSegmentHeaderBytes \<longleftrightarrow> ?L < 20"
    by (simp add: word_less_nat_alt u64 kSegmentHeaderBytes_def)
  have k20: "unat kSegmentHeaderBytes = 20" by (simp add: kSegmentHeaderBytes_def)
  note val = validateSegment_def onWorld_def fs1(1) fs3 k20 and sc = scanSegmentFile_def onWorld_def fs1(1) fs2(1) k20
  obtain p hd where ph: "parseSegmentHeader (take 20 buf) default_segment_header = (p, hd)" by fastforce
  show ?thesis
  proof (cases "20 \<le> ?L \<and> p \<and> shGeneration hd = g")
    case False
    have "\<exists>c m. validateSegment F cfg n g isTail r s = Some (addErr n c m r, s\<lparr>world := w3\<rparr>)"
      using False w3 ph by (cases "20 \<le> ?L") (auto simp: val Let_def)
    moreover have "\<exists>st s'. scanSegmentFile F cfg g isTail aff s = Some ((st, aff), s') \<and> \<not> ok st"
      using False fs1(2) fs2(2) ph by (auto simp: sc Let_def tooSmall_def lt le u64 uc)
    ultimately show ?thesis using w3 by fastforce
  next
    case True
    define st0 where "st0 = \<lparr>scOffset = kSegmentHeaderBytes, scLastGood = kSegmentHeaderBytes,
      scRecords = records s, scNextSequence = nextSequence s, scAffected = aff\<rparr>"
    have o: "scOffset st0 \<le> word_of_nat ?L"
      using True by (simp add: st0_def word_le_nat_alt k20 u32)
    have s3: "healthy (world (s\<lparr>world := w3\<rparr>))" "view (world (s\<lparr>world := w3\<rparr>)) ?N = Some buf"
      using w3 v by simp_all
    obtain c st' ex k w4 where L: "scanLoop cfg g isTail buf (word_of_nat ?L) st0 = Some (c, st')"
        "validateLoop F cfg ?N (word_of_nat ?L) (scOffset st0) r (s\<lparr>world := w3\<rparr>)
          = Some ((ex, r\<lparr>checkedRecords := checkedRecords r + k\<rparr>), s\<lparr>world := w3\<rparr>\<lparr>world := w4\<rparr>)"
        "healthy w4" "view w4 = view (world (s\<lparr>world := w3\<rparr>))" "c \<longleftrightarrow> (\<exists>why. ex = ScanCorrupt why)"
        "ex = ScanClean \<longleftrightarrow> \<not> c \<and> \<not> scOffset st' < word_of_nat ?L"
      using validateLoop_scan [OF s3 u32 [symmetric] o mr r(1), of g isTail] by blast
    have w4: "view w4 = view (world s)" using L(4) w3(2) by simp
    have V: "validateSegment F cfg n g isTail r s = Some (scanExitIssue n ?N isTail ex
        (r\<lparr>checkedRecords := checkedRecords r + k\<rparr>), s\<lparr>world := w4\<rparr>)"
      using True w3 ph L(2) by (simp add: val Let_def uc st0_def)
    have S: "\<exists>st aff' s'. scanSegmentFile F cfg g isTail aff s = Some ((st, aff'), s')
        \<and> (ok st \<longleftrightarrow> isTail \<or> \<not> c \<and> \<not> scOffset st' < word_of_nat ?L)"
      using True fs1(2) fs2(2) ph L(1)
      by (auto simp: sc Let_def lt le u64 uc st0_def [symmetric] case_prod_unfold)
    then obtain st aff' s' where S: "scanSegmentFile F cfg g isTail aff s = Some ((st, aff'), s')"
        "ok st \<longleftrightarrow> isTail \<or> \<not> c \<and> \<not> scOffset st' < word_of_nat ?L" by blast
    show ?thesis
      by (intro exI conjI, rule V, rule L(3), rule w4, rule S(1)) (use S(2) L(6) r(2) in \<open>auto simp: scanExitIssue_ok\<close>)
  qed
qed

end

section \<open>A segment of a log\<close>

context file_system
begin

lemma validateLoop_events:
  assumes "healthy (world s)" and "view (world s) name = Some buf" and "length buf = unat fileSize"
    and "maxRecordBytes cfg < 4294967272" and "\<not> stoppedEarly r" and "\<forall>ev \<in> set evs. eventFits cfg ev"
    and "drop (unat (scOffset st)) buf = encodeEvents evs @ t" and "unat (scOffset st) \<le> length buf"
  shows "\<exists>w. validateLoop F cfg name fileSize (scOffset st) r s
      = validateLoop F cfg name fileSize (scOffset (scanEvents gen isLast evs st))
          (r\<lparr>checkedRecords := checkedRecords r + word_of_nat (length evs)\<rparr>) (s\<lparr>world := w\<rparr>)
    \<and> healthy w \<and> view w = view (world s)"
  using assms(1,2,5-8)
proof (induction evs arbitrary: st r s)
  case Nil
  then show ?case by (intro exI [of _ "world s"]) simp
next
  case (Cons ev evs)
  have d: "drop (unat (scOffset st)) buf = encodeEvent ev @ (encodeEvents evs @ t)"
    using Cons.prems(5) by simp
  have fits: "eventFits cfg ev" using Cons.prems(4) by simp
  let ?st = "scanEvent gen isLast ev st" and ?r = "r\<lparr>checkedRecords := checkedRecords r + 1\<rparr>"
  obtain e w where e: "validateEvent F cfg name fileSize (scOffset st) s = (e, s\<lparr>world := w\<rparr>)" "healthy w"
      "view w = view (world s)" "exitMatches (scanStep cfg gen isLast buf fileSize st) e"
    using validateEvent_scan [OF Cons.prems(1,2) assms(3) Cons.prems(6) assms(4), of gen isLast] by blast
  have n: "e = Inr (scOffset ?st)" using e(4) scanStep_event [OF d assms(3) fits, of gen isLast] by simp
  have lt: "scOffset st < fileSize"
    using arg_cong [OF d, of length] eventSize_bounds [of ev] assms(3) by (simp add: word_less_nat_alt)
  have step: "validateLoop F cfg name fileSize (scOffset st) r s
      = validateLoop F cfg name fileSize (scOffset ?st) ?r (s\<lparr>world := w\<rparr>)"
    using lt Cons.prems(3) e(1) n by (simp add: validateLoop.simps [of _ _ _ _ "scOffset st"])
  note one = scanLoop_event [OF d assms(3) fits, of gen isLast]
  have o: "unat (scOffset ?st) \<le> length buf"
    using one(3) arg_cong [OF d, of length] eventSize_bounds [of ev] by simp
  have pr: "healthy (world (s\<lparr>world := w\<rparr>))" "view (world (s\<lparr>world := w\<rparr>)) name = Some buf"
    "\<not> stoppedEarly ?r" "\<forall>ev \<in> set evs. eventFits cfg ev"
    using e Cons.prems by simp_all
  from Cons.IH [OF pr one(2) o] obtain w' where
    "validateLoop F cfg name fileSize (scOffset ?st) ?r (s\<lparr>world := w\<rparr>)
      = validateLoop F cfg name fileSize (scOffset (scanEvents gen isLast evs ?st))
          (?r\<lparr>checkedRecords := checkedRecords ?r + word_of_nat (length evs)\<rparr>) (s\<lparr>world := w\<rparr>\<lparr>world := w'\<rparr>)"
    "healthy w'" "view w' = view (world (s\<lparr>world := w\<rparr>))" by blast
  then show ?case
    using step e(3) by (intro exI [of _ w']) (simp add: add.assoc)
qed

lemma validateSegment_log:
  assumes h: "healthy (world s)" and v: "view (world s) (segmentName g) = Some (segBytes (g, ss, evs) @ t)"
    and fits: "\<forall>ev \<in> set evs. eventFits cfg ev" and torn: "tornEvent cfg t" and last: "t \<noteq> [] \<longrightarrow> isTail"
    and sz: "length (segBytes (g, ss, evs) @ t) \<le> maxReplayBytes" and mr: "maxRecordBytes cfg < 4294967272"
    and r: "\<not> stoppedEarly r"
  shows "\<exists>w. validateSegment F cfg n g isTail r s
      = Some (r\<lparr>checkedRecords := checkedRecords r + word_of_nat (length evs)\<rparr>, s\<lparr>world := w\<rparr>)
    \<and> healthy w \<and> view w = view (world s)"
proof -
  define buf where "buf = segBytes (g, ss, evs) @ t"
  let ?N = "segmentName g" and ?fs = "word_of_nat (length buf) :: u32"
  have lbuf: "length buf \<le> maxReplayBytes" using sz by (simp add: buf_def)
  then have u32: "unat ?fs = length buf" by (simp add: unat_of_nat)
  have uc: "(ucast (word_of_nat (length buf) :: u64) :: u32) = ?fs"
    using lbuf by (simp add: word_unat_eq_iff unsigned_ucast_eq unat_of_nat take_bit_nat_eq_self)
  have lb: "20 \<le> length buf" by (simp add: buf_def length_segBytes)
  obtain st1 w1 where fs1: "fs_fileSize F ?N (world s) = ((st1, word_of_nat (length buf)), w1)" "healthy w1"
      "view w1 = view (world s)"
    using healthy_size [OF h v] by (auto simp: buf_def)
  obtain st2 w2 where fs2: "fs_readAt F ?N 0 20 w1 = ((st2, take 20 buf), w2)" "ok st2" "healthy w2"
      "view w2 = view (world s)"
    using healthy_readAt [of w1 ?N buf 0 20] fs1 v lb by (auto simp: buf_def)
  have hd: "take 20 buf = serializeSegmentHeader g ss @ []" by (simp add: buf_def segBytes_def)
  have ph: "parseSegmentHeader (take 20 buf) default_segment_header = (True, segHeaderOf g ss)"
    unfolding hd by (rule parseSegmentHeader_serialize)
  define st0 where "st0 = \<lparr>scOffset = kSegmentHeaderBytes, scLastGood = kSegmentHeaderBytes, scRecords = [],
    scNextSequence = 0, scAffected = {}\<rparr>"
  let ?st = "scanEvents g isTail evs st0" and ?r = "r\<lparr>checkedRecords := checkedRecords r + word_of_nat (length evs)\<rparr>"
  have k20: "unat kSegmentHeaderBytes = 20" by (simp add: kSegmentHeaderBytes_def)
  have d: "drop (unat (scOffset st0)) buf = encodeEvents evs @ t"
    by (simp add: st0_def k20 buf_def segBytes_def)
  note L = scanLoop_events [OF d u32 [symmetric] fits, of g isTail]
  have s2: "healthy (world (s\<lparr>world := w2\<rparr>))" "view (world (s\<lparr>world := w2\<rparr>)) ?N = Some buf"
    using fs2 v by (simp_all add: buf_def)
  obtain w3 where w3: "validateLoop F cfg ?N ?fs (scOffset st0) r (s\<lparr>world := w2\<rparr>)
      = validateLoop F cfg ?N ?fs (scOffset ?st) ?r (s\<lparr>world := w3\<rparr>)" "healthy w3" "view w3 = view (world s)"
    using validateLoop_events [OF s2 u32 [symmetric] mr r fits d, of g isTail] lb fs2(4) by (auto simp: st0_def k20)
  have o: "unat (scOffset ?st) \<le> length buf"
    using L arg_cong [OF d, of length] lb by (simp add: st0_def k20)
  have t: "scanLoop cfg g isTail buf ?fs ?st = Some (False, ?st)"
    using scanLoop_torn [OF torn _ o u32 [symmetric] mr, of g isTail] L by blast
  have s3: "healthy (world (s\<lparr>world := w3\<rparr>))" "view (world (s\<lparr>world := w3\<rparr>)) ?N = Some buf" "scOffset ?st \<le> ?fs"
      "\<not> stoppedEarly ?r"
    subgoal using w3(2) by simp
    subgoal using w3(3) v by (simp add: buf_def)
    subgoal using o by (simp only: word_le_nat_alt u32)
    subgoal using r by simp
    done
  obtain ex k w4 where e: "validateLoop F cfg ?N ?fs (scOffset ?st) ?r (s\<lparr>world := w3\<rparr>)
      = Some ((ex, ?r\<lparr>checkedRecords := checkedRecords ?r + k\<rparr>), s\<lparr>world := w3\<rparr>\<lparr>world := w4\<rparr>)" "healthy w4"
      "view w4 = view (world (s\<lparr>world := w3\<rparr>))" "\<not> (\<exists>why. ex = ScanCorrupt why)"
      "ex = ScanClean \<longleftrightarrow> \<not> scOffset ?st < ?fs" "k = 0"
    using validateLoop_scan [OF s3(1,2) u32 [symmetric] s3(3) mr s3(4), of g isTail] t by auto
  have "t \<noteq> []" if "scOffset ?st < ?fs"
    using that L arg_cong [OF d, of length] by (auto simp: word_less_nat_alt u32)
  then have x: "scanExitIssue n ?N isTail ex r' = r'" for r'
    using e(4,5) last by (cases ex) (auto simp: scanExitIssue_def)
  have "validateSegment F cfg n g isTail r s = Some (?r, s\<lparr>world := w4\<rparr>)"
    using fs1(1) fs2(1,2) ph w3(1) e(1,6)
    by (simp add: validateSegment_def onWorld_def Let_def k20 uc st0_def [symmetric] segHeaderOf_def x)
      (simp add: st0_def x)
  then show ?thesis using e(2,3) w3(3) by auto
qed

end

section \<open>The manifest\<close>

lemma mem_rangeGens: "g \<in> set (rangeGens r) \<longleftrightarrow> startGen r \<le> g \<and> g \<le> endGen r"
proof
  assume "g \<in> set (rangeGens r)"
  then obtain n where n: "g = word_of_nat n" "unat (startGen r) \<le> n" "n \<le> unat (endGen r)"
    by (auto simp: rangeGens_def)
  then have "unat g = n" using u32_bound [of "endGen r"] by (simp add: unat_word_u32)
  then show "startGen r \<le> g \<and> g \<le> endGen r" using n by (simp add: word_le_nat_alt)
next
  assume "startGen r \<le> g \<and> g \<le> endGen r"
  then have "unat g \<in> set [unat (startGen r)..<Suc (unat (endGen r))]" by (auto simp: word_le_nat_alt)
  then have "word_of_nat (unat g) \<in> set (rangeGens r)" unfolding rangeGens_def set_map by (rule imageI)
  then show "g \<in> set (rangeGens r)" by simp
qed

lemma checkRanges_ok:
  assumes "\<forall>r \<in> set rs. wf_range r" and "loadable rs" and "x < N" and "\<forall>r \<in> set rs. endGen r < N"
  shows "\<exists>m. checkRanges rs x = Inr m \<and> m < N"
  using assms
proof (induction rs arbitrary: x)
  case (Cons r rs)
  have "endGen r \<noteq> 0" using Cons.prems(1) by (auto simp: wf_range_def)
  then show ?case
    using Cons.IH [of "max x (endGen r)"] Cons.prems by (auto simp: wf_range_def loadable_def not_less)
qed simp

lemma anyOverlap_distinct:
  "distinct (concat (map rangeGens rs)) \<Longrightarrow> \<forall>r \<in> set rs. wf_range r \<Longrightarrow> \<not> anyOverlap rs"
proof (induction rs)
  case (Cons r rs)
  have "\<not> rangesOverlap r r'" if "r' \<in> set rs" for r'
  proof
    assume o: "rangesOverlap r r'"
    let ?g = "max (startGen r) (startGen r')"
    have "?g \<le> endGen r" "?g \<le> endGen r'" using o by (simp_all add: rangesOverlap_def)
    then have "?g \<in> set (rangeGens r)" "?g \<in> set (rangeGens r')" by (simp_all add: mem_rangeGens)
    then show False using Cons.prems(1) that by auto
  qed
  then show ?case using Cons by simp
qed simp

lemma referencedExceeds_count:
  "\<forall>r \<in> set rs. wf_range r \<Longrightarrow> unat c + length (concat (map rangeGens rs)) \<le> unat n \<Longrightarrow>
   \<not> referencedExceeds n rs c"
proof (induction rs arbitrary: c)
  case (Cons r rs)
  let ?k = "length (rangeGens r)"
  have "unat n < 2 ^ 64" by (rule order_less_le_trans [OF unsigned_less]) simp
  then have b: "unat c + ?k < 2 ^ 64" using Cons.prems(2) by simp
  then have "unat (c + word_of_nat ?k) = unat c + ?k" by (simp add: unat_word_ariths unat_of_nat)
  then show ?case
    using Cons.IH [of "c + word_of_nat ?k"] Cons.prems range_count [of r]
    by (simp add: Let_def word_less_nat_alt not_less)
qed simp

lemma manifestIssue_None:
  assumes wf: "wf_manifest md" and ld: "loadable (ranges md)" and dis: "distinct (manifestGens md)"
    and nx: "\<forall>g \<in> set (manifestGens md). g < nextGeneration md" and nz: "nextGeneration md \<noteq> 0"
    and files: "\<forall>g \<in> set (manifestGens md). segmentName g \<in> set files" and len: "length files < 2 ^ 64"
  shows "manifestIssue md files = None"
proof -
  let ?N = "nextGeneration md" and ?gens = "concat (map rangeGens (ranges md))"
  have wr: "\<forall>r \<in> set (ranges md). wf_range r" using wf by (simp add: wf_manifest_def)
  have e: "endGen r \<in> set (manifestGens md)" if "r \<in> set (ranges md)" for r
    using that wr by (auto simp: manifestGens_def mem_rangeGens wf_range_def)
  obtain m where m: "checkRanges (ranges md) 0 = Inr m" "m < ?N"
    using checkRanges_ok [OF wr ld, of 0 ?N] nz nx e by (auto simp: word_gt_0)
  have d: "distinct ?gens" using dis by (simp add: manifestGens_def)
  have t: "tailGeneration md \<notin> set ?gens" if "tailGeneration md \<noteq> 0"
    using dis that by (simp add: manifestGens_def)
  have mr: "maxReferenced md m < ?N"
    using m(2) nx by (auto simp: maxReferenced_def manifestGens_def max_def)
  have "length (manifestGens md) = card (segmentName ` set (manifestGens md))"
    using dis by (simp add: card_image inj_on_def distinct_card)
  also have "\<dots> \<le> card (set (filter (\<lambda>name. isSegmentName name \<noteq> None) files))"
    using files by (intro card_mono) auto
  also have "\<dots> \<le> length (filter (\<lambda>name. isSegmentName name \<noteq> None) files)" by (rule card_length)
  also have "\<dots> = unat (countSegmentFiles files)"
    using le_less_trans [OF length_filter_le len, of "\<lambda>name. isSegmentName name \<noteq> None"]
    by (simp add: countSegmentFiles_def unat_of_nat)
  finally have "unat (if tailGeneration md \<noteq> 0 then 1 else 0 :: u64) + length ?gens \<le> unat (countSegmentFiles files)"
    by (simp add: manifestGens_def split: if_splits)
  from referencedExceeds_count [OF wr this] show ?thesis
    using m(1) anyOverlap_distinct [OF d wr] t mr
    by (auto simp: manifestIssue_def inRange_def mem_rangeGens)
qed

section \<open>The whole directory\<close>

lemma logOnDisk_sizes:
  assumes log: "logOnDisk cfg v segs t" and sg: "sg \<in> set segs"
  shows "\<exists>c. v (segmentName (segGen sg)) = Some c \<and> 20 \<le> length c \<and> length c < 2 ^ 64"
proof -
  have l: "segsOnDisk v segs t" "distinct (map segGen segs)" "segFits cfg sg"
      "length (segBytes (last segs) @ t) \<le> maxReplayBytes" "segs \<noteq> []"
    using log sg by (auto simp: logOnDisk_def)
  note lst = iffD1 [OF segsOnDisk_last [OF l(5,2)] l(1)]
  show ?thesis
  proof (cases "sg \<in> set (butlast segs)")
    case True
    then show ?thesis using segsOnDisk_mem [OF conjunct1 [OF lst] True] l(3) by (auto simp: segFits_def length_segBytes)
  next
    case False
    have "set segs = insert (last segs) (set (butlast segs))" using l(5) by (induction segs) auto
    then have "sg = last segs" using sg False by simp
    then show ?thesis using lst l(4) by (auto simp: length_segBytes)
  qed
qed

context file_system
begin

lemma fold_checkSegExists:
  assumes "healthy (world s)" and "\<not> stoppedEarly r"
    and "\<forall>g \<in> set gens. \<exists>c. view (world s) (segmentName g) = Some c \<and> 20 \<le> length c \<and> length c < 2 ^ 64"
  shows "\<exists>w. fold (checkSegExists F n) gens (r, s) = (r, s\<lparr>world := w\<rparr>) \<and> healthy w \<and> view w = view (world s)"
  using assms
proof (induction gens arbitrary: s)
  case Nil
  then show ?case by (intro exI [of _ "world s"]) simp
next
  case (Cons g gens)
  obtain c where c: "view (world s) (segmentName g) = Some c" "20 \<le> length c" "length c < 2 ^ 64"
    using Cons.prems(3) by auto
  obtain st w where w: "fs_fileSize F (segmentName g) (world s) = ((st, word_of_nat (length c)), w)" "ok st" "healthy w"
      "view w = view (world s)"
    using healthy_size [OF Cons.prems(1) c(1)] by blast
  have "\<not> (word_of_nat (length c) :: u64) < ucast kSegmentHeaderBytes"
    using c(2,3) by (simp add: word_less_nat_alt unat_of_nat kSegmentHeaderBytes_def)
  then have one: "checkSegExists F n g (r, s) = (r, s\<lparr>world := w\<rparr>)"
    using w Cons.prems(2) by (simp add: checkSegExists_def onWorld_def)
  have "\<exists>w'. fold (checkSegExists F n) gens (r, s\<lparr>world := w\<rparr>) = (r, s\<lparr>world := w\<rparr>\<lparr>world := w'\<rparr>) \<and> healthy w'
      \<and> view w' = view (world (s\<lparr>world := w\<rparr>))"
    using Cons.prems w by (intro Cons.IH) simp_all
  then show ?case using one w(4) by auto
qed

lemma validateSealed_log:
  assumes "healthy (world s)" and "\<not> stoppedEarly r" and "maxRecordBytes cfg < 4294967272"
    and "\<forall>sg \<in> set segs. view (world s) (segmentName (segGen sg)) = Some (segBytes sg) \<and> segFits cfg sg"
  shows "\<exists>w. validateSealed F cfg n (map segGen segs) r s
      = Some (r\<lparr>checkedRecords := checkedRecords r + word_of_nat (length (logEvents segs))\<rparr>, s\<lparr>world := w\<rparr>)
    \<and> healthy w \<and> view w = view (world s)"
  using assms
proof (induction segs arbitrary: s r)
  case Nil
  then show ?case by (intro exI [of _ "world s"]) simp
next
  case (Cons sg segs)
  obtain g ss evs where sg: "sg = (g, ss, evs)" by (metis prod.collapse)
  have v: "view (world s) (segmentName g) = Some (segBytes (g, ss, evs) @ [])" "\<forall>ev \<in> set evs. eventFits cfg ev"
      "length (segBytes (g, ss, evs) @ []) \<le> maxReplayBytes"
    using Cons.prems(4) by (simp_all add: sg segFits_def)
  let ?r = "r\<lparr>checkedRecords := checkedRecords r + word_of_nat (length evs)\<rparr>"
  obtain w where w: "validateSegment F cfg n g False r s = Some (?r, s\<lparr>world := w\<rparr>)" "healthy w" "view w = view (world s)"
    using validateSegment_log [OF Cons.prems(1) v(1,2) tornEvent_Nil _ v(3) Cons.prems(3,2)] by blast
  have "\<exists>w'. validateSealed F cfg n (map segGen segs) ?r (s\<lparr>world := w\<rparr>)
      = Some (?r\<lparr>checkedRecords := checkedRecords ?r + word_of_nat (length (logEvents segs))\<rparr>, s\<lparr>world := w\<rparr>\<lparr>world := w'\<rparr>)
    \<and> healthy w' \<and> view w' = view (world (s\<lparr>world := w\<rparr>))"
    using Cons.prems w by (intro Cons.IH) simp_all
  then show ?case using w Cons.prems(2) by (auto simp: sg add.assoc)
qed

lemma validateWinning_log:
  assumes h: "healthy (world s)" and el: "electedManifest (view (world s)) = Some md"
    and log: "logOnDisk cfg (view (world s)) segs t" and torn: "tornEvent cfg t"
    and nx: "\<forall>sg \<in> set segs. segGen sg < nextGeneration md" and mr: "maxRecordBytes cfg < 4294967272"
    and files: "set files = dom (view (world s))" "length files < 2 ^ 64"
  shows "\<exists>w. validateWinning F cfg n md files s
      = Some (empty_validation\<lparr>checkedRecords := word_of_nat (length (logEvents segs))\<rparr>, s\<lparr>world := w\<rparr>)
    \<and> healthy w \<and> view w = view (world s)"
proof -
  let ?sealed = "concat (map rangeGens (ranges md))" and ?tail = "tailGeneration md \<noteq> 0"
  have wf: "wf_manifest md" by (rule electedManifest_wf [OF el])
  have m: "loadable (ranges md)" "nextGeneration md \<noteq> 0" "manifestGens md = map segGen segs"
      "segsOnDisk (view (world s)) segs t" "distinct (map segGen segs)" "\<forall>sg \<in> set segs. segFits cfg sg"
      "segs \<noteq> [] \<longrightarrow> length (segBytes (last segs) @ t) \<le> maxReplayBytes"
    using log el by (auto simp: logOnDisk_def manifestMatches_def)
  have pres: "\<forall>g \<in> set (manifestGens md). segmentName g \<in> set files"
    using segsOnDisk_present [OF m(4)] m(3) files(1) by fastforce
  have iss: "manifestIssue md files = None"
    by (rule manifestIssue_None [OF wf m(1) _ _ m(2) pres files(2)]) (use m(3,5) nx in auto)
  have ex: "expandRanges (ranges md) [] = Some ?sealed" using expandRanges_ends [OF m(1)] by simp
  show ?thesis
  proof (cases ?tail)
    case False
    then have "segs = []" using wf m(3) by (simp add: wf_manifest_def manifestGens_def)
    then show ?thesis
      using False wf iss ex h
      by (intro exI [of _ "world s"])
        (simp add: validateWinning_def wf_manifest_def empty_validation_def split: option.split)
  next
    case True
    then have ne: "segs \<noteq> []" using m(3) by (auto simp: manifestGens_def)
    have gens: "?sealed = map segGen (butlast segs)" "tailGeneration md = segGen (last segs)"
      using m(3) True ne by (simp_all add: manifestGens_def map_butlast last_map flip: butlast_append)
        (metis butlast_snoc map_butlast, metis last_map last_snoc)
    obtain g ss evs where lst: "last segs = (g, ss, evs)" by (metis prod.collapse)
    have disk: "segsOnDisk (view (world s)) (butlast segs) []"
        "view (world s) (segmentName g) = Some (segBytes (g, ss, evs) @ t)"
      using m(4) segsOnDisk_last [OF ne m(5)] by (simp_all add: lst)
    have lf: "segFits cfg (g, ss, evs)" using m(6) ne lst by (metis last_in_set)
    have sz: "length (segBytes (g, ss, evs) @ t) \<le> maxReplayBytes" using m(7) ne by (simp add: lst)
    have but: "\<forall>sg \<in> set (butlast segs). view (world s) (segmentName (segGen sg)) = Some (segBytes sg) \<and> segFits cfg sg"
      using segsOnDisk_mem [OF disk(1)] m(6) by (auto dest: in_set_butlastD)
    have "?sealed @ [tailGeneration md] = map segGen segs"
      using m(3) True by (simp add: manifestGens_def)
    then have all: "\<forall>g \<in> set (?sealed @ [tailGeneration md]). \<exists>c. view (world s) (segmentName g) = Some c
        \<and> 20 \<le> length c \<and> length c < 2 ^ 64"
      using logOnDisk_sizes [OF log] by (metis (no_types, lifting) imageE list.set_map)
    let ?r0 = empty_validation
    have r0: "\<not> stoppedEarly ?r0" "vrOk ?r0" "checkedRecords ?r0 = 0" by (simp_all add: empty_validation_def)
    obtain w1 where w1: "fold (checkSegExists F n) (?sealed @ [tailGeneration md]) (?r0, s) = (?r0, s\<lparr>world := w1\<rparr>)"
        "healthy w1" "view w1 = view (world s)"
      using fold_checkSegExists [OF h r0(1) all] by blast
    let ?r1 = "?r0\<lparr>checkedRecords := word_of_nat (length (logEvents (butlast segs)))\<rparr>"
    obtain w2 where w2: "validateSealed F cfg n (map segGen (butlast segs)) ?r0 (s\<lparr>world := w1\<rparr>)
        = Some (?r1, s\<lparr>world := w2\<rparr>)" "healthy w2" "view w2 = view (world s)"
      using validateSealed_log [of "s\<lparr>world := w1\<rparr>" ?r0 cfg "butlast segs"] w1 r0 but mr by auto
    have s2: "healthy (world (s\<lparr>world := w2\<rparr>))"
        "view (world (s\<lparr>world := w2\<rparr>)) (segmentName g) = Some (segBytes (g, ss, evs) @ t)"
        "\<forall>ev \<in> set evs. eventFits cfg ev" "\<not> stoppedEarly ?r1"
      using w2 disk(2) lf r0 by (simp_all add: segFits_def)
    obtain w3 where w3: "validateSegment F cfg n g True ?r1 (s\<lparr>world := w2\<rparr>)
        = Some (?r1\<lparr>checkedRecords := checkedRecords ?r1 + word_of_nat (length evs)\<rparr>, s\<lparr>world := w2\<rparr>\<lparr>world := w3\<rparr>)"
        "healthy w3" "view w3 = view (world (s\<lparr>world := w2\<rparr>))"
      using validateSegment_log [OF s2(1-3) torn _ sz mr s2(4), of True n] by blast
    have "logEvents segs = logEvents (butlast segs @ [last segs])" using ne by simp
    then have cnt: "logEvents segs = logEvents (butlast segs) @ evs" by (simp add: logEvents_def lst segEvents_def)
    have "validateWinning F cfg n md files s = Some (?r1\<lparr>checkedRecords := checkedRecords ?r1
        + word_of_nat (length evs)\<rparr>, s\<lparr>world := w3\<rparr>)"
      using True iss ex w1(1) w2(1) w3(1) r0 by (simp add: validateWinning_def gens lst segGen_def)
    then show ?thesis using w3(2,3) w2(3) by (auto simp: cnt)
  qed
qed

end

end
