(* ===== verification/Validation_Theorems.thy ===== *)
theory Validation_Theorems
  imports Validation_Correct Log_Theorems
begin

text \<open>
  What validation reports on a POSIX directory: the same segments that \<open>mount\<close> refuses, and nothing on
  a directory that holds a log.
\<close>

section \<open>A sample directory\<close>

text \<open>A sealed segment and an active one whose last append was cut after five bytes.\<close>

definition tornSegments :: "segment list" where
  "tornSegments = [(1, 0, [LogEnqueue 0 [1, 2]]), (2, 1, [LogEnqueue 1 [7]])]"

abbreviation tornBytes :: bytes where
  "tornBytes \<equiv> take 5 (encodeEvent (LogPop 0))"

definition tornManifest :: manifest_data where
  "tornManifest = default_manifest\<lparr>ranges := [\<lparr>startGen = 1, endGen = 1\<rparr>], tailGeneration := 2,
     nextGeneration := 3, epoch := 1\<rparr>"

definition tornWorld :: posix_world where
  "tornWorld = emptyWorld\<lparr>pwFiles :=
     [(slotName SlotA, serialiseManifest tornManifest),
      (segmentName 1, segBytes (1, 0, [LogEnqueue 0 [1, 2]])),
      (segmentName 2, segBytes (2, 1, [LogEnqueue 1 [7]]) @ tornBytes)]\<rparr>"

lemma tornWorld_healthy: "posixHealthy tornWorld"
  by (simp add: tornWorld_def emptyWorld_def posixHealthy_def)

lemma tornWorld_view:
  "posixView tornWorld = Map.empty(segmentName 2 \<mapsto> segBytes (2, 1, [LogEnqueue 1 [7]]) @ tornBytes,
     segmentName 1 \<mapsto> segBytes (1, 0, [LogEnqueue 0 [1, 2]]), slotName SlotA \<mapsto> serialiseManifest tornManifest)"
  by (simp add: tornWorld_def posixView_def del: map_of_files)

lemma tornWorld_manifest: "electedManifest (posixView tornWorld) = Some tornManifest"
proof -
  have "parseManifest (serialiseManifest tornManifest) = Some tornManifest"
    by (rule parseManifest_serialise) (simp add: tornManifest_def default_manifest_def wf_manifest_def wf_range_def)
  then show ?thesis
    by (simp add: tornWorld_view electedManifest_def slotManifest_def)
qed

lemma tornBytes_torn: "tornEvent cfg tornBytes"
  unfolding tornEvent_def by (intro exI [of _ "LogPop 0"] exI [of _ 5]) (simp add: kPopEventBytes_def)

lemma tornWorld_log:
  assumes "2 \<le> maxRecordBytes cfg"
  shows "logOnDisk cfg (posixView tornWorld) tornSegments tornBytes"
proof -
  have "\<forall>sg \<in> set tornSegments. segFits cfg sg"
    using assms by (simp add: tornSegments_def segFits_def length_segBytes serializeEnqueueEvent_bytes)
  moreover have "manifestMatches (Some tornManifest) tornSegments"
    by (simp add: manifestMatches_def tornManifest_def default_manifest_def tornSegments_def loadable_def
        totalGenerations_def manifestGens_def rangeGens_def kManifestMaxTotalGenerations_def kManifestMaxRanges_def)
  moreover have "canonicalNames (posixView tornWorld)"
    by (auto simp: canonicalNames_def tornWorld_view split: if_splits)
  ultimately show ?thesis
    using tornBytes_torn
    by (simp add: logOnDisk_def tornWorld_manifest tornTail_def)
      (simp add: tornWorld_view tornSegments_def length_segBytes serializeEnqueueEvent_bytes)
qed

section \<open>Agreement with the mount\<close>



section \<open>A directory that holds a log\<close>

text \<open>A healthy POSIX file system object that has been mounted; \<open>mount\<close> gives it the place of its lock
  files.  It is another instance of the interface: no operation takes the place away.\<close>

definition posixSteady :: "posix_world \<Rightarrow> bool" where
  "posixSteady = (\<lambda>w. posixHealthy w \<and> pwLockMounted w)"

interpretation steady: file_system posixFs posixView posixSteady
  unfolding posixSteady_def
  by (rule posix.healthy_and) (auto simp: posix_op_defs putFile_def dropFile_def split: posix_splits)

text \<open>What the operations used before the manifest pass return on a healthy directory.\<close>

lemma posix_healthy_ops:
  assumes "posixHealthy w"
  shows "posixFileSize name w = (case posixView w name of
      None \<Rightarrow> ((failure_code ReadFailed ''failed to stat file'' ENOENT, 0), w)
    | Some c \<Rightarrow> ((success, word_of_nat (length c)), w))"
    and "posixReadFile name w = (case posixView w name of
      None \<Rightarrow> ((failure_code ReadFailed ''failed to open file for read'' ENOENT, []), w)
    | Some c \<Rightarrow> ((success, c), w))"
    and "posixListFiles w = ((success, map fst (pwFiles w)), w)"
    and "posixMount b w = (success, w\<lparr>pwLockMounted := True\<rparr>)"
  using assms by (simp_all add: posixFileSize_def posixReadFile_def posixListFiles_def posixMount_def posixHealthy_def
      nextReadOutcome_def nextOutcome_def split: option.split)

lemma posix_healthy_reads:
  assumes "posixHealthy (world s)"
  shows "slotExists posixFs sl s = (posixView (world s) (slotName sl) \<noteq> None, s)"
    and "tryRead posixFs sl s = (slotManifest (posixView (world s)) sl, s)"
    and "onWorld (fs_listFiles posixFs) s = ((success, map fst (pwFiles (world s))), s)"
    and "onWorld (fs_mount posixFs b) s = (success, s\<lparr>world := (world s)\<lparr>pwLockMounted := True\<rparr>\<rparr>)"
  by (simp_all add: slotExists_def tryRead_def onWorld_def posixFs_def posix_healthy_ops [OF assms] slotManifest_def
      split: option.split)

lemma validateUnlocked_log:
  assumes "posixHealthy (world s)" and "electedManifest (posixView (world s)) = Some md"
    and "logOnDisk cfg (posixView (world s)) segs t" and "tornEvent cfg t"
    and "list_all (\<lambda>sg. segGen sg < nextGeneration md) segs"
    and "maxRecordBytes cfg < 4294967272" and "length (pwFiles (world s)) < 2 ^ 64"
  shows "\<exists>w. validateUnlocked posixFs cfg n s
      = Some (empty_validation\<lparr>checkedRecords := word_of_nat (length (logEvents segs))\<rparr>, s\<lparr>world := w\<rparr>)
    \<and> posixSteady w \<and> posixView w = posixView (world s)"
proof -
  let ?s = "s\<lparr>world := (world s)\<lparr>pwLockMounted := True\<rparr>\<rparr>" and ?files = "map fst (pwFiles (world s))"
  have h: "posixHealthy (world ?s)" and v: "posixView (world ?s) = posixView (world s)"
    using assms(1) by (simp_all add: posixHealthy_def)
  have win: "chooseWinningSlot (slotManifest (posixView (world s)) SlotA) (slotManifest (posixView (world s)) SlotB) = Some md"
    using assms(2) by (simp add: electedManifest_def)
  have "validateUnlocked posixFs cfg n s = validateWinning posixFs cfg n md ?files ?s"
    using posix_healthy_reads [OF h] posix_healthy_reads(4) [OF assms(1), of "basePath cfg"] v win
    by (simp add: validateUnlocked_def posix.present)
  moreover obtain w where "validateWinning posixFs cfg n md ?files ?s
      = Some (empty_validation\<lparr>checkedRecords := word_of_nat (length (logEvents segs))\<rparr>, ?s\<lparr>world := w\<rparr>)"
      "posixSteady w" "posixView w = posixView (world ?s)"
    using steady.validateWinning_log [of ?s, OF _, of md cfg segs t ?files n] h assms v
    by (auto simp: list_all_iff dom_posixView posixSteady_def)
  ultimately show ?thesis using v by (intro exI [of _ w]) simp
qed

text \<open>C20. Validation raises no false alarm: on a directory that holds a log, whose last append may be
  torn, and whose manifest numbers its next segment above the listed ones, it returns, reports no
  error, has checked every event of the log, and changes no file.\<close>

theorem validation_accepts_log:
  assumes "posixHealthy (world s)" and "electedManifest (posixView (world s)) = Some md"
    and "logOnDisk cfg (posixView (world s)) segs t" and "tornEvent cfg t"
    and "list_all (\<lambda>sg. segGen sg < nextGeneration md) segs"
    and "maxRecordBytes cfg < 4294967272" and "length (pwFiles (world s)) < 2 ^ 64"
  shows "\<exists>s'. validateUnlocked posixFs cfg n s
      = Some (empty_validation\<lparr>checkedRecords := word_of_nat (length (logEvents segs))\<rparr>, s')
    \<and> posixView (world s') = posixView (world s)"
proof -
  obtain w where "validateUnlocked posixFs cfg n s
      = Some (empty_validation\<lparr>checkedRecords := word_of_nat (length (logEvents segs))\<rparr>, s\<lparr>world := w\<rparr>)"
      "posixView w = posixView (world s)"
    using validateUnlocked_log [OF assms] by blast
  then show ?thesis by simp
qed

theorem validation_accepts_log_witness:
  "\<exists>s'. validateUnlocked posixFs sampleConfig 8 (newStore tornWorld)
      = Some (empty_validation\<lparr>checkedRecords := word_of_nat (length (logEvents tornSegments))\<rparr>, s')
    \<and> posixView (world s') = posixView (world (newStore tornWorld))"
proof (rule validation_accepts_log)
  show "posixHealthy (world (newStore tornWorld))" "electedManifest (posixView (world (newStore tornWorld))) = Some tornManifest"
    "logOnDisk sampleConfig (posixView (world (newStore tornWorld))) tornSegments tornBytes"
    using tornWorld_healthy tornWorld_manifest tornWorld_log [of sampleConfig]
    by (simp_all add: newStore_def sampleConfig_def default_append_log_config_def)
  show "tornEvent sampleConfig tornBytes" by (rule tornBytes_torn)
  show "list_all (\<lambda>sg. segGen sg < nextGeneration tornManifest) tornSegments"
    by (simp add: tornSegments_def tornManifest_def default_manifest_def)
qed (simp_all add: sampleConfig_def default_append_log_config_def newStore_def tornWorld_def)

end
