(* ===== verification/Command_Line_Theorems.thy ===== *)
theory Command_Line_Theorems
  imports Command_Line_Tools Validation_Theorems Mount_Hazards
begin

text \<open>
  What the command-line tools do to a directory with a log: the repair tool keeps its word, and the
  diagnostic tool, which opens the queue with the default limit of a record, can destroy records.
\<close>

section \<open>The file system object of a process\<close>

text \<open>Besides having been mounted, the directory has no two files of one name.\<close>

definition posixTidy :: "posix_world \<Rightarrow> bool" where
  "posixTidy = (\<lambda>w. posixSteady w \<and> distinct (map fst (pwFiles w)))"

interpretation tidy: file_system posixFs posixView posixTidy
  unfolding posixTidy_def
  by (rule steady.healthy_and)
    (auto simp: posix_op_defs putFile_def dropFile_def distinct_update distinct_delete split: posix_splits)

lemma tidy_files: "posixTidy w \<Longrightarrow> length (pwFiles w) = card (dom (posixView w))"
  by (metis distinct_card dom_posixView length_map posixTidy_def)

text \<open>\<open>mount\<close> begins by giving the lock backend its directory.\<close>

lemma mount_fresh_object:
  "mountStore posixFs cfg (newStore (w\<lparr>pwLockMounted := b\<rparr>)) = mountStore posixFs cfg (newStore (w\<lparr>pwLockMounted := True\<rparr>))"
  by (simp add: mountStore_def onWorld_def posixFs_def posixMount_def newStore_def)


lemma acquire_tidy:
  assumes "posixTidy w" and "posixView w name = None"
  shows "\<exists>w'. fs_tryAcquireLockFile posixFs name d w = (success, w') \<and> posixTidy w'
    \<and> posixView w' = (posixView w)(name \<mapsto> d)"
  using assms unfolding posixTidy_def posixSteady_def
  by (simp add: posixTryAcquireLockFile_def posixAcquire.simps [of 0] openExclusive_def
      writeLockContents_def posix_op_defs) (simp add: putFile_def distinct_update)

lemma release_tidy:
  assumes "posixTidy w" and "posixView w name = Some d"
  shows "\<exists>st w'. fs_releaseLockFile posixFs name d w = (st, w') \<and> posixTidy w'
    \<and> posixView w' = (posixView w)(name := None)"
  using assms unfolding posixTidy_def posixSteady_def
  by (simp add: posixReleaseLockFile_def posixRelease_def posix_op_defs) (simp add: dropFile_def distinct_delete)

section \<open>A queue of a new process\<close>

text \<open>The store of a new process on a directory with the log \<open>segs\<close> that it has mounted and locked.\<close>

definition lockedLog ::
  "append_log_config \<Rightarrow> manifest_data \<Rightarrow> segment list \<Rightarrow> posix_world store queue \<Rightarrow> bool" where
  "lockedLog cfg md segs q \<longleftrightarrow>
     posixTidy (world (quStore q)) \<and> storeInv cfg (posixView (world (quStore q))) segs (quStore q)
     \<and> electedManifest (posixView (world (quStore q))) = Some md
     \<and> card (dom (posixView (world (quStore q)))) < 2 ^ 64
     \<and> posixView (world (quStore q)) kLockFileName = Some (quLockContents q) \<and> quLockHeld q"

text \<open>A directory such a process can open: no error is pending, nobody has the lock, and the names of its
  files differ.\<close>

definition openDirectory :: "posix_world \<Rightarrow> bool" where
  "openDirectory w \<longleftrightarrow> posixHealthy w \<and> posixView w kLockFileName = None
     \<and> distinct (map fst (pwFiles w)) \<and> length (pwFiles w) < 2 ^ 64 - 1"

lemma tool_acquires:
  assumes w: "openDirectory w" and log: "logOnDisk cfg (posixView w) segs t"
    and md: "electedManifest (posixView w) = Some md" and mr: "maxRecordBytes cfg < 4294967272"
  shows "\<exists>q. acquireLock (appendLogOps posixFs cfg) c (newQueue owner (newStore (w\<lparr>pwLockMounted := False\<rparr>)))
      = Some (success, q) \<and> lockedLog cfg md segs q"
proof -
  let ?w = "w\<lparr>pwLockMounted := True\<rparr>" and ?S = "appendLogOps posixFs cfg"
  have tidy: "posixTidy ?w" using w by (simp add: openDirectory_def posixTidy_def posixSteady_def posixHealthy_def)
  obtain s where s: "mountStore posixFs cfg (newStore ?w) = Some (success, s)" "storeInv cfg (posixView (world s)) segs s"
      "posixTidy (world s)" "electedManifest (posixView (world s)) = Some md" "dom (posixView (world s)) \<subseteq> dom (posixView w)"
    using tidy.mountStore_log [of "newStore ?w" cfg segs t] tidy log md mr by (auto simp: newStore_def)
  have free: "posixView (world s) kLockFileName = None" using s(5) w by (auto simp: openDirectory_def)
  let ?q = "ensureLockContents (newQueue owner (newStore (w\<lparr>pwLockMounted := False\<rparr>)))"
  obtain w' where a: "fs_tryAcquireLockFile posixFs kLockFileName (quLockContents ?q) (world s) = (success, w')"
      "posixTidy w'" "posixView w' = (posixView (world s))(kLockFileName \<mapsto> quLockContents ?q)"
    using acquire_tidy [OF s(3) free] by blast
  have sm: "sameLog (posixView (world s)) (posixView w')" using a(3) by (intro sameLog_lock) simp
  have "finite (dom (posixView w))" by (simp add: dom_posixView)
  moreover have "dom (posixView w') \<subseteq> insert kLockFileName (dom (posixView w))" using a(3) s(5) by auto
  ultimately have "card (dom (posixView w')) \<le> card (insert kLockFileName (dom (posixView w)))"
    by (intro card_mono) auto
  also have "\<dots> \<le> Suc (card (dom (posixView w)))" by (simp add: card_insert_if dom_posixView)
  also have "\<dots> < 2 ^ 64"
  proof -
    have "card (dom (posixView w)) = length (pwFiles w)"
      using w tidy_files [OF tidy] by simp
    then show ?thesis using w by (simp add: openDirectory_def)
  qed
  finally have n: "card (dom (posixView w')) < 2 ^ 64" .
  have new: "quStore ?q = newStore (w\<lparr>pwLockMounted := False\<rparr>)" "\<not> quLockHeld (newQueue owner s')" for s' :: "posix_world store"
    by (simp_all add: ensureLockContents_def newQueue_def)
  have "mountStore posixFs cfg (quStore ?q) = Some (success, s)" "\<not> mounted (quStore ?q)"
    unfolding new mount_fresh_object [where b = False] by (fact s(1)) (simp add: newStore_def)
  then have acq: "st_tryAcquireLockFile ?S kLockFileName (quLockContents ?q) (quStore ?q) = Some (success, s\<lparr>world := w'\<rparr>)"
    using a(1) by (simp add: appendLogOps_def tryAcquireLockFile_def ensureMounted_def onWorld_def)
  have "acquireLock ?S c (newQueue owner (newStore (w\<lparr>pwLockMounted := False\<rparr>)))
      = Some (success, ?q\<lparr>quStore := s\<lparr>world := w'\<rparr>, quLockHeld := True\<rparr>)"
    using acq by (simp add: acquireLock_def new kLockAttempts_def eval_nat_numeral onStore_def)
  moreover have "lockedLog cfg md segs (?q\<lparr>quStore := s\<lparr>world := w'\<rparr>, quLockHeld := True\<rparr>)"
    using a n s(4) sameLog_elected [OF sm] sameLog_storeInv [OF sm s(2), of w'] by (simp add: lockedLog_def)
  ultimately show ?thesis by blast
qed


text \<open>What is left of the lock when the process ends.\<close>

lemma lockedLog_log:
  assumes "lockedLog cfg md segs q" and "posixView w = (posixView (world (quStore q)))(kLockFileName := x)"
  shows "logOnDisk cfg (posixView w) segs []"
proof -
  have "sameLog (posixView (world (quStore q))) (posixView w)" using assms(2) by (intro sameLog_lock) simp
  then show ?thesis using sameLog_logOnDisk assms(1) by (simp add: lockedLog_def storeInv_def)
qed

lemma posix_releases:
  assumes "posixSteady (world (quStore q))" and "posixView (world (quStore q)) kLockFileName = Some (quLockContents q)"
    and "quLockHeld q"
  shows "\<exists>w'. releaseLock (appendLogOps posixFs cfg) q = q\<lparr>quStore := (quStore q)\<lparr>world := w'\<rparr>, quLockHeld := False\<rparr>
    \<and> posixHealthy w' \<and> posixView w' = (posixView (world (quStore q)))(kLockFileName := None)"
proof -
  obtain st w' where "fs_releaseLockFile posixFs kLockFileName (quLockContents q) (world (quStore q)) = (st, w')"
      "posixHealthy w'" "posixView w' = (posixView (world (quStore q)))(kLockFileName := None)"
    using release_own [OF _ _ assms(2)] assms(1) by (auto simp: posixSteady_def)
  then show ?thesis
    using assms(3)
    by (intro exI [of _ w']) (simp add: releaseLock_def appendLogOps_def releaseLockFile_def onWorld_def posix.present)
qed

lemma withToolQueue_eq:
  assumes "f (appendLogOps posixFs (storeConfig c)) c (newQueue owner (newStore (w\<lparr>pwLockMounted := False\<rparr>)))
      = Some (r, q)" and "\<not> quLockHeld q"
  shows "withToolQueue c owner f w = Some (r, world (quStore q))"
  using assms by (simp add: withToolQueue_def Let_def releaseLock_def)

lemma lockedLog_index:
  assumes "lockedLog cfg md segs q"
  shows "onStore (st_readIndex (appendLogOps posixFs cfg)) q = Some ((success, indexFromRecords (quStore q)), q)"
    and "loadLatestIndex (appendLogOps posixFs cfg) c q = Some (success, q\<lparr>quIndex := indexFromRecords (quStore q)\<rparr>)"
proof -
  have "mounted (quStore q)" using assms by (simp add: lockedLog_def storeInv_def)
  then show i: "onStore (st_readIndex (appendLogOps posixFs cfg)) q = Some ((success, indexFromRecords (quStore q)), q)"
    by (simp add: onStore_def appendLogOps_def readIndex_def ensureMounted_def)
  then show "loadLatestIndex (appendLogOps posixFs cfg) c q = Some (success, q\<lparr>quIndex := indexFromRecords (quStore q)\<rparr>)"
    by (simp add: loadLatestIndex_def)
qed

text \<open>\<open>validate\<close> in a process of its own.\<close>

lemma tool_validates:
  assumes w: "openDirectory w" and log: "logOnDisk (storeConfig c) (posixView w) segs t"
    and md: "electedManifest (posixView w) = Some md"
    and nx: "list_all (\<lambda>sg. segGen sg < nextGeneration md) segs"
    and mr: "maxRecordBytes (storeConfig c) < 4294967272" and n: "0 < n"
  shows "\<exists>w'. withToolQueue c owner (\<lambda>S c. queueValidate S c n) w
      = Some (empty_validation\<lparr>checkedRecords := word_of_nat (length (logEvents segs))\<rparr>, w')
    \<and> posixHealthy w' \<and> logOnDisk (storeConfig c) (posixView w') segs []"
proof -
  let ?cfg = "storeConfig c" and ?r = "empty_validation\<lparr>checkedRecords := word_of_nat (length (logEvents segs))\<rparr>"
  let ?S = "appendLogOps posixFs ?cfg"
  obtain q where q: "acquireLock ?S c (newQueue owner (newStore (w\<lparr>pwLockMounted := False\<rparr>))) = Some (success, q)"
      "lockedLog ?cfg md segs q"
    using tool_acquires [OF w log md mr] by blast
  let ?ix = "indexFromRecords (quStore q)"
  have h: "posixHealthy (world (quStore q))" "electedManifest (posixView (world (quStore q))) = Some md"
      "logOnDisk ?cfg (posixView (world (quStore q))) segs []" "length (pwFiles (world (quStore q))) < 2 ^ 64"
    using q(2) tidy_files by (auto simp: lockedLog_def storeInv_def posixTidy_def posixSteady_def)
  obtain w1 where w1: "validateUnlocked posixFs ?cfg n (quStore q) = Some (?r, (quStore q)\<lparr>world := w1\<rparr>)"
      "posixSteady w1" "posixView w1 = posixView (world (quStore q))"
    using validateUnlocked_log [OF h(1-3) tornEvent_Nil nx mr h(4)] by blast
  let ?q1 = "q\<lparr>quIndex := ?ix, quStore := (quStore q)\<lparr>world := w1\<rparr>\<rparr>"
  have val: "onStore (st_validateUnlocked ?S n) (q\<lparr>quIndex := ?ix\<rparr>) = Some (?r, ?q1)"
    using w1(1) by (simp add: onStore_def appendLogOps_def)
  have again: "onStore (st_readIndex ?S) ?q1 = Some ((success, ?ix), ?q1)"
    using q(2) by (simp add: onStore_def appendLogOps_def readIndex_def ensureMounted_def indexFromRecords_def
        lockedLog_def storeInv_def)
  have "quLockHeld q" "posixView (world (quStore q)) kLockFileName = Some (quLockContents q)"
    using q(2) by (simp_all add: lockedLog_def)
  then obtain w' where w': "releaseLock ?S ?q1 = ?q1\<lparr>quStore := (quStore q)\<lparr>world := w'\<rparr>, quLockHeld := False\<rparr>"
      "posixHealthy w'" "posixView w' = (posixView (world (quStore q)))(kLockFileName := None)"
    using posix_releases [of ?q1 ?cfg] w1(2,3) by auto
  have "queueValidate ?S c n (newQueue owner (newStore (w\<lparr>pwLockMounted := False\<rparr>))) = Some (?r, releaseLock ?S ?q1)"
    using q(1) lockedLog_index(2) [OF q(2)] val again n
    by (simp add: queueValidate_def withLock_def addRepairHints_def empty_validation_def sameIndex_def)
  then have "withToolQueue c owner (\<lambda>S c. queueValidate S c n) w = Some (?r, w')"
    using withToolQueue_eq [of "\<lambda>S c. queueValidate S c n" c owner w ?r "releaseLock ?S ?q1"] w'(1) by simp
  then show ?thesis using lockedLog_log [OF q(2) w'(3)] w'(2) by blast
qed


text \<open>\<open>drop-front-if-corrupt\<close> on a log, whose records are all readable.\<close>

definition keepFrontStatus :: "abs_queue \<Rightarrow> status" where
  "keepFrontStatus xs = (if xs = [] then queueEmpty else failure InvalidArgument ''front record is not corrupt'')"

lemma tool_keeps_front:
  assumes w: "openDirectory w" and log: "logOnDisk (storeConfig c) (posixView w) segs t"
    and ord: "orderedLog (locSegs segs) []" "contiguous (logQueue segs)"
    and md: "electedManifest (posixView w) = Some md" and mr: "maxRecordBytes (storeConfig c) < 4294967272"
  shows "\<exists>w'. withToolQueue c owner dropFrontIfCorrupt w = Some (keepFrontStatus (logQueue segs), w')
    \<and> logOnDisk (storeConfig c) (posixView w') segs []"
proof -
  let ?cfg = "storeConfig c" and ?xs = "logQueue segs"
  let ?S = "appendLogOps posixFs ?cfg"
  obtain q where q: "acquireLock ?S c (newQueue owner (newStore (w\<lparr>pwLockMounted := False\<rparr>))) = Some (success, q)"
      "lockedLog ?cfg md segs q"
    using tool_acquires [OF w log md mr] by blast
  have s: "storeHolds ?cfg (posixView (world (quStore q))) ?xs (quStore q)" "posixSteady (world (quStore q))"
      "posixHealthy (world (quStore q))" "mounted (quStore q)" "quLockHeld q"
      "posixView (world (quStore q)) kLockFileName = Some (quLockContents q)"
    using q(2) ord(1) by (auto simp: lockedLog_def storeHolds_def logQueue_def posixTidy_def posixSteady_def storeInv_def)
  have "logHolds posixView posixReadable ?cfg ?xs (quStore q)" using s ord(2) by (simp add: logHolds_def)
  then obtain ix where ix: "loadLatestIndex ?S c q = Some (success, q\<lparr>quIndex := ix\<rparr>)" "ixCount ix = 0 \<longleftrightarrow> ?xs = []"
      "?xs \<noteq> [] \<Longrightarrow> ixHead ix = fst (hd ?xs)"
    by (rule posix_queue.load_holds) blast
  let ?q = "q\<lparr>quIndex := ix\<rparr>"
  obtain w' where r: "releaseLock ?S ?q = ?q\<lparr>quStore := (quStore q)\<lparr>world := w'\<rparr>, quLockHeld := False\<rparr>"
      "posixView w' = (posixView (world (quStore q)))(kLockFileName := None)"
    using posix_releases [of ?q ?cfg] s by auto
  have "dropFrontIfCorrupt ?S c (newQueue owner (newStore (w\<lparr>pwLockMounted := False\<rparr>)))
      = Some (keepFrontStatus ?xs, releaseLock ?S ?q)"
  proof (cases "?xs = []")
    case True
    then show ?thesis
      using q(1) ix by (simp add: dropFrontIfCorrupt_def withFront_def withLock_def keepFrontStatus_def)
  next
    case False
    then have i: "0 < length ?xs" "hd ?xs = ?xs ! 0" by (simp_all add: hd_conv_nth)
    obtain u where u: "readRecord posixFs ?cfg (fst (hd ?xs)) (quStore q) = Some ((success, snd (hd ?xs)), (quStore q)\<lparr>world := u\<rparr>)"
      using posix.readRecord_holds [OF s(1) ord(2) i(1)] s(3) by (auto simp: i(2))
    then have "world (quStore q) = u" using readRecord_world [OF u s(4,3)] by simp
    then have "onStore (st_readRecord ?S (ixHead ix)) ?q = Some ((success, snd (hd ?xs)), ?q)"
      using u ix(3) False by (auto simp: onStore_def appendLogOps_def)
    then show ?thesis
      using q(1) ix False by (simp add: dropFrontIfCorrupt_def withFront_def withLock_def keepFrontStatus_def)
  qed
  then have "withToolQueue c owner dropFrontIfCorrupt w = Some (keepFrontStatus ?xs, w')"
    using withToolQueue_eq [of dropFrontIfCorrupt c owner w "keepFrontStatus ?xs" "releaseLock ?S ?q"] r(1) by simp
  then show ?thesis using lockedLog_log [OF q(2) r(2)] by blast
qed

text \<open>\<open>format\<close>.\<close>

lemma tool_formats:
  assumes w: "openDirectory w" and log: "logOnDisk (storeConfig c) (posixView w) segs t"
    and md: "electedManifest (posixView w) = Some md" and mr: "maxRecordBytes (storeConfig c) < 4294967272"
  shows "\<exists>w'. withToolQueue c owner queueFormat w = Some (success, w') \<and> diskHolds (storeConfig c) (posixView w') []"
proof -
  let ?cfg = "storeConfig c"
  let ?S = "appendLogOps posixFs ?cfg"
  obtain q where q: "acquireLock ?S c (newQueue owner (newStore (w\<lparr>pwLockMounted := False\<rparr>))) = Some (success, q)"
      "lockedLog ?cfg md segs q"
    using tool_acquires [OF w log md mr] by blast
  have l: "posixSteady (world (quStore q))" "quLockHeld q"
      "posixView (world (quStore q)) kLockFileName = Some (quLockContents q)"
    using q(2) by (simp_all add: lockedLog_def posixTidy_def)
  obtain s where s: "formatStore posixFs ?cfg (quStore q) = (success, s)" "posixSteady (world s)"
      "storeHolds ?cfg (posixView (world s)) [] s"
      "posixView (world s) name = (if foreignName name then posixView (world (quStore q)) name else None)" for name
    using steady.formatStore_holds [OF l(1), of ?cfg] by blast
  let ?q = "q\<lparr>quStore := s, quIndex := empty_index\<rparr>"
  obtain w' where r: "releaseLock ?S ?q = ?q\<lparr>quStore := s\<lparr>world := w'\<rparr>, quLockHeld := False\<rparr>"
      "posixView w' = (posixView (world s))(kLockFileName := None)"
    using posix_releases [of ?q ?cfg] s l lockFile_foreign by auto
  have "sameLog (posixView (world s)) (posixView w')" using r(2) by (intro sameLog_lock) simp
  then have "diskHolds ?cfg (posixView w') []" using sameLog_diskHolds storeHolds_disk s(3) by blast
  moreover have "withToolQueue c owner queueFormat w = Some (success, w')"
    using withToolQueue_eq [of queueFormat c owner w success "releaseLock ?S ?q"] q(1) s(1) r(1)
    by (simp add: queueFormat_def withLock_def appendLogOps_def)
  ultimately show ?thesis by blast
qed


text \<open>What the commands make of a clean validation, a front record that is not corrupt, and a success.\<close>

lemma repairMain_runs:
  "withToolQueue c owner (\<lambda>S c. queueValidate S c toolMaxErrors) w = Some (r, w') \<Longrightarrow> vrOk r \<Longrightarrow> vrErrors r = [] \<Longrightarrow>
     \<exists>out. repairMain (Inr (c, CommandValidate)) owner w = Some ((0, ''Validation OK'' @ lf @ out, []), w')"
  "withToolQueue c owner dropFrontIfCorrupt w = Some (keepFrontStatus xs, w') \<Longrightarrow>
     repairMain (Inr (c, CommandDropFrontIfCorrupt)) owner w
     = Some ((0, (if xs = [] then ''Queue is empty.'' else ''Front record is readable.'')
         @ lf @ ''Nothing to drop.'' @ lf, []), w')"
  "withToolQueue c owner queueFormat w = Some (success, w') \<Longrightarrow>
     repairMain (Inr (c, CommandFormat)) owner w = Some ((0, ''Queue formatted.'' @ lf, []), w')"
  by (simp_all add: repairMain_def toolRun_def repairValidationText_def printDropFrontStatus_def keepFrontStatus_def
      queueEmpty_def printFormatStatus_def) (simp add: failure_code_def)

section \<open>Properties of the tools\<close>


text \<open>Sealed segment, active segment, torn bytes: the sample directory of the validation.\<close>

lemma lockFile_plain [simp]: "kLockFileName \<noteq> segmentName g" "kLockFileName \<noteq> slotName sl"
  using lockFile_foreign unfolding foreignName_def
  by (metis isSegmentName_segmentName option.distinct(1), metis slot.exhaust)

lemma tornWorld_open: "openDirectory tornWorld"
  using tornWorld_healthy
  by (simp add: openDirectory_def tornWorld_view) (simp add: tornWorld_def)



section \<open>The diagnostic tool\<close>

text \<open>The only setting of a store that the meaning of a log depends on is the limit of a record.\<close>

lemma logOnDisk_limit_cong:
  assumes "maxRecordBytes cfg = maxRecordBytes cfg'"
  shows "logOnDisk cfg v segs t = logOnDisk cfg' v segs t"
proof -
  have "eventFits cfg ev = eventFits cfg' ev" for ev using assms by (cases ev) simp_all
  then show ?thesis
    by (simp add: logOnDisk_def segFits_def tornTail_def tornEvent_def oversizedTail_def)
qed

text \<open>The first half of the tool reads only.\<close>

lemma diagnose_keeps_open:
  assumes "openDirectory w"
  shows "\<exists>d w'. diagnoseAppendLogStore posixFs cfg (w\<lparr>pwLockMounted := False\<rparr>) = (d, w')
    \<and> posixView w' = posixView w \<and> openDirectory w'"
proof -
  let ?w = "w\<lparr>pwLockMounted := True\<rparr>"
  have t: "posixTidy ?w" using assms by (simp add: openDirectory_def posixTidy_def posixSteady_def posixHealthy_def)
  have same: "diagnoseAppendLogStore posixFs cfg (w\<lparr>pwLockMounted := False\<rparr>) = diagnoseAppendLogStore posixFs cfg ?w"
    by (simp add: diagnoseAppendLogStore_def posixFs_def posixMount_def)
  obtain d w' where d: "diagnoseAppendLogStore posixFs cfg ?w = (d, w')" "posixView w' = posixView w" "posixTidy w'"
    using tidy.diagnose_healthy [OF t, of cfg] by auto
  have "length (pwFiles w') = length (pwFiles w)" using tidy_files [OF t] tidy_files [OF d(3)] d(2) by simp
  then show ?thesis
    using d same assms by (simp add: openDirectory_def posixTidy_def posixSteady_def)
qed

lemma diagMain_accepts:
  assumes w: "openDirectory w" and log: "logOnDisk (storeConfig (diagConfig base)) (posixView w) segs t"
    and md: "electedManifest (posixView w) = Some md" and nx: "list_all (\<lambda>sg. segGen sg < nextGeneration md) segs"
  shows "\<exists>out w'. diagMain (Inr (base, False)) owner w = Some ((0, out, []), w')
    \<and> logOnDisk (storeConfig (diagConfig base)) (posixView w') segs []"
proof -
  obtain d w1 where d: "diagnoseAppendLogStore posixFs (default_append_log_config\<lparr>basePath := base\<rparr>)
      (w\<lparr>pwLockMounted := False\<rparr>) = (d, w1)" "posixView w1 = posixView w" "openDirectory w1"
    using diagnose_keeps_open [OF w] by blast
  have "maxRecordBytes (storeConfig (diagConfig base)) < 4294967272" "0 < toolMaxErrors"
    by (simp_all add: storeConfig_def diagConfig_def default_queue_config_def toolMaxErrors_def)
  from tool_validates [OF d(3), of "diagConfig base" segs t md, unfolded d(2), OF log md nx this]
  obtain w' where "withToolQueue (diagConfig base) owner (\<lambda>S c. queueValidate S c toolMaxErrors) w1
      = Some (empty_validation\<lparr>checkedRecords := word_of_nat (length (logEvents segs))\<rparr>, w')"
      "logOnDisk (storeConfig (diagConfig base)) (posixView w') segs []" by blast
  then show ?thesis
    using d(1) by (simp add: diagMain_def runValidation_def diagValidationText_def empty_validation_def)
qed

text \<open>C36. The diagnostic tool, run without options on a queue whose active segment has a record above 492 bytes,
  destroys that record and all that follow it in the segment, and exits with 0, having reported no issue: it opens
  the queue with the default limit of a record, whatever limit the queue was written with.\<close>

theorem diag_tool_cuts_log:
  assumes "openDirectory w" and "configOk cfg" and "492 \<le> maxRecordBytes cfg"
    and "logOnDisk cfg (posixView w) (segs @ [(g, ss, pre @ ev # post)]) []"
    and "orderedLog (locSegs (segs @ [(g, ss, pre @ ev # post)])) []"
    and "\<forall>e \<in> set (logEvents segs @ pre). eventFits (cfg\<lparr>maxRecordBytes := 492\<rparr>) e"
    and "\<not> eventFits (cfg\<lparr>maxRecordBytes := 492\<rparr>) ev"
    and "electedManifest (posixView w) = Some md"
    and "list_all (\<lambda>sg. segGen sg < nextGeneration md) (segs @ [(g, ss, pre)])"
  shows "\<exists>out w'. diagMain (Inr (base, False)) owner w = Some ((0, out, []), w')
    \<and> posixView w' (segmentName g) = Some (segBytes (g, ss, pre))
    \<and> recovers cfg w' (logQueue (segs @ [(g, ss, pre)]))"
proof -
  let ?cfg = "storeConfig (diagConfig base)" and ?segs = "segs @ [(g, ss, pre)]"
  have lim: "maxRecordBytes ?cfg = maxRecordBytes (cfg\<lparr>maxRecordBytes := 492\<rparr>)"
    by (simp add: storeConfig_def diagConfig_def default_queue_config_def)
  have "logOnDisk ?cfg (posixView w) ?segs (encodeEvents (ev # post))"
    using logOnDisk_cut [OF assms(4,3,6,7)] unfolding logOnDisk_limit_cong [OF lim] .
  from diagMain_accepts [OF assms(1) this assms(8,9), of owner]
  obtain out w' where r: "diagMain (Inr (base, False)) owner w = Some ((0, out, []), w')"
      "logOnDisk ?cfg (posixView w') ?segs []" by blast
  have log: "logOnDisk cfg (posixView w') ?segs []"
    by (rule logOnDisk_limit [OF _ assms(3)]) (use r(2) logOnDisk_limit_cong [OF lim] in blast)
  then have "posixView w' (segmentName g) = Some (segBytes (g, ss, pre))"
    using segsOnDisk_mem [of "posixView w'" _ "(g, ss, pre)"] by (auto simp: logOnDisk_def segGen_def)
  moreover have "recovers cfg w' (logQueue ?segs)"
    using recoversI [OF diskHolds_intro [OF log orderedLog_cut [OF assms(5)] refl] assms(2)] .
  ultimately show ?thesis using r(1) by blast
qed


text \<open>A queue written with the limit of 4096 bytes: a record of two bytes and one of 500.\<close>

definition largeEvents :: "log_event list" where
  "largeEvents = [LogEnqueue 0 [1, 2], LogEnqueue 1 (replicate 500 7)]"

definition largeManifest :: manifest_data where
  "largeManifest = default_manifest\<lparr>tailGeneration := 1, nextGeneration := 2, epoch := 1\<rparr>"

definition largeWorld :: posix_world where
  "largeWorld = emptyWorld\<lparr>pwFiles :=
     [(slotName SlotA, serialiseManifest largeManifest), (segmentName 1, segBytes (1, 0, largeEvents))]\<rparr>"

lemma largeWorld_view:
  "posixView largeWorld = Map.empty(segmentName 1 \<mapsto> segBytes (1, 0, largeEvents), slotName SlotA \<mapsto> serialiseManifest largeManifest)"
  by (simp add: largeWorld_def posixView_def del: map_of_files)

lemma largeWorld_open: "openDirectory largeWorld"
  by (simp add: openDirectory_def largeWorld_view) (simp add: largeWorld_def emptyWorld_def posixHealthy_def)

lemma largeWorld_manifest: "electedManifest (posixView largeWorld) = Some largeManifest"
proof -
  have "parseManifest (serialiseManifest largeManifest) = Some largeManifest"
    by (rule parseManifest_serialise) (simp add: largeManifest_def default_manifest_def wf_manifest_def)
  then show ?thesis by (simp add: largeWorld_view electedManifest_def slotManifest_def)
qed

lemma largeWorld_log: "logOnDisk sampleConfig (posixView largeWorld) [(1, 0, largeEvents)] []"
proof -
  have "segFits sampleConfig (1, 0, largeEvents)"
    by (simp add: largeEvents_def segFits_def length_segBytes serializeEnqueueEvent_bytes sampleConfig_def
        default_append_log_config_def)
  moreover have "manifestMatches (Some largeManifest) [(1, 0, largeEvents)]"
    by (simp add: manifestMatches_def largeManifest_def default_manifest_def loadable_def
        totalGenerations_def manifestGens_def kManifestMaxTotalGenerations_def kManifestMaxRanges_def)
  moreover have "canonicalNames (posixView largeWorld)"
    by (auto simp: canonicalNames_def largeWorld_view split: if_splits)
  ultimately show ?thesis
    by (simp add: logOnDisk_def largeWorld_manifest)
      (simp add: largeWorld_view length_segBytes serializeEnqueueEvent_bytes segFits_def)
qed

theorem diag_tool_cuts_log_witness:
  "\<exists>out w'. diagMain (Inr ([], False)) [] largeWorld = Some ((0, out, []), w')
    \<and> posixView largeWorld (segmentName 1) = Some (segBytes (1, 0, largeEvents))
    \<and> posixView w' (segmentName 1) = Some (segBytes (1, 0, [LogEnqueue 0 [1, 2]]))
    \<and> recovers sampleConfig w' [(0, [1, 2])]"
proof -
  let ?ev = "LogEnqueue 1 (replicate 500 7)"
  have log: "logOnDisk sampleConfig (posixView largeWorld) ([] @ [(1, 0, [LogEnqueue 0 [1, 2]] @ ?ev # [])]) []"
    using largeWorld_log by (simp add: largeEvents_def)
  have ord: "orderedLog (locSegs ([] @ [(1, 0, [LogEnqueue 0 [1, 2]] @ ?ev # [])])) []"
    by (simp add: segEvents_def)
  have lim: "492 \<le> maxRecordBytes sampleConfig"
    by (simp add: sampleConfig_def default_append_log_config_def)
  have ev: "\<forall>e \<in> set (logEvents [] @ [LogEnqueue 0 [1, 2]]). eventFits (sampleConfig\<lparr>maxRecordBytes := 492\<rparr>) e"
      "\<not> eventFits (sampleConfig\<lparr>maxRecordBytes := 492\<rparr>) ?ev"
    by (simp_all add: logEvents_def)
  have nx: "list_all (\<lambda>sg. segGen sg < nextGeneration largeManifest) ([] @ [(1, 0, [LogEnqueue 0 [1, 2]])])"
    by (simp add: largeManifest_def default_manifest_def)
  have "logQueue ([] @ [(1, 0, [LogEnqueue 0 [1, 2]])]) = [(0, [1, 2])]"
    by (simp add: logQueue_def logEvents_def segEvents_def absEvents_def)
  with diag_tool_cuts_log [OF largeWorld_open sampleConfig_ok(1) lim log ord ev largeWorld_manifest nx, of "[]" "[]"]
  show ?thesis by (simp add: largeWorld_view)
qed

end
