(* ===== verification/Spec2Isabelle.thy ===== *)
theory Spec2Isabelle
  imports Transport_Theorems Mount_Hazards Doctor_Theorems Tool_File_Systems LittleFs_Theorems
    Command_Line_Theorems
begin

text \<open>
  A verification development for \<open>pqueue\<close>, a persistent FIFO queue and store-and-forward outbox
  for small devices (C++, \<open>src/pqueue\<close>), in its build for POSIX systems, with the parts that only the device has: the
  LittleFS file system, the ESP32 transport and the doctor session.

  \<^bold>\<open>The program.\<close>  Records are kept in an append-only log: segment files hold ENQUEUE, POP and
  REWRITE events, and one of two manifest slots lists the segments, in order.  \<open>AppendLogStore\<close>
  mounts a directory by replaying the log into an index, appends events, rotates to a new segment
  when the active one is full, and compacts sealed segments.  \<open>Queue\<close> is a FIFO over a \<open>Store\<close>,
  under a lock file.  \<open>Outbox\<close> sends payloads at once or queues them in an envelope and drains the
  queue with retries; \<open>HttpOutbox\<close> is an outbox of HTTP requests.

  \<^bold>\<open>Theories and the code they model.\<close>
  \<^item> \<open>Bytes_Prelude\<close>: machine integers, byte strings, little-endian words, the \<open>returns\<close> calculus.
  \<^item> \<open>Status_Types\<close>: \<open>status.h\<close>, \<open>events.h\<close>, \<open>types.h\<close>, \<open>store_types.h\<close>.
  \<^item> \<open>Log_Format\<close>, \<open>Format_Correct\<close>: \<open>append_log_common.*\<close> and its correctness.
  \<^item> \<open>Outbox_Envelope\<close>, \<open>Request_Envelope\<close>, \<open>Lock_Owner\<close>: \<open>envelope.cpp\<close>,
    \<open>http/request_envelope.cpp\<close>, \<open>internal/lock_owner.cpp\<close>.
  \<^item> \<open>File_System\<close>: \<open>file_system.h\<close> as a record of operations, and its contract as the locales
    \<open>file_system\<close>, \<open>readable_file_system\<close>, \<open>locking_file_system\<close>; \<open>Posix_File_System\<close>:
    \<open>storage_posix.cpp\<close>, which interprets them.
  \<^item> \<open>Store_State\<close>, \<open>Manifest_Slots\<close>, \<open>Segment_Scan\<close>, \<open>Segment_Append\<close>, \<open>Compaction\<close>,
    \<open>Store_Ops\<close>, \<open>Store_Validation\<close>: \<open>append_log_store/*.cpp\<close>, in the order of the code.
  \<^item> \<open>Log_Replay\<close>, \<open>Log_Index\<close>, \<open>Mount_Correct\<close>, \<open>Append_Correct\<close>, \<open>Store_Correct\<close>,
    \<open>Store_Progress\<close>, \<open>Log_Theorems\<close>: what the log means and what the store promises.
  \<^item> \<open>Compaction_Steps\<close>, \<open>Compaction_Correct\<close>, \<open>Compaction_Theorems\<close>: the phases of a compaction,
    and that compacting the oldest segments keeps the queue.  \<open>Mount_Hazards\<close>: two ways in which
    mounting loses records or locks the owner out.
  \<^item> \<open>Validation_Correct\<close>, \<open>Validation_Theorems\<close>: that \<open>validateUnlocked\<close> judges a segment as \<open>mount\<close> does,
    by a simulation of the two scans event by event, and reports nothing on a directory that holds a log.
  \<^item> \<open>Diagnostics\<close>: \<open>diagnostics.cpp\<close>, the report on a directory; \<open>Dump_Protocol\<close>:
    \<open>doctor/dump.h\<close>; \<open>Doctor_Session\<close>, \<open>Doctor_Theorems\<close>: \<open>doctor/session.h\<close>, which is compiled
    for the device only, over any file system; \<open>Tool_File_Systems\<close>: \<open>tools/counting_file_system.h\<close>, another
    interpretation of the file system locales, and \<open>tools/memory_file_system.h\<close>.
  \<^item> \<open>Command_Line_Tools\<close>, \<open>Command_Line_Theorems\<close>: the repair, diagnostic and dump tools for the host
    (\<open>tools/pqueue_repair_tool.cpp\<close>, \<open>tools/pqueue_appendlog_diag.cpp\<close>, \<open>tools/pqueue_doctor_dump_posix.cpp\<close>),
    from the parsed command line to the exit code; what the first two do to a directory with a log.
  \<^item> \<open>Queue_API\<close>, \<open>Queue_Correct\<close>, \<open>Queue_Theorems\<close>, \<open>Queue_Progress\<close>: \<open>queue.cpp\<close>; the locale
    \<open>fifo_store\<close> is what the queue needs of a store, interpreted on the append log.
  \<^item> \<open>Outbox_Core\<close>, \<open>Outbox_Timing\<close>, \<open>Outbox_Correct\<close>, \<open>Outbox_Theorems\<close>: \<open>outbox.cpp\<close>.
  \<^item> \<open>Http_Outbox\<close>, \<open>Http_Theorems\<close>: \<open>http/outbox.cpp\<close>; \<open>Http_Transports\<close>, \<open>Transport_Theorems\<close>:
    \<open>http/posix_curl_transport.cpp\<close> and \<open>http/esp32_arduino_transport.cpp\<close>, over libcurl and the
    clients of the ESP32 core as parameters.
  \<^item> \<open>LittleFs_File_System\<close>: \<open>storage_littlefs.cpp\<close> over the LittleFS library as a parameter;
    \<open>LittleFs_Correct\<close>: the contract of that library as the locale \<open>arduino_library\<close>, and what each
    operation does under it; \<open>LittleFs_Theorems\<close>: the device as a directory, the library in memory
    that interprets the locale, and the loss of a torn segment.

  \<^bold>\<open>How the code is translated.\<close>  A class is a record of its fields, a method a function that takes
  the record and returns the updated one; integers are words of the width the code gives them, and
  their arithmetic wraps.  A method whose loops may not end returns an option, and \<open>None\<close> means
  that it does not return.  The file system is a parameter \<open>F\<close> with a world of type \<open>'w\<close>; in
  the POSIX world every system call consumes one outcome, so each may fail, a write may store any
  part of its data, and power loss is an outcome list that fails from some point on.  Events sent
  to a sink are collected in a list of the component that sends them.  Out-parameters that the
  code leaves alone on an error read as 0 or empty.

  \<^bold>\<open>What the lemmas show.\<close>  \<open>diskHolds cfg v q\<close> says that the directory \<open>v\<close> holds a log of the
  queue \<open>q\<close>; \<open>storeHolds cfg v q s\<close> that the mounted store \<open>s\<close> agrees with it, which includes that
  its index is the one a replay would build.  Every operation that reports success leads from one
  such state to the next; every operation that reports an error, and every crash, leaves a
  directory that holds the old or the new queue.  On top of this the queue is a bounded FIFO, the
  outbox delivers in order and removes a record only after the callback disposed of it, and the
  HTTP outbox posts what was submitted.  Progress theorems say that on a healthy file system the
  operations succeed.

  \<^bold>\<open>Bounds.\<close>  The only fuel is \<open>kLockAttempts\<close>, which is the loop bound of the code.  The counters
  of the format (generation, epoch, sequence number, number of ranges and generations) are words;
  the theorems name the room they need in them (\<open>countersOk\<close>, \<open>withinLimits\<close>, and
  \<open>compactionRoom\<close>, where 1101 generations are enough because a compaction writes at most as many
  segments as it removes and a manifest names at most 1025).

  The device is different in one point: its \<open>resizeFile\<close> does not keep the beginning of a file it
  shortens, so it does not satisfy the locale \<open>file_system\<close>, and the theorems about mounting a log with
  a torn tail are about the POSIX file system only.  \<open>LittleFs_Theorems\<close> shows what happens instead.

  \<^bold>\<open>Not modelled.\<close>  The ARDUINO branches inside the store, the queue and the counting file system
  (timing logs), the LittleFS locks of boards other than the ESP32 (which do nothing), the
  benchmark and the compaction simulation (timing and floating point), the parsing of command lines (CLI11), and tests.  User callbacks, clocks, random numbers, the process table and the
  libraries of the device are parameters.
\<close>

end
